(* ===== verification/Prelude.thy ===== *)
theory Prelude
  imports Main "HOL-Library.Word"
begin

text \<open>
  What every component shares: the widths of Go's integers, byte strings and their slices, the
  outcome of a Go call (a value, an error value or a run-time panic) together with the state it
  leaves behind, the fixed-width and variable-width integer codecs of \<^verbatim>\<open>encoding/binary\<close>, and the
  readers of \<^verbatim>\<open>io\<close> on a byte buffer.
\<close>

unbundle bit_operations_syntax

section \<open>Go's integers and byte strings\<close>

type_synonym u8 = "8 word"
type_synonym u16 = "16 word"
type_synonym u32 = "32 word"
type_synonym u64 = "64 word"
type_synonym bytes = "u8 list"

text \<open>
  Go's \<^verbatim>\<open>int\<close> is a 64-bit signed integer. It is modelled by \<^typ>\<open>int\<close>; \<open>i64\<close> is the wrap-around
  of a result that may leave the range, \<open>int_of_u64\<close> and \<open>u64_of_int\<close> are the two conversions
  \<^verbatim>\<open>int(x)\<close> and \<^verbatim>\<open>uint64(i)\<close>.
\<close>

definition i64 :: "int \<Rightarrow> int" where
  "i64 i = signed_take_bit 63 i"

definition int_of_u64 :: "u64 \<Rightarrow> int" where
  "int_of_u64 w = sint w"

definition u64_of_int :: "int \<Rightarrow> u64" where
  "u64_of_int i = word_of_int i"

text \<open>The slice expression \<open>xs[i:j]\<close>, for \<open>i \<le> j \<le> len xs\<close>, and \<^verbatim>\<open>copy(xs[i:], ys)\<close>.\<close>

definition sub_bytes :: "nat \<Rightarrow> nat \<Rightarrow> 'a list \<Rightarrow> 'a list" where
  "sub_bytes i j xs = take (j - i) (drop i xs)"

definition blit :: "'a list \<Rightarrow> nat \<Rightarrow> 'a list \<Rightarrow> 'a list" where
  "blit xs i ys = take i xs @ take (length xs - i) ys @ drop (i + length ys) xs"

lemma length_sub_bytes: "j \<le> length xs \<Longrightarrow> length (sub_bytes i j xs) = j - i"
  by (simp add: sub_bytes_def)

lemma sub_bytes_append:
  assumes "i \<le> j" and "j \<le> k"
  shows "sub_bytes i j xs @ sub_bytes j k xs = sub_bytes i k xs"
proof -
  have "take (k - i) (drop i xs) = take (j - i) (drop i xs) @ take (k - j) (drop (j - i) (drop i xs))"
    using assms take_add [of "j - i" "k - j" "drop i xs"] by simp
  with assms show ?thesis by (simp add: sub_bytes_def)
qed

lemma sub_bytes_end: "length xs \<le> j \<Longrightarrow> sub_bytes i j xs = drop i xs"
  by (simp add: sub_bytes_def)

lemma length_blit [simp]: "i \<le> length xs \<Longrightarrow> i + length ys \<le> length xs \<Longrightarrow> length (blit xs i ys) = length xs"
  by (simp add: blit_def)

section \<open>Errors and outcomes\<close>

text \<open>
  The error values of the modelled packages, with the arguments their messages print. \<open>ErrEOF\<close> stands
  for both \<^verbatim>\<open>io.EOF\<close> and \<^verbatim>\<open>io.ErrUnexpectedEOF\<close>, which no caller tells apart; \<open>ErrOs\<close> and \<open>ErrBase58\<close>
  carry the text of an error of the operating system and of the base58 package. The first group is
  \<^verbatim>\<open>vm/elf\<close>, the second \<^verbatim>\<open>vm\<close>.
\<close>

datatype elf_error =
    ElfTooSmall nat
  | ElfTooLarge nat
  | ElfMagic
  | ElfArch
  | ElfEntry u64
  | ElfHeaderOffset int
  | ElfSizeTooSmall nat int
  | ElfHeaderEntrySize int
  | ElfSegmentType u32
  | ElfAlign u64
  | ElfOffset u64
  | ElfVaddr u64
  | ElfMemsz u64
  | ElfMemszFilesz u64 u64
  | ElfVaddrAlign u64
  | ElfOffsetAlign u64
  | ElfFirstSegment
  | ElfTrimFirst

datatype vm_error =
    ErrIllegalInstruction
  | ErrInsufficientGas
  | ErrDivision
  | ErrUnalignedMemoryAccess
  | ErrIllegalPc
  | ErrSegFault
  | ErrTooManyPrograms
  | ErrCodeTooLong
  | ErrLoadOffsetAlign u32
  | ErrOnlyBlock1
  | ErrPageId u32
  | ErrPageAllocated u32
  | ErrLoadOffsetLarge u32
  | ErrElfPages u32
  | ErrElfSpan u64
  | ErrElfBlock u64
  | ErrElfPageId u32
  | ErrElfPageAllocated u32
  | ErrElfRx u8
  | ErrElfRw u64 u8

datatype error =
    ErrEOF
  | ErrVarintOverflow
  | ErrFreezedLoad
  | ErrNonemptyLoad
  | ErrLoadSlice error
  | ErrInvalidDataLength
  | ErrHeaderHashMismatch
  | ErrBodyHashMismatch
  | ErrTooMuchTransactions
  | ErrElf elf_error
  | ErrVm vm_error
  | ErrInvalidElf error
  | ErrInvalidJumpDest
  | ErrInvalidSyscall
  | ErrIllegalSyscallParameters
  | ErrInsufficientBalance
  | ErrContractNotExist
  | ErrIllegalEntry
  | ErrContractExists
  | ErrReverted bytes
  | ErrWrongTxType
  | ErrSignatureMismatch
  | ErrIntegerOverflow
  | ErrBalanceNotEnough
  | ErrNonceMismatch
  | ErrNegativeBlockCount
  | ErrTooManyBlocks
  | ErrPacketTooLarge
  | ErrAddrLen
  | ErrAddrPrefix
  | ErrAddrType
  | ErrAddrChecksum
  | ErrBase58 bytes
  | ErrOs bytes
  | ErrInitHeight
  | ErrCreateEngine error
  | ErrLoadEngine error
  | ErrNotFreezed
  | ErrKeyExists
  | ErrParentMissing
  | ErrReadKey int error
  | ErrReadData bytes int error
  | ErrSeekMismatch
  | ErrRecycleHeight
  | ErrBlockHashMismatch
  | ErrTooHigh
  | ErrInvalidChain int int bytes bytes
  | ErrGetBlock error
  | ErrTxNotFound
  | ErrBlockNotFound
  | ErrBlockReorged
  | ErrGenesisHash
  | ErrConsensusRejected
  | ErrInitNode error
  | ErrNetworkIdMismatch
  | ErrSelf
  | ErrJson bytes
  | ErrUnknownPacket

text \<open>
  A call returns a value or an error, panics (the goroutine dies, and with it the process: nothing
  in the node recovers), or never returns. Every outcome comes with the state it leaves.
\<close>

datatype 'a res = Ok 'a | Err error | Panic | Diverge

type_synonym ('s, 'a) go = "'s \<Rightarrow> 'a res \<times> 's"

definition ret :: "'a \<Rightarrow> ('s, 'a) go" where
  "ret x s = (Ok x, s)"

definition throw :: "error \<Rightarrow> ('s, 'a) go" where
  "throw e s = (Err e, s)"

definition panic :: "('s, 'a) go" where
  "panic s = (Panic, s)"

definition diverge :: "('s, 'a) go" where
  "diverge s = (Diverge, s)"

definition bindG :: "('s, 'a) go \<Rightarrow> ('a \<Rightarrow> ('s, 'b) go) \<Rightarrow> ('s, 'b) go" where
  "bindG m f s = (case m s of
      (Ok x, t) \<Rightarrow> f x t
    | (Err e, t) \<Rightarrow> (Err e, t)
    | (Panic, t) \<Rightarrow> (Panic, t)
    | (Diverge, t) \<Rightarrow> (Diverge, t))"

definition getS :: "('s \<Rightarrow> 'a) \<Rightarrow> ('s, 'a) go" where
  "getS f s = (Ok (f s), s)"

definition modifyS :: "('s \<Rightarrow> 's) \<Rightarrow> ('s, unit) go" where
  "modifyS f s = (Ok (), f s)"

text \<open>
  Running a call on one half of a paired state, and wrapping the error of a call as
  \<^verbatim>\<open>fmt.Errorf("...: %v", err)\<close> does.
\<close>

definition on_fst :: "('s, 'a) go \<Rightarrow> ('s \<times> 't, 'a) go" where
  "on_fst m st = (case m (fst st) of (r, s) \<Rightarrow> (r, (s, snd st)))"

definition on_snd :: "('t, 'a) go \<Rightarrow> ('s \<times> 't, 'a) go" where
  "on_snd m st = (case m (snd st) of (r, t) \<Rightarrow> (r, (fst st, t)))"

definition wrap_err :: "(error \<Rightarrow> error) \<Rightarrow> ('s, 'a) go \<Rightarrow> ('s, 'a) go" where
  "wrap_err f m s = (case m s of (Err e, t) \<Rightarrow> (Err (f e), t) | r \<Rightarrow> r)"

definition liftR :: "'a res \<Rightarrow> ('s, 'a) go" where
  "liftR r s = (r, s)"

named_theorems go_run "running the state-and-error combinators"

lemma ret_run [go_run]: "ret x s = (Ok x, s)"
  by (simp add: ret_def)

lemma throw_run [go_run]: "throw e s = (Err e, s)"
  by (simp add: throw_def)

lemma panic_run [go_run]: "panic s = (Panic, s)"
  by (simp add: panic_def)

lemma diverge_run [go_run]: "diverge s = (Diverge, s)"
  by (simp add: diverge_def)

lemma getS_run [go_run]: "getS f s = (Ok (f s), s)"
  by (simp add: getS_def)

lemma modifyS_run [go_run]: "modifyS f s = (Ok (), f s)"
  by (simp add: modifyS_def)

lemma liftR_run [go_run]: "liftR r s = (r, s)"
  by (simp add: liftR_def)

lemma on_fst_run [go_run]: "m s = (r, s') \<Longrightarrow> on_fst m (s, t) = (r, (s', t))"
  by (simp add: on_fst_def)

lemma on_snd_run [go_run]: "m t = (r, t') \<Longrightarrow> on_snd m (s, t) = (r, (s, t'))"
  by (simp add: on_snd_def)

lemma wrap_err_Ok [go_run]: "m s = (Ok x, t) \<Longrightarrow> wrap_err f m s = (Ok x, t)"
  by (simp add: wrap_err_def)

lemma wrap_err_Err [go_run]: "m s = (Err e, t) \<Longrightarrow> wrap_err f m s = (Err (f e), t)"
  by (simp add: wrap_err_def)

lemma bindG_Ok [go_run]: "m s = (Ok x, t) \<Longrightarrow> bindG m f s = f x t"
  by (simp add: bindG_def)

lemma bindG_Err [go_run]: "m s = (Err e, t) \<Longrightarrow> bindG m f s = (Err e, t)"
  by (simp add: bindG_def)

lemma bindG_Panic [go_run]: "m s = (Panic, t) \<Longrightarrow> bindG m f s = (Panic, t)"
  by (simp add: bindG_def)

lemma bindG_Diverge [go_run]: "m s = (Diverge, t) \<Longrightarrow> bindG m f s = (Diverge, t)"
  by (simp add: bindG_def)

lemma bindG_eq_Ok:
  "bindG m f s = (Ok y, u) \<longleftrightarrow> (\<exists>x t. m s = (Ok x, t) \<and> f x t = (Ok y, u))"
  by (auto simp: bindG_def split: prod.splits res.splits)

lemma bindG_OkE:
  assumes "bindG m f s = (Ok y, u)"
  obtains x t where "m s = (Ok x, t)" and "f x t = (Ok y, u)"
  using assms by (auto simp: bindG_eq_Ok)

section \<open>Fixed-width codecs\<close>

text \<open>
  \<open>le_bytes n w\<close> is what \<^verbatim>\<open>binary.LittleEndian.PutUint\<close> stores of \<open>w\<close> in \<open>n\<close> bytes and
  \<open>le_word bs\<close> what \<^verbatim>\<open>binary.LittleEndian.Uint\<close> reads back; \<open>be_bytes\<close> and \<open>be_word\<close> are the
  big-endian pair.
\<close>

primrec le_bytes :: "nat \<Rightarrow> 'a::len word \<Rightarrow> bytes" where
  "le_bytes 0 w = []"
| "le_bytes (Suc n) w = ucast w # le_bytes n (drop_bit 8 w)"

primrec le_word :: "bytes \<Rightarrow> 'a::len word" where
  "le_word [] = 0"
| "le_word (b # bs) = ucast b OR push_bit 8 (le_word bs)"

definition be_bytes :: "nat \<Rightarrow> 'a::len word \<Rightarrow> bytes" where
  "be_bytes n w = rev (le_bytes n w)"

definition be_word :: "bytes \<Rightarrow> 'a::len word" where
  "be_word bs = le_word (rev bs)"

lemma length_le_bytes [simp]: "length (le_bytes n w) = n"
  by (induction n arbitrary: w) auto

lemma length_be_bytes [simp]: "length (be_bytes n w) = n"
  by (simp add: be_bytes_def)

lemma le_word_le_bytes: "le_word (le_bytes n w) = take_bit (8 * n) w"
proof (induction n arbitrary: w)
  case 0
  then show ?case by simp
next
  case (Suc n)
  have "ucast (ucast w :: u8) OR push_bit 8 (take_bit (8 * n) (drop_bit 8 w)) = take_bit (8 * Suc n) w"
    by (rule bit_word_eqI) (auto simp: bit_simps)
  with Suc show ?case by simp
qed

lemma le_word_le_bytes_id: "LENGTH('a) \<le> 8 * n \<Longrightarrow> le_word (le_bytes n w) = (w :: 'a::len word)"
  by (simp add: le_word_le_bytes take_bit_word_eq_self)

lemma nth_le_bytes: "i < n \<Longrightarrow> le_bytes n w ! i = ucast (drop_bit (8 * i) w)"
proof (induction n arbitrary: w i)
  case 0
  then show ?case by simp
next
  case (Suc n)
  then show ?case by (cases i) (simp_all add: drop_bit_drop_bit algebra_simps)
qed

lemma bit_le_word:
  "bit (le_word bs :: 'a::len word) i \<longleftrightarrow>
     i < LENGTH('a) \<and> i div 8 < length bs \<and> bit (bs ! (i div 8)) (i mod 8)"
proof (induction bs arbitrary: i)
  case Nil
  then show ?case by simp
next
  case (Cons b bs)
  show ?case
  proof (cases "i < 8")
    case True
    then show ?thesis by (auto simp: bit_simps)
  next
    case False
    then obtain j where j: "i = 8 + j" by (metis le_add_diff_inverse linorder_not_less)
    then have "\<not> bit b i" by (simp add: bit_word.rep_eq)
    moreover from j have "i div 8 = Suc (j div 8)" and "i mod 8 = j mod 8" by simp_all
    ultimately show ?thesis using j Cons.IH [of j] by (auto simp: bit_simps)
  qed
qed

lemma le_bytes_le_word:
  assumes "8 * length bs \<le> LENGTH('a)"
  shows "le_bytes (length bs) (le_word bs :: 'a::len word) = bs"
proof (rule nth_equalityI)
  show "length (le_bytes (length bs) (le_word bs :: 'a word)) = length bs" by simp
  fix i assume "i < length (le_bytes (length bs) (le_word bs :: 'a word))"
  then have i: "i < length bs" by simp
  have "ucast (drop_bit (8 * i) (le_word bs :: 'a word)) = bs ! i"
  proof (rule bit_word_eqI)
    fix n assume "n < LENGTH(8)"
    then have n: "n < 8" by simp
    with i assms have "8 * i + n < LENGTH('a)" by linarith
    with i n show "bit (ucast (drop_bit (8 * i) (le_word bs :: 'a word)) :: u8) n = bit (bs ! i) n"
      by (simp add: bit_simps bit_le_word)
  qed
  with i show "le_bytes (length bs) (le_word bs :: 'a word) ! i = bs ! i"
    by (simp add: nth_le_bytes)
qed

lemmas word_codec [simp] =
  le_word_le_bytes_id [where 'a = 16 and n = 2, simplified]
  le_word_le_bytes_id [where 'a = 32 and n = 4, simplified]
  le_word_le_bytes_id [where 'a = 64 and n = 8, simplified]

lemma be_word_be_bytes [simp]: "be_word (be_bytes 8 w) = (w :: u64)"
  by (simp add: be_word_def be_bytes_def)

lemma le_bytes8_eq_iff [simp]: "le_bytes 8 (a :: u64) = le_bytes 8 b \<longleftrightarrow> a = b"
  by (metis word_codec(3))

lemma be_bytes8_eq_iff [simp]: "be_bytes 8 (a :: u64) = be_bytes 8 b \<longleftrightarrow> a = b"
  by (metis be_word_be_bytes)

lemma int_of_u64_u64_of_int: "- (2 ^ 63) \<le> i \<Longrightarrow> i < 2 ^ 63 \<Longrightarrow> int_of_u64 (u64_of_int i) = i"
  by (simp add: int_of_u64_def u64_of_int_def int_word_sint)

lemma u64_of_int_int_of_u64 [simp]: "u64_of_int (int_of_u64 w) = w"
  by (simp add: int_of_u64_def u64_of_int_def)

lemma int_of_u64_small: "w < 2 ^ 63 \<Longrightarrow> int_of_u64 w = int (unat w)"
  unfolding int_of_u64_def sint_uint uint_nat [symmetric]
  by (rule signed_take_bit_int_eq_self) (use uint_ge_0 [of w] in \<open>simp_all add: word_less_def order_trans [of _ 0]\<close>)

lemma i64_id: "- (2 ^ 63) \<le> i \<Longrightarrow> i < 2 ^ 63 \<Longrightarrow> i64 i = i"
  by (simp add: i64_def signed_take_bit_int_eq_self)

lemma unat_of_nat_u64: "k < 2 ^ 64 \<Longrightarrow> unat (of_nat k :: u64) = k"
  by (simp add: unat_of_nat take_bit_nat_eq_self)

lemma unat_drop_div: "unat (drop_bit n w) = unat w div 2 ^ n"
  by (subst unat_drop_bit_eq) (simp add: drop_bit_eq_div)

lemma unat_take_mod: "unat (take_bit n w) = unat w mod 2 ^ n"
  unfolding unsigned_take_bit_eq by (rule take_bit_eq_mod)

lemma div_mod_pow: "(x mod 2 ^ (a + b)) div 2 ^ a = x div 2 ^ a mod (2 ^ b :: nat)"
  by (simp flip: drop_bit_eq_div take_bit_eq_mod add: drop_bit_take_bit)

section \<open>Readers over a byte buffer\<close>

text \<open>
  The reader of a decoder is the buffer of bytes not yet read. \<open>ReadByte\<close> and \<open>ReadFull n\<close>
  (\<^verbatim>\<open>io.ReadFull\<close> into an \<open>n\<close>-byte buffer) take bytes off its front. A failed \<open>ReadFull\<close> leaves an
  empty buffer, since it has consumed what there was.
\<close>

type_synonym 'a reader = "(bytes, 'a) go"

definition ReadByte :: "u8 reader" where
  "ReadByte r = (case r of [] \<Rightarrow> (Err ErrEOF, []) | b # bs \<Rightarrow> (Ok b, bs))"

definition ReadFull :: "nat \<Rightarrow> bytes reader" where
  "ReadFull n r = (if length r < n then (Err ErrEOF, []) else (Ok (take n r), drop n r))"

lemma ReadByte_Cons [simp]: "ReadByte (b # bs) = (Ok b, bs)"
  by (simp add: ReadByte_def)

lemma ReadFull_append [simp]: "length xs = n \<Longrightarrow> ReadFull n (xs @ ys) = (Ok xs, ys)"
  by (simp add: ReadFull_def)

lemma ReadFull_length: "ReadFull n r = (Ok xs, t) \<Longrightarrow> length xs = n \<and> r = xs @ t"
  by (auto simp: ReadFull_def split: if_splits)

section \<open>Variable-width integers\<close>

text \<open>
  \<^verbatim>\<open>binary.PutUvarint\<close> and \<^verbatim>\<open>binary.ReadUvarint\<close>: seven bits a byte, low bits first, the top bit of a
  byte set when another follows. The reader takes at most ten bytes and reports an overflow of 64
  bits; its loop keeps the value read so far and the shift of the next byte.
\<close>

function PutUvarint :: "u64 \<Rightarrow> bytes" where
  "PutUvarint x =
     (if 0x80 \<le> x then (ucast x OR 0x80) # PutUvarint (drop_bit 7 x) else [ucast x])"
  by pat_completeness auto
termination
proof (relation "measure unat")
  fix x :: u64 assume "0x80 \<le> x"
  then have "128 \<le> unat x" by (simp add: word_le_nat_alt)
  moreover have "unat (drop_bit 7 x) = unat x div 128"
    by (subst unat_drop_bit_eq) (simp add: drop_bit_eq_div)
  ultimately show "(drop_bit 7 x, x) \<in> measure unat" by simp
qed simp

declare PutUvarint.simps [simp del]

fun ReadUvarint_loop :: "nat \<Rightarrow> u64 \<Rightarrow> nat \<Rightarrow> u64 reader" where
  "ReadUvarint_loop 0 x s = throw ErrVarintOverflow"
| "ReadUvarint_loop (Suc n) x s =
     bindG ReadByte (\<lambda>b.
       if b < 0x80 then
         if n = 0 \<and> 1 < b then throw ErrVarintOverflow
         else ret (x OR push_bit s (ucast b))
       else ReadUvarint_loop n (x OR push_bit s (ucast (b AND 0x7f))) (s + 7))"

definition ReadUvarint :: "u64 reader" where
  "ReadUvarint = ReadUvarint_loop 10 0 0"

lemma varint_split:
  fixes y :: u64
  shows "push_bit s (ucast ((ucast y OR 0x80 :: u8) AND 0x7f)) OR push_bit (s + 7) (drop_bit 7 y) = push_bit s y"
proof -
  have low: "(ucast y OR 0x80 :: u8) AND 0x7f = take_bit 7 (ucast y)"
  proof (rule bit_word_eqI)
    fix n assume "n < LENGTH(8)"
    then have "n \<in> {0, 1, 2, 3, 4, 5, 6, 7}" by auto
    then show "bit ((ucast y OR 0x80 :: u8) AND 0x7f) n = bit (take_bit 7 (ucast y :: u8)) n"
      by (auto simp: bit_simps)
  qed
  show ?thesis
    unfolding low
  proof (rule bit_word_eqI)
    fix n assume n: "n < LENGTH(64)"
    have "7 + (n - (s + 7)) = n - s" if "s + 7 \<le> n" using that by simp
    then show "bit (push_bit s (ucast (take_bit 7 (ucast y :: u8))) OR push_bit (s + 7) (drop_bit 7 y)) n
        = bit (push_bit s y) n"
      by (cases "s + 7 \<le> n") (use n in \<open>auto simp: bit_simps\<close>)
  qed
qed

lemma varint_more: "\<not> (ucast (y :: u64) OR 0x80 :: u8) < 0x80"
  by (simp add: not_less le_word_or1)

lemma ucast_small_u8: "y < 0x80 \<Longrightarrow> unat (ucast (y :: u64) :: u8) = unat y"
  by (simp add: unsigned_ucast_eq word_less_nat_alt take_bit_nat_eq_self)

lemma unat_drop_bit7: "unat (drop_bit 7 (y :: u64)) = unat y div 128"
  by (subst unat_drop_bit_eq) (simp add: drop_bit_eq_div)

lemma ReadUvarint_loop_PutUvarint:
  assumes "n \<le> 9" and "unat y < 2 ^ (64 - 7 * n)"
  shows "ReadUvarint_loop (10 - n) x (7 * n) (PutUvarint y @ rest)
           = (Ok (x OR push_bit (7 * n) y), rest)"
  using assms
proof (induction y arbitrary: n x rule: PutUvarint.induct)
  case (1 y)
  obtain m where m: "10 - n = Suc m" "m = 9 - n" using "1.prems"(1) by (cases "10 - n") auto
  show ?case
  proof (cases "0x80 \<le> y")
    case True
    have n: "n < 9"
    proof (rule ccontr)
      assume "\<not> n < 9"
      with "1.prems" have "unat y < 2" by (simp add: le_less_Suc_eq)
      with True show False by (simp add: word_le_nat_alt)
    qed
    have "(2 :: nat) ^ (64 - 7 * n) = 2 ^ (64 - 7 * Suc n) * 128"
    proof -
      from n have "64 - 7 * n = (64 - 7 * Suc n) + 7" by simp
      then show ?thesis by (simp only: power_add) simp
    qed
    with "1.prems"(2) have "unat (drop_bit 7 y) < 2 ^ (64 - 7 * Suc n)"
      by (simp add: unat_drop_bit7 less_mult_imp_div_less)
    with "1.IH" [OF True, of "Suc n" "x OR push_bit (7 * n) (ucast ((ucast y OR 0x80 :: u8) AND 0x7f))"] n m
    have "ReadUvarint_loop m (x OR push_bit (7 * n) (ucast ((ucast y OR 0x80 :: u8) AND 0x7f))) (7 * n + 7)
        (PutUvarint (drop_bit 7 y) @ rest)
      = (Ok (x OR (push_bit (7 * n) (ucast ((ucast y OR 0x80 :: u8) AND 0x7f)) OR push_bit (7 * n + 7) (drop_bit 7 y))), rest)"
      by (simp add: or.assoc algebra_simps)
    then show ?thesis
      using True m varint_more [of y] by (simp add: PutUvarint.simps [of y] bindG_Ok varint_split)
  next
    case False
    then have y: "y < 0x80" by simp
    have b: "(ucast y :: u8) < 0x80"
      using ucast_small_u8 [OF y] y by (simp add: word_less_nat_alt)
    have "\<not> (m = 0 \<and> 1 < (ucast y :: u8))"
      using ucast_small_u8 [OF y] "1.prems" m by (auto simp: word_less_nat_alt le_less_Suc_eq)
    moreover have "ucast (ucast y :: u8) = y"
      using ucast_small_u8 [OF y] by (simp add: word_unat_eq_iff unsigned_ucast_eq unsigned_take_bit_eq)
    ultimately show ?thesis
      using b False m by (auto simp: PutUvarint.simps [of y] bindG_Ok ret_run)
  qed
qed

lemma ReadUvarint_PutUvarint [simp]: "ReadUvarint (PutUvarint y @ rest) = (Ok y, rest)"
proof -
  have "unat y < 2 ^ (64 - 7 * 0)" using unsigned_less [of y] by simp
  from ReadUvarint_loop_PutUvarint [OF _ this, of 0 rest] show ?thesis
    by (simp add: ReadUvarint_def)
qed

text \<open>A varint fits the ten bytes that the encoders reserve for it (\<^verbatim>\<open>binary.MaxVarintLen64\<close>).\<close>

lemma length_PutUvarint_pow: "unat y < 2 ^ (7 * Suc n) \<Longrightarrow> length (PutUvarint y) \<le> Suc n"
proof (induction n arbitrary: y)
  case 0
  then have "\<not> 0x80 \<le> y" by (simp add: word_le_nat_alt)
  then show ?case by (simp add: PutUvarint.simps [of y])
next
  case (Suc n)
  have "(2 :: nat) ^ (7 * Suc (Suc n)) = 2 ^ (7 * Suc n) * 128" by (simp add: power_add)
  with Suc.prems have "unat (drop_bit 7 y) < 2 ^ (7 * Suc n)"
    by (simp add: unat_drop_bit7 less_mult_imp_div_less)
  from Suc.IH [OF this] show ?case by (simp add: PutUvarint.simps [of y])
qed

lemma length_PutUvarint: "length (PutUvarint y) \<le> 10"
  by (rule length_PutUvarint_pow [of y 9, simplified])
     (use unsigned_less [of y, where ?'a = nat] in \<open>simp\<close>)

end
