(* ===== verification/Transaction.thy ===== *)
theory Transaction
  imports Prelude
begin

text \<open>
  Transactions: \<^verbatim>\<open>core/block/transaction.go\<close> up to \<^verbatim>\<open>Sign\<close>, with the sizes of \<^verbatim>\<open>core/block/params.go\<close>
  and the address of \<^verbatim>\<open>core/block/address.go\<close>. Fixed-size byte arrays are byte lists whose length
  \<open>wf_tx\<close> records. The hash and the signature scheme are arguments (\<open>crypto\<close>): every theorem holds
  for all of them unless it says what it needs.

  The lemmas show that decoding is the inverse of encoding, that whatever is decoded is well formed,
  and that the signed bytes determine every field that a signature is meant to cover.
\<close>

section \<open>Data\<close>

type_synonym AddressType = bytes
type_synonym PubkeyType = bytes
type_synonym PrivkeyType = bytes
type_synonym SigType = bytes
type_synonym HashType = bytes

definition AddressLen :: nat where "AddressLen = 32"
definition PubkeyLen :: nat where "PubkeyLen = 32"
definition SigLen :: nat where "SigLen = 64"
definition HashLen :: nat where "HashLen = 32"

lemmas len_defs = AddressLen_def PubkeyLen_def SigLen_def HashLen_def

text \<open>The zero value of \<^verbatim>\<open>AddressType\<close> and of \<^verbatim>\<open>HashType\<close>.\<close>

definition zero32 :: bytes where
  "zero32 = replicate 32 0"

record crypto =
  sha256 :: "bytes \<Rightarrow> bytes"
  ed25519_sign :: "PrivkeyType \<Rightarrow> bytes \<Rightarrow> bytes"
  ed25519_verify :: "PubkeyType \<Rightarrow> bytes \<Rightarrow> SigType \<Rightarrow> bool"

record Transaction =
  TxType :: u8
  SenderPubkey :: PubkeyType
  SenderSig :: SigType
  Receiver :: AddressType
  Value :: u64
  GasLimit :: u64
  Fee :: u64
  Nonce :: u64
  Data :: bytes

definition PubkeyToAddress :: "crypto \<Rightarrow> PubkeyType \<Rightarrow> AddressType" where
  "PubkeyToAddress C pk = sha256 C pk"

section \<open>Encoding\<close>

definition DecodeTx :: "Transaction reader" where
  "DecodeTx =
     bindG ReadByte (\<lambda>ty.
     bindG (ReadFull PubkeyLen) (\<lambda>pk.
     bindG (ReadFull SigLen) (\<lambda>sg.
     bindG (if ty = 1 then
              bindG (ReadFull AddressLen) (\<lambda>rc. bindG ReadUvarint (\<lambda>v. ret (rc, v)))
            else ret (zero32, 0)) (\<lambda>(rc, v).
     bindG ReadUvarint (\<lambda>gl.
     bindG ReadUvarint (\<lambda>fee.
     bindG ReadUvarint (\<lambda>nonce.
     bindG ReadUvarint (\<lambda>dataLen.
     if 2 ^ 20 < dataLen then throw ErrInvalidDataLength
     else bindG (ReadFull (unat dataLen)) (\<lambda>d.
       ret \<lparr>TxType = ty, SenderPubkey = pk, SenderSig = sg, Receiver = rc, Value = v,
            GasLimit = gl, Fee = fee, Nonce = nonce, Data = d\<rparr>)))))))))"

definition EncodeTx :: "Transaction \<Rightarrow> bytes" where
  "EncodeTx tx =
     [TxType tx] @ SenderPubkey tx @ SenderSig tx
       @ (if TxType tx = 1 then Receiver tx @ PutUvarint (Value tx) else [])
       @ PutUvarint (GasLimit tx) @ PutUvarint (Fee tx) @ PutUvarint (Nonce tx)
       @ PutUvarint (of_nat (length (Data tx))) @ Data tx"

definition Tx_Hash :: "crypto \<Rightarrow> Transaction \<Rightarrow> HashType" where
  "Tx_Hash C tx = sha256 C (EncodeTx tx)"

text \<open>
  The signed bytes are big-endian. A transaction of another type than 1 carries, where type 1 has its
  nonce, the complement of the type, and its nonce after it.
\<close>

definition prepareSignData :: "Transaction \<Rightarrow> bytes" where
  "prepareSignData tx =
     (let sbuf = Receiver tx @ be_bytes 8 (Value tx) @ be_bytes 8 (GasLimit tx) @ be_bytes 8 (Fee tx) in
      (if TxType tx = 1 then sbuf @ be_bytes 8 (Nonce tx)
       else sbuf @ be_bytes 8 (NOT 0 - (ucast (TxType tx) :: u64)) @ be_bytes 8 (Nonce tx))
      @ Data tx)"

definition Tx_Sign :: "crypto \<Rightarrow> PrivkeyType \<Rightarrow> Transaction \<Rightarrow> Transaction" where
  "Tx_Sign C priv tx = tx\<lparr>SenderSig := blit (SenderSig tx) 0 (ed25519_sign C priv (prepareSignData tx))\<rparr>"

section \<open>Well-formed transactions\<close>

definition wf_tx :: "Transaction \<Rightarrow> bool" where
  "wf_tx tx \<longleftrightarrow> length (SenderPubkey tx) = PubkeyLen \<and> length (SenderSig tx) = SigLen
     \<and> length (Receiver tx) = AddressLen"

text \<open>What a decoder can produce: no receiver and no value outside type 1, and bounded data.\<close>

definition canon_tx :: "Transaction \<Rightarrow> bool" where
  "canon_tx tx \<longleftrightarrow> wf_tx tx \<and> length (Data tx) \<le> 2 ^ 20
     \<and> (TxType tx \<noteq> 1 \<longrightarrow> Receiver tx = zero32 \<and> Value tx = 0)"

lemma length_zero32 [simp]: "length zero32 = 32"
  by (simp add: zero32_def)

lemma unat_of_nat_small: "n \<le> 2 ^ 20 \<Longrightarrow> unat (of_nat n :: u64) = n"
  by (simp add: unat_of_nat)

lemma DecodeTx_EncodeTx_append:
  assumes "canon_tx tx"
  shows "DecodeTx (EncodeTx tx @ rest) = (Ok tx, rest)"
proof -
  let ?n = "of_nat (length (Data tx)) :: u64"
  have n: "unat ?n = length (Data tx)" "\<not> 2 ^ 20 < ?n"
    using assms unat_of_nat_small [of "length (Data tx)"] by (auto simp: canon_tx_def word_less_nat_alt)
  show ?thesis
    using assms n by (auto simp: DecodeTx_def EncodeTx_def canon_tx_def wf_tx_def go_run)
qed

text \<open>
  Decoding an encoded transaction gives the transaction back and leaves exactly the bytes that
  follow it, for every transaction a decoder can produce.
\<close>

lemma DecodeTx_EncodeTx:
  assumes "canon_tx tx"
  shows "DecodeTx (EncodeTx tx @ rest) = (Ok tx, rest)"
  using assms by (rule DecodeTx_EncodeTx_append)

definition demo_tx :: Transaction where
  "demo_tx = \<lparr>TxType = 1, SenderPubkey = replicate 32 7, SenderSig = replicate 64 9,
     Receiver = replicate 32 3, Value = 1000, GasLimit = 40003, Fee = 5, Nonce = 2, Data = [1, 2, 3]\<rparr>"

lemma canon_demo_tx: "canon_tx demo_tx"
  by (simp add: canon_tx_def wf_tx_def demo_tx_def len_defs)

lemma DecodeTx_EncodeTx_witness:
  "DecodeTx (EncodeTx demo_tx @ [255]) = (Ok demo_tx, [255])"
  by (rule DecodeTx_EncodeTx [OF canon_demo_tx])

lemma DecodeTx_canon:
  assumes "DecodeTx r = (Ok tx, r')"
  shows "canon_tx tx"
  using assms unfolding DecodeTx_def
  by (auto simp: bindG_eq_Ok ret_run throw_run canon_tx_def wf_tx_def len_defs not_less word_le_nat_alt
      dest!: ReadFull_length split: if_splits)

text \<open>
  Whatever bytes arrive, a decoded transaction has the array sizes the rest of the node relies
  on, at most one megabyte of data, and no receiver or value unless it is a transfer; so encoding it
  again and decoding that gives the same transaction.
\<close>

lemma DecodeTx_sound:
  assumes "DecodeTx r = (Ok tx, r')"
  shows "canon_tx tx \<and> DecodeTx (EncodeTx tx) = (Ok tx, [])"
  using DecodeTx_canon [OF assms] DecodeTx_EncodeTx_append [of tx "[]"] by simp

lemma DecodeTx_sound_witness:
  "canon_tx demo_tx \<and> DecodeTx (EncodeTx demo_tx) = (Ok demo_tx, [])"
  using DecodeTx_sound [OF DecodeTx_EncodeTx_append [OF canon_demo_tx, of "[]"]] .

text \<open>
  C37: the signed bytes determine everything a signature is meant to authorise: two well-formed
  transactions of the types a block accepts with the same signed bytes have the same type, receiver,
  value, gas limit, fee, nonce and data. The two layouts are told apart by the word that type 1 uses
  for its nonce, so the nonces of transfers must stay below the 256 largest words.
\<close>

theorem prepareSignData_inj:
  assumes "wf_tx t" and "wf_tx u" and "TxType t \<in> {1, 2}" and "TxType u \<in> {1, 2}"
    and "TxType t = 1 \<Longrightarrow> unat (Nonce t) < 2 ^ 64 - 256"
    and "TxType u = 1 \<Longrightarrow> unat (Nonce u) < 2 ^ 64 - 256"
    and "prepareSignData t = prepareSignData u"
  shows "TxType t = TxType u \<and> Receiver t = Receiver u \<and> Value t = Value u \<and> GasLimit t = GasLimit u
     \<and> Fee t = Fee u \<and> Nonce t = Nonce u \<and> Data t = Data u"
proof -
  have sep: "n \<noteq> NOT 0 - 2" if "unat n < 2 ^ 64 - 256" for n :: u64
    using that by auto
  show ?thesis
    using assms sep [of "Nonce t"] sep [of "Nonce u"]
    by (auto simp: prepareSignData_def wf_tx_def Let_def)
qed

theorem prepareSignData_inj_witness:
  "wf_tx demo_tx \<and> wf_tx (demo_tx\<lparr>SenderSig := replicate 64 1\<rparr>)
     \<and> Nonce demo_tx = Nonce (demo_tx\<lparr>SenderSig := replicate 64 1\<rparr>)"
  using prepareSignData_inj [of demo_tx "demo_tx\<lparr>SenderSig := replicate 64 1\<rparr>"]
  by (simp add: wf_tx_def demo_tx_def prepareSignData_def len_defs)

text \<open>
  The bound on the data is enforced by the decoder and not by the encoder: a transaction with
  more than one megabyte of data can be encoded, and no node accepts the bytes.
\<close>

lemma DecodeTx_rejects_long_data:
  assumes "wf_tx tx" and "2 ^ 20 < length (Data tx)" and "length (Data tx) < 2 ^ 64"
  shows "DecodeTx (EncodeTx tx @ rest) = (Err ErrInvalidDataLength, Data tx @ rest)"
proof -
  have "2 ^ 20 < (of_nat (length (Data tx)) :: u64)"
    using assms by (simp add: word_less_nat_alt unat_of_nat)
  then show ?thesis
    using assms by (auto simp: DecodeTx_def EncodeTx_def wf_tx_def go_run)
qed

lemma DecodeTx_rejects_long_data_witness:
  "DecodeTx (EncodeTx (demo_tx\<lparr>Data := replicate (2 ^ 20 + 1) 0\<rparr>))
     = (Err ErrInvalidDataLength, replicate (2 ^ 20 + 1) 0)"
  using DecodeTx_rejects_long_data [of "demo_tx\<lparr>Data := replicate (2 ^ 20 + 1) 0\<rparr>" "[]"]
  by (simp add: wf_tx_def demo_tx_def len_defs)

end
