(* ===== verification/Block.thy ===== *)
theory Block
  imports Transaction
begin

text \<open>
  Blocks: the data, the hashes and the encoding of \<^verbatim>\<open>core/block/block.go\<close> (executing a block is in
  theory \<open>Execution\<close>). A header commits to its parent, to the body and to the miner's extra data; the
  body hash commits to miner, time and transactions.

  The lemmas show that decoding inverts encoding on every block with correct hashes, that a decoded
  block has correct hashes, and that two different decoded blocks with one header hash exhibit a
  collision of the hash function.
\<close>

section \<open>Data and hashes\<close>

record BlockHeader =
  Hash :: HashType
  ParentHash :: HashType
  BodyHash :: HashType
  ExtraData :: HashType

record Block =
  Header :: BlockHeader
  Miner :: AddressType
  Time :: u64
  Txs :: "Transaction list"

definition Header_ComputeHash :: "crypto \<Rightarrow> BlockHeader \<Rightarrow> HashType" where
  "Header_ComputeHash C bh = sha256 C (ParentHash bh @ BodyHash bh @ ExtraData bh)"

definition EncodeBlockHeader :: "BlockHeader \<Rightarrow> bytes" where
  "EncodeBlockHeader bh = Hash bh @ ParentHash bh @ BodyHash bh @ ExtraData bh"

definition DecodeBlockHeader :: "crypto \<Rightarrow> BlockHeader reader" where
  "DecodeBlockHeader C =
     bindG (ReadFull (HashLen * 4)) (\<lambda>buf.
     let bh = \<lparr>Hash = sub_bytes 0 HashLen buf, ParentHash = sub_bytes HashLen (HashLen * 2) buf,
               BodyHash = sub_bytes (HashLen * 2) (HashLen * 3) buf,
               ExtraData = sub_bytes (HashLen * 3) (HashLen * 4) buf\<rparr> in
     if sha256 C (drop HashLen buf) \<noteq> Hash bh then throw ErrHeaderHashMismatch else ret bh)"

definition EncodeBlockSelf :: "Block \<Rightarrow> bytes" where
  "EncodeBlockSelf b =
     Miner b @ le_bytes 8 (Time b) @ PutUvarint (of_nat (length (Txs b))) @ concat (map EncodeTx (Txs b))"

definition Block_ComputeHash :: "crypto \<Rightarrow> Block \<Rightarrow> HashType" where
  "Block_ComputeHash C b = sha256 C (EncodeBlockSelf b)"

definition FillHash :: "crypto \<Rightarrow> Block \<Rightarrow> Block" where
  "FillHash C b =
     (let hd = (Header b)\<lparr>BodyHash := Block_ComputeHash C b\<rparr> in
      b\<lparr>Header := hd\<lparr>Hash := Header_ComputeHash C hd\<rparr>\<rparr>)"

fun DecodeTxs :: "nat \<Rightarrow> Transaction list reader" where
  "DecodeTxs 0 = ret []"
| "DecodeTxs (Suc n) = bindG DecodeTx (\<lambda>tx. bindG (DecodeTxs n) (\<lambda>txs. ret (tx # txs)))"

definition DecodeBlock :: "crypto \<Rightarrow> Block reader" where
  "DecodeBlock C =
     bindG (DecodeBlockHeader C) (\<lambda>bh.
     bindG (ReadFull AddressLen) (\<lambda>miner.
     bindG (ReadFull 8) (\<lambda>buf.
     bindG ReadUvarint (\<lambda>txCount.
     if 2 ^ 20 < txCount then throw ErrTooMuchTransactions
     else bindG (DecodeTxs (unat txCount)) (\<lambda>txs.
       let b = \<lparr>Header = bh, Miner = miner, Time = le_word buf, Txs = txs\<rparr> in
       if Block_ComputeHash C b \<noteq> BodyHash (Header b) then throw ErrBodyHashMismatch else ret b)))))"

definition EncodeBlock :: "Block \<Rightarrow> bytes" where
  "EncodeBlock b = EncodeBlockHeader (Header b) @ EncodeBlockSelf b"

section \<open>Well-formed blocks\<close>

definition wf_header :: "BlockHeader \<Rightarrow> bool" where
  "wf_header bh \<longleftrightarrow> length (Hash bh) = HashLen \<and> length (ParentHash bh) = HashLen
     \<and> length (BodyHash bh) = HashLen \<and> length (ExtraData bh) = HashLen"

definition wf_body :: "Block \<Rightarrow> bool" where
  "wf_body b \<longleftrightarrow> length (Miner b) = AddressLen \<and> length (Txs b) \<le> 2 ^ 20 \<and> list_all canon_tx (Txs b)"

text \<open>The block has the array sizes of the code and its two hashes are right.\<close>

definition valid_header :: "crypto \<Rightarrow> BlockHeader \<Rightarrow> bool" where
  "valid_header C bh \<longleftrightarrow> wf_header bh \<and> Hash bh = Header_ComputeHash C bh"

definition valid_block :: "crypto \<Rightarrow> Block \<Rightarrow> bool" where
  "valid_block C b \<longleftrightarrow> valid_header C (Header b) \<and> wf_body b \<and> BodyHash (Header b) = Block_ComputeHash C b"

definition hash32 :: "crypto \<Rightarrow> bool" where
  "hash32 C \<longleftrightarrow> (\<forall>x. length (sha256 C x) = 32)"

lemma DecodeBlockHeader_Encode:
  assumes "valid_header C bh"
  shows "DecodeBlockHeader C (EncodeBlockHeader bh @ rest) = (Ok bh, rest)"
proof -
  let ?buf = "Hash bh @ ParentHash bh @ BodyHash bh @ ExtraData bh"
  from assms have l: "length (Hash bh) = 32" "length (ParentHash bh) = 32" "length (BodyHash bh) = 32"
    "length (ExtraData bh) = 32" and h: "Hash bh = sha256 C (ParentHash bh @ BodyHash bh @ ExtraData bh)"
    by (auto simp: valid_header_def wf_header_def len_defs Header_ComputeHash_def)
  have "ReadFull (HashLen * 4) (EncodeBlockHeader bh @ rest) = (Ok ?buf, rest)"
    using ReadFull_append [of ?buf "HashLen * 4" rest] l by (simp add: EncodeBlockHeader_def len_defs)
  then show ?thesis
    using l h [symmetric] by (simp add: DecodeBlockHeader_def go_run sub_bytes_def len_defs Let_def)
qed

lemma DecodeBlockHeader_valid:
  assumes "DecodeBlockHeader C r = (Ok bh, r')"
  shows "valid_header C bh"
proof -
  from assms obtain buf where rd: "ReadFull (HashLen * 4) r = (Ok buf, r')"
    and bh: "bh = \<lparr>Hash = sub_bytes 0 HashLen buf, ParentHash = sub_bytes HashLen (HashLen * 2) buf,
               BodyHash = sub_bytes (HashLen * 2) (HashLen * 3) buf,
               ExtraData = sub_bytes (HashLen * 3) (HashLen * 4) buf\<rparr>"
    and h: "sha256 C (drop HashLen buf) = Hash bh"
    by (auto simp: DecodeBlockHeader_def bindG_eq_Ok Let_def ret_run throw_run split: if_splits)
  have len: "length buf = 128" using ReadFull_length [OF rd] by (simp add: len_defs)
  have "ParentHash bh @ BodyHash bh @ ExtraData bh = drop HashLen buf"
  proof -
    have "sub_bytes 32 64 buf @ sub_bytes 64 96 buf @ sub_bytes 96 128 buf = sub_bytes 32 128 buf"
      by (simp add: sub_bytes_append)
    with len show ?thesis by (simp add: bh len_defs sub_bytes_end)
  qed
  with h show ?thesis
    using len by (simp add: valid_header_def wf_header_def bh sub_bytes_def len_defs Header_ComputeHash_def)
qed

lemma DecodeTxs_Encode:
  "list_all canon_tx txs \<Longrightarrow> DecodeTxs (length txs) (concat (map EncodeTx txs) @ rest) = (Ok txs, rest)"
  by (induction txs) (simp_all add: go_run DecodeTx_EncodeTx_append)

lemma DecodeTxs_canon: "DecodeTxs n r = (Ok txs, r') \<Longrightarrow> length txs = n \<and> list_all canon_tx txs"
  by (induction n arbitrary: r txs) (auto simp: ret_run bindG_eq_Ok dest: DecodeTx_canon)

lemma DecodeBlock_Encode:
  assumes "valid_block C b"
  shows "DecodeBlock C (EncodeBlock b @ rest) = (Ok b, rest)"
proof -
  let ?n = "of_nat (length (Txs b)) :: u64"
  have n: "unat ?n = length (Txs b)" "\<not> 2 ^ 20 < ?n"
    using assms unat_of_nat_small [of "length (Txs b)"]
    by (auto simp: valid_block_def wf_body_def word_less_nat_alt)
  show ?thesis
    using assms n
    by (cases b) (simp add: DecodeBlock_def EncodeBlock_def EncodeBlockSelf_def go_run DecodeBlockHeader_Encode
        DecodeTxs_Encode valid_block_def wf_body_def Let_def)
qed

lemma DecodeBlock_valid:
  assumes "DecodeBlock C r = (Ok b, r')"
  shows "valid_block C b"
  using assms unfolding DecodeBlock_def
  by (auto simp: bindG_eq_Ok ret_run throw_run Let_def valid_block_def wf_body_def not_less word_le_nat_alt
      dest!: ReadFull_length DecodeBlockHeader_valid DecodeTxs_canon split: if_splits)

text \<open>The body's encoding determines the body, by the round trip of its parts.\<close>

lemma EncodeBlockSelf_inj:
  assumes "wf_body a" and "wf_body b" and "EncodeBlockSelf a = EncodeBlockSelf b"
  shows "Miner a = Miner b \<and> Time a = Time b \<and> Txs a = Txs b"
proof -
  have dec: "bindG (ReadFull AddressLen) (\<lambda>m. bindG (ReadFull 8) (\<lambda>t. bindG ReadUvarint (\<lambda>n.
      bindG (DecodeTxs (unat n)) (\<lambda>txs. ret (m, le_word t :: u64, txs))))) (EncodeBlockSelf c)
    = (Ok (Miner c, Time c, Txs c), [])" if "wf_body c" for c
  proof -
    have "unat (of_nat (length (Txs c)) :: u64) = length (Txs c)"
      using that unat_of_nat_small by (simp add: wf_body_def)
    with that DecodeTxs_Encode [of "Txs c" "[]"] show ?thesis
      by (simp add: EncodeBlockSelf_def go_run wf_body_def)
  qed
  from dec [OF assms(1)] dec [OF assms(2)] assms(3) show ?thesis by simp
qed

section \<open>Properties\<close>

text \<open>
  A block whose hashes are right survives the wire: decoding its encoding gives the block back
  and leaves exactly the bytes that follow.
\<close>

lemma DecodeBlock_EncodeBlock:
  assumes "valid_block C b"
  shows "DecodeBlock C (EncodeBlock b @ rest) = (Ok b, rest)"
  using assms by (rule DecodeBlock_Encode)

definition demo_crypto :: crypto where
  "demo_crypto = \<lparr>sha256 = (\<lambda>x. take 32 (x @ replicate 32 0)), ed25519_sign = (\<lambda>k m. replicate 64 0),
     ed25519_verify = (\<lambda>pk m s. True)\<rparr>"

definition demo_block :: Block where
  "demo_block = FillHash demo_crypto
     \<lparr>Header = \<lparr>Hash = zero32, ParentHash = zero32, BodyHash = zero32, ExtraData = zero32\<rparr>,
      Miner = replicate 32 5, Time = 1, Txs = [demo_tx]\<rparr>"

lemma length_demo_sha256 [simp]: "length (sha256 demo_crypto x) = 32"
  by (simp add: demo_crypto_def)

lemma valid_FillHash:
  assumes "hash32 C" and "wf_body b" and "length (ParentHash (Header b)) = HashLen"
    and "length (ExtraData (Header b)) = HashLen"
  shows "valid_block C (FillHash C b)"
  using assms by (auto simp: valid_block_def valid_header_def wf_header_def wf_body_def FillHash_def Let_def
      hash32_def len_defs Header_ComputeHash_def Block_ComputeHash_def EncodeBlockSelf_def)

lemma valid_demo_block: "valid_block demo_crypto demo_block"
  unfolding demo_block_def
  by (rule valid_FillHash) (simp_all add: hash32_def wf_body_def len_defs canon_demo_tx)

lemma DecodeBlock_EncodeBlock_witness:
  "DecodeBlock demo_crypto (EncodeBlock demo_block @ [1]) = (Ok demo_block, [1])"
  by (rule DecodeBlock_EncodeBlock [OF valid_demo_block])

text \<open>
  \<^verbatim>\<open>FillHash\<close> makes a block candidate decodable: with a hash function of 32 bytes, a body of
  acceptable size and well-formed transactions, the filled block is encoded to bytes that every node
  decodes to that block.
\<close>

lemma FillHash_decodable:
  assumes "hash32 C" and "wf_body b" and "length (ParentHash (Header b)) = HashLen"
    and "length (ExtraData (Header b)) = HashLen"
  shows "DecodeBlock C (EncodeBlock (FillHash C b)) = (Ok (FillHash C b), [])
     \<and> Txs (FillHash C b) = Txs b \<and> ParentHash (Header (FillHash C b)) = ParentHash (Header b)"
  using DecodeBlock_Encode [OF valid_FillHash [OF assms], of "[]"] by (simp add: FillHash_def Let_def)

lemma FillHash_decodable_witness:
  "DecodeBlock demo_crypto (EncodeBlock (FillHash demo_crypto demo_block)) = (Ok (FillHash demo_crypto demo_block), [])"
  using FillHash_decodable [of demo_crypto demo_block] valid_demo_block
  by (simp add: valid_block_def valid_header_def wf_header_def hash32_def)

text \<open>
  C36: a header hash commits to the whole block. When two byte strings decode to different blocks with the same
  header hash, a collision of the hash function is at hand: either on the parent, body hash and extra data of the two
  headers, or, when these are the same, on the encodings of the two bodies. The inputs that collide are the ones the
  code has hashed for these blocks.
\<close>

theorem block_hash_commits:
  assumes "DecodeBlock C r1 = (Ok a, t1)" and "DecodeBlock C r2 = (Ok b, t2)"
    and "Hash (Header a) = Hash (Header b)" and "a \<noteq> b"
  shows "let fields = (\<lambda>x. ParentHash (Header x) @ BodyHash (Header x) @ ExtraData (Header x)) in
    if fields a \<noteq> fields b then sha256 C (fields a) = sha256 C (fields b)
    else EncodeBlockSelf a \<noteq> EncodeBlockSelf b \<and> sha256 C (EncodeBlockSelf a) = sha256 C (EncodeBlockSelf b)"
proof -
  let ?f = "\<lambda>x. ParentHash (Header x) @ BodyHash (Header x) @ ExtraData (Header x)"
  from assms(1,2) have v: "valid_block C a" "valid_block C b" by (auto dest: DecodeBlock_valid)
  then have hash: "sha256 C (?f a) = sha256 C (?f b)"
    using assms(3) by (simp add: valid_block_def valid_header_def Header_ComputeHash_def)
  have "EncodeBlockSelf a \<noteq> EncodeBlockSelf b \<and> sha256 C (EncodeBlockSelf a) = sha256 C (EncodeBlockSelf b)" if "?f a = ?f b"
  proof -
    from that v have same: "ParentHash (Header a) = ParentHash (Header b)" "BodyHash (Header a) = BodyHash (Header b)"
      "ExtraData (Header a) = ExtraData (Header b)"
      by (auto simp: valid_block_def valid_header_def wf_header_def)
    have "EncodeBlockSelf a \<noteq> EncodeBlockSelf b"
      using EncodeBlockSelf_inj [of a b] v assms(3,4) same by (auto simp: valid_block_def)
    with same(2) v show ?thesis by (simp add: valid_block_def Block_ComputeHash_def)
  qed
  with hash show ?thesis by (simp add: Let_def)
qed

definition const_crypto :: crypto where
  "const_crypto = demo_crypto\<lparr>sha256 := (\<lambda>_. zero32)\<rparr>"

theorem block_hash_commits_witness:
  "\<exists>a b. fst (DecodeBlock const_crypto (EncodeBlock a)) = Ok a \<and> fst (DecodeBlock const_crypto (EncodeBlock b)) = Ok b \<and>
     Time a = 1 \<and> Time b = 2 \<and> Hash (Header a) = Hash (Header b) \<and>
     EncodeBlockSelf a \<noteq> EncodeBlockSelf b \<and> sha256 const_crypto (EncodeBlockSelf a) = sha256 const_crypto (EncodeBlockSelf b)"
proof -
  let ?b = "\<lambda>t. FillHash const_crypto (demo_block\<lparr>Time := t\<rparr>)"
  have "valid_block const_crypto (?b t)" for t
    by (rule valid_FillHash)
      (use valid_demo_block in \<open>simp_all add: hash32_def const_crypto_def valid_block_def valid_header_def
        wf_header_def wf_body_def\<close>)
  from DecodeBlock_Encode [OF this, where rest = "[]"]
  have dec: "DecodeBlock const_crypto (EncodeBlock (?b t)) = (Ok (?b t), [])" for t by simp
  have t: "Time (?b t) = t" for t by (simp add: FillHash_def Let_def)
  have hash: "Hash (Header (?b 1)) = Hash (Header (?b 2))" and ne: "?b 1 \<noteq> ?b 2"
    by (simp add: FillHash_def Let_def Header_ComputeHash_def const_crypto_def) (use t [of 1] t [of 2] in fastforce)
  have "ParentHash (Header (?b 1)) @ BodyHash (Header (?b 1)) @ ExtraData (Header (?b 1)) =
      ParentHash (Header (?b 2)) @ BodyHash (Header (?b 2)) @ ExtraData (Header (?b 2))"
    by (simp add: FillHash_def Let_def Block_ComputeHash_def const_crypto_def)
  with block_hash_commits [OF dec [of 1] dec [of 2] hash ne]
  have "EncodeBlockSelf (?b 1) \<noteq> EncodeBlockSelf (?b 2) \<and>
      sha256 const_crypto (EncodeBlockSelf (?b 1)) = sha256 const_crypto (EncodeBlockSelf (?b 2))" by (simp only: Let_def simp_thms if_False)
  with dec t hash show ?thesis by (intro exI [of _ "?b 1"] exI [of _ "?b 2"]) simp
qed

end
