(* ===== verification/Packets.thy ===== *)
theory Packets
  imports Block
begin

text \<open>
  The messages of the node: the frames of \<^verbatim>\<open>network/packet.go\<close> and the chain messages of
  \<^verbatim>\<open>core/network/packets.go\<close>. A frame has a type byte and at most \<open>2 ^ 24 - 1\<close> bytes of data. A message of
  blocks carries full blocks and bare headers, told apart by a bit each.

  The lemmas show that every message that the node builds is read back as it was sent, and that reading
  a message always ends.
\<close>

section \<open>Frames\<close>

record packet =
  tp :: u8
  data :: bytes

definition decodePacket :: "packet reader" where
  "decodePacket =
     bindG (ReadFull 4) (\<lambda>buf.
     let x = le_word buf :: u32 in
     bindG (ReadFull (unat (x AND 0xffffff))) (\<lambda>d.
     ret \<lparr>tp = ucast (drop_bit 24 x), data = d\<rparr>))"

definition encodePacket :: "packet \<Rightarrow> bytes res" where
  "encodePacket p =
     (if 0xffffff < length (data p) then Err ErrPacketTooLarge
      else Ok ((le_bytes 4 (of_nat (length (data p)) :: u32))[3 := tp p] @ data p))"

section \<open>Chain messages\<close>

record PacketBlockRequest =
  MinId_req :: int
  Hash_req :: HashType

datatype body_item = FullBlock Block | BareHeader BlockHeader

record PacketBlocks =
  MinId :: int
  isFull :: bytes
  Body :: "body_item list"

definition DecodeBlockRequest :: "PacketBlockRequest reader" where
  "DecodeBlockRequest =
     bindG ReadUvarint (\<lambda>t.
     bindG (ReadFull 32) (\<lambda>h.
     ret \<lparr>MinId_req = int_of_u64 t, Hash_req = h\<rparr>))"

definition EncodeBlockRequest :: "PacketBlockRequest \<Rightarrow> bytes" where
  "EncodeBlockRequest p = PutUvarint (u64_of_int (MinId_req p)) @ Hash_req p"

definition IsFull :: "bytes \<Rightarrow> nat \<Rightarrow> bool res" where
  "IsFull fs i =
     (if i div 8 < length fs then Ok (drop_bit (i mod 8) (fs ! (i div 8)) AND 1 = 1) else Panic)"

definition Add :: "body_item \<Rightarrow> bool \<Rightarrow> PacketBlocks \<Rightarrow> PacketBlocks res" where
  "Add b full p =
     (let pos = length (Body p);
          fs = (if pos mod 8 = 0 then isFull p @ [0] else isFull p) in
      if full \<and> \<not> pos div 8 < length fs then Panic
      else Ok (p\<lparr>isFull := (if full then fs[pos div 8 := fs ! (pos div 8) OR push_bit (pos mod 8) 1] else fs),
                 Body := Body p @ [b]\<rparr>))"

definition NewPacketBlocks :: "int \<Rightarrow> PacketBlocks" where
  "NewPacketBlocks minId = \<lparr>MinId = minId, isFull = [], Body = []\<rparr>"

text \<open>Item \<open>i\<close> and the \<open>n - 1\<close> after it.\<close>

fun DecodeBody :: "crypto \<Rightarrow> bytes \<Rightarrow> nat \<Rightarrow> nat \<Rightarrow> body_item list reader" where
  "DecodeBody C fs i 0 = ret []"
| "DecodeBody C fs i (Suc n) =
     bindG (liftR (IsFull fs i)) (\<lambda>full.
     bindG (if full then bindG (DecodeBlock C) (\<lambda>b. ret (FullBlock b))
            else bindG (DecodeBlockHeader C) (\<lambda>h. ret (BareHeader h))) (\<lambda>b.
     bindG (DecodeBody C fs (Suc i) n) (\<lambda>bs. ret (b # bs))))"

definition DecodeBlocks :: "crypto \<Rightarrow> PacketBlocks reader" where
  "DecodeBlocks C =
     bindG ReadUvarint (\<lambda>t.
     bindG ReadUvarint (\<lambda>t2.
     let cnt = int_of_u64 t2 in
     if cnt < 0 then throw ErrNegativeBlockCount
     else if 114514 < cnt then throw ErrTooManyBlocks
     else
       bindG (ReadFull ((nat cnt + 7) div 8)) (\<lambda>fs.
       bindG (DecodeBody C fs 0 (nat cnt)) (\<lambda>body.
       ret \<lparr>MinId = int_of_u64 t, isFull = fs, Body = body\<rparr>))))"

text \<open>An item whose bit does not fit it fails the type assertion of the encoder.\<close>

fun EncodeBody :: "bytes \<Rightarrow> nat \<Rightarrow> body_item list \<Rightarrow> bytes res" where
  "EncodeBody fs i [] = Ok []"
| "EncodeBody fs i (b # bs) =
     (case IsFull fs i of
        Ok full \<Rightarrow>
          (case (full, b) of
             (True, FullBlock blk) \<Rightarrow>
               (case EncodeBody fs (Suc i) bs of Ok r \<Rightarrow> Ok (EncodeBlock blk @ r) | e \<Rightarrow> e)
           | (False, BareHeader h) \<Rightarrow>
               (case EncodeBody fs (Suc i) bs of Ok r \<Rightarrow> Ok (EncodeBlockHeader h @ r) | e \<Rightarrow> e)
           | _ \<Rightarrow> Panic)
      | Err e \<Rightarrow> Err e | Panic \<Rightarrow> Panic | Diverge \<Rightarrow> Diverge)"

definition EncodeBlocks :: "PacketBlocks \<Rightarrow> bytes res" where
  "EncodeBlocks p =
     (case EncodeBody (isFull p) 0 (Body p) of
        Ok r \<Rightarrow> Ok (PutUvarint (u64_of_int (MinId p)) @ PutUvarint (of_nat (length (Body p))) @ isFull p @ r)
      | e \<Rightarrow> e)"

text \<open>
  Transactions are read until the buffer is empty. Each takes at least a byte, so the length of the
  buffer bounds the loop.
\<close>

fun DecodeTransactions_loop :: "nat \<Rightarrow> Transaction list reader" where
  "DecodeTransactions_loop 0 r = (if r = [] then (Ok [], []) else (Diverge, r))"
| "DecodeTransactions_loop (Suc n) r =
     (if r = [] then (Ok [], [])
      else bindG DecodeTx (\<lambda>tx. bindG (DecodeTransactions_loop n) (\<lambda>txs. ret (tx # txs))) r)"

definition DecodeTransactions :: "Transaction list reader" where
  "DecodeTransactions r = DecodeTransactions_loop (length r) r"

definition EncodeTransactions :: "Transaction list \<Rightarrow> bytes" where
  "EncodeTransactions txs = concat (map EncodeTx txs)"

section \<open>Frames are read as they are written\<close>

lemma frame_header:
  fixes n :: u32 and t :: u8
  assumes "unat n < 2 ^ 24"
  defines "x \<equiv> le_word ((le_bytes 4 n)[3 := t]) :: u32"
  shows "x AND 0xffffff = n" and "ucast (drop_bit 24 x) = t"
proof -
  have x: "bit x i \<longleftrightarrow> (if i < 24 then bit n i else i < 32 \<and> bit t (i - 24))" for i
  proof (cases "i < 24")
    case True
    then have "i div 8 < 3" by simp
    with True show ?thesis by (simp add: x_def bit_le_word nth_le_bytes bit_simps)
  next
    case False
    then obtain j where j: "i = 24 + j" by (metis le_add_diff_inverse linorder_not_less)
    show ?thesis
    proof (cases "j < 8")
      case True
      with j have "i div 8 = 3" "i mod 8 = j" by presburger+
      with j True show ?thesis by (simp add: x_def bit_le_word)
    qed (simp add: j x_def bit_le_word)
  qed
  have n: "take_bit 24 n = n" using assms(1) by (simp add: word_unat_eq_iff unat_take_mod)
  have "x AND 0xffffff = take_bit 24 x" by (simp add: take_bit_eq_mask mask_numeral)
  also have "\<dots> = take_bit 24 n" by (rule bit_word_eqI) (simp add: bit_take_bit_iff x)
  finally show "x AND 0xffffff = n" using n by simp
  show "ucast (drop_bit 24 x) = t" by (rule bit_word_eqI) (simp add: bit_simps x)
qed

lemma decode_encode_packet:
  assumes "encodePacket p = Ok bs"
  shows "decodePacket (bs @ rest) = (Ok p, rest)"
proof -
  let ?n = "of_nat (length (data p)) :: u32"
  let ?buf = "(le_bytes 4 ?n)[3 := tp p]"
  from assms have len: "length (data p) < 2 ^ 24" and bs: "bs = ?buf @ data p"
    by (auto simp: encodePacket_def split: if_splits)
  have n: "unat ?n = length (data p)" using len by (simp add: unat_of_nat take_bit_nat_eq_self)
  have "unat ?n < 2 ^ 24" using n len by simp
  note h = frame_header [OF this, of "tp p"]
  have "ReadFull 4 (?buf @ data p @ rest) = (Ok ?buf, data p @ rest)" by (rule ReadFull_append) simp
  then show ?thesis by (simp only: bs append_assoc decodePacket_def bindG_Ok Let_def h n ReadFull_append ret_run) simp
qed

section \<open>The bits of a message of blocks\<close>

definition flag :: "bytes \<Rightarrow> nat \<Rightarrow> bool" where
  "flag fs i \<longleftrightarrow> i div 8 < length fs \<and> bit (fs ! (i div 8)) (i mod 8)"

definition item_full :: "body_item \<Rightarrow> bool" where
  "item_full b = (case b of FullBlock _ \<Rightarrow> True | BareHeader _ \<Rightarrow> False)"

definition wf_packet :: "PacketBlocks \<Rightarrow> bool" where
  "wf_packet p \<longleftrightarrow> length (isFull p) = (length (Body p) + 7) div 8
     \<and> (\<forall>i. flag (isFull p) i \<longleftrightarrow> i < length (Body p) \<and> item_full (Body p ! i))"

lemma IsFull_flag: "i div 8 < length fs \<Longrightarrow> IsFull fs i = Ok (flag fs i)"
  by (simp add: IsFull_def flag_def and_one_eq bit_iff_odd_drop_bit odd_iff_mod_2_eq_one)

lemma flag_extend: "flag (fs @ [0]) i \<longleftrightarrow> flag fs i"
  by (auto simp: flag_def nth_append less_Suc_eq)

lemma flag_set:
  assumes "k < length fs" and "j < 8"
  shows "flag (fs[k := fs ! k OR push_bit j 1]) i \<longleftrightarrow> flag fs i \<or> i = 8 * k + j"
proof (cases "i div 8 = k")
  case True
  have "i mod 8 = j \<longleftrightarrow> i = 8 * k + j" using True mult_div_mod_eq [of 8 i] by (intro iffI) linarith+
  with True assms show ?thesis by (auto simp: flag_def bit_simps)
next
  case False
  then have "i \<noteq> 8 * k + j" using assms(2) by auto
  with False assms(1) show ?thesis by (simp add: flag_def)
qed

lemma byte_count:
  fixes m :: nat
  shows "m mod 8 = 0 \<Longrightarrow> Suc ((m + 7) div 8) = (m + 8) div 8" and "m mod 8 \<noteq> 0 \<Longrightarrow> (m + 7) div 8 = (m + 8) div 8"
    and "m div 8 < (m + 8) div 8"
proof -
  define q r where "q = m div 8" and "r = m mod 8"
  then have m: "m = 8 * q + r" and r: "r < 8" by simp_all
  have "(m + 7) div 8 = (if r = 0 then q else Suc q)" using r unfolding m by auto
  moreover have "(m + 8) div 8 = Suc (m div 8)" by simp
  ultimately show "m mod 8 = 0 \<Longrightarrow> Suc ((m + 7) div 8) = (m + 8) div 8"
    and "m mod 8 \<noteq> 0 \<Longrightarrow> (m + 7) div 8 = (m + 8) div 8" and "m div 8 < (m + 8) div 8"
    by (simp_all add: q_def r_def)
qed

lemma Add_wf:
  assumes "wf_packet p"
  obtains p' where "Add b (item_full b) p = Ok p'" and "wf_packet p'" and "Body p' = Body p @ [b]" and "MinId p' = MinId p"
proof -
  let ?pos = "length (Body p)"
  let ?fs = "if ?pos mod 8 = 0 then isFull p @ [0] else isFull p"
  let ?gs = "if item_full b then ?fs[?pos div 8 := ?fs ! (?pos div 8) OR push_bit (?pos mod 8) 1] else ?fs"
  from assms have l: "length (isFull p) = (?pos + 7) div 8"
    and f: "\<And>i. flag (isFull p) i \<longleftrightarrow> i < ?pos \<and> item_full (Body p ! i)" by (auto simp: wf_packet_def)
  have len: "length ?fs = (?pos + 1 + 7) div 8" "?pos div 8 < length ?fs"
    using l byte_count [of ?pos] by (simp_all add: add.commute)
  have fs: "flag ?fs i \<longleftrightarrow> i < ?pos \<and> item_full (Body p ! i)" for i
    using f by (simp add: flag_extend)
  have "flag ?gs i \<longleftrightarrow> i < ?pos + 1 \<and> item_full ((Body p @ [b]) ! i)" for i
  proof -
    have "8 * (?pos div 8) + ?pos mod 8 = ?pos" by simp
    then have "item_full b \<Longrightarrow> flag ?gs i \<longleftrightarrow> flag ?fs i \<or> i = ?pos"
      using flag_set [OF len(2), of "?pos mod 8" i] by (simp only: if_True)
    then show ?thesis using fs [of i] by (auto simp: nth_append less_Suc_eq)
  qed
  moreover have "length ?gs = (?pos + 1 + 7) div 8" using len(1) by simp
  ultimately have "wf_packet (p\<lparr>isFull := ?gs, Body := Body p @ [b]\<rparr>)" by (simp add: wf_packet_def)
  moreover have "Add b (item_full b) p = Ok (p\<lparr>isFull := ?gs, Body := Body p @ [b]\<rparr>)"
    using len(2) by (simp add: Add_def Let_def)
  ultimately show thesis by (intro that [of "p\<lparr>isFull := ?gs, Body := Body p @ [b]\<rparr>"]) simp_all
qed

section \<open>Messages of blocks\<close>

fun add_all :: "body_item list \<Rightarrow> PacketBlocks \<Rightarrow> PacketBlocks res" where
  "add_all [] p = Ok p"
| "add_all (b # bs) p = (case Add b (item_full b) p of Ok p' \<Rightarrow> add_all bs p' | e \<Rightarrow> e)"

lemma add_all_wf:
  assumes "wf_packet p"
  shows "\<exists>p'. add_all bs p = Ok p' \<and> wf_packet p' \<and> Body p' = Body p @ bs \<and> MinId p' = MinId p"
  using assms
proof (induction bs arbitrary: p)
  case (Cons b bs)
  obtain p1 where "Add b (item_full b) p = Ok p1" "wf_packet p1" "Body p1 = Body p @ [b]" "MinId p1 = MinId p"
    using Add_wf [OF Cons.prems] .
  with Cons.IH [of p1] show ?case by auto
qed simp

lemma wf_NewPacketBlocks: "wf_packet (NewPacketBlocks i)"
  by (simp add: wf_packet_def NewPacketBlocks_def flag_def)

definition valid_item :: "crypto \<Rightarrow> body_item \<Rightarrow> bool" where
  "valid_item C b = (case b of FullBlock blk \<Rightarrow> valid_block C blk | BareHeader h \<Rightarrow> valid_header C h)"

definition encode_item :: "body_item \<Rightarrow> bytes" where
  "encode_item b = (case b of FullBlock blk \<Rightarrow> EncodeBlock blk | BareHeader h \<Rightarrow> EncodeBlockHeader h)"

lemma bindG_liftR: "bindG (liftR (Ok x)) f s = f x s"
  by (simp add: bindG_def liftR_run)

lemma body_roundtrip:
  assumes "\<forall>j < length bs. IsFull fs (i + j) = Ok (item_full (bs ! j))" and "list_all (valid_item C) bs"
  shows "EncodeBody fs i bs = Ok (concat (map encode_item bs))
    \<and> DecodeBody C fs i (length bs) (concat (map encode_item bs) @ rest) = (Ok bs, rest)"
  using assms
proof (induction bs arbitrary: i)
  case (Cons b bs)
  from Cons.prems(1) have f: "IsFull fs i = Ok (item_full b)" by force
  have "\<forall>j < length bs. IsFull fs (Suc i + j) = Ok (item_full (bs ! j))"
    using Cons.prems(1) by (metis add_Suc_shift length_Cons not_less_eq nth_Cons_Suc)
  with Cons.IH [of "Suc i"] Cons.prems(2) f show ?case
    by (cases b) (simp_all add: item_full_def encode_item_def valid_item_def bindG_liftR bindG_Ok ret_run
        DecodeBlock_Encode DecodeBlockHeader_Encode)
qed (simp add: ret_run)

lemma blocks_roundtrip:
  assumes wf: "wf_packet p" and v: "list_all (valid_item C) (Body p)" and n: "length (Body p) \<le> 114514"
    and m: "- (2 ^ 63) \<le> MinId p" "MinId p < 2 ^ 63"
  shows "\<exists>bs. EncodeBlocks p = Ok bs \<and> DecodeBlocks C (bs @ rest) = (Ok p, rest)"
proof -
  let ?n = "length (Body p)"
  have fl: "\<forall>j < ?n. IsFull (isFull p) (0 + j) = Ok (item_full (Body p ! j))"
  proof (intro allI impI)
    fix j assume j: "j < ?n"
    then have "j div 8 < length (isFull p)" using wf unfolding wf_packet_def by linarith
    then show "IsFull (isFull p) (0 + j) = Ok (item_full (Body p ! j))"
      using wf j by (simp add: IsFull_flag wf_packet_def)
  qed
  note b = body_roundtrip [OF fl v]
  have cnt: "int_of_u64 (of_nat ?n) = int ?n"
    using int_of_u64_u64_of_int [of "int ?n"] n by (simp add: u64_of_int_def)
  have len: "length (isFull p) = (?n + 7) div 8" using wf by (simp add: wf_packet_def)
  let ?r = "concat (map encode_item (Body p))"
  have "DecodeBlocks C (PutUvarint (u64_of_int (MinId p)) @ PutUvarint (of_nat ?n) @ isFull p @ ?r @ rest) = (Ok p, rest)"
    using n len b m cnt by (cases p) (simp add: DecodeBlocks_def bindG_Ok Let_def int_of_u64_u64_of_int ret_run)
  with b show ?thesis by (simp add: EncodeBlocks_def)
qed

definition PktChain :: u8 where "PktChain = 4"
definition PktBlockRequest :: u8 where "PktBlockRequest = 1"
definition PktBlocks :: u8 where "PktBlocks = 2"
definition PktTransactions :: u8 where "PktTransactions = 3"

text \<open>
  C38: a message of blocks arrives as it was sent. For any mixture of valid blocks and headers, up to the
  number the reader accepts, building the message, encoding it, and framing it for the network gives
  bytes from which a reader gets the same frame and the same message, with what follows left over.
\<close>

theorem blocks_message_roundtrip:
  assumes v: "list_all (valid_item C) items" and n: "length items \<le> 114514"
    and m: "- (2 ^ 63) \<le> minId" "minId < 2 ^ 63"
  shows "\<exists>p bs. add_all items (NewPacketBlocks minId) = Ok p \<and> Body p = items \<and> MinId p = minId
    \<and> EncodeBlocks p = Ok bs \<and> DecodeBlocks C (bs @ rest) = (Ok p, rest)
    \<and> (\<forall>fr. encodePacket \<lparr>tp = PktChain, data = PktBlocks # bs\<rparr> = Ok fr \<longrightarrow>
         decodePacket (fr @ rest) = (Ok \<lparr>tp = PktChain, data = PktBlocks # bs\<rparr>, rest))"
proof -
  obtain p where p: "add_all items (NewPacketBlocks minId) = Ok p" "wf_packet p" "Body p = items" "MinId p = minId"
    using add_all_wf [OF wf_NewPacketBlocks, of items minId] by (auto simp: NewPacketBlocks_def)
  obtain bs where "EncodeBlocks p = Ok bs" "DecodeBlocks C (bs @ rest) = (Ok p, rest)"
    using blocks_roundtrip [of p C rest] p v n m by auto
  with p decode_encode_packet show ?thesis by blast
qed

theorem blocks_message_roundtrip_witness:
  "\<exists>p bs. add_all [FullBlock demo_block, BareHeader (Header demo_block)] (NewPacketBlocks 7) = Ok p
    \<and> EncodeBlocks p = Ok bs \<and> DecodeBlocks demo_crypto (bs @ [5]) = (Ok p, [5])"
  using blocks_message_roundtrip [of demo_crypto "[FullBlock demo_block, BareHeader (Header demo_block)]" 7 "[5]"]
    valid_demo_block by (auto simp: valid_item_def valid_block_def)

section \<open>Messages of transactions\<close>

text \<open>Readers never lengthen the buffer and end; reading a transaction shortens the buffer.\<close>

definition consumes :: "'a reader \<Rightarrow> bool" where
  "consumes m \<longleftrightarrow> (\<forall>r. fst (m r) \<noteq> Diverge \<and> length (snd (m r)) \<le> length r)"

named_theorems consumes_intro "readers that end and never lengthen the buffer"

lemma consumes_basic [consumes_intro]:
  "consumes ReadByte" "consumes (ReadFull n)" "consumes (ret x)" "consumes (throw e)"
  by (auto simp: consumes_def ReadByte_def ReadFull_def ret_run throw_run split: list.splits)

lemma consumes_bindG [consumes_intro]:
  assumes "consumes m" and "\<And>x. consumes (f x)"
  shows "consumes (bindG m f)"
  unfolding consumes_def
proof
  fix r
  obtain q t where m: "m r = (q, t)" by (cases "m r")
  with assms(1) have 1: "q \<noteq> Diverge" "length t \<le> length r" unfolding consumes_def by (metis fst_conv snd_conv)+
  have 2: "fst (f x t) \<noteq> Diverge \<and> length (snd (f x t)) \<le> length t" for x using assms(2) by (simp add: consumes_def)
  show "fst (bindG m f r) \<noteq> Diverge \<and> length (snd (bindG m f r)) \<le> length r"
  proof (cases q)
    case (Ok x)
    with m 1 2 [of x] show ?thesis by (simp add: bindG_def)
  qed (use m 1 in \<open>simp_all add: bindG_def\<close>)
qed

lemma consumes_if [consumes_intro]: "consumes m \<Longrightarrow> consumes k \<Longrightarrow> consumes (if b then m else k)"
  by simp

lemma consumes_prod [consumes_intro]: "(\<And>a b. consumes (f a b)) \<Longrightarrow> consumes (case z of (a, b) \<Rightarrow> f a b)"
  by (cases z) simp

lemma consumes_ReadUvarint [consumes_intro]: "consumes ReadUvarint"
proof -
  have "consumes (ReadUvarint_loop n x s)" for n x s
    by (induction n arbitrary: x s) (auto intro!: consumes_intro)
  then show ?thesis by (simp add: ReadUvarint_def)
qed

lemma DecodeTx_shrinks:
  assumes "r \<noteq> []"
  shows "fst (DecodeTx r) \<noteq> Diverge" and "length (snd (DecodeTx r)) < length r"
proof -
  obtain b bs where r: "r = b # bs" using assms by (cases r) auto
  have "\<exists>f. DecodeTx = bindG ReadByte f \<and> (\<forall>x. consumes (f x))"
    unfolding DecodeTx_def by (rule exI, rule conjI, rule refl, intro allI consumes_intro)
  then obtain f where f: "DecodeTx = bindG ReadByte f" "\<And>x. consumes (f x)" by blast
  have "DecodeTx r = f b bs" unfolding r f(1) by (simp add: bindG_Ok)
  with f(2) show "fst (DecodeTx r) \<noteq> Diverge" and "length (snd (DecodeTx r)) < length r"
    unfolding consumes_def r by (auto simp: le_imp_less_Suc)
qed

lemma DecodeTransactions_ends: "length r \<le> n \<Longrightarrow> fst (DecodeTransactions_loop n r) \<noteq> Diverge"
proof (induction n arbitrary: r)
  case (Suc n)
  show ?case
  proof (cases "r = []")
    case False
    obtain q t where d: "DecodeTx r = (q, t)" by (cases "DecodeTx r")
    with DecodeTx_shrinks [OF False] have q: "q \<noteq> Diverge" "length t < length r" by simp_all
    with Suc have "fst (DecodeTransactions_loop n t) \<noteq> Diverge" by simp
    then show ?thesis
      using False d q by (cases q) (auto simp: bindG_def ret_run split: prod.splits res.splits)
  qed simp
qed simp

lemma DecodeTransactions_loop_run:
  "list_all canon_tx txs \<Longrightarrow> length (concat (map EncodeTx txs)) \<le> n \<Longrightarrow>
    DecodeTransactions_loop n (concat (map EncodeTx txs)) = (Ok txs, [])"
proof (induction txs arbitrary: n)
  case Nil
  then show ?case by (cases n) simp_all
next
  case (Cons tx txs)
  have ne: "EncodeTx tx \<noteq> []" by (simp add: EncodeTx_def)
  then have "0 < length (EncodeTx tx)" by blast
  then have "length (concat (map EncodeTx txs)) < n" using Cons.prems(2) by (simp del: length_greater_0_conv)
  then obtain k where n: "n = Suc k" "length (concat (map EncodeTx txs)) \<le> k" by (cases n) auto
  have "canon_tx tx" "list_all canon_tx txs" using Cons.prems(1) by simp_all
  with Cons.IH [of k] n ne DecodeTx_EncodeTx_append [of tx "concat (map EncodeTx txs)"] show ?case
    by (simp add: bindG_Ok ret_run)
qed

text \<open>
  Messages of transactions. Reading such a message ends on every input, in a list or an error, and
  reading what was written for a list of transactions gives the list.
\<close>

lemma DecodeTransactions_spec:
  "fst (DecodeTransactions r) \<noteq> Diverge
   \<and> (list_all canon_tx txs \<longrightarrow> DecodeTransactions (EncodeTransactions txs) = (Ok txs, []))"
  unfolding DecodeTransactions_def EncodeTransactions_def
  using DecodeTransactions_ends [OF order_refl] DecodeTransactions_loop_run [OF _ order_refl] by blast

lemma DecodeTransactions_spec_witness:
  "DecodeTransactions (EncodeTransactions [demo_tx, demo_tx]) = (Ok [demo_tx, demo_tx], [])"
  using DecodeTransactions_spec [of "[]" "[demo_tx, demo_tx]"] canon_demo_tx by simp

end
