(* ===== verification/Error_Text.thy ===== *)
theory Error_Text
  imports Prelude
begin

text \<open>
  The text of an error, \<^verbatim>\<open>err.Error()\<close>. A contract that makes a protected call gets the text of the
  error the callee ended with, so the texts are part of what every node must agree on.
\<close>

fun dec_digits :: "nat \<Rightarrow> string" where
  "dec_digits n = (if n < 10 then [] else dec_digits (n div 10)) @ [char_of (48 + n mod 10)]"

declare dec_digits.simps [simp del]

definition dec_int :: "int \<Rightarrow> string" where
  "dec_int i = (if i < 0 then ''-'' @ dec_digits (nat (- i)) else dec_digits (nat i))"

definition dec_word :: "'a::len word \<Rightarrow> string" where
  "dec_word w = dec_digits (unat w)"

definition string_bytes :: "string \<Rightarrow> bytes" where
  "string_bytes s = map of_char s"

text \<open>\<^verbatim>\<open>hex.EncodeToString\<close>: two lower-case digits a byte.\<close>

definition hex_digit :: "nat \<Rightarrow> char" where
  "hex_digit d = (if d < 10 then char_of (48 + d) else char_of (87 + d))"

definition hex_bytes :: "bytes \<Rightarrow> string" where
  "hex_bytes bs = concat (map (\<lambda>b. [hex_digit (unat b div 16), hex_digit (unat b mod 16)]) bs)"

fun elf_text :: "elf_error \<Rightarrow> string" where
  "elf_text (ElfTooSmall n) = ''size too small ('' @ dec_digits n @ '' < 0x40)''"
| "elf_text (ElfTooLarge n) = ''size too large ('' @ dec_digits n @ '')''"
| "elf_text ElfMagic = ''header magic mismatch''"
| "elf_text ElfArch = ''arch mismatch''"
| "elf_text (ElfEntry e) = ''entry point too large: '' @ dec_word e"
| "elf_text (ElfHeaderOffset i) = ''program header offset invalid: '' @ dec_int i"
| "elf_text (ElfSizeTooSmall n i) = ''size too small ('' @ dec_digits n @ '' < '' @ dec_int i @ '')''"
| "elf_text (ElfHeaderEntrySize i) = ''invalid ELF: program header entry size invalid ('' @ dec_int i @ '' != 56)''"
| "elf_text (ElfSegmentType t) = ''segment type '' @ dec_word t @ '' unsupported''"
| "elf_text (ElfAlign a) = ''align '' @ dec_word a @ '' unsupported''"
| "elf_text (ElfOffset x) = ''offset too large: '' @ dec_word x"
| "elf_text (ElfVaddr x) = ''vaddr too large: '' @ dec_word x"
| "elf_text (ElfMemsz x) = ''memsz too large: '' @ dec_word x"
| "elf_text (ElfMemszFilesz x y) = ''memsz smaller than filesz: '' @ dec_word x @ '' < '' @ dec_word y"
| "elf_text (ElfVaddrAlign x) = ''vaddr not aligned: '' @ dec_word x"
| "elf_text (ElfOffsetAlign x) = ''offset not aligned: '' @ dec_word x"
| "elf_text ElfFirstSegment = ''unsupported first segment''"
| "elf_text ElfTrimFirst = ''can'' @ [CHR 0x27] @ ''t trim first segment''"

fun vm_text :: "vm_error \<Rightarrow> string" where
  "vm_text ErrIllegalInstruction = ''illegal instruction''"
| "vm_text ErrInsufficientGas = ''insufficient gas''"
| "vm_text ErrDivision = ''division error''"
| "vm_text ErrUnalignedMemoryAccess = ''unaligned memory access''"
| "vm_text ErrIllegalPc = ''illegal pc''"
| "vm_text ErrSegFault = ''segmentation fault''"
| "vm_text ErrTooManyPrograms = ''too many Programs''"
| "vm_text ErrCodeTooLong = ''code too long''"
| "vm_text (ErrLoadOffsetAlign w) = ''load offset '' @ dec_word w @ '' not aligned''"
| "vm_text ErrOnlyBlock1 = ''can only load to block 1''"
| "vm_text (ErrPageId w) = ''page id '' @ dec_word w @ '' too large''"
| "vm_text (ErrPageAllocated w) = ''page '' @ dec_word w @ '' already allocated''"
| "vm_text (ErrLoadOffsetLarge w) = ''load offset '' @ dec_word w @ '' too large''"
| "vm_text (ErrElfPages w) = ''unsupported ELF: too many pages: '' @ dec_word w"
| "vm_text (ErrElfSpan w) = ''unsupported ELF: segment not in one memory block (end='' @ dec_word w @ '')''"
| "vm_text (ErrElfBlock w) = ''unsupported ELF: unknown block id '' @ dec_word w"
| "vm_text (ErrElfPageId w) = ''unsupported ELF: page id '' @ dec_word w @ '' too large''"
| "vm_text (ErrElfPageAllocated w) = ''unsupported ELF: page '' @ dec_word w @ '' already allocated''"
| "vm_text (ErrElfRx w) = ''invalid ELF: block 1 only supports rx (required '' @ dec_word w @ '')''"
| "vm_text (ErrElfRw b w) = ''invalid ELF: block '' @ dec_word b @ '' only supports rw (required '' @ dec_word w @ '')''"

text \<open>
  \<open>ErrEOF\<close> and the errors of a slice file never reach a contract; \<^const>\<open>ErrEOF\<close>, which stands for two
  errors of \<^verbatim>\<open>io\<close>, is given the text of the first.
\<close>

fun Error :: "error \<Rightarrow> bytes" where
  "Error ErrEOF = string_bytes ''EOF''"
| "Error ErrVarintOverflow = string_bytes ''binary: varint overflows a 64-bit integer''"
| "Error ErrFreezedLoad = string_bytes ''load to a freezed slice''"
| "Error ErrNonemptyLoad = string_bytes ''load to a nonempty slice''"
| "Error (ErrLoadSlice e) = string_bytes ''error when loading slice: '' @ Error e"
| "Error ErrInvalidDataLength = string_bytes ''invalid data length''"
| "Error ErrHeaderHashMismatch = string_bytes ''block header hash mismatch''"
| "Error ErrBodyHashMismatch = string_bytes ''block body hash mismatch''"
| "Error ErrTooMuchTransactions = string_bytes ''too much transactions''"
| "Error (ErrElf e) = string_bytes (elf_text e)"
| "Error (ErrVm e) = string_bytes (vm_text e)"
| "Error (ErrInvalidElf e) = string_bytes ''invalid ELF: '' @ Error e"
| "Error ErrInvalidJumpDest = string_bytes ''invalid jump dest''"
| "Error ErrInvalidSyscall = string_bytes ''invalid syscall''"
| "Error ErrIllegalSyscallParameters = string_bytes ''illegal syscall parameters''"
| "Error ErrInsufficientBalance = string_bytes ''insufficient balance''"
| "Error ErrContractNotExist = string_bytes ''contract not exist''"
| "Error ErrIllegalEntry = string_bytes ''illegal entry''"
| "Error ErrContractExists = string_bytes ''contract exists''"
| "Error (ErrReverted msg) = string_bytes ''reverted: '' @ msg"
| "Error ErrWrongTxType = string_bytes ''wrong tx type''"
| "Error ErrSignatureMismatch = string_bytes ''signature mismatch''"
| "Error ErrIntegerOverflow = string_bytes ''integer overflow''"
| "Error ErrBalanceNotEnough = string_bytes ''balance not enough''"
| "Error ErrNonceMismatch = string_bytes ''nonce mismatch''"
| "Error ErrNegativeBlockCount = string_bytes ''negative block count''"
| "Error ErrTooManyBlocks = string_bytes ''too many blocks''"
| "Error ErrPacketTooLarge = string_bytes ''packet too large''"
| "Error ErrAddrLen = string_bytes ''addr len invalid''"
| "Error ErrAddrPrefix = string_bytes ''addr prefix mismatch''"
| "Error ErrAddrType = string_bytes ''addr type invalid''"
| "Error ErrAddrChecksum = string_bytes ''addr checksum invalid''"
| "Error (ErrBase58 msg) = msg"
| "Error (ErrOs msg) = msg"
| "Error ErrInitHeight = string_bytes ''init slice must have height 0''"
| "Error (ErrCreateEngine e) = string_bytes ''error when creating storage engine: '' @ Error e"
| "Error (ErrLoadEngine e) = string_bytes ''error when loading storage engine: '' @ Error e"
| "Error ErrNotFreezed = string_bytes ''not freezed yet''"
| "Error ErrKeyExists = string_bytes ''key already exists in storage engine''"
| "Error ErrParentMissing = string_bytes ''parent not exist in storage engine''"
| "Error (ErrReadKey h e) = string_bytes (''failed to read key of height '' @ dec_int h @ '': '') @ Error e"
| "Error (ErrReadData k h e) =
     string_bytes (''failed to read data at slice '' @ hex_bytes k @ '' height '' @ dec_int h @ '': '') @ Error e"
| "Error ErrSeekMismatch = string_bytes ''file seek mismatch''"
| "Error ErrRecycleHeight = string_bytes ''recycle queue height mismatch''"
| "Error ErrBlockHashMismatch = string_bytes ''block hash mismatch, possibly wrong height''"
| "Error ErrTooHigh = string_bytes ''too high, no such block''"
| "Error (ErrInvalidChain i mh hs my) =
     string_bytes (''invalid chain: id='' @ dec_int i @ '' mh='' @ dec_int mh @ '' hs='' @ hex_bytes hs @ '' my='' @ hex_bytes my)"
| "Error (ErrGetBlock e) = string_bytes ''getblock error: '' @ Error e"
| "Error ErrTxNotFound = string_bytes ''transaction not found''"
| "Error ErrBlockNotFound = string_bytes ''block not found''"
| "Error ErrBlockReorged = string_bytes ''block reorged''"
| "Error ErrGenesisHash = string_bytes ''header hash mismatch''"
| "Error ErrConsensusRejected = string_bytes ''consensus rejected''"
| "Error (ErrInitNode e) = string_bytes ''failed to init node: '' @ Error e"
| "Error ErrNetworkIdMismatch = string_bytes ''peer network id mismatch''"
| "Error ErrSelf = string_bytes ''conneting to self''"
| "Error (ErrJson msg) = msg"
| "Error ErrUnknownPacket = string_bytes ''unknown packet type''"

end
