(* ===== verification/Network.thy ===== *)
theory Network
  imports Packets Error_Text
begin

text \<open>
  The connections to other nodes, \<^verbatim>\<open>network/peer.go\<close> and \<^verbatim>\<open>network/client.go\<close>: the handshake of a connection and its
  three loops, and the client that accepts, dials, answers, relays and discards peers.

  A connection is the bytes that have arrived and those that have been written. The channels are lists; that
  a full channel blocks is not modelled. A turn of a loop is an operation; what the system decides (the time,
  the outcome of a dial or of \<^verbatim>\<open>Accept\<close>, random numbers, the order in which Go ranges over a map, which case of a
  select is taken) is an argument. A goroutine that an operation starts is an entry of \<open>tasks\<close>, and running it is
  an operation of its own. The JSON text of a list of strings is an argument, \<open>json\<close>.

  The lemmas show that two nodes accept each other's handshake exactly when they are in the same network, that
  the tables of peers and of their addresses always agree, and to whom a message goes.
\<close>

section \<open>Connections\<close>

definition PktHeartBeat :: u8 where "PktHeartBeat = 1"
definition PktFindPeer :: u8 where "PktFindPeer = 2"
definition PktPeerInfo :: u8 where "PktPeerInfo = 3"

definition PeerHelloSalt :: bytes where "PeerHelloSalt = string_bytes ''Tc01n_1111aa''"
definition PeerHelloNonceLen :: nat where "PeerHelloNonceLen = 8"

record Peer =
  peer_id :: int
  conn_in :: bytes
  conn_out :: bytes
  wq :: "packet list"
  stop_signals :: nat
  stopped_signals :: nat
  conn_closed :: bool

definition hello_hash :: "crypto \<Rightarrow> bytes \<Rightarrow> u16 \<Rightarrow> bytes" where
  "hello_hash C rnd nid = take 8 (sha256 C (rnd @ PeerHelloSalt @ le_bytes 2 nid))"

text \<open>
  The handshake. \<open>rnd\<close> are the eight random bytes of this side; the other side's are checked with the same
  salt and network id.
\<close>

definition check_hello :: "crypto \<Rightarrow> u16 \<Rightarrow> bytes \<Rightarrow> bytes \<Rightarrow> unit res" where
  "check_hello C nid cnonce buf =
     (if sub_bytes PeerHelloNonceLen (PeerHelloNonceLen + 8) buf \<noteq> hello_hash C (take PeerHelloNonceLen buf) nid
      then Err ErrNetworkIdMismatch
      else if drop (PeerHelloNonceLen + 8) buf = cnonce then Err ErrSelf
      else Ok ())"

definition peer_hello :: "crypto \<Rightarrow> bytes \<Rightarrow> u16 \<Rightarrow> bytes \<Rightarrow> bytes" where
  "peer_hello C rnd nid cnonce = rnd @ hello_hash C rnd nid @ cnonce"

definition NewPeer :: "crypto \<Rightarrow> int \<Rightarrow> bytes \<Rightarrow> u16 \<Rightarrow> bytes \<Rightarrow> bytes \<Rightarrow> Peer res" where
  "NewPeer C pid rnd nid cnonce arrived =
     (let hello = peer_hello C rnd nid cnonce in
      case ReadFull (PeerHelloNonceLen + 8 + length cnonce) arrived of
        (Ok buf, rest) \<Rightarrow>
          (case check_hello C nid cnonce buf of
             Ok _ \<Rightarrow> Ok \<lparr>peer_id = pid, conn_in = rest, conn_out = hello, wq = [], stop_signals = 0, stopped_signals = 0, conn_closed = False\<rparr>
           | Err e \<Rightarrow> Err e | Panic \<Rightarrow> Panic | Diverge \<Rightarrow> Diverge)
      | (Err e, _) \<Rightarrow> Err e | (Panic, _) \<Rightarrow> Panic | (Diverge, _) \<Rightarrow> Diverge)"

definition Peer_istop :: "Peer \<Rightarrow> Peer" where
  "Peer_istop p = p\<lparr>stop_signals := stop_signals p + 5, stopped_signals := stopped_signals p + 1, conn_closed := True\<rparr>"

text \<open>\<^verbatim>\<open>Stop\<close> waits for four signals, one of its own and one of each loop; \<^const>\<open>None\<close> is waiting on.\<close>

definition Peer_Stop_wait :: "Peer \<Rightarrow> Peer option" where
  "Peer_Stop_wait p = (if stopped_signals p < 4 then None else Some (p\<lparr>stopped_signals := stopped_signals p - 4 + 1\<rparr>))"

definition Peer_Stopped :: "Peer \<Rightarrow> bool" where
  "Peer_Stopped p \<longleftrightarrow> 0 < stopped_signals p"

text \<open>A turn of the reading loop. The result is a packet for the client; the flag says that the loop ends.\<close>

definition Peer_readLoop_turn :: "Peer \<Rightarrow> (int \<times> packet) option \<times> bool \<times> Peer" where
  "Peer_readLoop_turn p =
     (case decodePacket (conn_in p) of
        (Ok pk, rest) \<Rightarrow>
          if 0 < stop_signals p
          then (None, True, Peer_istop (p\<lparr>conn_in := rest, stop_signals := stop_signals p - 1\<rparr>))
          else (Some (peer_id p, pk), False, p\<lparr>conn_in := rest\<rparr>)
      | (_, rest) \<Rightarrow> (None, True, Peer_istop (p\<lparr>conn_in := rest\<rparr>)))"

text \<open>A turn of the writing loop; \<open>stopping\<close> says which of the two cases the select takes when both are ready.\<close>

definition Peer_writeLoop_turn :: "bool \<Rightarrow> Peer \<Rightarrow> bool \<times> Peer" where
  "Peer_writeLoop_turn stopping p =
     (if 0 < stop_signals p \<and> (stopping \<or> wq p = []) then (True, Peer_istop (p\<lparr>stop_signals := stop_signals p - 1\<rparr>))
      else case wq p of
          [] \<Rightarrow> (False, p)
        | pk # pks \<Rightarrow>
            (case encodePacket pk of
               Ok bs \<Rightarrow> (False, p\<lparr>wq := pks, conn_out := conn_out p @ bs\<rparr>)
             | _ \<Rightarrow> (True, Peer_istop (p\<lparr>wq := pks\<rparr>))))"

definition Peer_heartBeat_turn :: "bool \<Rightarrow> Peer \<Rightarrow> bool \<times> Peer" where
  "Peer_heartBeat_turn stopping p =
     (let p1 = p\<lparr>wq := wq p @ [\<lparr>tp = PktHeartBeat, data = []\<rparr>]\<rparr> in
      if 0 < stop_signals p \<and> stopping then (True, Peer_istop (p1\<lparr>stop_signals := stop_signals p - 1\<rparr>)) else (False, p1))"

section \<open>The client\<close>

record json_codec =
  json_Marshal :: "bytes list \<Rightarrow> bytes"
  json_Unmarshal :: "bytes \<Rightarrow> bytes list res"

record ClientConfig =
  net_Port :: int
  net_MaxConnections :: int
  net_Path :: bytes

datatype task = TryConn int bytes | Handshake int bytes | Discard int int | CloseConn bytes | StopPeer int Peer | PublishPeers "bytes list"

record Client =
  net_config :: ClientConfig
  peers :: "int \<rightharpoonup> Peer option"
  peerCon :: "int \<rightharpoonup> bytes"
  ccp :: "(int \<times> bytes) list"
  cpp :: "(int \<times> packet) list"
  peerInfo :: "bytes \<rightharpoonup> int"
  peerBanTime :: "bytes \<rightharpoonup> int"
  allPeers :: "int list"
  allPeerCons :: "bytes list"
  sendPeers :: bytes
  peers_file :: "bytes option"
  networkId :: u16
  nonce :: bytes
  net_stop :: nat
  net_stopped :: nat
  net_listening :: bool
  tasks :: "task list"

definition sec :: int where "sec = 10 ^ 9"

definition connStrId :: "crypto \<Rightarrow> bytes \<Rightarrow> int" where
  "connStrId C s = int_of_u64 (le_word (take 8 (sha256 C s)) AND 0xfffffffffffffff) + 1"

text \<open>\<open>tasks\<close> are the goroutines that have been started and have not run yet.\<close>

definition spawn :: "task \<Rightarrow> Client \<Rightarrow> Client" where
  "spawn t c = c\<lparr>tasks := tasks c @ [t]\<rparr>"

definition countPeers :: "Client \<Rightarrow> int" where
  "countPeers c = int (card (dom (peers c)))"

definition AddPeers :: "int \<Rightarrow> bytes list \<Rightarrow> Client \<Rightarrow> Client" where
  "AddPeers now ps c =
     foldl (\<lambda>c s. if length s < 100 \<and> peerInfo c s = None
                   then c\<lparr>peerInfo := (peerInfo c)(s \<mapsto> now - 300 * sec)\<rparr> else c) c ps"

text \<open>A peer that is discarded is stopped once the lock has been given back.\<close>

definition DiscardPeer :: "int \<Rightarrow> int \<Rightarrow> int \<Rightarrow> Client \<Rightarrow> Client" where
  "DiscardPeer now pid banTime c =
     (let c1 = c\<lparr>peerCon := (peerCon c)(pid := None),
                 peerBanTime := (case peerCon c pid of None \<Rightarrow> peerBanTime c | Some con \<Rightarrow> (peerBanTime c)(con \<mapsto> now + banTime)),
                 peers := (peers c)(pid := None)\<rparr> in
      case peers c pid of Some (Some p) \<Rightarrow> spawn (StopPeer pid p) c1 | _ \<Rightarrow> c1)"

text \<open>The two halves of \<^verbatim>\<open>handleConn\<close>: the entry, and what the goroutine does with the outcome of the handshake.\<close>

definition handleConn :: "int \<Rightarrow> bytes \<Rightarrow> Client \<Rightarrow> Client" where
  "handleConn pid remote c = spawn (Handshake pid remote) (c\<lparr>peers := (peers c)(pid \<mapsto> None)\<rparr>)"

definition handshake_done :: "int \<Rightarrow> int \<Rightarrow> bytes \<Rightarrow> Peer res \<Rightarrow> Client \<Rightarrow> Client" where
  "handshake_done now pid remote r c =
     (case r of
        Ok p \<Rightarrow>
          if peers c pid = None \<or> peers c pid = Some None
          then c\<lparr>peers := (peers c)(pid \<mapsto> Some p), peerCon := (peerCon c)(pid \<mapsto> remote)\<rparr>
          else c
      | Err e \<Rightarrow>
          if e = ErrNetworkIdMismatch \<or> e = ErrSelf then DiscardPeer now pid (100000 * 3600 * sec) c
          else DiscardPeer now pid (120 * sec) c
      | _ \<Rightarrow> c)"

definition listen_turn :: "crypto \<Rightarrow> bytes \<Rightarrow> Client \<Rightarrow> Client" where
  "listen_turn C remote c =
     (let pid = connStrId C remote in
      if peers c pid = None then
        if countPeers c < net_MaxConnections (net_config c) then handleConn pid remote c
        else spawn (CloseConn remote) c
      else c)"

definition net_writeTo :: "int \<Rightarrow> packet \<Rightarrow> Client \<Rightarrow> Client" where
  "net_writeTo pid pkt c =
     (case peers c pid of
        Some (Some p) \<Rightarrow> c\<lparr>peers := (peers c)(pid \<mapsto> Some (p\<lparr>wq := wq p @ [pkt]\<rparr>))\<rparr>
      | _ \<Rightarrow> c)"

text \<open>
  The peers of a broadcast are drawn at random from the list of all, each index at most once. \<open>draws\<close> are the
  numbers of the generator; an index that was drawn before is drawn again. No result stands for drawing on.
\<close>

fun fresh_draw :: "nat list \<Rightarrow> nat list \<Rightarrow> (nat \<times> nat list) option" where
  "fresh_draw used [] = None"
| "fresh_draw used (x # xs) = (if x \<in> set used then fresh_draw used xs else Some (x, xs))"

fun draw_peers :: "nat \<Rightarrow> nat list \<Rightarrow> nat list \<Rightarrow> nat list option" where
  "draw_peers 0 used draws = Some used"
| "draw_peers (Suc n) used draws =
     (case fresh_draw used draws of None \<Rightarrow> None | Some (x, rest) \<Rightarrow> draw_peers n (used @ [x]) rest)"

definition net_broadcast :: "nat list \<Rightarrow> packet \<Rightarrow> int \<Rightarrow> (Client, unit) go" where
  "net_broadcast draws pkt count c =
     (if count < 0 then (Panic, c)
      else case draw_peers (min (nat count) (length (allPeers c))) [] (map (\<lambda>d. d mod length (allPeers c)) draws) of
          None \<Rightarrow> (Diverge, c)
        | Some is \<Rightarrow>
            let ids = filter (\<lambda>pid. \<exists>p. peers c pid = Some (Some p)) (map (\<lambda>i. allPeers c ! i) is) in
            (Ok (), fold (\<lambda>pid. net_writeTo pid pkt) ids c))"

definition Client_WriteTo :: "int \<Rightarrow> bytes \<Rightarrow> Client \<Rightarrow> Client" where
  "Client_WriteTo pid d = net_writeTo pid \<lparr>tp = PktChain, data = d\<rparr>"

definition Client_Broadcast :: "nat list \<Rightarrow> bytes \<Rightarrow> int \<Rightarrow> (Client, unit) go" where
  "Client_Broadcast draws d count = net_broadcast draws \<lparr>tp = PktChain, data = d\<rparr> count"

text \<open>A packet of a peer. An error discards the peer for two minutes.\<close>

definition client_packet :: "json_codec \<Rightarrow> int \<Rightarrow> int \<times> packet \<Rightarrow> Client \<Rightarrow> unit res \<times> Client" where
  "client_packet J now pp c =
     (let pid = fst pp; pkt = snd pp in
      if tp pkt = PktHeartBeat then (Ok (), c)
      else if tp pkt = PktFindPeer then (Ok (), net_writeTo pid \<lparr>tp = PktPeerInfo, data = sendPeers c\<rparr> c)
      else if tp pkt = PktPeerInfo then
        (case json_Unmarshal J (data pkt) of
           Ok ps \<Rightarrow> (Ok (), AddPeers now ps c) | Err e \<Rightarrow> (Err e, c) | Panic \<Rightarrow> (Panic, c) | Diverge \<Rightarrow> (Diverge, c))
      else if tp pkt = PktChain then (Ok (), c\<lparr>ccp := ccp c @ [(pid, data pkt)]\<rparr>)
      else (Err ErrUnknownPacket, c))"

definition client_handle :: "json_codec \<Rightarrow> int \<Rightarrow> int \<times> packet \<Rightarrow> Client \<Rightarrow> Client" where
  "client_handle J now pp c =
     (let c1 = (case peerCon c (fst pp) of None \<Rightarrow> c | Some si \<Rightarrow> c\<lparr>peerInfo := (peerInfo c)(si \<mapsto> now)\<rparr>) in
      case client_packet J now pp c1 of
        (Err e, c2) \<Rightarrow> DiscardPeer now (fst pp) (120 * sec) c2
      | (_, c2) \<Rightarrow> c2)"

definition client_readLoop_turn :: "json_codec \<Rightarrow> int \<Rightarrow> Client \<Rightarrow> Client" where
  "client_readLoop_turn J now c = (case cpp c of [] \<Rightarrow> c | pp # pps \<Rightarrow> client_handle J now pp (c\<lparr>cpp := pps\<rparr>))"

text \<open>The first twenty places are drawn at random; \<open>draws i\<close> is the number drawn for place \<open>i\<close>.\<close>

fun shuffle_head :: "(nat \<Rightarrow> nat) \<Rightarrow> nat \<Rightarrow> nat \<Rightarrow> 'a list \<Rightarrow> 'a list" where
  "shuffle_head draws i 0 t = t"
| "shuffle_head draws i (Suc n) t =
     (if length t \<le> i then t
      else let j = draws i mod (length t - i) + i in
           shuffle_head draws (Suc i) n (t[i := t ! j, j := t ! i]))"

text \<open>
  A turn has two halves, one for each time that it holds the lock; the list of addresses that it carries from the first
  to the second is kept as a task, and other goroutines run in between. \<open>ords\<close> and \<open>ordi\<close> are the orders in which
  the sets of addresses and of peers are ranged over.
\<close>

definition maintainSendPeers_collect ::
  "crypto \<Rightarrow> (bytes set \<Rightarrow> bytes list) \<Rightarrow> (nat \<Rightarrow> nat) \<Rightarrow> int \<Rightarrow> Client \<Rightarrow> Client" where
  "maintainSendPeers_collect C ords draws ts c =
     (let tk = ts - 600 * sec; tk2 = ts - 7200 * sec;
          recent = {k. \<exists>v. peerInfo c k = Some v \<and> tk < v};
          rk = filter (\<lambda>k. case peerInfo c k of None \<Rightarrow> False | Some v \<Rightarrow> \<not> tk < v \<and> v < tk2) (ords (dom (peerInfo c)));
          t = shuffle_head draws 0 20 (ords (ran (peerCon c) \<union> recent)) in
      c\<lparr>peerInfo := (peerInfo c) |` (- set rk),
        tasks := tasks c @ map (\<lambda>k. Discard (connStrId C k) 0) rk @ [PublishPeers t]\<rparr>)"

definition maintainSendPeers_publish :: "json_codec \<Rightarrow> (int set \<Rightarrow> int list) \<Rightarrow> bytes list \<Rightarrow> Client \<Rightarrow> Client" where
  "maintainSendPeers_publish J ordi t c =
     c\<lparr>allPeers := ordi (dom (peers c)), allPeerCons := t, sendPeers := json_Marshal J (take 20 t),
       peers_file := (if net_Path (net_config c) \<noteq> [] then Some (json_Marshal J t) else peers_file c)\<rparr>"

text \<open>\<open>dialled\<close> is the remote address of the new connection, if there is one.\<close>

definition tryConn_done :: "int \<Rightarrow> int \<Rightarrow> bytes option \<Rightarrow> Client \<Rightarrow> Client" where
  "tryConn_done now pid dialled c =
     (case dialled of
        Some remote \<Rightarrow>
          if peers c pid = None \<or> peers c pid = Some None then handleConn pid remote c else DiscardPeer now pid 0 c
      | None \<Rightarrow> DiscardPeer now pid 0 c)"

text \<open>Up to three addresses are dialled; \<open>draws\<close> are the random indices.\<close>

definition dial_one :: "crypto \<Rightarrow> bytes \<Rightarrow> Client \<Rightarrow> Client" where
  "dial_one C px c =
     (let pid = connStrId C px in
      if peers c pid = None then spawn (TryConn pid px) (c\<lparr>peers := (peers c)(pid \<mapsto> None)\<rparr>) else c)"

fun dial_some :: "crypto \<Rightarrow> nat list \<Rightarrow> Client \<Rightarrow> Client" where
  "dial_some C [] c = c"
| "dial_some C (d # ds) c =
     (if allPeerCons c = [] then c
      else dial_some C ds (dial_one C (allPeerCons c ! (d mod length (allPeerCons c))) c))"

definition maintainPeers_turn :: "crypto \<Rightarrow> nat \<times> nat \<times> nat \<Rightarrow> Client \<Rightarrow> Client" where
  "maintainPeers_turn C ds c =
     (case ds of (a, b, d) \<Rightarrow> if countPeers c < net_MaxConnections (net_config c) then dial_some C [a, b, d] c else c)"

definition maintainConns_turn :: "(int set \<Rightarrow> int list) \<Rightarrow> Client \<Rightarrow> Client" where
  "maintainConns_turn ordi c =
     c\<lparr>tasks := tasks c @ map (\<lambda>pid. Discard pid 0) (ordi {pid. \<exists>p. peers c pid = Some (Some p) \<and> Peer_Stopped p})\<rparr>"

definition broadcastFindPeer_turn :: "nat list \<Rightarrow> (Client, unit) go" where
  "broadcastFindPeer_turn draws = net_broadcast draws \<lparr>tp = PktFindPeer, data = []\<rparr> 3"

definition client_istop :: "(int set \<Rightarrow> int list) \<Rightarrow> Client \<Rightarrow> Client" where
  "client_istop ordi c =
     c\<lparr>tasks := tasks c @ List.map_filter (\<lambda>pid. case peers c pid of Some (Some p) \<Rightarrow> Some (StopPeer pid p) | _ \<Rightarrow> None) (ordi (dom (peers c))),
       peers := Map.empty, peerCon := Map.empty,
       net_stop := net_stop c + 5, net_stopped := net_stopped c + 1, net_listening := False\<rparr>"

text \<open>A loop that receives a stop signal ends, and its deferred call stops the client again.\<close>

definition client_loop_stops :: "(int set \<Rightarrow> int list) \<Rightarrow> Client \<Rightarrow> Client" where
  "client_loop_stops ordi c = (if 0 < net_stop c then client_istop ordi (c\<lparr>net_stop := net_stop c - 1\<rparr>) else c)"

definition Client_Stop_wait :: "Client \<Rightarrow> Client option" where
  "Client_Stop_wait c = (if net_stopped c < 10 then None else Some (c\<lparr>net_stopped := net_stopped c - 10\<rparr>))"

definition GetAllPeerCons :: "Client \<Rightarrow> bytes list" where
  "GetAllPeerCons c = allPeerCons c"

definition GetPeerCount :: "Client \<Rightarrow> nat \<times> nat" where
  "GetPeerCount c = (card (dom (peers c)), card {pid. \<exists>p. peers c pid = Some (Some p)})"

definition NewClient :: "json_codec \<Rightarrow> ClientConfig \<Rightarrow> u16 \<Rightarrow> bytes \<Rightarrow> int \<Rightarrow> bytes option \<Rightarrow> Client" where
  "NewClient J cfg nid rnd now file =
     (let c = \<lparr>net_config = cfg, peers = Map.empty, peerCon = Map.empty, ccp = [], cpp = [], peerInfo = Map.empty, peerBanTime = Map.empty,
               allPeers = [], allPeerCons = [], sendPeers = string_bytes ''{}'', peers_file = file, networkId = nid, nonce = rnd,
               net_stop = 0, net_stopped = (if net_Port cfg = - 1 then 1 else 0), net_listening = (net_Port cfg \<noteq> - 1), tasks = []\<rparr> in
      if net_Path cfg = [] then c
      else case file of
          None \<Rightarrow> c
        | Some b \<Rightarrow> (case json_Unmarshal J b of Ok s \<Rightarrow> AddPeers now s c | _ \<Rightarrow> c))"

section \<open>The tables of a client\<close>

definition wf_client :: "Client \<Rightarrow> bool" where
  "wf_client c \<longleftrightarrow> finite (dom (peers c)) \<and> (\<forall>pid. peerCon c pid \<noteq> None \<longleftrightarrow> (\<exists>p. peers c pid = Some (Some p))) \<and>
     (\<forall>pid p. peers c pid = Some (Some p) \<longrightarrow> peer_id p = pid)"

lemma wf_client_cong:
  "wf_client c \<Longrightarrow> peers c' = peers c \<Longrightarrow> peerCon c' = peerCon c \<Longrightarrow> wf_client c'"
  by (simp add: wf_client_def)

lemma wf_spawn: "wf_client c \<Longrightarrow> wf_client (spawn t c)"
  by (erule wf_client_cong) (simp_all add: spawn_def)

lemma wf_AddPeers: "wf_client c \<Longrightarrow> wf_client (AddPeers now ps c)"
proof -
  have "peers (AddPeers now ps c) = peers c \<and> peerCon (AddPeers now ps c) = peerCon c"
    unfolding AddPeers_def by (induction ps arbitrary: c) auto
  then show "wf_client c \<Longrightarrow> wf_client (AddPeers now ps c)" by (simp add: wf_client_def)
qed

lemma wf_DiscardPeer: "wf_client c \<Longrightarrow> wf_client (DiscardPeer now pid ban c)"
  by (auto simp: wf_client_def DiscardPeer_def Let_def spawn_def split: option.splits)

lemma wf_pending:
  "wf_client c \<Longrightarrow> peers c pid = None \<or> peers c pid = Some None \<Longrightarrow> wf_client (c\<lparr>peers := (peers c)(pid \<mapsto> None)\<rparr>)"
  by (auto simp: wf_client_def)

lemma wf_handleConn:
  "wf_client c \<Longrightarrow> peers c pid = None \<or> peers c pid = Some None \<Longrightarrow> wf_client (handleConn pid remote c)"
  unfolding handleConn_def by (intro wf_spawn wf_pending)

lemma wf_open:
  "wf_client c \<Longrightarrow> peer_id p = pid \<Longrightarrow> wf_client (c\<lparr>peers := (peers c)(pid \<mapsto> Some p), peerCon := (peerCon c)(pid \<mapsto> remote)\<rparr>)"
  by (auto simp: wf_client_def)

lemma wf_handshake_done:
  "wf_client c \<Longrightarrow> (\<And>p. r = Ok p \<Longrightarrow> peer_id p = pid) \<Longrightarrow> wf_client (handshake_done now pid remote r c)"
  by (cases r) (auto simp: handshake_done_def intro: wf_open wf_DiscardPeer)

lemma wf_set_peer:
  "wf_client c \<Longrightarrow> peers c pid = Some (Some p) \<Longrightarrow> peer_id p' = peer_id p \<Longrightarrow> wf_client (c\<lparr>peers := (peers c)(pid \<mapsto> Some p')\<rparr>)"
  by (auto simp: wf_client_def)

lemma wf_writeTo: "wf_client c \<Longrightarrow> wf_client (net_writeTo pid pkt c)"
  by (auto simp: net_writeTo_def split: option.splits intro: wf_set_peer)

lemma wf_broadcast: "wf_client c \<Longrightarrow> net_broadcast draws pkt count c = (r, c') \<Longrightarrow> wf_client c'"
proof -
  have "wf_client (fold (\<lambda>pid. net_writeTo pid pkt) ids c)" if "wf_client c" for ids
    using that by (induction ids arbitrary: c) (auto intro: wf_writeTo)
  then show "wf_client c \<Longrightarrow> net_broadcast draws pkt count c = (r, c') \<Longrightarrow> wf_client c'"
    by (auto simp: net_broadcast_def Let_def split: if_splits option.splits)
qed

lemma wf_client_packet: "wf_client c \<Longrightarrow> client_packet J now pp c = (r, c') \<Longrightarrow> wf_client c'"
  by (auto simp: client_packet_def Let_def split: if_splits res.splits
      intro: wf_writeTo wf_AddPeers wf_client_cong)

lemma wf_client_handle: "wf_client c \<Longrightarrow> wf_client (client_handle J now pp c)"
proof -
  assume w: "wf_client c"
  define c1 where "c1 = (case peerCon c (fst pp) of None \<Rightarrow> c | Some si \<Rightarrow> c\<lparr>peerInfo := (peerInfo c)(si \<mapsto> now)\<rparr>)"
  have "wf_client c1" using w by (auto simp: c1_def split: option.splits intro: wf_client_cong)
  moreover obtain r c2 where "client_packet J now pp c1 = (r, c2)" by fastforce
  ultimately show ?thesis
    using wf_client_packet wf_DiscardPeer by (cases r) (auto simp: client_handle_def c1_def [symmetric])
qed

lemma wf_client_cpp: "wf_client (c\<lparr>cpp := q\<rparr>) = wf_client c"
  by (simp add: wf_client_def)

lemma wf_readLoop: "wf_client c \<Longrightarrow> wf_client (client_readLoop_turn J now c)"
  by (simp add: client_readLoop_turn_def wf_client_handle wf_client_cpp split: list.split)

lemma wf_dial_one: "wf_client c \<Longrightarrow> wf_client (dial_one C px c)"
  by (simp add: dial_one_def Let_def wf_spawn wf_pending)

lemma wf_dial_some: "wf_client c \<Longrightarrow> wf_client (dial_some C ds c)"
  by (induction ds arbitrary: c) (simp_all add: wf_dial_one)

lemma wf_NewClient: "wf_client (NewClient J cfg nid rnd now file)"
  by (auto simp: NewClient_def Let_def split: option.split res.split intro!: wf_AddPeers) (simp_all add: wf_client_def)

lemma wf_stop: "wf_client (client_istop ordi c)"
  by (simp add: client_istop_def wf_client_def)

section \<open>Steps of a client\<close>

definition finish :: "task \<Rightarrow> Client \<Rightarrow> Client" where
  "finish t c = c\<lparr>tasks := remove1 t (tasks c)\<rparr>"

lemma wf_finish: "wf_client c \<Longrightarrow> wf_client (finish t c)"
  by (erule wf_client_cong) (simp_all add: finish_def)

inductive client_step :: "crypto \<Rightarrow> json_codec \<Rightarrow> Client \<Rightarrow> Client \<Rightarrow> bool" for C J where
  cs_accept: "net_listening c \<Longrightarrow> client_step C J c (listen_turn C remote c)"
| cs_packet: "client_step C J c (client_readLoop_turn J now c)"
| cs_collect: "\<nexists>t. PublishPeers t \<in> set (tasks c) \<Longrightarrow> client_step C J c (maintainSendPeers_collect C ords draws ts c)"
| cs_publish: "PublishPeers t \<in> set (tasks c) \<Longrightarrow> client_step C J c (maintainSendPeers_publish J ordi t (finish (PublishPeers t) c))"
| cs_dial: "client_step C J c (maintainPeers_turn C ds c)"
| cs_conns: "client_step C J c (maintainConns_turn ordi c)"
| cs_find: "broadcastFindPeer_turn draws c = (r, c') \<Longrightarrow> client_step C J c c'"
| cs_add: "client_step C J c (AddPeers now ps c)"
| cs_write: "client_step C J c (Client_WriteTo pid d c)"
| cs_broadcast: "Client_Broadcast draws d count c = (r, c') \<Longrightarrow> client_step C J c c'"
| cs_handshake: "Handshake pid remote \<in> set (tasks c) \<Longrightarrow>
    client_step C J c (handshake_done now pid remote (NewPeer C pid rnd (networkId c) (nonce c) arrived)
      (finish (Handshake pid remote) c))"
| cs_try: "TryConn pid host \<in> set (tasks c) \<Longrightarrow>
    client_step C J c (tryConn_done now pid dialled (finish (TryConn pid host) c))"
| cs_discarded: "Discard pid ban \<in> set (tasks c) \<Longrightarrow>
    client_step C J c (DiscardPeer now pid ban (finish (Discard pid ban) c))"
| cs_discard: "client_step C J c (DiscardPeer now pid ban c)"
| cs_stop: "client_step C J c (client_istop ordi c)"
| cs_loop_stops: "client_step C J c (client_loop_stops ordi c)"
| cs_stopped: "Client_Stop_wait c = Some c' \<Longrightarrow> client_step C J c c'"
| cs_peer_read: "peers c pid = Some (Some p) \<Longrightarrow> Peer_readLoop_turn p = (out, ends, p') \<Longrightarrow>
    client_step C J c (c\<lparr>peers := (peers c)(pid \<mapsto> Some p'), cpp := cpp c @ (case out of None \<Rightarrow> [] | Some pp \<Rightarrow> [pp])\<rparr>)"
| cs_peer_write: "peers c pid = Some (Some p) \<Longrightarrow> Peer_writeLoop_turn stopping p = (ends, p') \<Longrightarrow>
    client_step C J c (c\<lparr>peers := (peers c)(pid \<mapsto> Some p')\<rparr>)"
| cs_peer_beat: "peers c pid = Some (Some p) \<Longrightarrow> Peer_heartBeat_turn stopping p = (ends, p') \<Longrightarrow>
    client_step C J c (c\<lparr>peers := (peers c)(pid \<mapsto> Some p')\<rparr>)"

lemma peer_turns_id:
  "Peer_readLoop_turn p = (out, ends, p') \<Longrightarrow> peer_id p' = peer_id p"
  "Peer_writeLoop_turn stopping p = (ends, p') \<Longrightarrow> peer_id p' = peer_id p"
  "Peer_heartBeat_turn stopping p = (ends, p') \<Longrightarrow> peer_id p' = peer_id p"
  by (auto simp: Peer_readLoop_turn_def Peer_writeLoop_turn_def Peer_heartBeat_turn_def Peer_istop_def Let_def
      split: prod.splits res.splits if_splits list.splits)

lemma NewPeer_id: "NewPeer C pid rnd nid cnonce arrived = Ok p \<Longrightarrow> peer_id p = pid"
  by (auto simp: NewPeer_def Let_def split: prod.splits res.splits)

lemma client_step_wf: "client_step C J c c' \<Longrightarrow> wf_client c \<Longrightarrow> wf_client c'"
proof (induction rule: client_step.induct)
  case (cs_accept c remote)
  then show ?case by (auto simp: listen_turn_def Let_def intro: wf_handleConn wf_spawn)
next
  case (cs_try pid host c now dialled)
  then have "wf_client (finish (TryConn pid host) c)" by (simp add: wf_finish)
  then show ?case by (auto simp: tryConn_done_def split: option.splits intro: wf_handleConn wf_DiscardPeer)
next
  case (cs_collect c ords draws ts)
  from cs_collect(2) show ?case by (rule wf_client_cong) (simp_all add: maintainSendPeers_collect_def Let_def)
next
  case (cs_publish t c ordi)
  then have "wf_client (finish (PublishPeers t) c)" by (simp add: wf_finish)
  then show ?case by (rule wf_client_cong) (simp_all add: maintainSendPeers_publish_def)
next
  case (cs_conns c ordi)
  then show ?case by (rule wf_client_cong) (simp_all add: maintainConns_turn_def)
next
  case (cs_stopped c c')
  then show ?case by (auto simp: Client_Stop_wait_def split: if_splits intro: wf_client_cong)
next
  case (cs_loop_stops c ordi)
  then show ?case by (simp add: client_loop_stops_def wf_stop)
next
  case (cs_peer_read c pid p out ends p')
  then have "wf_client (c\<lparr>peers := (peers c)(pid \<mapsto> Some p')\<rparr>)" by (metis wf_set_peer peer_turns_id(1))
  then show ?case by (rule wf_client_cong) simp_all
next
  case (cs_dial c ds)
  then show ?case by (cases ds) (simp add: maintainPeers_turn_def wf_dial_some del: dial_some.simps)
next
  case (cs_handshake pid remote c now rnd arrived)
  then show ?case by (blast intro: wf_handshake_done NewPeer_id wf_finish)
next
  case (cs_peer_write c pid p stopping ends p')
  then show ?case by (metis wf_set_peer peer_turns_id(2))
next
  case (cs_peer_beat c pid p stopping ends p')
  then show ?case by (metis wf_set_peer peer_turns_id(3))
next
  case (cs_find draws c r c')
  then show ?case unfolding broadcastFindPeer_turn_def by (blast intro: wf_broadcast)
next
  case (cs_broadcast draws d count c r c')
  then show ?case unfolding Client_Broadcast_def by (blast intro: wf_broadcast)
qed (simp_all add: Client_WriteTo_def wf_readLoop wf_writeTo wf_DiscardPeer wf_stop wf_finish wf_AddPeers)

lemma client_run_wf: "(client_step C J)\<^sup>*\<^sup>* (NewClient J cfg nid rnd now file) c \<Longrightarrow> wf_client c"
  by (induction rule: rtranclp_induct) (auto intro: client_step_wf wf_NewClient)

text \<open>A client that has accepted a connection, and the same client after the handshake.\<close>

definition demo_json :: json_codec where
  "demo_json = \<lparr>json_Marshal = concat, json_Unmarshal = (\<lambda>b. Ok [b])\<rparr>"

definition demo_client :: Client where
  "demo_client = NewClient demo_json \<lparr>net_Port = 9000, net_MaxConnections = 1, net_Path = []\<rparr> 7 (replicate 8 2) 0 None"

definition accepting_client :: Client where
  "accepting_client = listen_turn demo_crypto [1] demo_client"

definition joined_client :: Client where
  "joined_client = handshake_done 5 (connStrId demo_crypto [1]) [1]
     (NewPeer demo_crypto (connStrId demo_crypto [1]) (replicate 8 3) (networkId accepting_client) (nonce accepting_client)
       (peer_hello demo_crypto (replicate 8 4) 7 (replicate 8 5)))
     (finish (Handshake (connStrId demo_crypto [1]) [1]) accepting_client)"

lemmas demo_client_defs = demo_client_def NewClient_def demo_json_def accepting_client_def listen_turn_def countPeers_def
  handleConn_def spawn_def finish_def

lemma joined_client_run: "(client_step demo_crypto demo_json)\<^sup>*\<^sup>* demo_client joined_client"
proof -
  have "client_step demo_crypto demo_json demo_client accepting_client"
    unfolding accepting_client_def by (rule cs_accept) (simp add: demo_client_def NewClient_def)
  moreover have "client_step demo_crypto demo_json accepting_client joined_client"
    unfolding joined_client_def by (rule cs_handshake) (simp add: demo_client_defs Let_def)
  ultimately show ?thesis by (meson converse_rtranclp_into_rtranclp rtranclp.rtrancl_refl)
qed

lemma joined_client_peers: "\<exists>p. peers joined_client = [connStrId demo_crypto [1] \<mapsto> Some p]"
proof -
  obtain p where p: "NewPeer demo_crypto (connStrId demo_crypto [1]) (replicate 8 3) 7 (replicate 8 2)
      (peer_hello demo_crypto (replicate 8 4) 7 (replicate 8 5)) = Ok p"
    by (rule that, code_simp)
  have "networkId accepting_client = 7" "nonce accepting_client = replicate 8 2" "peers accepting_client = [connStrId demo_crypto [1] \<mapsto> None]"
    by (simp_all add: demo_client_defs Let_def)
  then have "peers joined_client = [connStrId demo_crypto [1] \<mapsto> Some p]"
    by (simp add: joined_client_def p handshake_done_def finish_def)
  then show ?thesis ..
qed

text \<open>
  C13: Whatever a client that has been started does and receives, in any order (accepting and dialling, the
  outcomes of handshakes, packets of peers, its periodic work, broadcasts, the loops of its connections,
  discarding peers, stopping), its tables agree: an address is recorded for exactly the peers whose handshake
  has succeeded, each connection is filed under its own identifier, and the table is finite.
\<close>

theorem client_tables_agree:
  assumes "(client_step C J)\<^sup>*\<^sup>* (NewClient J cfg nid rnd now file) c"
  shows "finite (dom (peers c)) \<and> dom (peerCon c) = {pid. \<exists>p. peers c pid = Some (Some p)} \<and>
    (\<forall>pid p. peers c pid = Some (Some p) \<longrightarrow> peer_id p = pid)"
  using client_run_wf [OF assms] by (auto simp: wf_client_def)

theorem client_tables_agree_witness:
  "(client_step demo_crypto demo_json)\<^sup>*\<^sup>* demo_client joined_client \<and> dom (peerCon joined_client) = {connStrId demo_crypto [1]}"
  using client_tables_agree [OF joined_client_run [unfolded demo_client_def]] joined_client_run joined_client_peers
  by (auto split: if_splits)

section \<open>The handshake\<close>

lemma length_hello_hash [simp]: "hash32 C \<Longrightarrow> length (hello_hash C rnd nid) = 8"
  by (simp add: hello_hash_def hash32_def)

lemma le_bytes_u16: "le_bytes 2 (n :: u16) = [ucast n, ucast (drop_bit 8 n)]"
  by (simp add: numeral_2_eq_2)

lemma le_bytes_u16_inj: "le_bytes 2 (m :: u16) = le_bytes 2 n \<longleftrightarrow> m = n"
proof
  assume "le_bytes 2 m = le_bytes 2 n"
  then have "(le_word (le_bytes 2 m) :: u16) = le_word (le_bytes 2 n)" by simp
  then show "m = n" by (simp add: le_word_le_bytes_id del: le_bytes.simps)
qed simp

text \<open>
  C20: The outcome of a handshake. A greeting is eight random bytes, the first eight bytes of the hash of these, the salt
  and the two bytes of the network's id, and the sender's nonce. A node of the same network is accepted when its
  nonce is another than the own one, and then this side has sent its own greeting and has taken nothing but the greeting
  off the connection; with the own nonce it is the node itself, which is an error. A node of another network
  is refused, unless the hash function gives the same first eight bytes for two inputs that differ in the network id
  alone. A greeting that is cut short is never accepted.
\<close>

theorem handshake_spec:
  assumes "hash32 C" and "length rnd' = PeerHelloNonceLen" and "length nonce' = length cnonce"
  shows "let input = (\<lambda>r n :: u16. r @ PeerHelloSalt @ [ucast n, ucast (drop_bit 8 n)]);
             greeting = (\<lambda>r n c. r @ take 8 (sha256 C (input r n)) @ c);
             result = NewPeer C pid rnd nid cnonce (greeting rnd' nid' nonce' @ later) in
    peer_hello C rnd' nid' nonce' = greeting rnd' nid' nonce' \<and>
    (nid' = nid \<and> nonce' \<noteq> cnonce \<longrightarrow>
      result = Ok \<lparr>peer_id = pid, conn_in = later, conn_out = greeting rnd nid cnonce, wq = [],
                   stop_signals = 0, stopped_signals = 0, conn_closed = False\<rparr>) \<and>
    (nid' = nid \<and> nonce' = cnonce \<longrightarrow> result = Err ErrSelf) \<and>
    (nid' \<noteq> nid \<longrightarrow> input rnd' nid' \<noteq> input rnd' nid \<and>
      (result = Err ErrNetworkIdMismatch \<or> take 8 (sha256 C (input rnd' nid')) = take 8 (sha256 C (input rnd' nid)))) \<and>
    (\<forall>n < length (greeting rnd' nid' nonce'). \<forall>p. NewPeer C pid rnd nid cnonce (take n (greeting rnd' nid' nonce')) \<noteq> Ok p)"
proof -
  let ?h = "peer_hello C rnd' nid' nonce'"
  have hello: "peer_hello C r n c = r @ take 8 (sha256 C (r @ PeerHelloSalt @ [ucast n, ucast (drop_bit 8 n)])) @ c" for r n c
    by (simp only: peer_hello_def hello_hash_def le_bytes_u16)
  have l: "length ?h = PeerHelloNonceLen + 8 + length cnonce"
    using assms by (simp add: peer_hello_def)
  have rd: "ReadFull (PeerHelloNonceLen + 8 + length cnonce) (?h @ later) = (Ok ?h, later)"
    by (rule ReadFull_append) (simp add: l)
  have parts: "take PeerHelloNonceLen ?h = rnd'" "drop (PeerHelloNonceLen + 8) ?h = nonce'"
    "sub_bytes PeerHelloNonceLen (PeerHelloNonceLen + 8) ?h = hello_hash C rnd' nid'"
    using assms by (simp_all add: peer_hello_def sub_bytes_def)
  have main: "NewPeer C pid rnd nid cnonce (?h @ later) =
      (if hello_hash C rnd' nid' \<noteq> hello_hash C rnd' nid then Err ErrNetworkIdMismatch
       else if nonce' = cnonce then Err ErrSelf
       else Ok \<lparr>peer_id = pid, conn_in = later, conn_out = peer_hello C rnd nid cnonce, wq = [],
                stop_signals = 0, stopped_signals = 0, conn_closed = False\<rparr>)"
    by (simp add: NewPeer_def Let_def rd check_hello_def parts)
  have cut: "n < length ?h \<Longrightarrow> NewPeer C pid rnd nid cnonce (take n ?h) \<noteq> Ok p" for n p
    by (auto simp: NewPeer_def Let_def l ReadFull_def split: prod.splits res.splits)
  have "nid' \<noteq> nid \<Longrightarrow> [ucast nid', ucast (drop_bit 8 nid')] \<noteq> ([ucast nid, ucast (drop_bit 8 nid)] :: bytes)"
    using le_bytes_u16_inj [of nid' nid] unfolding le_bytes_u16 by blast
  with main cut show ?thesis unfolding Let_def hello [symmetric]
    by (simp only: hello_hash_def le_bytes_u16) auto
qed

text \<open>A hash function for which the end of its input counts.\<close>

definition tail_crypto :: crypto where
  "tail_crypto = demo_crypto\<lparr>sha256 := (\<lambda>x. take 32 (rev x @ replicate 32 0))\<rparr>"

theorem handshake_spec_witness:
  "(\<exists>p. NewPeer tail_crypto 1 (replicate 8 3) 7 (replicate 8 2) (peer_hello tail_crypto (replicate 8 4) 7 (replicate 8 5) @ [9]) = Ok p) \<and>
   NewPeer tail_crypto 1 (replicate 8 3) 7 (replicate 8 2) (peer_hello tail_crypto (replicate 8 4) 7 (replicate 8 2)) = Err ErrSelf \<and>
   NewPeer tail_crypto 1 (replicate 8 3) 7 (replicate 8 2) (peer_hello tail_crypto (replicate 8 4) 263 (replicate 8 5)) = Err ErrNetworkIdMismatch"
proof -
  have h: "hash32 tail_crypto" by (simp add: hash32_def tail_crypto_def min_def)
  have len: "length (replicate 8 4) = PeerHelloNonceLen" by (simp add: PeerHelloNonceLen_def)
  have "take 8 (sha256 tail_crypto (x @ y @ [a, 1])) \<noteq> take 8 (sha256 tail_crypto (x @ y @ [b, 0]))" for x y a b
    by (simp add: tail_crypto_def)
  then show ?thesis
    using handshake_spec [OF h len, of "replicate 8 5" "replicate 8 2" 1 "replicate 8 3" 7 7 "[9]"]
      handshake_spec [OF h len, of "replicate 8 2" "replicate 8 2" 1 "replicate 8 3" 7 7 "[]"]
      handshake_spec [OF h len, of "replicate 8 5" "replicate 8 2" 1 "replicate 8 3" 7 263 "[]"]
    by (simp add: Let_def)
qed

section \<open>Broadcasts\<close>

lemma fresh_draw_finds:
  "i \<in> set draws \<Longrightarrow> i \<notin> set used \<Longrightarrow>
   \<exists>x rest. fresh_draw used draws = Some (x, rest) \<and> x \<notin> set used \<and> x \<in> set draws \<and>
     set draws \<subseteq> set used \<union> {x} \<union> set rest \<and> set rest \<subseteq> set draws"
proof (induction draws)
  case (Cons d draws)
  then show ?case by (cases "d \<in> set used") (auto, blast+)
qed simp

lemma draw_peers_finds:
  assumes "set draws \<subseteq> {0..<N}" "set used \<subseteq> {0..<N}" "{0..<N} \<subseteq> set used \<union> set draws" "distinct used" "length used + n \<le> N"
  shows "\<exists>is. draw_peers n used draws = Some is \<and> distinct is \<and> set is \<subseteq> {0..<N} \<and> length is = length used + n"
  using assms
proof (induction n arbitrary: used draws)
  case (Suc n)
  have "card (set used) < card {0..<N}" using Suc.prems by (simp add: distinct_card)
  then obtain i where "i \<in> {0..<N}" "i \<notin> set used" by (metis card_mono finite_set not_less subsetI)
  then obtain x rest where "fresh_draw used draws = Some (x, rest)" "x \<notin> set used" "x \<in> set draws"
    "set draws \<subseteq> set used \<union> {x} \<union> set rest" "set rest \<subseteq> set draws"
    using fresh_draw_finds [of i draws used] Suc.prems(3) by blast
  moreover from this have "\<exists>is. draw_peers n (used @ [x]) rest = Some is \<and> distinct is \<and> set is \<subseteq> {0..<N} \<and> length is = length (used @ [x]) + n"
    using Suc.prems by (intro Suc.IH) auto
  ultimately show ?case by simp
qed simp

definition queued :: "packet \<Rightarrow> int set \<Rightarrow> Client \<Rightarrow> Client" where
  "queued pkt T c = c\<lparr>peers := (\<lambda>pid. case peers c pid of
     Some (Some p) \<Rightarrow> Some (Some (if pid \<in> T then p\<lparr>wq := wq p @ [pkt]\<rparr> else p)) | x \<Rightarrow> x)\<rparr>"

lemma net_writeTo_queued: "net_writeTo pid pkt c = queued pkt {pid} c"
  by (rule Client.equality) (auto simp: net_writeTo_def queued_def fun_eq_iff split: option.splits)

lemma queued_insert: "pid \<notin> T \<Longrightarrow> queued pkt T (queued pkt {pid} c) = queued pkt (insert pid T) c"
  by (rule Client.equality) (auto simp: queued_def fun_eq_iff split: option.splits)

lemma queued_none: "queued pkt {} c = c"
  by (rule Client.equality) (auto simp: queued_def fun_eq_iff split: option.splits)

lemma fold_writeTo: "distinct ids \<Longrightarrow> fold (\<lambda>pid. net_writeTo pid pkt) ids c = queued pkt (set ids) c"
  by (induction ids arbitrary: c) (simp_all add: queued_none net_writeTo_queued queued_insert)

lemma queued_active: "queued pkt {pid \<in> T. \<exists>p. peers c pid = Some (Some p)} c = queued pkt T c"
  by (rule Client.equality) (auto simp: queued_def fun_eq_iff split: option.splits)

text \<open>
  C21: To whom a broadcast goes. With a list of distinct peers and a generator that produces every
  index at some time, a broadcast to \<open>count\<close> peers returns. It has chosen exactly \<open>count\<close> of the
  listed peers, or all when there are fewer; each chosen peer with an open connection gets the packet once, at
  the end of its queue, and nothing else about the client changes.
\<close>

theorem broadcast_spec:
  assumes "distinct (allPeers c)" and "0 \<le> count"
    and "{0..<length (allPeers c)} \<subseteq> (\<lambda>d. d mod length (allPeers c)) ` set draws"
  shows "\<exists>T. T \<subseteq> set (allPeers c) \<and> card T = min (nat count) (length (allPeers c)) \<and>
    net_broadcast draws pkt count c = (Ok (), c\<lparr>peers := (\<lambda>pid. case peers c pid of
       Some (Some p) \<Rightarrow> Some (Some (if pid \<in> T then p\<lparr>wq := wq p @ [pkt]\<rparr> else p)) | x \<Rightarrow> x)\<rparr>)"
proof (cases "allPeers c = []")
  case True
  then show ?thesis using assms(2) queued_none [of pkt c] by (simp add: net_broadcast_def queued_def)
next
  case False
  let ?N = "length (allPeers c)" and ?ds = "map (\<lambda>d. d mod length (allPeers c)) draws"
  obtain xs where xs: "draw_peers (min (nat count) ?N) [] ?ds = Some xs" "distinct xs" "set xs \<subseteq> {0..<?N}"
      "length xs = min (nat count) ?N"
  proof -
    have "set ?ds \<subseteq> {0..<?N}" using False by auto
    moreover have "{0..<?N} \<subseteq> set [] \<union> set ?ds" using assms(3) by simp
    ultimately show ?thesis using that draw_peers_finds [of ?ds ?N "[]" "min (nat count) ?N"] by auto
  qed
  let ?ids = "map (\<lambda>i. allPeers c ! i) xs"
  have d: "distinct ?ids" using xs(2,3) assms(1) by (auto simp: distinct_map intro!: inj_on_nth)
  let ?act = "filter (\<lambda>pid. \<exists>p. peers c pid = Some (Some p)) ?ids"
  have "net_broadcast draws pkt count c = (Ok (), queued pkt (set ?act) c)"
    using assms(2) xs(1) d by (simp add: net_broadcast_def fold_writeTo del: filter_map)
  also have "queued pkt (set ?act) c = queued pkt (set ?ids) c"
    using queued_active [of pkt "set ?ids" c] by (simp only: set_filter)
  finally have "net_broadcast draws pkt count c = (Ok (), queued pkt (set ?ids) c)" .
  moreover have "set ?ids \<subseteq> set (allPeers c)" using xs(3) by auto
  moreover have "card (set ?ids) = min (nat count) ?N" using d xs(4) by (simp add: distinct_card del: set_map)
  ultimately show ?thesis unfolding queued_def by blast
qed

text \<open>Two peers are listed, one of them still without a connection.\<close>

definition open_peer :: Peer where
  "open_peer = \<lparr>peer_id = 4, conn_in = [], conn_out = [], wq = [], stop_signals = 0, stopped_signals = 0, conn_closed = False\<rparr>"

definition busy_client :: Client where
  "busy_client = demo_client\<lparr>peers := [4 \<mapsto> Some open_peer, 6 \<mapsto> None], allPeers := [4, 6]\<rparr>"

theorem broadcast_spec_witness:
  "\<exists>c'. net_broadcast [0, 2, 1] \<lparr>tp = PktFindPeer, data = []\<rparr> 3 busy_client = (Ok (), c') \<and>
     peers c' 4 = Some (Some (open_peer\<lparr>wq := [\<lparr>tp = PktFindPeer, data = []\<rparr>]\<rparr>)) \<and> peers c' 6 = Some None"
proof -
  let ?pkt = "\<lparr>tp = PktFindPeer, data = []\<rparr>"
  have "{0..<2} \<subseteq> (\<lambda>d. d mod 2) ` {0, 2, 1::nat}" by (auto simp: less_2_cases_iff)
  then have hyps: "distinct (allPeers busy_client)" "(0::int) \<le> 3"
    "{0..<length (allPeers busy_client)} \<subseteq> (\<lambda>d. d mod length (allPeers busy_client)) ` set [0, 2, 1]"
    by (simp_all add: busy_client_def numeral_2_eq_2)
  obtain T where T: "T \<subseteq> set (allPeers busy_client)" "card T = min (nat 3) (length (allPeers busy_client))"
    "net_broadcast [0, 2, 1] ?pkt 3 busy_client = (Ok (), busy_client\<lparr>peers := (\<lambda>pid. case peers busy_client pid of
       Some (Some p) \<Rightarrow> Some (Some (if pid \<in> T then p\<lparr>wq := wq p @ [?pkt]\<rparr> else p)) | x \<Rightarrow> x)\<rparr>)"
    using broadcast_spec [OF hyps, of ?pkt] by blast
  have "T = {4, 6}" using T(1,2) card_subset_eq [of "{4, 6}" T] by (simp add: busy_client_def)
  with T(3) show ?thesis by (simp add: busy_client_def open_peer_def)
qed

section \<open>The number of connections\<close>

lemma countPeers_spawn [simp]: "countPeers (spawn t c) = countPeers c"
  by (simp add: countPeers_def spawn_def)

lemma countPeers_pending:
  "wf_client c \<Longrightarrow> countPeers (c\<lparr>peers := (peers c)(pid \<mapsto> v)\<rparr>) \<le> countPeers c + 1"
  by (simp add: countPeers_def wf_client_def card_insert_if)

lemma countPeers_dial_one: "wf_client c \<Longrightarrow> countPeers (dial_one C px c) \<le> countPeers c + 1"
  using countPeers_pending [of c "connStrId C px" None] by (simp add: dial_one_def Let_def)

lemma countPeers_dial_some: "wf_client c \<Longrightarrow> countPeers (dial_some C ds c) \<le> countPeers c + int (length ds)"
proof (induction ds arbitrary: c)
  case (Cons d ds)
  let ?c = "dial_one C (allPeerCons c ! (d mod length (allPeerCons c))) c"
  have "countPeers (dial_some C ds ?c) \<le> countPeers ?c + int (length ds)" by (rule Cons.IH) (rule wf_dial_one [OF Cons.prems])
  with countPeers_dial_one [OF Cons.prems] show ?case by (auto intro: order_trans)
qed simp

text \<open>
  The limit on connections. Accepting connections never raises the number of entries beyond the configured
  limit; dialling, which starts only below the limit, raises it beyond by at most two.
\<close>

lemma connection_limit:
  assumes "(client_step C J)\<^sup>*\<^sup>* (NewClient J cfg nid rnd now file) c"
  shows "countPeers (listen_turn C remote c) \<le> max (countPeers c) (net_MaxConnections (net_config c)) \<and>
    countPeers (maintainPeers_turn C ds c) \<le> max (countPeers c) (net_MaxConnections (net_config c) + 2)"
proof
  note w = client_run_wf [OF assms]
  show "countPeers (listen_turn C remote c) \<le> max (countPeers c) (net_MaxConnections (net_config c))"
    using countPeers_pending [OF w, of "connStrId C remote" None] by (auto simp: listen_turn_def Let_def handleConn_def)
  obtain a b d where "ds = (a, b, d)" by (cases ds)
  then show "countPeers (maintainPeers_turn C ds c) \<le> max (countPeers c) (net_MaxConnections (net_config c) + 2)"
    using countPeers_dial_some [OF w, of C "[a, b, d]"] by (simp add: maintainPeers_turn_def del: dial_some.simps)
qed

lemma connection_limit_witness:
  "(client_step demo_crypto demo_json)\<^sup>*\<^sup>* demo_client joined_client \<and>
   net_MaxConnections (net_config joined_client) = 1 \<and> countPeers (listen_turn demo_crypto [2] joined_client) \<le> 1"
proof -
  have "net_config joined_client = net_config accepting_client"
    by (simp add: joined_client_def handshake_done_def finish_def DiscardPeer_def spawn_def Let_def split: res.split option.split)
  then have "net_MaxConnections (net_config joined_client) = 1" by (simp add: demo_client_defs Let_def)
  moreover have "countPeers joined_client = 1" using joined_client_peers by (auto simp: countPeers_def)
  ultimately show ?thesis
    using connection_limit [OF joined_client_run [unfolded demo_client_def], of "[2]"] joined_client_run by simp
qed

end
