(* ===== verification/Consensus.thy ===== *)
theory Consensus
  imports Block
begin

text \<open>
  The proof-of-work rule of \<^verbatim>\<open>core/consensus/consensus.go\<close>: the state a chain tip carries, the check of
  a block against it, and the retarget of the difficulty every 30 blocks. The 32-byte difficulty is
  read and written as a big-endian number, as \<^verbatim>\<open>math/big\<close> does.

  The lemmas show what an accepted block changes, that a rejected block changes nothing, that the
  comparison of hashes is the comparison of numbers, how far a retarget can move the difficulty, what
  difficulty follows a period of thirty blocks, and that the stored form of the state is read back unchanged.
\<close>

section \<open>Numbers as byte strings\<close>

text \<open>\<^verbatim>\<open>big.Int.SetBytes\<close>, \<^verbatim>\<open>big.Int.FillBytes\<close> on a number that fits, and \<^verbatim>\<open>bytes.Compare\<close>.\<close>

primrec be_nat :: "bytes \<Rightarrow> nat" where
  "be_nat [] = 0"
| "be_nat (b # bs) = unat b * 256 ^ length bs + be_nat bs"

primrec nat_be :: "nat \<Rightarrow> nat \<Rightarrow> bytes" where
  "nat_be 0 x = []"
| "nat_be (Suc n) x = nat_be n (x div 256) @ [of_nat (x mod 256)]"

fun bytes_compare :: "bytes \<Rightarrow> bytes \<Rightarrow> int" where
  "bytes_compare [] [] = 0"
| "bytes_compare [] (_ # _) = - 1"
| "bytes_compare (_ # _) [] = 1"
| "bytes_compare (a # as) (b # bs) =
     (if a < b then - 1 else if b < a then 1 else bytes_compare as bs)"

section \<open>The consensus state\<close>

record ConsensusState =
  Height_cs :: int
  LastBlockTime :: u64
  LastKeyBlockTime :: u64
  Difficulty :: HashType

definition PeriodBlockCount :: int where "PeriodBlockCount = 30"

definition PeriodTime :: u64 where "PeriodTime = 300"

text \<open>The period that counts for a retarget: the time it took, within a sixteenth of 300 seconds.\<close>

definition clamp_rtime :: "u64 \<Rightarrow> u64" where
  "clamp_rtime rtime =
     (let wtime = PeriodTime * 1000000000; rmin = wtime * 15 div 16; rmax = wtime * 17 div 16 in
      if rtime < rmin then rmin else if rmax < rtime then rmax else rtime)"

definition retarget :: "HashType \<Rightarrow> u64 \<Rightarrow> HashType" where
  "retarget d rtime =
     (let dt = be_nat d * unat (clamp_rtime rtime) div unat (PeriodTime * 1000000000) in
      if 2 ^ 256 \<le> dt then d[0 := 0xff] else nat_be (length d) dt)"

definition CheckAndUpdate :: "Block \<Rightarrow> ConsensusState \<Rightarrow> bool \<times> ConsensusState" where
  "CheckAndUpdate blk cs =
     (if 0 < bytes_compare (Hash (Header blk)) (Difficulty cs) then (False, cs)
      else if Time blk \<le> LastBlockTime cs then (False, cs)
      else
        let cs1 = cs\<lparr>Height_cs := i64 (Height_cs cs + 1), LastBlockTime := Time blk\<rparr> in
        if Height_cs cs1 mod PeriodBlockCount = 0
        then (True, cs1\<lparr>Difficulty := retarget (Difficulty cs1) (Time blk - LastKeyBlockTime cs1),
                        LastKeyBlockTime := Time blk\<rparr>)
        else (True, cs1))"

definition DecodeConsensus :: "ConsensusState reader" where
  "DecodeConsensus =
     bindG (ReadFull (8 * 3 + HashLen)) (\<lambda>buf.
     ret \<lparr>Height_cs = int_of_u64 (le_word (sub_bytes 0 8 buf)),
          LastBlockTime = le_word (sub_bytes 8 16 buf),
          LastKeyBlockTime = le_word (sub_bytes 16 24 buf),
          Difficulty = drop 24 buf\<rparr>)"

definition EncodeConsensus :: "ConsensusState \<Rightarrow> bytes" where
  "EncodeConsensus cs =
     le_bytes 8 (u64_of_int (Height_cs cs)) @ le_bytes 8 (LastBlockTime cs)
       @ le_bytes 8 (LastKeyBlockTime cs) @ Difficulty cs"

section \<open>Lemmas on byte strings as numbers\<close>

lemma be_nat_less: "be_nat bs < 256 ^ length bs"
proof (induction bs)
  case Nil
  then show ?case by simp
next
  case (Cons b bs)
  have "unat b < 256" using unsigned_less [of b, where ?'a = nat] by simp
  then have "Suc (unat b) * 256 ^ length bs \<le> 256 * 256 ^ length bs" by (intro mult_le_mono1) simp
  moreover have "be_nat (b # bs) < Suc (unat b) * 256 ^ length bs" using Cons by simp
  ultimately show ?case by (simp only: list.size power_Suc add_0_right add_Suc_right less_le_trans)
qed

lemma be_nat_snoc: "be_nat (bs @ [b]) = be_nat bs * 256 + unat b"
  by (induction bs) (simp_all add: algebra_simps)

lemma length_nat_be [simp]: "length (nat_be n x) = n"
  by (induction n arbitrary: x) simp_all

lemma be_nat_nat_be: "x < 256 ^ n \<Longrightarrow> be_nat (nat_be n x) = x"
proof (induction n arbitrary: x)
  case 0
  then show ?case by simp
next
  case (Suc n)
  from Suc.prems have "x div 256 < 256 ^ n" by (simp add: less_mult_imp_div_less mult.commute)
  then have "be_nat (nat_be n (x div 256)) = x div 256" by (rule Suc.IH)
  moreover have "unat (of_nat (x mod 256) :: u8) = x mod 256" by (simp add: unat_of_nat)
  ultimately show ?case by (simp add: be_nat_snoc)
qed

lemma be_nat_replicate_0: "be_nat (replicate n 0) = 0"
  by (induction n) simp_all

lemma bytes_compare_be_nat:
  "length a = length b \<Longrightarrow> 0 < bytes_compare a b \<longleftrightarrow> be_nat b < be_nat a"
proof (induction a b rule: bytes_compare.induct)
  case (4 x as y bs)
  then have len: "length as = length bs" by simp
  have lt: "unat p * 256 ^ length us + be_nat us < unat q * 256 ^ length us + be_nat vs"
    if "p < q" "length us = length vs" for p q :: u8 and us vs
  proof -
    from that have "Suc (unat p) \<le> unat q" by (simp add: word_less_nat_alt)
    then have "Suc (unat p) * 256 ^ length us \<le> unat q * 256 ^ length us" by (rule mult_le_mono1)
    with be_nat_less [of us] show ?thesis by simp
  qed
  consider "x < y" | "y < x" | "x = y" by fastforce
  then show ?case
  proof cases
    case 1
    with lt [OF 1 len] len show ?thesis by simp
  next
    case 2
    with lt [OF 2 len [symmetric]] len show ?thesis by (simp add: not_less_iff_gr_or_eq)
  next
    case 3
    with "4.IH" len show ?thesis by simp
  qed
qed simp_all

section \<open>Lemmas on the retarget\<close>

lemma unat_wtime: "unat (PeriodTime * 1000000000) = 300000000000"
  by (simp add: PeriodTime_def)

lemma clamp_rtime_bounds:
  "281250000000 \<le> unat (clamp_rtime r) \<and> unat (clamp_rtime r) \<le> 318750000000"
  by (simp add: clamp_rtime_def PeriodTime_def Let_def word_less_nat_alt not_less)

text \<open>
  Within the 256 bits a retarget multiplies the difficulty by a factor between 15/16 and 17/16; when
  that would leave the 256 bits, raising the first byte instead stays within the same factor.
\<close>

lemma retarget_overflow:
  assumes "length d = 32" and "2 ^ 256 \<le> be_nat d * n div 300000000000" and "n \<le> 318750000000"
  shows "be_nat d \<le> be_nat (d[0 := 0xff])" and "16 * be_nat (d[0 := 0xff]) \<le> 17 * be_nat d"
proof -
  from assms(1) obtain b bs where d: "d = b # bs" "length bs = 31" by (cases d) auto
  have "unat b \<le> 255" using unsigned_less [of b, where ?'a = nat] by simp
  then have "unat b * 256 ^ 31 \<le> 255 * 256 ^ 31" by (rule mult_le_mono1)
  with d show "be_nat d \<le> be_nat (d[0 := 0xff])" by simp
  have "be_nat d * n div 300000000000 \<le> be_nat d * 318750000000 div 300000000000"
    using assms(3) by (intro div_le_mono mult_le_mono2)
  with assms(2) have "2 ^ 256 * 300000000000 \<le> be_nat d * 318750000000"
    by (meson dual_order.trans less_eq_div_iff_mult_less_eq zero_less_numeral)
  then have "16 * 2 ^ 256 \<le> 17 * be_nat d" by simp
  moreover have "be_nat (d[0 := 0xff]) < 2 ^ 256" using be_nat_less [of "d[0 := 0xff]"] assms(1) by simp
  ultimately show "16 * be_nat (d[0 := 0xff]) \<le> 17 * be_nat d" by linarith
qed

lemma retarget_bounds:
  assumes "length d = 32"
  shows "length (retarget d r) = 32" and "15 * be_nat d div 16 \<le> be_nat (retarget d r)"
    and "16 * be_nat (retarget d r) \<le> 17 * be_nat d"
proof -
  let ?n = "unat (clamp_rtime r)"
  let ?dt = "be_nat d * ?n div 300000000000"
  have n: "281250000000 \<le> ?n" "?n \<le> 318750000000" using clamp_rtime_bounds by auto
  have ret: "retarget d r = (if 2 ^ 256 \<le> ?dt then d[0 := 0xff] else nat_be 32 ?dt)"
    using assms unat_wtime by (simp add: retarget_def Let_def)
  show "length (retarget d r) = 32" using assms ret by simp
  show "15 * be_nat d div 16 \<le> be_nat (retarget d r)" and "16 * be_nat (retarget d r) \<le> 17 * be_nat d"
  proof (atomize (full), cases "2 ^ 256 \<le> ?dt")
    case True
    with ret retarget_overflow [OF assms True n(2)]
    show "15 * be_nat d div 16 \<le> be_nat (retarget d r) \<and> 16 * be_nat (retarget d r) \<le> 17 * be_nat d"
      by simp
  next
    case False
    then have "be_nat (retarget d r) = ?dt"
      using ret be_nat_nat_be [of ?dt 32] by simp
    moreover have "be_nat d * 281250000000 div 300000000000 \<le> ?dt"
      and "?dt \<le> be_nat d * 318750000000 div 300000000000"
      by (rule div_le_mono, rule mult_le_mono2, rule n)+
    moreover have "be_nat d * 281250000000 div 300000000000 = 15 * be_nat d div 16"
      using div_mult_mult2 [of 18750000000 "15 * be_nat d" 16] by (simp add: mult.commute)
    moreover have "be_nat d * 318750000000 div 300000000000 = 17 * be_nat d div 16"
      using div_mult_mult2 [of 18750000000 "17 * be_nat d" 16] by (simp add: mult.commute)
    moreover have "16 * (17 * be_nat d div 16) \<le> 17 * be_nat d" by simp
    ultimately show "15 * be_nat d div 16 \<le> be_nat (retarget d r) \<and> 16 * be_nat (retarget d r) \<le> 17 * be_nat d"
      by linarith
  qed
qed

section \<open>Properties\<close>

text \<open>
  What accepting a block means, with hashes compared as numbers. A rejected block changes nothing.
\<close>

lemma CheckAndUpdate_spec:
  assumes "length (Hash (Header blk)) = 32" and "length (Difficulty cs) = 32"
    and "0 \<le> Height_cs cs + 1" and "Height_cs cs + 1 < 2 ^ 63"
  shows "CheckAndUpdate blk cs =
    (if be_nat (Hash (Header blk)) \<le> be_nat (Difficulty cs) \<and> LastBlockTime cs < Time blk
     then (True,
       let key = (Height_cs cs + 1) mod 30 = 0 in
       \<lparr>Height_cs = Height_cs cs + 1, LastBlockTime = Time blk,
        LastKeyBlockTime = (if key then Time blk else LastKeyBlockTime cs),
        Difficulty = (if key then retarget (Difficulty cs) (Time blk - LastKeyBlockTime cs)
                      else Difficulty cs)\<rparr>)
     else (False, cs))"
  using assms
  by (simp add: CheckAndUpdate_def Let_def bytes_compare_be_nat not_less not_le i64_id PeriodBlockCount_def)

definition demo_cs :: ConsensusState where
  "demo_cs = \<lparr>Height_cs = 28, LastBlockTime = 0, LastKeyBlockTime = 0, Difficulty = replicate 32 0xf0\<rparr>"

text \<open>
  C33: a retarget moves the difficulty by at most a sixteenth either way (rounded down), also when the
  product would not fit 256 bits, and keeps its 32 bytes.
\<close>

theorem retarget_within_sixteenth:
  assumes "length d = 32"
  shows "length (retarget d r) = 32 \<and> 15 * be_nat d div 16 \<le> be_nat (retarget d r)
     \<and> 16 * be_nat (retarget d r) \<le> 17 * be_nat d"
  using retarget_bounds [OF assms] by blast

theorem retarget_within_sixteenth_witness:
  "length (retarget (replicate 32 0xff) 0) = 32"
  using retarget_within_sixteenth [of "replicate 32 0xff" 0] by simp

text \<open>A chain of blocks applied to a consensus state, as long as each is accepted.\<close>

primrec apply_chain :: "Block list \<Rightarrow> ConsensusState \<Rightarrow> ConsensusState option" where
  "apply_chain [] cs = Some cs"
| "apply_chain (b # bs) cs =
     (case CheckAndUpdate b cs of (ok, cs') \<Rightarrow> if ok then apply_chain bs cs' else None)"

definition cs_inv :: "ConsensusState \<Rightarrow> bool" where
  "cs_inv cs \<longleftrightarrow> length (Difficulty cs) = 32 \<and> LastKeyBlockTime cs \<le> LastBlockTime cs"

lemma CheckAndUpdate_accept:
  assumes "CheckAndUpdate b cs = (True, cs')" and "cs_inv cs"
  shows "cs_inv cs' \<and> LastBlockTime cs < Time b \<and> LastBlockTime cs' = Time b
     \<and> Height_cs cs' = i64 (Height_cs cs + 1)"
  using assms retarget_bounds(1) [of "Difficulty cs"]
  by (auto simp: CheckAndUpdate_def cs_inv_def Let_def split: if_splits)

lemma apply_chain_times:
  "apply_chain bs cs = Some cs' \<Longrightarrow> cs_inv cs \<Longrightarrow> LastBlockTime cs \<le> LastBlockTime cs' \<and> cs_inv cs'"
proof (induction bs arbitrary: cs)
  case (Cons b bs)
  then obtain cs1 where cs1: "CheckAndUpdate b cs = (True, cs1)" "apply_chain bs cs1 = Some cs'"
    by (auto split: prod.splits if_splits)
  from CheckAndUpdate_accept [OF cs1(1) Cons.prems(2)] Cons.IH [OF cs1(2)] show ?case by auto
qed simp

text \<open>
  C35: along any accepted chain the block times strictly increase from the state's last block time,
  the height advances by one per block, and the state keeps a 32-byte difficulty and a period that
  started no later than the last block (so the time difference of a retarget never wraps around).
\<close>

theorem apply_chain_invariant:
  assumes "apply_chain bs cs = Some cs'" and "cs_inv cs"
    and "0 \<le> Height_cs cs + 1" and "Height_cs cs + int (length bs) < 2 ^ 63"
  shows "sorted_wrt (<) (LastBlockTime cs # map Time bs) \<and> cs_inv cs'
     \<and> Height_cs cs' = Height_cs cs + int (length bs)
     \<and> LastBlockTime cs' = last (LastBlockTime cs # map Time bs)"
  using assms
proof (induction bs arbitrary: cs)
  case Nil
  then show ?case by simp
next
  case (Cons b bs)
  then obtain cs1 where cs1: "CheckAndUpdate b cs = (True, cs1)" "apply_chain bs cs1 = Some cs'"
    by (auto split: prod.splits if_splits)
  from CheckAndUpdate_accept [OF cs1(1) Cons.prems(2)] Cons.prems(3,4)
  have st: "cs_inv cs1" "LastBlockTime cs < Time b" "LastBlockTime cs1 = Time b"
    "Height_cs cs1 = Height_cs cs + 1" by (auto simp: i64_id)
  with Cons.IH [OF cs1(2)] Cons.prems show ?case by fastforce
qed

section \<open>A period\<close>

text \<open>The new difficulty as a number: the old one, scaled by the time that counts.\<close>

lemma unat_clamp_rtime: "unat (clamp_rtime r) = max 281250000000 (min 318750000000 (unat r))"
  by (simp add: clamp_rtime_def PeriodTime_def Let_def word_less_nat_alt not_less)

lemma be_nat_retarget:
  assumes "length d = 32"
  shows "be_nat (retarget d r) =
    (let dt = be_nat d * max 281250000000 (min 318750000000 (unat r)) div 300000000000 in
     if dt < 2 ^ 256 then dt else 255 * 256 ^ 31 + be_nat d mod 256 ^ 31)"
proof -
  let ?dt = "be_nat d * max 281250000000 (min 318750000000 (unat r)) div 300000000000"
  have ret: "retarget d r = (if 2 ^ 256 \<le> ?dt then d[0 := 0xff] else nat_be 32 ?dt)"
    using assms unat_wtime by (simp add: retarget_def Let_def unat_clamp_rtime)
  from assms obtain b bs where d: "d = b # bs" "length bs = 31" by (cases d) auto
  have "be_nat (d[0 := 0xff]) = 255 * 256 ^ 31 + be_nat d mod 256 ^ 31" using be_nat_less [of bs] by (simp add: d)
  moreover have "be_nat (nat_be 32 ?dt) = ?dt" if "?dt < 2 ^ 256" by (rule be_nat_nat_be) (use that in simp)
  ultimately show ?thesis by (simp add: ret Let_def)
qed

lemma apply_chain_append: "apply_chain (as @ bs) cs = Option.bind (apply_chain as cs) (apply_chain bs)"
  by (induction as arbitrary: cs) (simp_all split: prod.splits)

text \<open>Before the next key block, blocks change height and time only.\<close>

lemma apply_chain_within:
  assumes "apply_chain bs cs = Some cs'" and "length (Difficulty cs) = 32" and "\<forall>b\<in>set bs. length (Hash (Header b)) = 32"
    and "0 \<le> Height_cs cs" and "Height_cs cs mod 30 + int (length bs) < 30" and "Height_cs cs + int (length bs) < 2 ^ 63"
  shows "(\<forall>b\<in>set bs. be_nat (Hash (Header b)) \<le> be_nat (Difficulty cs)) \<and> Difficulty cs' = Difficulty cs \<and>
    LastKeyBlockTime cs' = LastKeyBlockTime cs \<and> Height_cs cs' = Height_cs cs + int (length bs)"
  using assms
proof (induction bs arbitrary: cs)
  case (Cons b bs)
  then obtain cs1 where cs1: "CheckAndUpdate b cs = (True, cs1)" "apply_chain bs cs1 = Some cs'"
    by (auto split: prod.splits if_splits)
  have "Height_cs cs mod 30 + 1 < 30" using Cons.prems(5) by simp
  then have "(Height_cs cs mod 30 + 1) mod 30 = Height_cs cs mod 30 + 1" by (intro mod_pos_pos_trivial) simp_all
  then have key: "(Height_cs cs + 1) mod 30 = Height_cs cs mod 30 + 1" by (simp only: mod_add_left_eq)
  have "Height_cs cs mod 30 + 1 \<noteq> 0" using pos_mod_sign [of 30 "Height_cs cs"] by linarith
  with cs1(1) key CheckAndUpdate_spec [of b cs] Cons.prems
  have st: "be_nat (Hash (Header b)) \<le> be_nat (Difficulty cs)" "Difficulty cs1 = Difficulty cs" "Height_cs cs1 = Height_cs cs + 1"
    "LastKeyBlockTime cs1 = LastKeyBlockTime cs"
    by (auto simp: Let_def split: if_splits)
  with Cons.IH [OF cs1(2)] Cons.prems key show ?case by auto
qed simp

text \<open>
  C32: a period of thirty blocks. From a state at the start of a period, every one of thirty accepted blocks has a
  hash that, read as a number, does not exceed the one difficulty of the period. Afterwards a new period starts, thirty
  blocks higher and at the time of the last block, and its difficulty is the old one scaled by the time from
  the start to the last block over 300 seconds, a time that counts as at least 281.25 and at most 318.75 seconds. When
  the product does not fit 256 bits the first byte becomes 255 instead.
\<close>

theorem period_difficulty:
  assumes "apply_chain bs cs = Some cs'" and "length bs = 30" and "\<forall>b\<in>set bs. length (Hash (Header b)) = 32"
    and "cs_inv cs" and "LastKeyBlockTime cs = LastBlockTime cs"
    and "0 \<le> Height_cs cs" and "Height_cs cs mod 30 = 0" and "Height_cs cs + 30 < 2 ^ 63"
  shows "(\<forall>b\<in>set bs. be_nat (Hash (Header b)) \<le> be_nat (Difficulty cs)) \<and>
    Height_cs cs' = Height_cs cs + 30 \<and> LastBlockTime cs' = Time (last bs) \<and> LastKeyBlockTime cs' = Time (last bs) \<and>
    LastBlockTime cs < Time (last bs) \<and> length (Difficulty cs') = 32 \<and>
    (let taken = unat (Time (last bs)) - unat (LastBlockTime cs);
         dt = be_nat (Difficulty cs) * max 281250000000 (min 318750000000 taken) div 300000000000 in
     be_nat (Difficulty cs') = (if dt < 2 ^ 256 then dt else 255 * 256 ^ 31 + be_nat (Difficulty cs) mod 256 ^ 31))"
proof -
  obtain as b where bs: "bs = as @ [b]" "length as = 29" using assms(2) by (cases bs rule: rev_cases) auto
  from assms(1) obtain m where m1: "apply_chain as cs = Some m" and "apply_chain [b] m = Some cs'"
    by (auto simp: bs(1) apply_chain_append bind_eq_Some_conv simp del: apply_chain.simps)
  then have m: "apply_chain as cs = Some m" "CheckAndUpdate b m = (True, cs')"
    by (cases "CheckAndUpdate b m"; simp split: if_splits)+
  have d: "length (Difficulty cs) = 32" using assms(4) by (simp add: cs_inv_def)
  from apply_chain_within [OF m(1) d] assms(3,6-8) bs
  have w: "\<forall>a\<in>set as. be_nat (Hash (Header a)) \<le> be_nat (Difficulty cs)" "Difficulty m = Difficulty cs"
    "LastKeyBlockTime m = LastBlockTime cs" "Height_cs m = Height_cs cs + 29" by (auto simp: assms(5))
  have "(Height_cs cs + 30) mod 30 = 0" using assms(7) by simp
  with m(2) CheckAndUpdate_spec [of b m] assms(3,6,8) bs(1) d w
  have st: "be_nat (Hash (Header b)) \<le> be_nat (Difficulty cs)" "Height_cs cs' = Height_cs cs + 30" "LastBlockTime cs' = Time b"
    "LastKeyBlockTime cs' = Time b" "Difficulty cs' = retarget (Difficulty cs) (Time b - LastBlockTime cs)" "LastBlockTime m < Time b"
    by (auto simp: Let_def add.assoc split: if_splits)
  have "LastBlockTime cs \<le> LastBlockTime m" using apply_chain_times [OF m(1) assms(4)] by simp
  with st(6) have lt: "LastBlockTime cs < Time b" by simp
  then have "unat (Time b - LastBlockTime cs) = unat (Time b) - unat (LastBlockTime cs)" by (simp add: unat_sub)
  with st w(1) lt retarget_bounds(1) [OF d] show ?thesis by (simp add: bs(1) be_nat_retarget [OF d])
qed

lemma zero_hash_accepted:
  assumes "Hash (Header b) = zero32" and "LastBlockTime cs < Time b" and "cs_inv cs"
  shows "\<exists>cs'. CheckAndUpdate b cs = (True, cs') \<and> LastBlockTime cs' = Time b \<and> cs_inv cs'"
proof -
  have "be_nat zero32 = 0" by (simp only: zero32_def be_nat_replicate_0)
  then have "\<not> 0 < bytes_compare (Hash (Header b)) (Difficulty cs)"
    using assms by (simp add: bytes_compare_be_nat cs_inv_def)
  with assms(2) have "fst (CheckAndUpdate b cs)" by (simp add: CheckAndUpdate_def Let_def)
  then obtain cs' where "CheckAndUpdate b cs = (True, cs')" by (cases "CheckAndUpdate b cs") auto
  with CheckAndUpdate_accept [OF this assms(3)] show ?thesis by blast
qed

lemma zero_chain_accepted:
  "\<forall>b\<in>set bs. Hash (Header b) = zero32 \<Longrightarrow> sorted_wrt (<) (LastBlockTime cs # map Time bs) \<Longrightarrow> cs_inv cs \<Longrightarrow>
   \<exists>cs'. apply_chain bs cs = Some cs'"
proof (induction bs arbitrary: cs)
  case (Cons b bs)
  then obtain cs1 where "CheckAndUpdate b cs = (True, cs1)" "LastBlockTime cs1 = Time b" "cs_inv cs1"
    using zero_hash_accepted [of b cs] by auto
  with Cons show ?case by simp
qed simp

theorem period_difficulty_witness:
  "\<exists>bs cs'. length bs = 30 \<and> apply_chain bs (demo_cs\<lparr>Height_cs := 0\<rparr>) = Some cs' \<and> Height_cs cs' = 30 \<and> LastKeyBlockTime cs' = 30 \<and>
     be_nat (Difficulty cs') = 15 * be_nat (Difficulty demo_cs) div 16"
proof -
  let ?b = "\<lambda>n. demo_block\<lparr>Header := (Header demo_block)\<lparr>Hash := zero32\<rparr>, Time := of_nat (Suc n)\<rparr>"
  let ?bs = "map ?b [0..<30]" and ?cs = "demo_cs\<lparr>Height_cs := 0\<rparr>" and ?d = "be_nat (replicate 32 0xf0)"
  have inv: "cs_inv ?cs" by (simp add: cs_inv_def demo_cs_def)
  have u: "unat (of_nat (Suc n) :: u64) = Suc n" if "n < 30" for n using that by (simp only: unat_of_nat) simp
  then have "\<forall>n\<in>{0..<30}. (0 :: u64) < of_nat (Suc n)" by (simp add: word_less_nat_alt del: of_nat_Suc)
  moreover have "sorted_wrt (\<lambda>m n. (of_nat (Suc m) :: u64) < of_nat (Suc n)) [0..<30]"
    using u by (simp add: sorted_wrt_iff_nth_less word_less_nat_alt del: of_nat_Suc)
  ultimately have "sorted_wrt (<) (LastBlockTime ?cs # map Time ?bs)"
    by (simp add: sorted_wrt_map demo_cs_def del: of_nat_Suc upt_rec_numeral)
  with zero_chain_accepted [of ?bs ?cs] inv obtain cs' where run: "apply_chain ?bs ?cs = Some cs'" by auto
  have "last ?bs = ?b 29" by (simp add: last_map)
  then have "Time (last ?bs) = 30" by simp
  moreover have "?d < 2 ^ 256" using be_nat_less [of "replicate 32 0xf0"] by simp
  moreover have "?d * 281250000000 div 300000000000 = 15 * ?d div 16"
    using div_mult_mult2 [of 18750000000 "15 * ?d" 16] by (simp add: mult.commute)
  ultimately show ?thesis
    using period_difficulty [OF run _ _ inv] run
    by (intro exI [of _ ?bs] exI [of _ cs']) (simp add: demo_cs_def zero32_def Let_def max_def min_def)
qed

lemma demo_chain: "apply_chain [demo_block\<lparr>Header := (Header demo_block)\<lparr>Hash := zero32\<rparr>\<rparr>] (demo_cs\<lparr>Height_cs := 1\<rparr>)
    = Some (demo_cs\<lparr>Height_cs := 2, LastBlockTime := 1\<rparr>)"
proof -
  have "be_nat zero32 = 0" by (simp only: zero32_def be_nat_replicate_0)
  then have "\<not> 0 < bytes_compare zero32 (replicate 32 0xf0)" by (simp add: bytes_compare_be_nat)
  moreover have "Time demo_block = 1" by (simp add: demo_block_def FillHash_def Let_def)
  ultimately show ?thesis
    by (simp add: CheckAndUpdate_def demo_cs_def Let_def i64_id PeriodBlockCount_def)
qed

theorem apply_chain_invariant_witness:
  "\<exists>bs cs'. length bs = 1 \<and> apply_chain bs (demo_cs\<lparr>Height_cs := 1\<rparr>) = Some cs' \<and> LastBlockTime cs' = last (map Time bs) \<and>
     Height_cs cs' = 2 \<and> cs_inv cs'"
  using apply_chain_invariant [OF demo_chain] demo_chain
  by (intro exI [of _ "[demo_block\<lparr>Header := (Header demo_block)\<lparr>Hash := zero32\<rparr>\<rparr>]"] exI [of _ "demo_cs\<lparr>Height_cs := 2, LastBlockTime := 1\<rparr>"])
    (simp add: cs_inv_def demo_cs_def)

text \<open>
  The consensus state stored with a block is read back unchanged, for every height a Go int
  can hold.
\<close>

lemma DecodeConsensus_EncodeConsensus:
  assumes "length (Difficulty cs) = 32" and "- (2 ^ 63) \<le> Height_cs cs" and "Height_cs cs < 2 ^ 63"
  shows "DecodeConsensus (EncodeConsensus cs @ rest) = (Ok cs, rest)"
proof -
  have "ReadFull (8 * 3 + HashLen) (EncodeConsensus cs @ rest) = (Ok (EncodeConsensus cs), rest)"
    using assms(1) by (intro ReadFull_append) (simp add: EncodeConsensus_def len_defs)
  then show ?thesis
    using assms by (simp add: DecodeConsensus_def go_run)
      (simp add: EncodeConsensus_def sub_bytes_def int_of_u64_u64_of_int)
qed

lemma DecodeConsensus_EncodeConsensus_witness:
  "DecodeConsensus (EncodeConsensus (demo_cs\<lparr>Height_cs := - 1\<rparr>) @ [3]) = (Ok (demo_cs\<lparr>Height_cs := - 1\<rparr>), [3])"
  by (rule DecodeConsensus_EncodeConsensus) (simp_all add: demo_cs_def)

end
