(* ===== verification/Slice.thy ===== *)
theory Slice
  imports Prelude
begin

text \<open>
  The layered key-value slices of \<^verbatim>\<open>storage/slice.go\<close>. A slice is reached through a pointer and
  points to its base; its Go map is shared by reference too (the storage engine lets two slices
  share one map), so the model is an explicit store: slice objects and map objects, both addressed
  by numbers that a counter hands out.

  The abstraction is \<open>slice_view\<close>, the total function from keys to data that \<open>Read\<close> computes. The
  lemmas show that \<open>Read\<close> returns on every well-formed store, what each operation does to the view
  of the slice it works on and that it leaves the views of the slices below alone. The locales
  \<open>kv_store\<close> and \<open>forking_store\<close> are the contract the clients use; both are interpreted here.
\<close>

section \<open>Data\<close>

type_synonym KeyType = bytes
type_synonym DataType = bytes
type_synonym SliceKeyType = bytes
type_synonym slice_ptr = nat

definition KeyLen :: nat where "KeyLen = 65"
definition DataLen :: nat where "DataLen = 32"
definition SliceKeyLen :: nat where "SliceKeyLen = 32"

definition zero_data :: DataType where
  "zero_data = replicate DataLen 0"

record Slice =
  base :: "slice_ptr option"
  height :: int
  st :: nat
  freezed :: bool

record SliceHeap =
  slices :: "slice_ptr \<rightharpoonup> Slice"
  maps :: "nat \<Rightarrow> (KeyType \<rightharpoonup> DataType)"
  next_ref :: nat

section \<open>Operations\<close>

definition alloc_slice :: "slice_ptr option \<Rightarrow> int \<Rightarrow> (SliceHeap, slice_ptr) go" where
  "alloc_slice b ht h =
     (let n = next_ref h in
      (Ok n, h\<lparr>slices := (slices h)(n \<mapsto> \<lparr>base = b, height = ht, st = n, freezed = False\<rparr>),
               maps := (maps h)(n := Map.empty), next_ref := Suc n\<rparr>))"

definition EmptySlice :: "(SliceHeap, slice_ptr) go" where
  "EmptySlice = alloc_slice None 0"

text \<open>A pointer to no slice stands for Go's nil: dereferencing it panics.\<close>

definition deref :: "slice_ptr \<Rightarrow> (SliceHeap, Slice) go" where
  "deref p h = (case slices h p of None \<Rightarrow> (Panic, h) | Some s \<Rightarrow> (Ok s, h))"

definition ForkSlice :: "slice_ptr \<Rightarrow> (SliceHeap, slice_ptr) go" where
  "ForkSlice p = bindG (deref p) (\<lambda>b. alloc_slice (Some p) (i64 (height b + 1)))"

definition Height :: "slice_ptr \<Rightarrow> (SliceHeap, int) go" where
  "Height p = bindG (deref p) (\<lambda>s. ret (height s))"

definition set_map :: "nat \<Rightarrow> (KeyType \<rightharpoonup> DataType) \<Rightarrow> SliceHeap \<Rightarrow> SliceHeap" where
  "set_map r m h = h\<lparr>maps := (maps h)(r := m)\<rparr>"

text \<open>
  \<^verbatim>\<open>Merge\<close> copies every entry into the base's map; with no base the first entry dereferences nil.
\<close>

definition Merge :: "slice_ptr \<Rightarrow> (SliceHeap, unit) go" where
  "Merge p = bindG (deref p) (\<lambda>s.
     bindG (getS (\<lambda>h. maps h (st s))) (\<lambda>m.
     case base s of
       None \<Rightarrow> if m = Map.empty then ret () else panic
     | Some b \<Rightarrow> bindG (deref b) (\<lambda>bs.
         modifyS (\<lambda>h. set_map (st bs) (maps h (st bs) ++ m) h))))"

text \<open>The loop of \<^verbatim>\<open>Read\<close> walks down the bases; \<^const>\<open>None\<close> is a walk that never ends.\<close>

partial_function (option) Read_loop ::
  "SliceHeap \<Rightarrow> KeyType \<Rightarrow> slice_ptr \<Rightarrow> DataType res option" where
  "Read_loop h k u =
     (case slices h u of
        None \<Rightarrow> Some Panic
      | Some s \<Rightarrow>
          (case maps h (st s) k of
             Some v \<Rightarrow> Some (Ok v)
           | None \<Rightarrow>
               (case base s of
                  None \<Rightarrow> Some (Ok zero_data)
                | Some b \<Rightarrow> Read_loop h k b)))"

definition Read :: "slice_ptr \<Rightarrow> KeyType \<Rightarrow> (SliceHeap, DataType) go" where
  "Read p k h = (case Read_loop h k p of None \<Rightarrow> (Diverge, h) | Some r \<Rightarrow> (r, h))"

definition Write :: "slice_ptr \<Rightarrow> KeyType \<Rightarrow> DataType \<Rightarrow> (SliceHeap, unit) go" where
  "Write p k v = bindG (deref p) (\<lambda>s.
     if freezed s then panic
     else modifyS (\<lambda>h. set_map (st s) ((maps h (st s))(k \<mapsto> v)) h))"

definition set_slice :: "slice_ptr \<Rightarrow> Slice \<Rightarrow> SliceHeap \<Rightarrow> SliceHeap" where
  "set_slice p s h = h\<lparr>slices := (slices h)(p \<mapsto> s)\<rparr>"

definition Freeze :: "slice_ptr \<Rightarrow> (SliceHeap, unit) go" where
  "Freeze p = bindG (deref p) (\<lambda>s. modifyS (set_slice p (s\<lparr>freezed := True\<rparr>)))"

text \<open>
  \<^verbatim>\<open>LoadFile\<close> reads a height, a count and that many entries; it works on the store and the rest
  of the file. The slice counts as freezed as soon as the call has started.
\<close>

fun LoadFile_entries :: "nat \<Rightarrow> nat \<Rightarrow> (SliceHeap \<times> bytes, unit) go" where
  "LoadFile_entries 0 r = ret ()"
| "LoadFile_entries (Suc n) r =
     bindG (wrap_err ErrLoadSlice (on_snd (ReadFull KeyLen))) (\<lambda>k.
     bindG (wrap_err ErrLoadSlice (on_snd (ReadFull DataLen))) (\<lambda>v.
     bindG (on_fst (modifyS (\<lambda>h. set_map r ((maps h r)(k \<mapsto> v)) h))) (\<lambda>_.
     LoadFile_entries n r)))"

definition LoadFile :: "slice_ptr \<Rightarrow> (SliceHeap \<times> bytes, unit) go" where
  "LoadFile p = bindG (on_fst (deref p)) (\<lambda>s.
     if freezed s then throw ErrFreezedLoad
     else bindG (on_fst (modifyS (set_slice p (s\<lparr>freezed := True\<rparr>)))) (\<lambda>_.
       bindG (on_fst (getS (\<lambda>h. maps h (st s)))) (\<lambda>m.
       if dom m \<noteq> {} then throw ErrNonemptyLoad
       else bindG (wrap_err ErrLoadSlice (on_snd (ReadFull 8))) (\<lambda>lbuf.
         bindG (on_fst (modifyS (set_slice p (s\<lparr>freezed := True, height := int_of_u64 (le_word lbuf)\<rparr>)))) (\<lambda>_.
         bindG (wrap_err ErrLoadSlice (on_snd (ReadFull 8))) (\<lambda>lbuf.
         LoadFile_entries (nat (int_of_u64 (le_word lbuf))) (st s)))))))"

text \<open>
  \<^verbatim>\<open>DumpFile\<close> writes the same format. Go leaves the order of a range over a map open, so the order
  is an argument: any list of the map's entries (\<open>is_range\<close>).
\<close>

definition is_range :: "('k \<times> 'v) list \<Rightarrow> ('k \<rightharpoonup> 'v) \<Rightarrow> bool" where
  "is_range kvs m \<longleftrightarrow> distinct (map fst kvs) \<and> map_of kvs = m"

definition DumpFile :: "int \<Rightarrow> (KeyType \<times> DataType) list \<Rightarrow> bytes" where
  "DumpFile ht kvs =
     le_bytes 8 (u64_of_int ht) @ le_bytes 8 (of_nat (length kvs) :: u64)
       @ concat (map (\<lambda>(k, v). k @ v) kvs)"

section \<open>Well-formed stores\<close>

text \<open>
  A base is older than the slices built on it, so pointers decrease down a chain, and every
  reference in use has been handed out.
\<close>

definition wf_heap :: "SliceHeap \<Rightarrow> bool" where
  "wf_heap h \<longleftrightarrow> (\<forall>p s. slices h p = Some s \<longrightarrow>
     p < next_ref h \<and> st s < next_ref h \<and>
     (\<forall>b. base s = Some b \<longrightarrow> b < p \<and> b \<in> dom (slices h)))"

definition live :: "SliceHeap \<Rightarrow> slice_ptr \<Rightarrow> bool" where
  "live h p \<longleftrightarrow> wf_heap h \<and> p \<in> dom (slices h)"

definition writable :: "SliceHeap \<Rightarrow> slice_ptr \<Rightarrow> bool" where
  "writable h p \<longleftrightarrow> wf_heap h \<and> (\<exists>s. slices h p = Some s \<and> \<not> freezed s)"

inductive in_chain :: "SliceHeap \<Rightarrow> slice_ptr \<Rightarrow> slice_ptr \<Rightarrow> bool" for h where
  in_chain_self: "in_chain h p p"
| in_chain_base: "slices h p = Some s \<Longrightarrow> base s = Some b \<Longrightarrow> in_chain h b q \<Longrightarrow> in_chain h p q"

text \<open>The map references that reading \<open>p\<close> may look at.\<close>

definition chain_maps :: "SliceHeap \<Rightarrow> slice_ptr \<Rightarrow> nat set" where
  "chain_maps h p = {st s | q s. in_chain h p q \<and> slices h q = Some s}"

definition slice_view :: "SliceHeap \<Rightarrow> slice_ptr \<Rightarrow> KeyType \<Rightarrow> DataType" where
  "slice_view h p k = (case Read_loop h k p of Some (Ok v) \<Rightarrow> v | _ \<Rightarrow> zero_data)"

lemma wf_heapD:
  assumes "wf_heap h" and "slices h p = Some s"
  shows "p < next_ref h" and "st s < next_ref h"
    and "base s = Some b \<Longrightarrow> b < p" and "base s = Some b \<Longrightarrow> b \<in> dom (slices h)"
  using assms by (auto simp: wf_heap_def)

lemma writable_live: "writable h p \<Longrightarrow> live h p"
  by (auto simp: writable_def live_def)

lemma deref_Some [go_run]: "slices h p = Some s \<Longrightarrow> deref p h = (Ok s, h)"
  by (simp add: deref_def)

lemma Read_loop_returns:
  assumes "wf_heap h" and "p \<in> dom (slices h)"
  shows "\<exists>v. Read_loop h k p = Some (Ok v)"
  using assms(2)
proof (induction p rule: less_induct)
  case (less p)
  then obtain s where s: "slices h p = Some s" by blast
  show ?case
  proof (cases "base s")
    case None
    with s show ?thesis by (subst Read_loop.simps) (auto split: option.splits)
  next
    case (Some b)
    with assms(1) s have "b < p" "b \<in> dom (slices h)" by (auto dest: wf_heapD)
    from less.IH [OF this] s Some show ?thesis
      by (subst Read_loop.simps) (auto split: option.splits)
  qed
qed

lemma Read_view: "live h p \<Longrightarrow> Read p k h = (Ok (slice_view h p k), h)"
  using Read_loop_returns [of h p k] by (auto simp: live_def Read_def slice_view_def)

lemma slice_view_unfold:
  assumes "slices h p = Some s"
  shows "slice_view h p k = (case maps h (st s) k of Some v \<Rightarrow> v
     | None \<Rightarrow> (case base s of None \<Rightarrow> zero_data | Some b \<Rightarrow> slice_view h b k))"
  unfolding slice_view_def
  by (subst Read_loop.simps) (simp add: assms split: option.splits)

lemma in_chain_trans_base:
  assumes "slices h p = Some s" and "base s = Some b" and "in_chain h b q"
  shows "in_chain h p q"
  using assms by (rule in_chain.in_chain_base)

lemma in_chain_le:
  assumes "in_chain h p q" and "wf_heap h"
  shows "q \<le> p"
  using assms by (induction rule: in_chain.induct) (auto dest: wf_heapD)

lemma in_chain_dom:
  assumes "in_chain h p q" and "wf_heap h" and "p \<in> dom (slices h)"
  shows "q \<in> dom (slices h)"
  using assms by (induction rule: in_chain.induct) (auto dest: wf_heapD)

text \<open>The view of a slice depends only on the slices and the maps of its chain.\<close>

lemma slice_view_cong:
  assumes wf: "wf_heap h" and p: "p \<in> dom (slices h)"
    and same: "\<And>q. in_chain h p q \<Longrightarrow> slices h' q = slices h q"
    and maps: "\<And>r. r \<in> chain_maps h p \<Longrightarrow> maps h' r = maps h r"
  shows "slice_view h' p = slice_view h p"
  using p same maps
proof (induction p rule: less_induct)
  case (less p)
  then obtain s where s: "slices h p = Some s" by blast
  with less.prems(2) have s': "slices h' p = Some s" by (simp add: in_chain.in_chain_self)
  have m: "maps h' (st s) = maps h (st s)"
    using s by (intro less.prems(3)) (auto simp: chain_maps_def intro: in_chain.in_chain_self)
  have "slice_view h' b = slice_view h b" if b: "base s = Some b" for b
  proof (rule less.IH)
    show "b < p" and "b \<in> dom (slices h)" using wf s b by (auto dest: wf_heapD)
    show "slices h' q = slices h q" if "in_chain h b q" for q
      using less.prems(2) in_chain_trans_base [OF s b that] by blast
    show "maps h' r = maps h r" if "r \<in> chain_maps h b" for r
      using that in_chain_trans_base [OF s b] by (intro less.prems(3)) (auto simp: chain_maps_def)
  qed
  then show ?case
    using m by (intro ext) (simp add: slice_view_unfold [OF s] slice_view_unfold [OF s'] split: option.splits)
qed

section \<open>What the operations do to the views\<close>

text \<open>
  \<open>frame h p h'\<close>: between \<open>h\<close> and \<open>h'\<close> only the map of slice \<open>p\<close> and slices allocated meanwhile have
  changed. Everything a transaction does to its slice is of this form.
\<close>

definition frame :: "SliceHeap \<Rightarrow> slice_ptr \<Rightarrow> SliceHeap \<Rightarrow> bool" where
  "frame h p h' \<longleftrightarrow> wf_heap h' \<and> next_ref h \<le> next_ref h' \<and>
     (\<forall>q < next_ref h. slices h' q = slices h q) \<and>
     (\<forall>r < next_ref h. (\<forall>s. slices h p = Some s \<longrightarrow> r \<noteq> st s) \<longrightarrow> maps h' r = maps h r)"

text \<open>
  \<open>forked g p h q\<close>: since \<open>g\<close>, the slice \<open>q\<close> has been forked from \<open>p\<close> and only \<open>q\<close> has been written.
\<close>

definition forked :: "SliceHeap \<Rightarrow> slice_ptr \<Rightarrow> SliceHeap \<Rightarrow> slice_ptr \<Rightarrow> bool" where
  "forked g p h q \<longleftrightarrow> live g p \<and> frame g p h \<and> slice_view h p = slice_view g p \<and>
     (\<exists>s. slices h q = Some s \<and> base s = Some p \<and> next_ref g \<le> st s)"

lemma frame_refl: "wf_heap h \<Longrightarrow> frame h p h"
  by (simp add: frame_def)

lemma frame_slice:
  assumes "frame h p h'" and "live h q"
  shows "slices h' q = slices h q"
  using assms by (auto simp: frame_def live_def dest: wf_heapD)

lemma frame_trans:
  assumes "frame h p h1" and "frame h1 p h2" and "live h p"
  shows "frame h p h2"
  using assms frame_slice [OF assms(1,3)] by (fastforce simp: frame_def)

lemma frame_live: "frame h p h' \<Longrightarrow> live h q \<Longrightarrow> live h' q"
  using frame_slice [of h p h' q] by (auto simp: live_def frame_def dom_def)

lemma frame_writable: "frame h p h' \<Longrightarrow> writable h q \<Longrightarrow> writable h' q"
  using frame_slice [of h p h' q] writable_live [of h q] by (auto simp: writable_def frame_def)

lemma frame_in_chain:
  assumes "frame h p h'" and "live h b"
  shows "in_chain h' b q \<longleftrightarrow> in_chain h b q"
proof
  show "in_chain h b q" if "in_chain h' b q"
    using that assms(2)
  proof (induction rule: in_chain.induct)
    case (in_chain_base b s b' q)
    then have s: "slices h b = Some s" using frame_slice [OF assms(1)] by metis
    with in_chain_base have "live h b'" by (auto simp: live_def dest: wf_heapD)
    with in_chain_base s show ?case by (blast intro: in_chain.in_chain_base)
  qed (rule in_chain.in_chain_self)
  show "in_chain h' b q" if "in_chain h b q"
    using that assms(2)
  proof (induction rule: in_chain.induct)
    case (in_chain_base b s b' q)
    then have s: "slices h' b = Some s" using frame_slice [OF assms(1)] by metis
    from in_chain_base have "live h b'" by (auto simp: live_def dest: wf_heapD)
    with in_chain_base s show ?case by (blast intro: in_chain.in_chain_base)
  qed (rule in_chain.in_chain_self)
qed

lemma live_in_chain: "live h b \<Longrightarrow> in_chain h b q \<Longrightarrow> live h q"
  by (auto simp: live_def dest: in_chain_dom)

lemma frame_chain_maps:
  assumes "frame h p h'" and "live h b"
  shows "chain_maps h' b = chain_maps h b"
  unfolding chain_maps_def
  using frame_in_chain [OF assms] frame_slice [OF assms(1) live_in_chain [OF assms(2)]]
  by (metis (no_types, opaque_lifting))

lemma chain_maps_bound: "live h b \<Longrightarrow> r \<in> chain_maps h b \<Longrightarrow> r < next_ref h"
  by (auto simp: chain_maps_def live_def dest: wf_heapD)

lemma frame_view:
  assumes fr: "frame h p h'" and b: "live h b"
    and out: "\<And>s. slices h p = Some s \<Longrightarrow> st s \<notin> chain_maps h b"
  shows "slice_view h' b = slice_view h b"
proof (rule slice_view_cong)
  show "wf_heap h" and "b \<in> dom (slices h)" using b by (auto simp: live_def)
  show "slices h' q = slices h q" if "in_chain h b q" for q
    using frame_slice [OF fr live_in_chain [OF b that]] .
  show "maps h' r = maps h r" if "r \<in> chain_maps h b" for r
    using that out chain_maps_bound [OF b that] fr unfolding frame_def by metis
qed

text \<open>Reading one key looks at that key only.\<close>

lemma slice_view_key_cong:
  assumes wf: "wf_heap h" and p: "p \<in> dom (slices h)"
    and "slices h' = slices h" and "\<And>r. maps h' r k = maps h r k"
  shows "slice_view h' p k = slice_view h p k"
  using p
proof (induction p rule: less_induct)
  case (less p)
  then obtain s where s: "slices h p = Some s" by blast
  have "slice_view h' b k = slice_view h b k" if "base s = Some b" for b
    using wf s that by (intro less.IH) (auto dest: wf_heapD)
  then show ?case
    using assms(3,4) s by (simp add: slice_view_unfold [OF s] slice_view_unfold [of h' p s] split: option.splits)
qed

lemma Write_run:
  assumes "writable h p"
  obtains h' where "Write p k v h = (Ok (), h')" and "frame h p h'"
    and "slice_view h' p = (slice_view h p)(k := v)"
proof -
  from assms obtain s where s: "slices h p = Some s" "\<not> freezed s" and wf: "wf_heap h"
    by (auto simp: writable_def)
  define h' where h': "h' = set_map (st s) ((maps h (st s))(k \<mapsto> v)) h"
  have sl: "slices h' = slices h" "next_ref h' = next_ref h" by (simp_all add: h' set_map_def)
  have "wf_heap h'" using wf by (simp add: wf_heap_def sl)
  then have fr: "frame h p h'" by (auto simp: frame_def sl h' set_map_def s)
  have "slice_view h' p j = slice_view h p j" if "j \<noteq> k" for j
    using wf s sl that by (intro slice_view_key_cong) (auto simp: h' set_map_def)
  moreover have "slice_view h' p k = v"
    using s sl slice_view_unfold [of h' p s k] by (simp add: h' set_map_def)
  ultimately have "slice_view h' p = (slice_view h p)(k := v)"
    by (intro ext) simp
  with fr s show thesis by (intro that) (simp_all add: Write_def go_run h')
qed

lemma alloc_run:
  assumes wf: "wf_heap h" and b: "\<And>b. bo = Some b \<Longrightarrow> live h b"
  obtains q h' where "alloc_slice bo ht h = (Ok q, h')" and "q = next_ref h" and "frame h p h'"
    and "writable h' q" and "\<And>r. live h r \<Longrightarrow> slice_view h' r = slice_view h r"
    and "slice_view h' q = (case bo of None \<Rightarrow> (\<lambda>_. zero_data) | Some b \<Rightarrow> slice_view h b)"
    and "slices h' q = Some \<lparr>base = bo, height = ht, st = q, freezed = False\<rparr>"
proof -
  define s :: Slice where "s = \<lparr>base = bo, height = ht, st = next_ref h, freezed = False\<rparr>"
  define h' where "h' = h\<lparr>slices := (slices h)(next_ref h \<mapsto> s),
    maps := (maps h)(next_ref h := Map.empty), next_ref := Suc (next_ref h)\<rparr>"
  have s: "slices h' (next_ref h) = Some s" by (simp add: h'_def)
  have wf': "wf_heap h'"
    using wf b by (fastforce simp: wf_heap_def h'_def s_def live_def)
  have fr: "frame h p' h'" for p'
    using wf' by (auto simp: frame_def h'_def)
  have v: "slice_view h' r = slice_view h r" if "live h r" for r
    using fr [of "next_ref h"] that by (rule frame_view) (use wf in \<open>auto dest: wf_heapD\<close>)
  have "slice_view h' (next_ref h) = (case bo of None \<Rightarrow> (\<lambda>_. zero_data) | Some b \<Rightarrow> slice_view h b)"
    using v b by (intro ext) (auto simp: slice_view_unfold [OF s] s_def h'_def [symmetric] split: option.splits,
      auto simp: h'_def)
  with fr v s wf' show thesis
    by (intro that [of "next_ref h" h']) (auto simp: alloc_slice_def h'_def s_def writable_def Let_def)
qed

lemma EmptySlice_run:
  assumes "wf_heap h"
  obtains q h' where "EmptySlice h = (Ok q, h')" and "writable h' q"
    and "slice_view h' q = (\<lambda>_. zero_data)" and "\<And>r. live h r \<Longrightarrow> slice_view h' r = slice_view h r"
  by (rule alloc_run [OF assms, of None 0 0]) (auto simp: EmptySlice_def intro: that)

lemma ForkSlice_run:
  assumes "live h p"
  obtains q h' where "ForkSlice p h = (Ok q, h')" and "forked h p h' q" and "writable h' q"
    and "slice_view h' q = slice_view h p"
    and "\<And>r. live h r \<Longrightarrow> slice_view h' r = slice_view h r"
proof -
  from assms obtain s where s: "slices h p = Some s" and wf: "wf_heap h" by (auto simp: live_def)
  obtain q h' where run: "alloc_slice (Some p) (i64 (height s + 1)) h = (Ok q, h')" "q = next_ref h"
    and fr: "frame h p h'" and q: "writable h' q"
    and v: "\<And>r. live h r \<Longrightarrow> slice_view h' r = slice_view h r" "slice_view h' q = slice_view h p"
    and sl: "slices h' q = Some \<lparr>base = Some p, height = i64 (height s + 1), st = q, freezed = False\<rparr>"
    by (rule alloc_run [OF wf, of "Some p" "i64 (height s + 1)" p]) (use assms in auto)
  have "forked h p h' q" using sl run(2) fr v(1) [OF assms] assms by (auto simp: forked_def)
  with run fr q v s show thesis by (intro that [of q h']) (simp_all add: ForkSlice_def go_run)
qed

lemma forked_frame:
  assumes f: "forked g p h q" and fr: "frame h q h'"
  shows "forked g p h' q" and "frame g p h'" and "slice_view h' p = slice_view g p"
proof -
  from f obtain s where s: "slices h q = Some s" "base s = Some p" "next_ref g \<le> st s"
    and p: "live g p" "frame g p h" "slice_view h p = slice_view g p" by (auto simp: forked_def)
  have lp: "live h p" using frame_live p by blast
  from lp s have q: "live h q" by (auto simp: live_def)
  have "st s \<notin> chain_maps h p"
    using frame_chain_maps [OF p(2,1)] chain_maps_bound [OF p(1), of "st s"] s(3) by auto
  then show v: "slice_view h' p = slice_view g p"
    using s p(3) frame_view [OF fr lp] by simp
  show fr': "frame g p h'"
    using p(2) fr s unfolding frame_def by fastforce
  show "forked g p h' q"
    using s p v fr' frame_slice [OF fr q] by (auto simp: forked_def)
qed

lemma Merge_run:
  assumes f: "forked g p h q"
  obtains h' where "Merge q h = (Ok (), h')" and "slice_view h' p = slice_view h q"
    and "frame g p h'"
proof -
  from f obtain s where s: "slices h q = Some s" "base s = Some p" "next_ref g \<le> st s"
    and p: "live g p" "frame g p h" by (auto simp: forked_def)
  have lp: "live h p" using frame_live p by blast
  then obtain b where b: "slices h p = Some b" and wf: "wf_heap h" by (auto simp: live_def)
  define h' where h': "h' = set_map (st b) (maps h (st b) ++ maps h (st s)) h"
  have sl: "slices h' = slices h" "next_ref h' = next_ref h" by (simp_all add: h' set_map_def)
  have "wf_heap h'" using wf by (simp add: wf_heap_def sl)
  then have fr: "frame h p h'" by (auto simp: frame_def sl h' set_map_def b)
  have "slice_view h' p k = slice_view h q k" for k
  proof (cases "maps h (st s) k")
    case None
    then have "slice_view h' p k = slice_view h p k"
      using wf b sl by (intro slice_view_key_cong) (auto simp: h' set_map_def map_add_def)
    with None s show ?thesis by (simp add: slice_view_unfold [of h q s])
  next
    case (Some v)
    with s b sl show ?thesis
      by (simp add: slice_view_unfold [of h q s] slice_view_unfold [of h' p b]) (simp add: h' set_map_def)
  qed
  then have "slice_view h' p = slice_view h q" by (rule ext)
  with fr frame_trans [OF p(2) fr p(1)] show thesis
    by (intro that) (simp_all add: Merge_def go_run s b h')
qed

section \<open>The contract of the store\<close>

text \<open>
  What a client may rely on: a writable slice can be read and written, its view is a function that a
  write updates at one key, and a run that only works on one slice (\<open>frm\<close>) can be continued.
\<close>

locale kv_store =
  fixes wr :: "'h \<Rightarrow> 'p \<Rightarrow> bool"
    and view :: "'h \<Rightarrow> 'p \<Rightarrow> 'k \<Rightarrow> 'v"
    and frm :: "'h \<Rightarrow> 'p \<Rightarrow> 'h \<Rightarrow> bool"
    and rd :: "'p \<Rightarrow> 'k \<Rightarrow> ('h, 'v) go"
    and wrt :: "'p \<Rightarrow> 'k \<Rightarrow> 'v \<Rightarrow> ('h, unit) go"
  assumes rd_run: "wr h p \<Longrightarrow> rd p k h = (Ok (view h p k), h)"
    and wrt_run: "wr h p \<Longrightarrow>
      \<exists>h'. wrt p k v h = (Ok (), h') \<and> view h' p = (view h p)(k := v) \<and> frm h p h'"
    and frm_refl: "wr h p \<Longrightarrow> frm h p h"
    and frm_trans: "wr h p \<Longrightarrow> frm h p h1 \<Longrightarrow> frm h1 p h2 \<Longrightarrow> frm h p h2"
    and frm_wr: "frm h p h' \<Longrightarrow> wr h q \<Longrightarrow> wr h' q"
begin

lemma wrt_wr:
  assumes "wr h p"
  obtains h' where "wrt p k v h = (Ok (), h')" and "view h' p = (view h p)(k := v)"
    and "frm h p h'" and "wr h' p"
  using wrt_run [OF assms] frm_wr [OF _ assms] by blast

lemma read_modify_write:
  assumes "wr h p"
  obtains h' where "bindG (rd p k) (\<lambda>d. wrt p k (f d)) h = (Ok (), h')"
    and "view h' p = (view h p)(k := f (view h p k))" and "frm h p h'" and "wr h' p"
  using wrt_wr [OF assms] rd_run [OF assms] by (metis bindG_Ok)

lemma write_write:
  assumes "wr h p"
  obtains h' where "bindG (wrt p k v) (\<lambda>_. wrt p l w) h = (Ok (), h')"
    and "view h' p = (view h p)(k := v, l := w)" and "frm h p h'" and "wr h' p"
proof -
  obtain h1 where 1: "wrt p k v h = (Ok (), h1)" "view h1 p = (view h p)(k := v)" "frm h p h1" "wr h1 p"
    using wrt_wr [OF assms] .
  obtain h2 where 2: "wrt p l w h1 = (Ok (), h2)" "view h2 p = (view h1 p)(l := w)" "frm h1 p h2" "wr h2 p"
    using wrt_wr [OF 1(4)] .
  from 1 2 frm_trans [OF assms] show thesis by (intro that [of h2]) (simp_all add: bindG_Ok)
qed

end

text \<open>
  Speculative work on a fork: as long as only the fork is written the parent's view stays, and a
  merge makes the parent's view the fork's.
\<close>

locale forking_store = kv_store wr view frm rd wrt
  for wr :: "'h \<Rightarrow> 'p \<Rightarrow> bool" and view :: "'h \<Rightarrow> 'p \<Rightarrow> 'k \<Rightarrow> 'v" and frm and rd and wrt +
  fixes fk :: "'p \<Rightarrow> ('h, 'p) go"
    and mrg :: "'p \<Rightarrow> ('h, unit) go"
    and fkd :: "'h \<Rightarrow> 'p \<Rightarrow> 'h \<Rightarrow> 'p \<Rightarrow> bool"
  assumes fk_run: "wr h p \<Longrightarrow>
      \<exists>q h'. fk p h = (Ok q, h') \<and> fkd h p h' q \<and> wr h' q \<and> view h' q = view h p"
    and fkd_frm: "fkd g p h q \<Longrightarrow> frm h q h' \<Longrightarrow> fkd g p h' q"
    and fkd_frame: "fkd g p h q \<Longrightarrow> frm g p h \<and> view h p = view g p"
    and mrg_run: "fkd g p h q \<Longrightarrow>
      \<exists>h'. mrg q h = (Ok (), h') \<and> view h' p = view h q \<and> frm g p h'"
begin

lemma fork_commit:
  assumes "wr h p"
    and body: "\<And>q h1. wr h1 q \<Longrightarrow> view h1 q = view h p \<Longrightarrow>
      \<exists>x h2. body q h1 = (Ok x, h2) \<and> frm h1 q h2 \<and> P x (view h2 q)"
  shows "\<exists>x h'. bindG (fk p) (\<lambda>q. bindG (body q) (\<lambda>x. bindG (mrg q) (\<lambda>_. ret x))) h = (Ok x, h')
     \<and> P x (view h' p) \<and> frm h p h'"
proof -
  obtain q h1 where f: "fk p h = (Ok q, h1)" "fkd h p h1 q" "wr h1 q" "view h1 q = view h p"
    using fk_run [OF assms(1)] by blast
  obtain x h2 where b: "body q h1 = (Ok x, h2)" "frm h1 q h2" "P x (view h2 q)"
    using body [OF f(3,4)] by blast
  obtain h3 where "mrg q h2 = (Ok (), h3)" "view h3 p = view h2 q" "frm h p h3"
    using mrg_run [OF fkd_frm [OF f(2) b(2)]] by blast
  with f b show ?thesis by (auto simp: go_run)
qed

lemma fork_abort:
  assumes "wr h p" and "fk p h = (Ok q, h1)" and "fkd h p h1 q" and "frm h1 q h2"
  shows "view h2 p = view h p" and "frm h p h2" and "wr h2 p"
  using fkd_frame [OF fkd_frm [OF assms(3,4)]] frm_wr [OF _ assms(1)] by auto

end

interpretation slice_kv: kv_store writable slice_view frame Read Write
proof unfold_locales
  show "Read p k h = (Ok (slice_view h p k), h)" if "writable h p" for h p k
    using that by (simp add: Read_view writable_live)
  show "\<exists>h'. Write p k v h = (Ok (), h') \<and> slice_view h' p = (slice_view h p)(k := v) \<and> frame h p h'"
    if "writable h p" for h p k v
    using Write_run [OF that] by metis
  show "frame h p h" if "writable h p" for h p using that by (auto simp: writable_def intro: frame_refl)
  show "frame h p h2" if "writable h p" "frame h p h1" "frame h1 p h2" for h p h1 h2
    using that frame_trans writable_live by blast
  show "writable h' q" if "frame h p h'" "writable h q" for h p h' q
    using that by (rule frame_writable)
qed

interpretation slice_fork: forking_store writable slice_view frame Read Write ForkSlice Merge forked
proof unfold_locales
  show "\<exists>q h'. ForkSlice p h = (Ok q, h') \<and> forked h p h' q \<and> writable h' q \<and> slice_view h' q = slice_view h p"
    if "writable h p" for h p
    using ForkSlice_run [OF writable_live [OF that]] by metis
  show "forked g p h' q" if "forked g p h q" "frame h q h'" for g p h q h'
    using that by (rule forked_frame(1))
  show "frame g p h \<and> slice_view h p = slice_view g p" if "forked g p h q" for g p h q
    using that by (auto simp: forked_def)
  show "\<exists>h'. Merge q h = (Ok (), h') \<and> slice_view h' p = slice_view h q \<and> frame g p h'"
    if "forked g p h q" for g p h q
    using Merge_run [OF that] by metis
qed

section \<open>Properties\<close>

text \<open>The empty store, and a sequence of writes to one slice.\<close>

definition empty_heap :: SliceHeap where
  "empty_heap = \<lparr>slices = Map.empty, maps = (\<lambda>_. Map.empty), next_ref = 0\<rparr>"

primrec write_all :: "slice_ptr \<Rightarrow> (KeyType \<times> DataType) list \<Rightarrow> (SliceHeap, unit) go" where
  "write_all p [] = ret ()"
| "write_all p (kv # kvs) = bindG (Write p (fst kv) (snd kv)) (\<lambda>_. write_all p kvs)"

primrec upd_all :: "('k \<Rightarrow> 'v) \<Rightarrow> ('k \<times> 'v) list \<Rightarrow> 'k \<Rightarrow> 'v" where
  "upd_all f [] = f"
| "upd_all f (kv # kvs) = upd_all (f(fst kv := snd kv)) kvs"

lemma wf_empty_heap: "wf_heap empty_heap"
  by (simp add: wf_heap_def empty_heap_def)

lemma write_all_run:
  assumes "writable h p"
  shows "\<exists>h'. write_all p kvs h = (Ok (), h') \<and> slice_view h' p = upd_all (slice_view h p) kvs
     \<and> frame h p h' \<and> writable h' p"
  using assms
proof (induction kvs arbitrary: h)
  case Nil
  then show ?case by (auto simp: ret_run intro: slice_kv.frm_refl)
next
  case (Cons kv kvs)
  obtain h1 where 1: "Write p (fst kv) (snd kv) h = (Ok (), h1)"
    "slice_view h1 p = (slice_view h p)(fst kv := snd kv)" "frame h p h1" "writable h1 p"
    using slice_kv.wrt_wr [OF Cons.prems] .
  from Cons.IH [OF 1(4)] obtain h2 where "write_all p kvs h1 = (Ok (), h2)"
    "slice_view h2 p = upd_all (slice_view h1 p) kvs" "frame h1 p h2" "writable h2 p" by blast
  with 1 slice_kv.frm_trans [OF Cons.prems 1(3)] show ?case by (auto simp: bindG_Ok)
qed

text \<open>
  C31: work on a fork is invisible to the parent until it is merged, and a merge commits exactly the
  writes: after forking a writable slice and writing any list of entries to the fork, the parent
  still reads as before, and merging makes the parent read as if the entries had been written to it.
\<close>

theorem fork_write_merge:
  assumes "writable h p"
  shows "\<exists>q h1 h2. bindG (ForkSlice p) (\<lambda>q. bindG (write_all q kvs) (\<lambda>_. ret q)) h = (Ok q, h1)
     \<and> slice_view h1 p = slice_view h p \<and> slice_view h1 q = upd_all (slice_view h p) kvs
     \<and> Merge q h1 = (Ok (), h2) \<and> slice_view h2 p = upd_all (slice_view h p) kvs \<and> writable h2 p"
proof -
  obtain q h0 where f: "ForkSlice p h = (Ok q, h0)" "forked h p h0 q" "writable h0 q"
    "slice_view h0 q = slice_view h p"
    using slice_fork.fk_run [OF assms] by blast
  obtain h1 where w: "write_all q kvs h0 = (Ok (), h1)" "slice_view h1 q = upd_all (slice_view h0 q) kvs"
    "frame h0 q h1"
    using write_all_run [OF f(3)] by blast
  note f1 = slice_fork.fkd_frm [OF f(2) w(3)]
  obtain h2 where m: "Merge q h1 = (Ok (), h2)" "slice_view h2 p = slice_view h1 q" "frame h p h2"
    using slice_fork.mrg_run [OF f1] by blast
  have "writable h2 p" using slice_kv.frm_wr [OF m(3) assms] .
  with f w m slice_fork.fkd_frame [OF f1] show ?thesis
    by (intro exI [of _ q] exI [of _ h1] exI [of _ h2]) (simp add: go_run)
qed

definition demo_heap :: SliceHeap where
  "demo_heap = snd (EmptySlice empty_heap)"

lemma writable_demo_heap: "writable demo_heap 0"
  by (simp add: demo_heap_def writable_def wf_heap_def EmptySlice_def alloc_slice_def empty_heap_def)

theorem fork_write_merge_witness:
  "\<exists>q h1 h2. bindG (ForkSlice 0) (\<lambda>q. bindG (write_all q [([1], [2])]) (\<lambda>_. ret q)) demo_heap = (Ok q, h1)
     \<and> slice_view h1 0 = slice_view demo_heap 0
     \<and> Merge q h1 = (Ok (), h2) \<and> slice_view h2 0 [1] = [2]"
  using fork_write_merge [OF writable_demo_heap, of "[([1], [2])]"] by auto

lemma LoadFile_entries_run:
  assumes "\<forall>(k, v) \<in> set kvs. length k = KeyLen \<and> length v = DataLen"
  shows "LoadFile_entries (length kvs) r (h, concat (map (\<lambda>(k, v). k @ v) kvs) @ rest)
     = (Ok (), (set_map r (maps h r ++ map_of (rev kvs)) h, rest))"
  using assms
proof (induction kvs arbitrary: h)
  case Nil
  then show ?case by (simp add: ret_run set_map_def)
next
  case (Cons kv kvs)
  obtain k v where kv: "kv = (k, v)" by fastforce
  with Cons.prems have len: "length k = KeyLen" "length v = DataLen"
    and rest: "\<forall>(k, v) \<in> set kvs. length k = KeyLen \<and> length v = DataLen" by auto
  have 1: "wrap_err ErrLoadSlice (on_snd (ReadFull KeyLen)) (h, k @ ys) = (Ok k, (h, ys))" for ys
    using len by (simp add: wrap_err_def on_snd_def)
  have 2: "wrap_err ErrLoadSlice (on_snd (ReadFull DataLen)) (h, v @ ys) = (Ok v, (h, ys))" for ys
    using len by (simp add: wrap_err_def on_snd_def)
  show ?case
    by (simp add: kv go_run 1 2 Cons.IH [OF rest]) (simp add: set_map_def map_add_def fun_eq_iff split: option.splits)
qed

lemma map_of_rev:
  assumes "distinct (map fst kvs)"
  shows "map_of (rev kvs) = map_of kvs"
proof
  fix k
  have "map_of (rev kvs) k = Some v \<longleftrightarrow> map_of kvs k = Some v" for v
    using assms by (simp add: map_of_eq_Some_iff rev_map [symmetric])
  then show "map_of (rev kvs) k = map_of kvs k" by (metis not_None_eq)
qed

lemma LoadFile_run:
  assumes s: "slices h p = Some s" "\<not> freezed s" "maps h (st s) = Map.empty"
    and kvs: "is_range kvs m" "\<forall>(k, v) \<in> set kvs. length k = KeyLen \<and> length v = DataLen"
    and bounds: "length kvs < 2 ^ 63" "- (2 ^ 63) \<le> ht" "ht < 2 ^ 63"
  shows "LoadFile p (h, DumpFile ht kvs @ rest)
     = (Ok (), (set_map (st s) m (set_slice p (s\<lparr>freezed := True, height := ht\<rparr>) h), rest))"
proof -
  let ?h1 = "set_slice p (s\<lparr>freezed := True\<rparr>) h"
  let ?h2 = "set_slice p (s\<lparr>freezed := True, height := ht\<rparr>) ?h1"
  have rd: "wrap_err ErrLoadSlice (on_snd (ReadFull 8)) (g, le_bytes 8 w @ ys)
      = (Ok (le_bytes 8 w), (g, ys))" for g :: SliceHeap and w :: u64 and ys
    by (simp add: wrap_err_def on_snd_def)
  have cnt: "nat (int_of_u64 (of_nat (length kvs))) = length kvs"
    using int_of_u64_u64_of_int [of "int (length kvs)"] bounds(1) by (simp add: u64_of_int_def)
  have m: "map_of (rev kvs) = m" using kvs(1) by (auto simp: is_range_def map_of_rev)
  have "LoadFile p (h, DumpFile ht kvs @ rest)
      = (Ok (), (set_map (st s) (maps ?h2 (st s) ++ map_of (rev kvs)) ?h2, rest))"
    using s bounds LoadFile_entries_run [OF kvs(2), of "st s" ?h2 rest]
    by (simp add: LoadFile_def DumpFile_def go_run rd set_slice_def cnt int_of_u64_u64_of_int)
  then show ?thesis using s m by (simp add: set_map_def set_slice_def)
qed

text \<open>
  a slice file holds exactly the slice: loading what \<^verbatim>\<open>DumpFile\<close> wrote, in whatever order the
  run-time enumerated the map, into a fresh slice restores the height and the map, marks the slice
  freezed and consumes the file's bytes and no others.
\<close>

lemma LoadFile_DumpFile:
  assumes s: "slices h p = Some s" "\<not> freezed s" "maps h (st s) = Map.empty"
    and kvs: "is_range kvs m" "\<forall>(k, v) \<in> set kvs. length k = KeyLen \<and> length v = DataLen"
    and bounds: "length kvs < 2 ^ 63" "- (2 ^ 63) \<le> ht" "ht < 2 ^ 63"
  shows "\<exists>h'. LoadFile p (h, DumpFile ht kvs @ rest) = (Ok (), (h', rest))
     \<and> slices h' p = Some (s\<lparr>freezed := True, height := ht\<rparr>) \<and> maps h' (st s) = m"
  by (simp add: LoadFile_run [OF assms] set_map_def set_slice_def)

lemma LoadFile_DumpFile_witness:
  "\<exists>h'. LoadFile 0 (demo_heap, DumpFile 7 [(replicate 65 1, replicate 32 2)] @ [9]) = (Ok (), (h', [9]))
     \<and> maps h' 0 (replicate 65 1) = Some (replicate 32 2)"
  using LoadFile_DumpFile [of demo_heap 0 "\<lparr>base = None, height = 0, st = 0, freezed = False\<rparr>"
      "[(replicate 65 1, replicate 32 2)]" "[replicate 65 1 \<mapsto> replicate 32 2]" 7 "[9]"]
  by (auto simp: demo_heap_def EmptySlice_def alloc_slice_def empty_heap_def is_range_def KeyLen_def
      DataLen_def)

text \<open>
  A freezed slice rejects every write by a panic and stays readable; freezing changes no reading.
\<close>

lemma Freeze_guards_writes:
  assumes "live h p"
  shows "\<exists>h'. Freeze p h = (Ok (), h') \<and> slice_view h' = slice_view h
     \<and> Write p k v h' = (Panic, h') \<and> Read p j h' = (Ok (slice_view h p j), h')"
proof -
  from assms obtain s where s: "slices h p = Some s" and wf: "wf_heap h" by (auto simp: live_def)
  define h' where h': "h' = set_slice p (s\<lparr>freezed := True\<rparr>) h"
  have run: "Freeze p h = (Ok (), h')" using s by (simp add: Freeze_def h' go_run)
  have loop: "Read_loop h' k q = Read_loop h k q" for k q
  proof (induction q rule: less_induct)
    case (less q)
    then show ?case
      using wf s by (subst (1 2) Read_loop.simps)
        (auto simp: h' set_slice_def wf_heap_def split: option.splits)
  qed
  have wf': "wf_heap h'" using wf s by (auto simp: wf_heap_def h' set_slice_def)
  then have live: "live h' p" by (simp add: live_def h' set_slice_def)
  have v: "slice_view h' = slice_view h" by (intro ext) (simp add: slice_view_def loop)
  have "Write p k v h' = (Panic, h')"
    by (simp add: Write_def h' set_slice_def bindG_def deref_def panic_def)
  with run v Read_view [OF live] show ?thesis by auto
qed

end
