(* ===== verification/Account.thy ===== *)
theory Account
  imports Slice Block
begin

text \<open>
  Accounts, \<^verbatim>\<open>core/block/account.go\<close>, and the execution context of \<^verbatim>\<open>core/block/context.go\<close>. An account
  is one entry of a slice, its balance and nonce in the first sixteen bytes. The abstraction \<open>acct\<close>
  reads a slice as a table of accounts; the locale \<open>ledger\<close> is the contract of such a table, with the
  total supply and what moving money does to it, and is interpreted on the slices.
\<close>

section \<open>Data and operations\<close>

record AccountInfo =
  Balance :: u64
  AccountNonce :: u64

definition acct_key :: "AddressType \<Rightarrow> KeyType" where
  "acct_key a = [1] @ a @ replicate 32 0"

definition decode_account :: "DataType \<Rightarrow> AccountInfo" where
  "decode_account val =
     \<lparr>Balance = le_word (sub_bytes 0 8 val), AccountNonce = le_word (sub_bytes 8 16 val)\<rparr>"

definition encode_account :: "AccountInfo \<Rightarrow> DataType" where
  "encode_account info =
     blit (blit zero_data 0 (le_bytes 8 (Balance info))) 8 (le_bytes 8 (AccountNonce info))"

definition GetAccountInfo :: "slice_ptr \<Rightarrow> AddressType \<Rightarrow> (SliceHeap, AccountInfo) go" where
  "GetAccountInfo s a = bindG (Read s (acct_key a)) (\<lambda>val. ret (decode_account val))"

definition SetAccountInfo :: "slice_ptr \<Rightarrow> AddressType \<Rightarrow> AccountInfo \<Rightarrow> (SliceHeap, unit) go" where
  "SetAccountInfo s a info = Write s (acct_key a) (encode_account info)"

text \<open>
  The context of an execution. Its field \<^verbatim>\<open>Callback\<close> is a separate argument of the model, since the
  callbacks take the context in turn.
\<close>

record ExecutionContext =
  Height_ctx :: int
  Time_ctx :: u64
  Miner_ctx :: AddressType
  Difficulty_ctx :: HashType
  ChainId_ctx :: u16
  Tip1Enabled :: bool

record ExecutionCallback =
  Transfer_cb :: "slice_ptr \<Rightarrow> AddressType \<Rightarrow> AddressType \<Rightarrow> u64 \<Rightarrow> bytes \<Rightarrow> Transaction option
     \<Rightarrow> ExecutionContext \<Rightarrow> (SliceHeap, unit) go"
  Block_cb :: "slice_ptr \<Rightarrow> Block \<Rightarrow> ExecutionContext \<Rightarrow> (SliceHeap, unit) go"

definition notify_transfer ::
  "ExecutionCallback option \<Rightarrow> slice_ptr \<Rightarrow> AddressType \<Rightarrow> AddressType \<Rightarrow> u64 \<Rightarrow> bytes
     \<Rightarrow> Transaction option \<Rightarrow> ExecutionContext \<Rightarrow> (SliceHeap, unit) go" where
  "notify_transfer cb s from to value msg tx ctx =
     (case cb of None \<Rightarrow> ret () | Some c \<Rightarrow> Transfer_cb c s from to value msg tx ctx)"

definition notify_block ::
  "ExecutionCallback option \<Rightarrow> slice_ptr \<Rightarrow> Block \<Rightarrow> ExecutionContext \<Rightarrow> (SliceHeap, unit) go" where
  "notify_block cb s b ctx = (case cb of None \<Rightarrow> ret () | Some c \<Rightarrow> Block_cb c s b ctx)"

section \<open>A table of accounts\<close>

definition acct :: "SliceHeap \<Rightarrow> slice_ptr \<Rightarrow> AddressType \<Rightarrow> AccountInfo" where
  "acct h s a = decode_account (slice_view h s (acct_key a))"

lemma acct_key_eq_iff [simp]: "acct_key a = acct_key b \<longleftrightarrow> a = b"
  by (simp add: acct_key_def)

lemma hd_acct_key [simp]: "hd (acct_key a) = 1"
  by (simp add: acct_key_def)

lemma decode_encode_account [simp]: "decode_account (encode_account info) = info"
  by (simp add: decode_account_def encode_account_def blit_def sub_bytes_def zero_data_def DataLen_def)

lemma length_encode_account [simp]: "length (encode_account info) = DataLen"
  by (simp add: encode_account_def blit_def zero_data_def DataLen_def)

lemma acct_upd:
  "slice_view h' s = (slice_view h s)(acct_key a := encode_account i) \<Longrightarrow> acct h' s = (acct h s)(a := i)"
  by (rule ext) (simp add: acct_def)

text \<open>
  The contract of a table of accounts. \<open>total_supply\<close> is the sum of all balances over the addresses
  there are. A debit that the balance covers and a credit that the supply keeps below \<open>2 ^ 64\<close> are exact.
\<close>

definition addresses :: "AddressType set" where
  "addresses = {a. length a = AddressLen}"

definition total_supply :: "(AddressType \<Rightarrow> AccountInfo) \<Rightarrow> nat" where
  "total_supply T = (\<Sum>a \<in> addresses. unat (Balance (T a)))"

lemma finite_addresses [simp]: "finite addresses"
  using finite_lists_length_eq [of "UNIV :: u8 set" AddressLen] by (simp add: addresses_def)

lemma supply_upd:
  assumes "a \<in> addresses"
  shows "total_supply (T(a := i)) + unat (Balance (T a)) = total_supply T + unat (Balance i)"
proof -
  have "total_supply T = unat (Balance (T a)) + (\<Sum>b \<in> addresses - {a}. unat (Balance (T b)))"
    using assms by (simp add: total_supply_def sum.remove)
  moreover have "total_supply (T(a := i)) = unat (Balance i) + (\<Sum>b \<in> addresses - {a}. unat (Balance (T b)))"
    using assms by (simp add: total_supply_def sum.remove)
  ultimately show ?thesis by simp
qed

lemma balance_le_supply: "a \<in> addresses \<Longrightarrow> unat (Balance (T a)) \<le> total_supply T"
  unfolding total_supply_def by (rule member_le_sum) simp_all

lemma supply_debit:
  assumes "a \<in> addresses" and "v \<le> Balance (T a)" and "Balance i = Balance (T a) - v"
  shows "total_supply (T(a := i)) + unat v = total_supply T"
  using supply_upd [OF assms(1), of T i] assms(2,3) by (simp add: unat_sub word_le_nat_alt)

lemma supply_credit:
  assumes "a \<in> addresses" and "Balance i = Balance (T a) + v" and "total_supply T + unat v < 2 ^ 64"
  shows "total_supply (T(a := i)) = total_supply T + unat v"
proof -
  have "unat (Balance (T a)) + unat v < 2 ^ LENGTH(64)"
    using balance_le_supply [OF assms(1), of T] assms(3) by simp
  then have "unat (Balance (T a) + v) = unat (Balance (T a)) + unat v"
    by (rule unat_add_lem [THEN iffD1])
  with supply_upd [OF assms(1), of T i] assms(2) show ?thesis by simp
qed

locale ledger =
  fixes wr :: "'h \<Rightarrow> 'p \<Rightarrow> bool"
    and tab :: "'h \<Rightarrow> 'p \<Rightarrow> AddressType \<Rightarrow> AccountInfo"
    and frm :: "'h \<Rightarrow> 'p \<Rightarrow> 'h \<Rightarrow> bool"
    and getA :: "'p \<Rightarrow> AddressType \<Rightarrow> ('h, AccountInfo) go"
    and setA :: "'p \<Rightarrow> AddressType \<Rightarrow> AccountInfo \<Rightarrow> ('h, unit) go"
  assumes get_run: "wr h p \<Longrightarrow> getA p a h = (Ok (tab h p a), h)"
    and set_run: "wr h p \<Longrightarrow>
      \<exists>h'. setA p a i h = (Ok (), h') \<and> tab h' p = (tab h p)(a := i) \<and> frm h p h'"
    and frm_trans: "wr h p \<Longrightarrow> frm h p h1 \<Longrightarrow> frm h1 p h2 \<Longrightarrow> frm h p h2"
    and frm_wr: "frm h p h' \<Longrightarrow> wr h q \<Longrightarrow> wr h' q"
begin

lemma set_wr:
  assumes "wr h p"
  obtains h' where "setA p a i h = (Ok (), h')" and "tab h' p = (tab h p)(a := i)" and "frm h p h'" and "wr h' p"
  using set_run [OF assms] frm_wr [OF _ assms] by blast

lemma update_run:
  assumes "wr h p"
  obtains h' where "bindG (getA p a) (\<lambda>i. setA p a (f i)) h = (Ok (), h')"
    and "tab h' p = (tab h p)(a := f (tab h p a))" and "frm h p h'" and "wr h' p"
  by (rule set_wr [OF assms, of a "f (tab h p a)"]) (simp add: that bindG_Ok get_run [OF assms])

text \<open>Crediting an account, as the miner's reward is paid.\<close>

lemma credit_run:
  assumes "wr h p" and "a \<in> addresses" and "total_supply (tab h p) + unat v < 2 ^ 64"
  obtains h' where "bindG (getA p a) (\<lambda>i. setA p a (i\<lparr>Balance := Balance i + v\<rparr>)) h = (Ok (), h')"
    and "tab h' p = (tab h p)(a := (tab h p a)\<lparr>Balance := Balance (tab h p a) + v\<rparr>)"
    and "total_supply (tab h' p) = total_supply (tab h p) + unat v" and "frm h p h'" and "wr h' p"
proof -
  obtain h' where run: "bindG (getA p a) (\<lambda>i. setA p a (i\<lparr>Balance := Balance i + v\<rparr>)) h = (Ok (), h')"
    and t: "tab h' p = (tab h p)(a := (tab h p a)\<lparr>Balance := Balance (tab h p a) + v\<rparr>)"
    and "frm h p h'" "wr h' p"
    using update_run [OF assms(1), of a "\<lambda>i. i\<lparr>Balance := Balance i + v\<rparr>"] .
  moreover have "total_supply (tab h' p) = total_supply (tab h p) + unat v"
    unfolding t by (rule supply_credit [OF assms(2) _ assms(3)]) simp
  ultimately show thesis by (intro that)
qed

end

lemma GetAccountInfo_run: "live h s \<Longrightarrow> GetAccountInfo s a h = (Ok (acct h s a), h)"
  by (simp add: GetAccountInfo_def bindG_Ok Read_view ret_run acct_def)

interpretation accounts: ledger writable acct frame GetAccountInfo SetAccountInfo
proof unfold_locales
  show "GetAccountInfo p a h = (Ok (acct h p a), h)" if "writable h p" for h p a
    using that by (simp add: GetAccountInfo_run writable_live)
  show "\<exists>h'. SetAccountInfo p a i h = (Ok (), h') \<and> acct h' p = (acct h p)(a := i) \<and> frame h p h'"
    if "writable h p" for h p a i
    using slice_kv.wrt_run [OF that, of "acct_key a" "encode_account i"] acct_upd
    unfolding SetAccountInfo_def by blast
qed (auto intro: slice_kv.frm_trans slice_kv.frm_wr)

section \<open>Callbacks that leave the accounts alone\<close>

text \<open>
  What execution relies on of a callback: it returns, and it writes neither to another slice nor to an
  account. The predicate of the locale is the hypothesis of the theorems on execution; the callback
  the explorer installs satisfies it.
\<close>

definition silent :: "slice_ptr \<Rightarrow> (SliceHeap, unit) go \<Rightarrow> bool" where
  "silent s m \<longleftrightarrow> (\<forall>h. writable h s \<longrightarrow>
     (\<exists>h'. m h = (Ok (), h') \<and> frame h s h' \<and> acct h' s = acct h s))"

lemma silentD:
  assumes "silent s m" and "writable h s"
  obtains h' where "m h = (Ok (), h')" and "frame h s h'" and "acct h' s = acct h s" and "writable h' s"
  using assms frame_writable unfolding silent_def by metis

lemma silent_ret [simp]: "silent s (ret ())"
  by (auto simp: silent_def ret_run writable_def intro: frame_refl)

lemma silent_bindG:
  assumes "silent s m" and "silent s n"
  shows "silent s (bindG m (\<lambda>_. n))"
  unfolding silent_def
proof (intro allI impI)
  fix h assume w: "writable h s"
  obtain h1 where 1: "m h = (Ok (), h1)" "frame h s h1" "acct h1 s = acct h s" "writable h1 s"
    using silentD [OF assms(1) w] .
  obtain h2 where 2: "n h1 = (Ok (), h2)" "frame h1 s h2" "acct h2 s = acct h1 s"
    using silentD [OF assms(2) 1(4)] .
  from 1 2 slice_kv.frm_trans [OF w] show "\<exists>h'. bindG m (\<lambda>_. n) h = (Ok (), h') \<and> frame h s h' \<and> acct h' s = acct h s"
    by (auto simp: bindG_Ok)
qed

lemma silent_Write:
  assumes "hd k \<noteq> 1"
  shows "silent s (Write s k v)"
  unfolding silent_def
proof (intro allI impI)
  fix h assume w: "writable h s"
  obtain h' where "Write s k v h = (Ok (), h')" "slice_view h' s = (slice_view h s)(k := v)" "frame h s h'"
    using slice_kv.wrt_wr [OF w] .
  moreover from this have "acct h' s = acct h s"
    using assms hd_acct_key by (intro ext) (auto simp: acct_def)
  ultimately show "\<exists>h'. Write s k v h = (Ok (), h') \<and> frame h s h' \<and> acct h' s = acct h s" by blast
qed

lemma silent_Read: "(\<And>d. silent s (f d)) \<Longrightarrow> silent s (bindG (Read s k) f)"
  by (simp add: silent_def bindG_Ok Read_view writable_live)

locale account_callback =
  fixes cb :: ExecutionCallback
  assumes transfer_silent: "silent s (Transfer_cb cb s from to value msg tx ctx)"
    and block_silent: "silent s (Block_cb cb s b ctx)"

definition safe_callback :: "ExecutionCallback option \<Rightarrow> bool" where
  "safe_callback cb \<longleftrightarrow> (\<forall>c. cb = Some c \<longrightarrow> account_callback c)"

lemma safe_callback_None [simp]: "safe_callback None"
  by (simp add: safe_callback_def)

lemma notify_transfer_silent: "safe_callback cb \<Longrightarrow> silent s (notify_transfer cb s from to value msg tx ctx)"
  by (cases cb) (simp_all add: notify_transfer_def safe_callback_def account_callback.transfer_silent)

lemma notify_block_silent: "safe_callback cb \<Longrightarrow> silent s (notify_block cb s b ctx)"
  by (cases cb) (simp_all add: notify_block_def safe_callback_def account_callback.block_silent)

section \<open>The empty store\<close>

lemma view_demo_heap: "slice_view demo_heap 0 k = zero_data"
proof -
  have "slices demo_heap 0 = Some \<lparr>base = None, height = 0, st = 0, freezed = False\<rparr>" "maps demo_heap 0 = Map.empty"
    by (simp_all add: demo_heap_def EmptySlice_def alloc_slice_def empty_heap_def)
  then show ?thesis by (simp add: slice_view_unfold)
qed

lemma acct_demo_heap: "acct demo_heap 0 a = \<lparr>Balance = 0, AccountNonce = 0\<rparr>"
proof -
  have "le_word (replicate n 0) = (0 :: u64)" for n by (induction n) simp_all
  then show ?thesis
    by (simp add: acct_def view_demo_heap decode_account_def sub_bytes_def zero_data_def DataLen_def)
qed

end
