(* ===== verification/Elf.thy ===== *)
theory Elf
  imports Prelude
begin

text \<open>
  The ELF subset of the contract format, \<^verbatim>\<open>vm/elf/elf.go\<close>: \<open>ParseELF\<close> reads the header and the program
  headers of a 64-bit RISC-V file, \<open>TrimELF\<close> rewrites a file without the ignored segments, the zero
  bytes at the end of each segment and anything outside the segments.
\<close>

section \<open>Data\<close>

definition SizeLimit :: nat where "SizeLimit = 2 ^ 30"
definition ElfPageSize :: nat where "ElfPageSize = 2 ^ 12"

record Segment =
  Privileges :: u8
  Offset :: u32
  Addr :: u32
  FileSz :: u32
  MemSz :: u32

record ELF =
  Entry :: u32
  ProgramHeaderOffset :: u32
  Segments :: "Segment list"

text \<open>\<^verbatim>\<open>binary.LittleEndian.Uint\<close> of the \<open>n\<close> bytes at \<open>i\<close>.\<close>

definition le_at :: "nat \<Rightarrow> nat \<Rightarrow> bytes \<Rightarrow> 'a::len word" where
  "le_at n i bs = le_word (sub_bytes i (i + n) bs)"

section \<open>Parsing\<close>

text \<open>One program header, checked in the order of the source; sums and comparisons are of 64-bit words.\<close>

definition parse_segment :: "bytes \<Rightarrow> bytes \<Rightarrow> Segment res" where
  "parse_segment elf entry =
     (let p_type = le_at 4 0 entry :: u32;
          p_flags = le_at 4 4 entry :: u32;
          p_offset = le_at 8 8 entry :: u64;
          p_vaddr = le_at 8 16 entry :: u64;
          p_filesz = le_at 8 32 entry :: u64;
          p_memsz = le_at 8 40 entry :: u64;
          p_align = le_at 8 48 entry :: u64 in
      if p_type \<noteq> 1 then Err (ErrElf (ElfSegmentType p_type))
      else if p_align \<noteq> of_nat ElfPageSize then Err (ErrElf (ElfAlign p_align))
      else if p_offset + p_filesz > of_nat SizeLimit then Err (ErrElf (ElfOffset (p_offset + p_filesz)))
      else if int (length elf) < int_of_u64 (p_offset + p_filesz)
        then Err (ErrElf (ElfSizeTooSmall (length elf) (uint (p_offset + p_filesz))))
      else if p_vaddr > of_nat SizeLimit then Err (ErrElf (ElfVaddr p_memsz))
      else if p_memsz > of_nat SizeLimit then Err (ErrElf (ElfMemsz p_memsz))
      else if p_memsz < p_filesz then Err (ErrElf (ElfMemszFilesz p_memsz p_filesz))
      else if p_vaddr mod of_nat ElfPageSize \<noteq> 0 then Err (ErrElf (ElfVaddrAlign p_vaddr))
      else if p_offset mod 8 \<noteq> 0 then Err (ErrElf (ElfOffsetAlign p_offset))
      else Ok \<lparr>Privileges = ucast (p_flags AND 7), Offset = ucast p_offset, Addr = ucast p_vaddr,
               FileSz = ucast p_filesz, MemSz = ucast p_memsz\<rparr>)"

text \<open>The loop over the program headers: \<open>n\<close> of them are left, the next at \<open>off\<close>.\<close>

fun parse_segments :: "bytes \<Rightarrow> nat \<Rightarrow> nat \<Rightarrow> Segment list res" where
  "parse_segments elf off 0 = Ok []"
| "parse_segments elf off (Suc n) =
     (case parse_segment elf (sub_bytes off (off + 56) elf) of
        Ok seg \<Rightarrow> (case parse_segments elf (off + 56) n of
                    Ok segs \<Rightarrow> Ok (seg # segs) | Err e \<Rightarrow> Err e | Panic \<Rightarrow> Panic | Diverge \<Rightarrow> Diverge)
      | Err e \<Rightarrow> Err e | Panic \<Rightarrow> Panic | Diverge \<Rightarrow> Diverge)"

definition ParseELF :: "bytes \<Rightarrow> ELF res" where
  "ParseELF elf =
     (let entryPoint = le_at 8 0x18 elf :: u64;
          programHeaderOffset = int_of_u64 (le_at 8 0x20 elf);
          programHeaderEntrySize = uint (le_at 2 0x36 elf :: u16);
          numProgramHeaderEntries = uint (le_at 2 0x38 elf :: u16);
          targetLen = programHeaderOffset + programHeaderEntrySize * numProgramHeaderEntries in
      if length elf < 0x40 then Err (ErrElf (ElfTooSmall (length elf)))
      else if SizeLimit < length elf then Err (ErrElf (ElfTooLarge (length elf)))
      else if (le_at 4 0 elf :: u32) \<noteq> 0x464c457f then Err (ErrElf ElfMagic)
      else if (le_at 2 0x12 elf :: u16) \<noteq> 243 then Err (ErrElf ElfArch)
      else if of_nat SizeLimit \<le> entryPoint then Err (ErrElf (ElfEntry entryPoint))
      else if int SizeLimit < programHeaderOffset \<or> programHeaderOffset < 0
        then Err (ErrElf (ElfHeaderOffset programHeaderOffset))
      else if int (length elf) < targetLen then Err (ErrElf (ElfSizeTooSmall (length elf) targetLen))
      else if programHeaderEntrySize \<noteq> 56 then Err (ErrElf (ElfHeaderEntrySize programHeaderEntrySize))
      else case parse_segments elf (nat programHeaderOffset) (nat numProgramHeaderEntries) of
          Ok segs \<Rightarrow> Ok \<lparr>Entry = ucast entryPoint, ProgramHeaderOffset = word_of_int programHeaderOffset,
                         Segments = segs\<rparr>
        | Err e \<Rightarrow> Err e | Panic \<Rightarrow> Panic | Diverge \<Rightarrow> Diverge)"

section \<open>Trimming\<close>

text \<open>
  \<open>trimZeros s minSz\<close> drops zero bytes from the end as long as the last index is at least \<open>minSz\<close>;
  \<open>cur\<close> counts one more than the variable of the source.
\<close>

fun trim_loop :: "bytes \<Rightarrow> nat \<Rightarrow> nat \<Rightarrow> nat" where
  "trim_loop s minSz 0 = 0"
| "trim_loop s minSz (Suc c) = (if minSz \<le> c \<and> s ! c = 0 then trim_loop s minSz c else Suc c)"

definition trimZeros :: "bytes \<Rightarrow> nat \<Rightarrow> bytes" where
  "trimZeros s minSz = take (trim_loop s minSz (length s)) s"

text \<open>The bytes of a segment, \<^verbatim>\<open>s[seg.Offset:seg.Offset+seg.FileSz]\<close>, whose bounds are 32-bit sums.\<close>

definition seg_slice :: "bytes \<Rightarrow> u32 \<Rightarrow> u32 \<Rightarrow> bytes res" where
  "seg_slice s off sz =
     (if off \<le> off + sz \<and> unat (off + sz) \<le> length s
      then Ok (sub_bytes (unat off) (unat (off + sz)) s) else Panic)"

definition pad8 :: "bytes \<Rightarrow> bytes" where
  "pad8 s = s @ replicate ((8 - length s mod 8) mod 8) 0"

text \<open>The program header written for a kept segment: type, flags, offset, addresses, sizes, alignment.\<close>

definition segment_header :: "Segment \<Rightarrow> nat \<Rightarrow> nat \<Rightarrow> bytes" where
  "segment_header seg olen nlen =
     le_bytes 4 (1 :: u32) @ le_bytes 4 (ucast (Privileges seg) :: u32)
     @ le_bytes 8 (of_nat olen :: u64) @ le_bytes 8 (ucast (Addr seg) :: u64)
     @ le_bytes 8 (ucast (Addr seg) :: u64) @ le_bytes 8 (of_nat nlen :: u64)
     @ le_bytes 8 (ucast (MemSz seg) :: u64) @ le_bytes 8 (of_nat ElfPageSize :: u64)"

text \<open>
  The loop over the segments keeps the output \<open>resf\<close>, the position \<open>cur\<close> of the next program header
  in it and the number \<open>n\<close> of kept segments. A header outside of the output is a slice out of bounds.
\<close>

fun trim_segments ::
  "bytes \<Rightarrow> u32 set \<Rightarrow> nat \<Rightarrow> bool \<Rightarrow> Segment list \<Rightarrow> bytes \<Rightarrow> nat \<Rightarrow> nat \<Rightarrow> (bytes \<times> nat \<times> nat) res" where
  "trim_segments s ign req first [] resf cur n = Ok (resf, cur, n)"
| "trim_segments s ign req first (seg # segs) resf cur n =
     (if Addr seg \<in> ign then
        if first then Err (ErrElf ElfTrimFirst) else trim_segments s ign req False segs resf cur n
      else case seg_slice s (Offset seg) (FileSz seg) of
          Ok bs \<Rightarrow>
            (let nseg = trimZeros bs (if first then req else 0);
                 olen = length resf;
                 resf1 = pad8 (resf @ nseg) in
             if length resf1 < cur + 56 then Panic
             else trim_segments s ign req False segs
                    (blit resf1 cur (segment_header seg olen (length nseg))) (cur + 56) (n + 1))
        | Err e \<Rightarrow> Err e | Panic \<Rightarrow> Panic | Diverge \<Rightarrow> Diverge)"

text \<open>
  The program headers of dropped segments are zeroed. The additions of the source are on 32-bit
  words; a file has at most \<open>2 ^ 30\<close> bytes and \<open>2 ^ 16\<close> program headers, so they do not wrap.
\<close>

definition TrimELF :: "bytes \<Rightarrow> ELF \<Rightarrow> u32 list \<Rightarrow> u64 \<Rightarrow> bytes res" where
  "TrimELF s e ignoreSegs newEntry =
     (let seg0ReqSz = ProgramHeaderOffset e + 56 * of_nat (length (Segments e)) in
      case Segments e of
        [] \<Rightarrow> Panic
      | seg0 # _ \<Rightarrow>
          if Offset seg0 \<noteq> 0 \<or> FileSz seg0 < seg0ReqSz then Err (ErrElf ElfFirstSegment)
          else case trim_segments s (set ignoreSegs) (unat seg0ReqSz) True (Segments e) []
                      (unat (ProgramHeaderOffset e)) 0 of
              Ok (resf, cur, n) \<Rightarrow>
                (if length resf < 0x3a then Panic
                 else
                   let r1 = blit resf 0x38 (le_bytes 2 (of_nat n :: u16));
                       r2 = (if cur < unat seg0ReqSz
                             then blit r1 cur (replicate (unat seg0ReqSz - cur) 0) else r1) in
                   Ok (blit r2 0x18 (le_bytes 8 newEntry)))
            | Err e \<Rightarrow> Err e | Panic \<Rightarrow> Panic | Diverge \<Rightarrow> Diverge)"

section \<open>Fields\<close>

lemma le_at_skip: "length xs \<le> i \<Longrightarrow> le_at n i (xs @ ys) = le_at n (i - length xs) ys"
  by (simp add: le_at_def sub_bytes_def)

lemma le_at_here: "le_at n 0 (le_bytes n w @ ys) = take_bit (8 * n) w"
  by (simp add: le_at_def sub_bytes_def le_word_le_bytes)

lemma le_at_end: "le_at n 0 (le_bytes n w) = take_bit (8 * n) w"
  by (simp add: le_at_def sub_bytes_def le_word_le_bytes)

lemma length_segment_header [simp]: "length (segment_header seg o1 n) = 56"
  by (simp add: segment_header_def)

lemma take_bit_word_all [simp]:
  "take_bit 16 (w :: u16) = w" "take_bit 32 (x :: u32) = x" "take_bit 64 (y :: u64) = y"
  by (simp_all add: take_bit_word_eq_self)

lemma segment_header_fields:
  "le_at 4 0 (segment_header seg o1 n) = (1 :: u32)"
  "le_at 4 4 (segment_header seg o1 n) = (ucast (Privileges seg) :: u32)"
  "le_at 8 8 (segment_header seg o1 n) = (of_nat o1 :: u64)"
  "le_at 8 16 (segment_header seg o1 n) = (ucast (Addr seg) :: u64)"
  "le_at 8 32 (segment_header seg o1 n) = (of_nat n :: u64)"
  "le_at 8 40 (segment_header seg o1 n) = (ucast (MemSz seg) :: u64)"
  "le_at 8 48 (segment_header seg o1 n) = (of_nat ElfPageSize :: u64)"
  by (simp_all add: segment_header_def le_at_skip le_at_here le_at_end)

text \<open>The header of a file with \<open>phnum\<close> program headers right behind it.\<close>

definition elf_header :: "u64 \<Rightarrow> u16 \<Rightarrow> bytes" where
  "elf_header entry phnum = le_bytes 4 (0x464c457f :: u32) @ replicate 14 0 @ le_bytes 2 (243 :: u16) @ replicate 4 0
     @ le_bytes 8 entry @ le_bytes 8 (64 :: u64) @ replicate 14 0 @ le_bytes 2 (56 :: u16) @ le_bytes 2 phnum
     @ replicate 6 0"

lemma length_elf_header [simp]: "length (elf_header entry phnum) = 64"
  by (simp add: elf_header_def)

lemma elf_header_fields:
  "le_at 4 0 (elf_header entry phnum @ rest) = (0x464c457f :: u32)"
  "le_at 2 0x12 (elf_header entry phnum @ rest) = (243 :: u16)"
  "le_at 8 0x18 (elf_header entry phnum @ rest) = entry"
  "le_at 8 0x20 (elf_header entry phnum @ rest) = (64 :: u64)"
  "le_at 2 0x36 (elf_header entry phnum @ rest) = (56 :: u16)"
  "le_at 2 0x38 (elf_header entry phnum @ rest) = phnum"
  by (simp_all add: elf_header_def le_at_skip le_at_here)

lemma ParseELF_elf_header:
  assumes "entry < 2 ^ 30" and "64 + length rest \<le> SizeLimit" and "56 * unat phnum \<le> length rest"
  shows "ParseELF (elf_header entry phnum @ rest) =
     (case parse_segments (elf_header entry phnum @ rest) 64 (unat phnum) of
        Ok segs \<Rightarrow> Ok \<lparr>Entry = ucast entry, ProgramHeaderOffset = 64, Segments = segs\<rparr>
      | Err e \<Rightarrow> Err e | Panic \<Rightarrow> Panic | Diverge \<Rightarrow> Diverge)"
proof -
  have "int (56 * unat phnum) \<le> int (length rest)" using assms(3) by (rule of_nat_mono)
  then have "56 * uint phnum \<le> int (length rest)" unfolding uint_nat by simp
  moreover have "\<not> 1073741824 \<le> entry" using assms(1) by simp
  ultimately show ?thesis
    using assms(2,3)
    by (simp add: ParseELF_def Let_def elf_header_fields SizeLimit_def int_of_u64_def split: res.split)
qed

end
