(* ===== verification/Program_Memory.thy ===== *)
theory Program_Memory
  imports Elf
begin

text \<open>
  The memory of one loaded program, \<^verbatim>\<open>vm/program_memory.go\<close>: five blocks of 256 pages of 512 words,
  allocated on first use. The block number, the top hexadecimal digit of the address, decides who may
  do what: block 1 is code (executed by the program itself, read by all, written by nobody), blocks 2
  and 3 are private, blocks 4 and 5 are written by the program and read by all.

  The pages and the program memories come from \<^verbatim>\<open>sync.Pool\<close>s, so a fresh page may hold an old one's
  contents until \<open>assure\<close> has cleared it; \<open>assure\<close> takes the pooled page as an argument, and is shown
  not to depend on it. A pooled program memory has been recycled, which is shown to leave it empty.
\<close>

section \<open>Data\<close>

definition PageSize :: nat where "PageSize = 4096"
definition MaxPagesPerBlock :: nat where "MaxPagesPerBlock = 256"
definition NumBlocks :: nat where "NumBlocks = 5"

definition GasMemoryPage :: u64 where "GasMemoryPage = 2000"

datatype mem_op = OpRead | OpWrite | OpExecute

type_synonym Page = "u64 list"
type_synonym Pages = "nat \<Rightarrow> Page option"

text \<open>\<open>blocks pm b i\<close> is page \<open>i\<close> of block \<open>b + 1\<close>, absent when its pointer is nil.\<close>

record ProgramMemory =
  blocks :: "nat \<Rightarrow> Pages"

text \<open>A \<^verbatim>\<open>*uint64\<close> into the memory: block, page and word.\<close>

type_synonym cell = "nat \<times> nat \<times> nat"

definition new_page :: Page where
  "new_page = replicate 512 0"

definition empty_pm :: ProgramMemory where
  "empty_pm = \<lparr>blocks = (\<lambda>_ _. None)\<rparr>"

definition cell_get :: "cell \<Rightarrow> ProgramMemory \<Rightarrow> u64" where
  "cell_get c pm = (case c of (b, i, w) \<Rightarrow> (case blocks pm b i of None \<Rightarrow> 0 | Some pg \<Rightarrow> pg ! w))"

definition set_page :: "nat \<Rightarrow> nat \<Rightarrow> Page option \<Rightarrow> ProgramMemory \<Rightarrow> ProgramMemory" where
  "set_page b i pg pm = pm\<lparr>blocks := (blocks pm)(b := (blocks pm b)(i := pg))\<rparr>"

definition cell_set :: "cell \<Rightarrow> u64 \<Rightarrow> ProgramMemory \<Rightarrow> ProgramMemory" where
  "cell_set c v pm = (case c of (b, i, w) \<Rightarrow>
     (case blocks pm b i of None \<Rightarrow> pm | Some pg \<Rightarrow> set_page b i (Some (pg[w := v])) pm))"

section \<open>Pages\<close>

definition page_check :: "Pages \<Rightarrow> nat \<Rightarrow> bool" where
  "page_check ps i \<longleftrightarrow> ps i \<noteq> None"

text \<open>
  Clearing a pooled page: the first word is set to zero and the cleared prefix is copied behind
  itself, doubling it each time, for the lengths 1, 2, 4, ..., 256.
\<close>

definition clear_page :: "Page \<Rightarrow> Page" where
  "clear_page p = foldl (\<lambda>p j. blit p (2 ^ j) (take (2 ^ j) p)) (p[0 := 0]) [0..<9]"

definition assure :: "Page \<Rightarrow> Pages \<Rightarrow> nat \<Rightarrow> bool \<times> Pages" where
  "assure pooled ps i =
     (case ps i of
        None \<Rightarrow> (True, ps(i \<mapsto> clear_page pooled))
      | Some _ \<Rightarrow> (False, ps))"

definition pages_recycle :: "Pages \<Rightarrow> Pages" where
  "pages_recycle ps = (\<lambda>i. if i < MaxPagesPerBlock then None else ps i)"

definition Recycle_pm :: "ProgramMemory \<Rightarrow> ProgramMemory" where
  "Recycle_pm pm = \<lparr>blocks = (\<lambda>b. if b < NumBlocks then pages_recycle (blocks pm b) else blocks pm b)\<rparr>"

section \<open>Access\<close>

text \<open>The fields of an address.\<close>

definition addr_bid :: "u32 \<Rightarrow> nat" where
  "addr_bid ptr = unat (drop_bit 28 ptr)"

definition addr_pageId :: "u32 \<Rightarrow> nat" where
  "addr_pageId ptr = unat (drop_bit 16 (push_bit 4 ptr))"

definition addr_pagePos :: "u32 \<Rightarrow> nat" where
  "addr_pagePos ptr = unat (drop_bit 3 ptr AND 0x1ff)"

text \<open>The checks that decide an access before the memory is touched.\<close>

definition access_allowed :: "u32 \<Rightarrow> bool \<Rightarrow> mem_op \<Rightarrow> bool" where
  "access_allowed ptr isSelf op =
     (let bid = addr_bid ptr in
      if bid = 0 \<or> 6 \<le> bid \<or> MaxPagesPerBlock \<le> addr_pageId ptr then False
      else if isSelf then
        (if op = OpWrite then bid \<noteq> 1 else if op = OpExecute then bid = 1 else True)
      else if op = OpWrite then False
      else bid = 1 \<or> bid = 4 \<or> bid = 5)"

definition Access_pm :: "u32 \<Rightarrow> bool \<Rightarrow> mem_op \<Rightarrow> (ProgramMemory, cell option \<times> bool) go" where
  "Access_pm ptr isSelf op pm =
     (if \<not> isSelf \<and> op = OpExecute then (Panic, pm)
      else if \<not> access_allowed ptr isSelf op then (Ok (None, False), pm)
      else
        let b = addr_bid ptr - 1; i = addr_pageId ptr; c = (b, i, addr_pagePos ptr) in
        if b = 0 \<or> \<not> isSelf then
          if page_check (blocks pm b) i then (Ok (Some c, False), pm) else (Ok (None, False), pm)
        else
          (case assure new_page (blocks pm b) i of (allocated, ps) \<Rightarrow>
            (Ok (Some c, allocated), pm\<lparr>blocks := (blocks pm)(b := ps)\<rparr>)))"

text \<open>
  The method may run on a nil receiver, when the address names a program that is not loaded. It then
  panics as soon as the memory is touched.
\<close>

definition Access_nil :: "u32 \<Rightarrow> bool \<Rightarrow> mem_op \<Rightarrow> (cell option \<times> bool) res" where
  "Access_nil ptr isSelf op =
     (if \<not> isSelf \<and> op = OpExecute then Panic
      else if \<not> access_allowed ptr isSelf op then Ok (None, False)
      else Panic)"

section \<open>Loading code\<close>

text \<open>\<^verbatim>\<open>binary.Read\<close> of little-endian words from the front of a buffer.\<close>

fun read_words :: "nat \<Rightarrow> bytes \<Rightarrow> u64 list" where
  "read_words 0 buf = []"
| "read_words (Suc n) buf = le_word (take 8 buf) # read_words n (drop 8 buf)"

definition load_page :: "nat \<Rightarrow> nat \<Rightarrow> bytes \<Rightarrow> Page \<Rightarrow> Page" where
  "load_page i len buf pg =
     (if (i + 1) * PageSize \<le> len then read_words 512 buf
      else if i * PageSize < len then
        let rem = len mod PageSize; rem8 = rem div 8;
            pg1 = blit pg 0 (read_words rem8 buf) in
        if rem mod 8 \<noteq> 0
        then pg1[rem8 := le_word (blit (replicate 8 0) 0 (take (rem mod 8) (drop (8 * rem8) buf)))]
        else pg1
      else pg)"

text \<open>
  The two loops of \<^verbatim>\<open>load\<close>: the accesses that allocate the pages of a writable block, then the copy,
  which reads a page's worth off the buffer for each full page. The callers only pass a block from 1
  to 5 and page numbers below 256; any other index would panic.
\<close>

fun load_touch :: "nat \<Rightarrow> nat \<Rightarrow> u32 \<Rightarrow> (ProgramMemory, unit) go" where
  "load_touch i 0 addr = ret ()"
| "load_touch i (Suc n) addr =
     bindG (Access_pm (addr + of_nat (i * PageSize)) True OpRead) (\<lambda>_. load_touch (Suc i) n addr)"

fun load_copy :: "nat \<Rightarrow> nat \<Rightarrow> u32 \<Rightarrow> nat \<Rightarrow> bytes \<Rightarrow> (ProgramMemory, unit) go" where
  "load_copy i 0 addr len buf = ret ()"
| "load_copy i (Suc n) addr len buf = (\<lambda>pm.
     let bid = addr_bid addr; pageId = addr_pageId (addr + of_nat i * of_nat PageSize) in
     if bid = 0 \<or> NumBlocks < bid \<or> MaxPagesPerBlock \<le> pageId then (Panic, pm)
     else
       let ps = snd (assure new_page (blocks pm (bid - 1)) pageId);
           pg = load_page i len buf (case ps pageId of None \<Rightarrow> new_page | Some pg \<Rightarrow> pg) in
       load_copy (Suc i) n addr len (drop PageSize buf)
         (pm\<lparr>blocks := (blocks pm)(bid - 1 := ps(pageId \<mapsto> pg))\<rparr>))"

definition load_pm :: "u32 \<Rightarrow> nat \<Rightarrow> bytes \<Rightarrow> (ProgramMemory, unit) go" where
  "load_pm addr numPages s =
     bindG (load_touch 0 numPages addr) (\<lambda>_. load_copy 0 numPages addr (length s) s)"

text \<open>
  The page of the \<open>i\<close>-th page address from \<open>addr\<close> must exist and be free before code is loaded there;
  \<open>too_large\<close> and \<open>taken\<close> make the two errors of the caller.
\<close>

fun check_pages ::
  "(u32 \<Rightarrow> vm_error) \<Rightarrow> (u32 \<Rightarrow> vm_error) \<Rightarrow> nat \<Rightarrow> nat \<Rightarrow> u32 \<Rightarrow> nat \<Rightarrow> ProgramMemory \<Rightarrow> unit res" where
  "check_pages too_large taken i 0 addr b pm = Ok ()"
| "check_pages too_large taken i (Suc n) addr b pm =
     (let pageId = addr_pageId (addr + of_nat i * of_nat PageSize) in
      if MaxPagesPerBlock \<le> pageId then Err (ErrVm (too_large (of_nat pageId)))
      else if blocks pm b pageId \<noteq> None then Err (ErrVm (taken (of_nat pageId)))
      else check_pages too_large taken (Suc i) n addr b pm)"

definition page_count :: "nat \<Rightarrow> nat" where
  "page_count len = (len + PageSize - 1) div PageSize"

definition charge :: "u64 \<Rightarrow> ('m \<times> u64, unit) go" where
  "charge c st = (if snd st < c then (Err (ErrVm ErrInsufficientGas), st) else (Ok (), (fst st, snd st - c)))"

text \<open>
  \<open>lowers gas m\<close>: running \<open>m\<close> never adds gas, whatever its outcome, and ends. The rules follow the
  combinators.
\<close>

definition lowers :: "('s \<Rightarrow> u64) \<Rightarrow> ('s, 'a) go \<Rightarrow> bool" where
  "lowers gas m \<longleftrightarrow> (\<forall>s. gas (snd (m s)) \<le> gas s \<and> fst (m s) \<noteq> Diverge)"

named_theorems lowers_intro "computations that never add gas and end"

lemma lowers_basic [lowers_intro]:
  "lowers gas (ret x)" "lowers gas (throw e)" "lowers gas panic" "lowers gas (getS f)"
  by (simp_all add: lowers_def go_run)

lemma lowers_bindG [lowers_intro]:
  assumes "lowers gas m" and "\<And>x. lowers gas (f x)"
  shows "lowers gas (bindG m f)"
  unfolding lowers_def
proof
  fix s
  obtain r t where m: "m s = (r, t)" by (cases "m s")
  with assms(1) have t: "gas t \<le> gas s" "r \<noteq> Diverge" unfolding lowers_def by (metis fst_conv snd_conv)+
  show "gas (snd (bindG m f s)) \<le> gas s \<and> fst (bindG m f s) \<noteq> Diverge"
    using assms(2) t m unfolding lowers_def by (cases r) (auto simp: bindG_def intro: order_trans)
qed

lemma lowers_if [lowers_intro]: "(b \<Longrightarrow> lowers gas m) \<Longrightarrow> (\<not> b \<Longrightarrow> lowers gas n) \<Longrightarrow> lowers gas (if b then m else n)"
  by simp

lemma lowers_option [lowers_intro]:
  "lowers gas m \<Longrightarrow> (\<And>x. lowers gas (f x)) \<Longrightarrow> lowers gas (case o1 of None \<Rightarrow> m | Some x \<Rightarrow> f x)"
  by (cases o1) simp_all

lemma lowers_prod [lowers_intro]: "(\<And>a b. lowers gas (f a b)) \<Longrightarrow> lowers gas (case p of (a, b) \<Rightarrow> f a b)"
  by (cases p) simp

lemma lowers_liftR: "r \<noteq> Diverge \<Longrightarrow> lowers gas (liftR r)"
  by (simp add: lowers_def liftR_run)

lemma lowers_modifyS: "(\<And>s. gas (f s) \<le> gas s) \<Longrightarrow> lowers gas (modifyS f)"
  by (simp add: lowers_def modifyS_run)

lemma lowers_charge [lowers_intro]: "lowers snd (charge c)"
  by (auto simp: lowers_def charge_def not_less word_le_nat_alt unat_sub)

lemma lowers_on_fst: "(\<And>s. fst (m s) \<noteq> Diverge) \<Longrightarrow> lowers snd (on_fst m)"
  by (auto simp: lowers_def on_fst_def split: prod.splits) (metis fst_conv)

lemma lowers_on_snd [lowers_intro]: "lowers snd m \<Longrightarrow> lowers (\<lambda>s. snd (snd s)) (on_snd m)"
  by (auto simp: lowers_def on_snd_def split: prod.splits) (metis snd_conv, metis fst_conv)

lemma lowersD: "lowers gas m \<Longrightarrow> m s = (r, t) \<Longrightarrow> gas t \<le> gas s \<and> r \<noteq> Diverge"
  unfolding lowers_def by (metis fst_conv snd_conv)

text \<open>
  Loading raw code into block 1. The state is the program memory and the gas left; the memory is not
  nil, since the callers have just allocated it.
\<close>

definition LoadRawCode :: "bytes \<Rightarrow> u32 \<Rightarrow> (ProgramMemory \<times> u64, unit) go" where
  "LoadRawCode code loadOffset st =
     (let numPages = page_count (length code); bid = addr_bid loadOffset in
      if 2 ^ 32 \<le> length code \<or> 2 ^ 32 \<le> length code + unat loadOffset then throw (ErrVm ErrCodeTooLong) st
      else if loadOffset mod of_nat PageSize \<noteq> 0 then throw (ErrVm (ErrLoadOffsetAlign loadOffset)) st
      else if bid \<noteq> 1 then throw (ErrVm ErrOnlyBlock1) st
      else
        bindG (liftR (check_pages ErrPageId ErrPageAllocated 0 numPages loadOffset (bid - 1) (fst st))) (\<lambda>_.
        bindG (charge (of_nat numPages * GasMemoryPage)) (\<lambda>_.
        on_fst (load_pm loadOffset numPages code))) st)"

text \<open>
  The plan for one ELF segment: where its bytes are in the file, where they go and how many pages they
  take. The sums are of 64-bit words, the page count of 32-bit ones.
\<close>

record segment =
  seg_offset :: u32
  seg_length :: u32
  seg_addr :: u32
  seg_numPages :: nat

definition plan_segment :: "u32 \<Rightarrow> ProgramMemory \<Rightarrow> Segment \<Rightarrow> segment res" where
  "plan_segment loadOffset pm seg =
     (let numPages = (MemSz seg + of_nat PageSize - 1) div of_nat PageSize;
          tmp1 = ucast (Addr seg) + ucast loadOffset :: u64;
          tmp2 = tmp1 + ucast (numPages * of_nat PageSize);
          bid = drop_bit 28 tmp1;
          addr = ucast tmp1 :: u32;
          privileges = Privileges seg in
      if of_nat MaxPagesPerBlock < numPages then Err (ErrVm (ErrElfPages numPages))
      else if 2 ^ 32 \<le> tmp2 \<or> bid \<noteq> drop_bit 28 tmp2 then Err (ErrVm (ErrElfSpan tmp2))
      else if bid < 1 \<or> of_nat NumBlocks < bid then Err (ErrVm (ErrElfBlock bid))
      else case check_pages ErrElfPageId ErrElfPageAllocated 0 (unat numPages) addr (unat bid - 1) pm of
          Ok _ \<Rightarrow>
            (if bid = 1 \<and> privileges AND 5 \<noteq> privileges then Err (ErrVm (ErrElfRx privileges))
             else if bid \<noteq> 1 \<and> privileges AND 6 \<noteq> privileges then Err (ErrVm (ErrElfRw bid privileges))
             else Ok \<lparr>seg_offset = Offset seg, seg_length = FileSz seg, seg_addr = addr,
                      seg_numPages = unat numPages\<rparr>)
        | Err e \<Rightarrow> Err e | Panic \<Rightarrow> Panic | Diverge \<Rightarrow> Diverge)"

fun plan_segments :: "u32 \<Rightarrow> ProgramMemory \<Rightarrow> Segment list \<Rightarrow> segment list res" where
  "plan_segments loadOffset pm [] = Ok []"
| "plan_segments loadOffset pm (seg # segs) =
     (case plan_segment loadOffset pm seg of
        Ok p \<Rightarrow> (case plan_segments loadOffset pm segs of
                  Ok ps \<Rightarrow> Ok (p # ps) | Err e \<Rightarrow> Err e | Panic \<Rightarrow> Panic | Diverge \<Rightarrow> Diverge)
      | Err e \<Rightarrow> Err e | Panic \<Rightarrow> Panic | Diverge \<Rightarrow> Diverge)"

fun load_segments :: "bytes \<Rightarrow> segment list \<Rightarrow> (ProgramMemory, unit) go" where
  "load_segments elf [] = ret ()"
| "load_segments elf (p # ps) =
     bindG (liftR (seg_slice elf (seg_offset p) (seg_length p))) (\<lambda>bs.
     bindG (load_pm (seg_addr p) (seg_numPages p) bs) (\<lambda>_. load_segments elf ps))"

text \<open>
  Loading an ELF file: every segment is checked against the memory before the gas of all pages is
  charged and the first byte is copied. \<^verbatim>\<open>totPages\<close> is at most 256 times the number of segments.
\<close>

definition LoadELF :: "bytes \<Rightarrow> u32 \<Rightarrow> (ProgramMemory \<times> u64, u32) go" where
  "LoadELF elf loadOffset st =
     (if loadOffset mod of_nat PageSize \<noteq> 0 then throw (ErrVm (ErrLoadOffsetAlign loadOffset)) st
      else case ParseELF elf of
          Err e \<Rightarrow> (Err (ErrInvalidElf e), st)
        | Panic \<Rightarrow> (Panic, st) | Diverge \<Rightarrow> (Diverge, st)
        | Ok e \<Rightarrow>
            if (2 :: u64) ^ 30 < ucast (Entry e) + ucast loadOffset
            then throw (ErrVm (ErrLoadOffsetLarge loadOffset)) st
            else
              bindG (liftR (plan_segments loadOffset (fst st) (Segments e))) (\<lambda>plan.
              bindG (charge (of_nat (sum_list (map seg_numPages plan)) * GasMemoryPage)) (\<lambda>_.
              bindG (on_fst (load_segments elf plan)) (\<lambda>_. ret (Entry e + loadOffset)))) st)"

section \<open>Pages\<close>

lemma length_new_page [simp]: "length new_page = 512"
  by (simp add: new_page_def)

lemma clear_step:
  assumes "length p = 512" and "j < 9" and "take (2 ^ j) p = replicate (2 ^ j) 0"
  shows "length (blit p (2 ^ j) (take (2 ^ j) p)) = 512
    \<and> take (2 ^ Suc j) (blit p (2 ^ j) (take (2 ^ j) p)) = replicate (2 ^ Suc j) 0"
proof -
  have "(2 :: nat) ^ Suc j \<le> 2 ^ 9" using assms(2) by (intro power_increasing) auto
  then have le: "2 ^ j + 2 ^ j \<le> (512 :: nat)" by simp
  then show ?thesis
    using assms by (simp add: blit_def replicate_add [symmetric] mult_2)
qed

lemma clear_prefix:
  assumes "length p = 512" and "k \<le> 9"
  shows "length (foldl (\<lambda>p j. blit p (2 ^ j) (take (2 ^ j) p)) (p[0 := 0]) [0..<k]) = 512
    \<and> take (2 ^ k) (foldl (\<lambda>p j. blit p (2 ^ j) (take (2 ^ j) p)) (p[0 := 0]) [0..<k]) = replicate (2 ^ k) 0"
  using assms(2)
proof (induction k)
  case 0
  obtain x xs where "p = x # xs" using assms(1) by (cases p) auto
  with assms(1) show ?case by simp
next
  case (Suc k)
  then show ?case
    using clear_step [of "foldl (\<lambda>p j. blit p (2 ^ j) (take (2 ^ j) p)) (p[0 := 0]) [0..<k]" k] by simp
qed

text \<open>Clearing erases whatever the pooled page held.\<close>

lemma clear_page_eq:
  assumes "length p = 512"
  shows "clear_page p = new_page"
proof -
  let ?q = "clear_page p"
  have "length ?q = 512" and "take (2 ^ 9) ?q = replicate (2 ^ 9) 0"
    using clear_prefix [OF assms order_refl] unfolding clear_page_def by blast+
  then show ?thesis by (simp add: new_page_def)
qed

lemma assure_run:
  "length pooled = 512 \<Longrightarrow>
     assure pooled ps i = (ps i = None, ps(i \<mapsto> (case ps i of None \<Rightarrow> new_page | Some pg \<Rightarrow> pg)))"
  by (auto simp: assure_def clear_page_eq fun_upd_idem split: option.splits)

section \<open>Addresses\<close>

lemma addr_bid_eq: "addr_bid ptr = unat ptr div 2 ^ 28"
  unfolding addr_bid_def by (subst unat_drop_bit_eq) (simp add: drop_bit_eq_div)

lemma addr_bid_less: "addr_bid ptr < 16"
  unfolding addr_bid_eq by (rule less_mult_imp_div_less) (use unsigned_less [of ptr, where ?'a = nat] in simp)

lemma addr_pageId_eq: "addr_pageId ptr = unat ptr div 4096 mod 65536"
proof -
  have "drop_bit 16 (push_bit 4 ptr) = take_bit 16 (drop_bit 12 ptr)"
    by (rule bit_word_eqI) (auto simp: bit_simps algebra_simps)
  then show ?thesis
    by (simp only: addr_pageId_def unat_take_mod unat_drop_div) simp
qed

lemma addr_pagePos_eq: "addr_pagePos ptr = unat ptr div 8 mod 512"
proof -
  have "drop_bit 3 ptr AND 0x1ff = take_bit 9 (drop_bit 3 ptr)"
    by (simp only: take_bit_eq_mask) (simp add: mask_numeral)
  then show ?thesis
    by (simp only: addr_pagePos_def unat_take_mod unat_drop_div) simp
qed

lemma addr_pagePos_less [simp]: "addr_pagePos ptr < 512"
  by (simp add: addr_pagePos_eq)

lemma unat_add_page: "unat (addr + of_nat k * of_nat PageSize :: u32) div 4096 mod 65536
    = (unat addr div 4096 + k) mod 65536"
proof -
  have "unat (addr + of_nat k * of_nat PageSize) = (unat addr + k * 4096) mod 2 ^ 32"
    by (simp add: unat_word_ariths unat_of_nat PageSize_def mod_simps flip: of_nat_mult)
  then have "unat (addr + of_nat k * of_nat PageSize) div 4096 = (unat addr + k * 4096) div 4096 mod 2 ^ 20"
    using div_mod_pow [of "unat addr + k * 4096" 12 20] by simp
  then show ?thesis by (simp add: mod_mod_cancel add.commute)
qed

lemma addr_pageId_add: "addr_pageId (addr + of_nat k * of_nat PageSize) = (addr_pageId addr + k) mod 65536"
  by (simp add: addr_pageId_eq unat_add_page mod_simps)

section \<open>Access\<close>

lemma Access_pm_run:
  "Access_pm ptr isSelf op pm =
     (if \<not> isSelf \<and> op = OpExecute then (Panic, pm)
      else if \<not> access_allowed ptr isSelf op then (Ok (None, False), pm)
      else let b = addr_bid ptr - 1; i = addr_pageId ptr in
        if b = 0 \<or> \<not> isSelf then
          (Ok (if blocks pm b i \<noteq> None then Some (b, i, addr_pagePos ptr) else None, False), pm)
        else (Ok (Some (b, i, addr_pagePos ptr), blocks pm b i = None),
              set_page b i (Some (case blocks pm b i of None \<Rightarrow> new_page | Some pg \<Rightarrow> pg)) pm))"
  by (simp add: Access_pm_def page_check_def assure_run set_page_def Let_def)

lemma pm_eqI: "(\<And>b i. blocks pm b i = blocks qm b i) \<Longrightarrow> pm = (qm :: ProgramMemory)"
  by (auto intro: ProgramMemory.equality simp: fun_eq_iff)

section \<open>Well-formed memories\<close>

text \<open>Pages only at the indices of the arrays, each of 512 words.\<close>

definition wf_pm :: "ProgramMemory \<Rightarrow> bool" where
  "wf_pm pm \<longleftrightarrow> (\<forall>b i pg. blocks pm b i = Some pg \<longrightarrow> b < NumBlocks \<and> i < MaxPagesPerBlock \<and> length pg = 512)"

definition valid_cell :: "cell \<Rightarrow> ProgramMemory \<Rightarrow> bool" where
  "valid_cell c pm = (case c of (b, i, w) \<Rightarrow> (case blocks pm b i of None \<Rightarrow> False | Some pg \<Rightarrow> w < length pg))"

lemma wf_empty_pm [simp]: "wf_pm empty_pm"
  by (simp add: wf_pm_def empty_pm_def)

lemma wf_set_page:
  "wf_pm pm \<Longrightarrow> b < NumBlocks \<Longrightarrow> i < MaxPagesPerBlock \<Longrightarrow> length pg = 512 \<Longrightarrow> wf_pm (set_page b i (Some pg) pm)"
  by (auto simp: wf_pm_def set_page_def split: if_splits)

lemma wf_cell_set: "wf_pm pm \<Longrightarrow> wf_pm (cell_set c v pm)"
  by (auto simp: cell_set_def wf_pm_def set_page_def split: option.splits prod.splits if_splits)

lemma Recycle_pm_empty: "wf_pm pm \<Longrightarrow> Recycle_pm pm = empty_pm"
  by (auto simp: Recycle_pm_def empty_pm_def pages_recycle_def wf_pm_def fun_eq_iff
      intro!: ProgramMemory.equality) (metis not_None_eq)+

lemma access_allowed_bounds:
  "access_allowed ptr isSelf op \<Longrightarrow> 1 \<le> addr_bid ptr \<and> addr_bid ptr - 1 < NumBlocks \<and> addr_pageId ptr < MaxPagesPerBlock"
  by (auto simp: access_allowed_def Let_def NumBlocks_def split: if_splits)

lemma wf_Access_pm:
  assumes "wf_pm pm" and "Access_pm ptr isSelf op pm = (r, pm')"
  shows "wf_pm pm'"
proof -
  have "length (case blocks pm b i of None \<Rightarrow> new_page | Some pg \<Rightarrow> pg) = 512" for b i
    using assms(1) by (auto simp: wf_pm_def split: option.splits)
  then show ?thesis
    using assms access_allowed_bounds [of ptr isSelf op]
    by (auto simp: Access_pm_run Let_def intro: wf_set_page split: if_splits)
qed

lemma Access_pm_cell:
  assumes "wf_pm pm" and "Access_pm ptr isSelf op pm = (Ok (Some c, new), pm')"
  shows "c = (addr_bid ptr - 1, addr_pageId ptr, addr_pagePos ptr) \<and> valid_cell c pm'"
  using assms wf_Access_pm [OF assms]
  by (auto simp: Access_pm_run Let_def valid_cell_def wf_pm_def set_page_def split: if_splits option.splits)

lemma cell_get_set [simp]: "valid_cell c pm \<Longrightarrow> cell_get c (cell_set c v pm) = v"
  by (auto simp: cell_get_def cell_set_def valid_cell_def set_page_def split: option.splits prod.splits)

lemma cell_get_set_other [simp]: "c \<noteq> d \<Longrightarrow> cell_get d (cell_set c v pm) = cell_get d pm"
  by (auto simp: cell_get_def cell_set_def set_page_def split: option.splits prod.splits) (metis nth_list_update_neq)

lemma valid_cell_set [simp]: "valid_cell d (cell_set c v pm) = valid_cell d pm"
  by (auto simp: cell_set_def valid_cell_def set_page_def split: option.splits prod.splits)

text \<open>An access changes no word: a page it allocates reads as zero, like an absent one.\<close>

lemma cell_get_Access_pm:
  "Access_pm ptr isSelf op pm = (r, pm') \<Longrightarrow> snd (snd d) < 512 \<Longrightarrow> cell_get d pm' = cell_get d pm"
  by (cases d) (auto simp: Access_pm_run cell_get_def set_page_def Let_def new_page_def split: if_splits option.splits)

section \<open>Loading\<close>

lemma length_read_words [simp]: "length (read_words n buf) = n"
  by (induction n arbitrary: buf) auto

lemma nth_read_words: "w < n \<Longrightarrow> read_words n buf ! w = le_word (take 8 (drop (8 * w) buf))"
proof (induction n arbitrary: buf w)
  case 0
  then show ?case by simp
next
  case (Suc n)
  then show ?case by (cases w) (simp_all add: add.commute)
qed

lemma le_word_zeros: "le_word (xs @ replicate n 0) = le_word xs"
proof (induction xs)
  case Nil
  show ?case by (induction n) auto
qed auto

text \<open>A page of the image is the words of its bytes, the missing ones read as zero.\<close>

lemma load_page_words:
  "load_page i (length s) (drop (i * PageSize) s) new_page = read_words 512 (drop (i * PageSize) s)"
proof -
  let ?buf = "drop (i * PageSize) s"
  consider "(i + 1) * PageSize \<le> length s" | "length s \<le> i * PageSize"
    | "i * PageSize < length s" "length s < (i + 1) * PageSize" by linarith
  then show ?thesis
  proof cases
    case 1
    then show ?thesis by (simp add: load_page_def)
  next
    case 2
    then have "read_words 512 ?buf = new_page"
      by (intro nth_equalityI) (auto simp: nth_read_words new_page_def)
    moreover have "\<not> (i + 1) * PageSize \<le> length s" and "\<not> i * PageSize < length s"
      using 2 by (simp_all add: PageSize_def)
    ultimately show ?thesis by (simp only: load_page_def if_False)
  next
    case 3
    let ?r = "length s mod PageSize" and ?ws = "read_words (length s mod PageSize div 8) ?buf"
    obtain k where k: "length s = i * PageSize + k" using le_Suc_ex [OF less_imp_le [OF 3(1)]] by (elim exE)
    with 3 have "k < PageSize" by simp
    then have r: "?r = k" and buf: "length ?buf = k" using k by simp_all
    have r_lt: "k < 4096" using \<open>k < PageSize\<close> by (simp add: PageSize_def)
    have tail: "length (drop (8 * (k div 8)) ?buf) = k mod 8"
      unfolding length_drop [of _ ?buf] buf by (rule minus_mult_div_eq_mod)
    then have last: "(le_word (blit (replicate 8 0) 0 (take (k mod 8) (drop (8 * (k div 8)) ?buf))) :: u64)
        = le_word (take 8 (drop (8 * (k div 8)) ?buf))"
      by (simp add: blit_def le_word_zeros)
    have none: "take 8 (drop (8 * w) ?buf) = []" if "k \<le> 8 * w" for w
      using that buf by simp
    have pg1: "blit new_page 0 ?ws ! w = (if w < k div 8 then le_word (take 8 (drop (8 * w) ?buf)) else 0)"
      if "w < 512" for w
      using that r r_lt by (auto simp: blit_def nth_append nth_read_words new_page_def)
    have len: "length (blit new_page 0 ?ws) = 512" using r r_lt by simp
    have "load_page i (length s) ?buf new_page
      = (if k mod 8 \<noteq> 0 then (blit new_page 0 ?ws)[k div 8 := le_word (take 8 (drop (8 * (k div 8)) ?buf))]
         else blit new_page 0 ?ws)"
      using 3 last by (simp add: load_page_def Let_def r)
    also have "\<dots> = read_words 512 ?buf"
    proof (rule nth_equalityI)
      fix w assume "w < length (if k mod 8 \<noteq> 0 then (blit new_page 0 ?ws)[k div 8 := le_word (take 8 (drop (8 * (k div 8)) ?buf))] else blit new_page 0 ?ws)"
      then have w: "w < 512" using len by (simp split: if_splits)
      have "k \<le> 8 * w" if "k div 8 < w \<or> (k div 8 = w \<and> k mod 8 = 0)"
        using that div_mult_mod_eq [of k 8] mod_less_divisor [of 8 k] by linarith
      then show "(if k mod 8 \<noteq> 0 then (blit new_page 0 ?ws)[k div 8 := le_word (take 8 (drop (8 * (k div 8)) ?buf))]
          else blit new_page 0 ?ws) ! w = read_words 512 ?buf ! w"
        using w len none [of w] by (auto simp: pg1 nth_read_words nth_list_update)
    qed (use len in simp)
    finally show ?thesis .
  qed
qed

text \<open>
  What loading \<open>s\<close> at \<open>addr\<close> makes of a memory: \<open>n\<close> pages of the block of \<open>addr\<close> hold the words of
  \<open>s\<close>, every other page is as it was.
\<close>

definition load_image :: "u32 \<Rightarrow> nat \<Rightarrow> bytes \<Rightarrow> ProgramMemory \<Rightarrow> ProgramMemory" where
  "load_image addr n s pm = pm\<lparr>blocks := \<lambda>b i.
     if b = addr_bid addr - 1 \<and> addr_pageId addr \<le> i \<and> i < addr_pageId addr + n
     then Some (read_words 512 (drop ((i - addr_pageId addr) * PageSize) s)) else blocks pm b i\<rparr>"

definition fits :: "u32 \<Rightarrow> nat \<Rightarrow> ProgramMemory \<Rightarrow> bool" where
  "fits addr n pm \<longleftrightarrow> 1 \<le> addr_bid addr \<and> addr_bid addr \<le> NumBlocks \<and> addr_pageId addr + n \<le> MaxPagesPerBlock
     \<and> (\<forall>i<n. blocks pm (addr_bid addr - 1) (addr_pageId addr + i) = None)"

lemma addr_bid_add:
  assumes "addr_pageId addr + k < 65536"
  shows "addr_bid (addr + of_nat k * of_nat PageSize) = addr_bid addr"
proof -
  let ?q = "unat addr div 4096"
  have lt: "unat addr < 2 ^ 32" using unsigned_less [of addr, where ?'a = nat] by simp
  have m: "?q mod 65536 + k < 65536" using assms by (simp add: addr_pageId_eq)
  have "?q + k = (?q mod 65536 + k) + (?q div 65536) * 65536" by simp
  then have q: "(?q + k) div 65536 = ?q div 65536" using m by (simp only: div_mult_self1) simp
  have split: "(unat addr + k * 4096) div 2 ^ 28 = (?q + k) div 65536"
    using div_mult2_eq [of "unat addr + k * 4096" 4096 65536] by (simp add: add.commute)
  have "unat addr div 2 ^ 28 = ?q div 65536" using div_mult2_eq [of "unat addr" 4096 65536] by simp
  with q split have same: "(unat addr + k * 4096) div 2 ^ 28 = unat addr div 2 ^ 28" by simp
  moreover have "unat addr div 2 ^ 28 < 16"
    by (rule less_mult_imp_div_less) (use lt in simp)
  ultimately have "(unat addr + k * 4096) div 2 ^ 28 < 16" by simp
  then have "unat addr + k * 4096 < 2 ^ 32" by (subst (asm) div_less_iff_less_mult) simp_all
  then have "unat (addr + of_nat k * of_nat PageSize) = unat addr + k * 4096"
    by (simp add: unat_word_ariths unat_of_nat PageSize_def mod_simps flip: of_nat_mult)
  with same show ?thesis by (simp only: addr_bid_eq)
qed

lemma load_touch_run:
  assumes "fits addr (i + n) pm0"
    and "\<forall>b j. blocks pm b j = (if addr_bid addr \<noteq> 1 \<and> b = addr_bid addr - 1 \<and> addr_pageId addr \<le> j \<and> j < addr_pageId addr + i
               then Some new_page else blocks pm0 b j)"
  shows "load_touch i n addr pm = (Ok (), pm0\<lparr>blocks := \<lambda>b j.
     if addr_bid addr \<noteq> 1 \<and> b = addr_bid addr - 1 \<and> addr_pageId addr \<le> j \<and> j < addr_pageId addr + i + n
     then Some new_page else blocks pm0 b j\<rparr>)"
  using assms
proof (induction n arbitrary: i pm)
  case 0
  then have "pm = pm0\<lparr>blocks := \<lambda>b j.
     if addr_bid addr \<noteq> 1 \<and> b = addr_bid addr - 1 \<and> addr_pageId addr \<le> j \<and> j < addr_pageId addr + i + 0
     then Some new_page else blocks pm0 b j\<rparr>"
    by (intro pm_eqI) simp
  then show ?case by (simp add: ret_run)
next
  case (Suc n)
  let ?a = "addr + of_nat (i * PageSize)"
  have F: "1 \<le> addr_bid addr" "addr_bid addr \<le> NumBlocks" "addr_pageId addr + (i + Suc n) \<le> MaxPagesPerBlock"
    using Suc.prems(1) by (simp_all add: fits_def)
  then have "addr_bid ?a = addr_bid addr" and p: "addr_pageId ?a = addr_pageId addr + i"
    using addr_bid_add [of addr i] addr_pageId_add [of addr i] by (simp_all add: MaxPagesPerBlock_def)
  moreover from this F have "access_allowed ?a True OpRead"
    by (simp add: access_allowed_def Let_def NumBlocks_def)
  moreover have "blocks pm (addr_bid addr - 1) (addr_pageId addr + i) = None"
    using Suc.prems by (simp add: fits_def)
  ultimately obtain x pm1 where acc: "Access_pm ?a True OpRead pm = (Ok x, pm1)"
    and pm1: "pm1 = (if addr_bid addr = 1 then pm else
        set_page (addr_bid addr - 1) (addr_pageId addr + i) (Some new_page) pm)"
    using F(1) by (cases "addr_bid addr = 1") (simp_all add: Access_pm_run Let_def)
  have "load_touch (Suc i) n addr pm1 = (Ok (), pm0\<lparr>blocks := \<lambda>b j.
     if addr_bid addr \<noteq> 1 \<and> b = addr_bid addr - 1 \<and> addr_pageId addr \<le> j \<and> j < addr_pageId addr + Suc i + n
     then Some new_page else blocks pm0 b j\<rparr>)"
    by (rule Suc.IH) (use Suc.prems pm1 in \<open>auto simp: set_page_def less_Suc_eq\<close>)
  with acc show ?case by (simp add: bindG_Ok)
qed

lemma load_copy_run:
  assumes "1 \<le> addr_bid addr" and "addr_bid addr \<le> NumBlocks" and "addr_pageId addr + i + n \<le> MaxPagesPerBlock"
    and "\<forall>j. addr_pageId addr + i \<le> j \<and> j < addr_pageId addr + i + n \<longrightarrow>
           blocks pm (addr_bid addr - 1) j \<in> {None, Some new_page}"
  shows "load_copy i n addr (length s) (drop (i * PageSize) s) pm = (Ok (), pm\<lparr>blocks := \<lambda>b j.
     if b = addr_bid addr - 1 \<and> addr_pageId addr + i \<le> j \<and> j < addr_pageId addr + i + n
     then Some (read_words 512 (drop ((j - addr_pageId addr) * PageSize) s)) else blocks pm b j\<rparr>)"
  using assms
proof (induction n arbitrary: i pm)
  case 0
  have "pm = pm\<lparr>blocks := \<lambda>b j. if b = addr_bid addr - 1 \<and> addr_pageId addr + i \<le> j \<and> j < addr_pageId addr + i + 0
     then Some (read_words 512 (drop ((j - addr_pageId addr) * PageSize) s)) else blocks pm b j\<rparr>"
    by (rule pm_eqI) auto
  then show ?case by (simp add: ret_run)
next
  case (Suc n)
  let ?b = "addr_bid addr - 1" and ?p = "addr_pageId addr + i"
  let ?pm = "set_page ?b ?p (Some (read_words 512 (drop (i * PageSize) s))) pm"
  have p: "addr_pageId (addr + of_nat i * of_nat PageSize) = ?p"
    using Suc.prems(3) by (simp add: addr_pageId_add MaxPagesPerBlock_def)
  have old: "(case blocks pm ?b ?p of None \<Rightarrow> new_page | Some pg \<Rightarrow> pg) = new_page"
    using Suc.prems(4) [rule_format, of ?p] by auto
  have "load_copy i (Suc n) addr (length s) (drop (i * PageSize) s) pm
      = load_copy (Suc i) n addr (length s) (drop (Suc i * PageSize) s) ?pm"
    using Suc.prems old by (simp add: Let_def p assure_run load_page_words set_page_def)
  also have "\<dots> = (Ok (), ?pm\<lparr>blocks := \<lambda>b j.
     if b = ?b \<and> addr_pageId addr + Suc i \<le> j \<and> j < addr_pageId addr + Suc i + n
     then Some (read_words 512 (drop ((j - addr_pageId addr) * PageSize) s)) else blocks ?pm b j\<rparr>)"
    by (rule Suc.IH) (use Suc.prems in \<open>auto simp: set_page_def\<close>)
  also have "\<dots> = (Ok (), pm\<lparr>blocks := \<lambda>b j.
     if b = ?b \<and> ?p \<le> j \<and> j < ?p + Suc n
     then Some (read_words 512 (drop ((j - addr_pageId addr) * PageSize) s)) else blocks pm b j\<rparr>)"
    by (auto simp: set_page_def intro!: pm_eqI)
  finally show ?case .
qed

lemma load_pm_run:
  assumes "fits addr n pm"
  shows "load_pm addr n s pm = (Ok (), load_image addr n s pm)"
proof -
  let ?pm = "pm\<lparr>blocks := \<lambda>b j. if addr_bid addr \<noteq> 1 \<and> b = addr_bid addr - 1 \<and> addr_pageId addr \<le> j
      \<and> j < addr_pageId addr + 0 + n then Some new_page else blocks pm b j\<rparr>"
  have touch: "load_touch 0 n addr pm = (Ok (), ?pm)"
    by (rule load_touch_run) (use assms in auto)
  have "load_copy 0 n addr (length s) (drop (0 * PageSize) s) ?pm = (Ok (), ?pm\<lparr>blocks := \<lambda>b j.
     if b = addr_bid addr - 1 \<and> addr_pageId addr + 0 \<le> j \<and> j < addr_pageId addr + 0 + n
     then Some (read_words 512 (drop ((j - addr_pageId addr) * PageSize) s)) else blocks ?pm b j\<rparr>)"
    by (rule load_copy_run) (use assms in \<open>auto simp: fits_def le_iff_add\<close>)
  then show ?thesis
    unfolding load_pm_def
    by (simp add: bindG_Ok [where m = "load_touch 0 n addr", OF touch]) (auto simp: load_image_def intro!: pm_eqI)
qed

lemma check_pages_Ok:
  assumes "check_pages tlg tkn i n addr b pm = Ok ()"
  shows "\<forall>k<n. addr_pageId (addr + of_nat (i + k) * of_nat PageSize) < MaxPagesPerBlock
           \<and> blocks pm b (addr_pageId (addr + of_nat (i + k) * of_nat PageSize)) = None"
  using assms
proof (induction n arbitrary: i)
  case 0
  then show ?case by simp
next
  case (Suc n)
  from Suc.prems have here: "addr_pageId (addr + of_nat i * of_nat PageSize) < MaxPagesPerBlock
      \<and> blocks pm b (addr_pageId (addr + of_nat i * of_nat PageSize)) = None"
    and rest: "check_pages tlg tkn (Suc i) n addr b pm = Ok ()"
    by (auto simp: Let_def split: if_splits)
  show ?case
  proof (intro allI impI)
    fix k assume "k < Suc n"
    then show "addr_pageId (addr + of_nat (i + k) * of_nat PageSize) < MaxPagesPerBlock
      \<and> blocks pm b (addr_pageId (addr + of_nat (i + k) * of_nat PageSize)) = None"
      using here Suc.IH [OF rest] by (cases k) (simp_all add: algebra_simps)
  qed
qed

lemma check_pages_fits:
  assumes "check_pages tlg tkn 0 n addr (addr_bid addr - 1) pm = Ok ()"
    and "1 \<le> addr_bid addr" and "addr_bid addr \<le> NumBlocks" and "0 < n"
  shows "fits addr n pm"
proof -
  have ck: "(addr_pageId addr + k) mod 65536 < 256"
      "blocks pm (addr_bid addr - 1) ((addr_pageId addr + k) mod 65536) = None" if "k < n" for k
    using check_pages_Ok [OF assms(1)] that by (auto simp: addr_pageId_add MaxPagesPerBlock_def)
  have p: "addr_pageId addr < 256"
    using ck(1) [of 0] assms(4) by (simp add: addr_pageId_eq)
  have le: "addr_pageId addr + n \<le> 256"
  proof (rule ccontr)
    assume "\<not> addr_pageId addr + n \<le> 256"
    with p have "256 - addr_pageId addr < n" by simp
    from ck(1) [OF this] p show False by simp
  qed
  moreover have "blocks pm (addr_bid addr - 1) (addr_pageId addr + k) = None" if "k < n" for k
    using ck(2) [OF that] that le by simp
  ultimately show ?thesis using assms(2,3) by (simp add: fits_def MaxPagesPerBlock_def)
qed

lemma fits_check_pages:
  assumes "fits addr (i + n) pm"
  shows "check_pages tlg tkn i n addr (addr_bid addr - 1) pm = Ok ()"
  using assms
proof (induction n arbitrary: i)
  case (Suc n)
  then have "check_pages tlg tkn (Suc i) n addr (addr_bid addr - 1) pm = Ok ()" by simp
  moreover have "addr_pageId (addr + of_nat i * of_nat PageSize) = addr_pageId addr + i"
    using Suc.prems by (simp add: addr_pageId_add fits_def MaxPagesPerBlock_def)
  ultimately show ?case
    using Suc.prems by (simp add: fits_def)
qed simp

lemma fits_0_image: "load_image addr 0 s pm = pm"
  by (rule pm_eqI) (auto simp: load_image_def)

lemma load_pm_0: "load_pm addr 0 s pm = (Ok (), pm)"
  by (simp add: load_pm_def bindG_Ok ret_run)

lemma charge_run:
  "charge c (m, g) = (if g < c then (Err (ErrVm ErrInsufficientGas), (m, g)) else (Ok (), (m, g - c)))"
  by (simp add: charge_def)

lemma wf_load_image: "wf_pm pm \<Longrightarrow> fits addr n pm \<Longrightarrow> wf_pm (load_image addr n s pm)"
  by (auto simp: wf_pm_def load_image_def fits_def split: if_splits)

lemma LoadRawCode_run:
  assumes "fits off (page_count (length code)) pm" and "addr_bid off = 1" and "off mod of_nat PageSize = 0"
    and "length code + unat off < 2 ^ 32" and "of_nat (page_count (length code)) * GasMemoryPage \<le> g"
  shows "LoadRawCode code off (pm, g)
    = (Ok (), (load_image off (page_count (length code)) code pm, g - of_nat (page_count (length code)) * GasMemoryPage))"
  using assms fits_check_pages [of off 0 "page_count (length code)" pm ErrPageId ErrPageAllocated]
    load_pm_run [OF assms(1), of code]
  by (simp add: LoadRawCode_def Let_def bindG_Ok liftR_run charge_run on_fst_run not_less)

lemma LoadRawCode_Ok:
  assumes "LoadRawCode code off (pm, g) = (Ok (), st)"
  shows "st = (load_image off (page_count (length code)) code pm,
               g - of_nat (page_count (length code)) * GasMemoryPage)
    \<and> of_nat (page_count (length code)) * GasMemoryPage \<le> g
    \<and> (code \<noteq> [] \<longrightarrow> fits off (page_count (length code)) pm) \<and> addr_bid off = 1"
proof -
  let ?n = "page_count (length code)"
  have bid: "addr_bid off = 1"
    and ck: "check_pages ErrPageId ErrPageAllocated 0 ?n off (addr_bid off - 1) pm = Ok ()"
    and run: "bindG (charge (of_nat ?n * GasMemoryPage)) (\<lambda>_. on_fst (load_pm off ?n code)) (pm, g) = (Ok (), st)"
    using assms by (auto simp: LoadRawCode_def Let_def throw_run bindG_eq_Ok liftR_run split: if_splits)
  have load: "load_pm off ?n code pm = (Ok (), load_image off ?n code pm)"
    using check_pages_fits [OF ck] load_pm_run [of off ?n pm code] bid
    by (cases "?n = 0") (simp_all add: load_pm_0 fits_0_image NumBlocks_def)
  have "0 < ?n" if "code \<noteq> []"
    using that by (cases code) (simp_all add: page_count_def PageSize_def)
  then have "code \<noteq> [] \<longrightarrow> fits off ?n pm"
    using check_pages_fits [OF ck] bid by (simp add: NumBlocks_def)
  then show ?thesis
    using run bid load by (auto simp: bindG_eq_Ok charge_run on_fst_run split: if_splits)
qed

section \<open>Properties\<close>

text \<open>
  C10: write xor execute. A word that a program may fetch instructions from is a word that no program
  gets write access to, at any address, in any state of the memory.
\<close>

theorem write_xor_execute:
  assumes "Access_pm p self OpExecute pm = (Ok (Some c, new), pm')"
    and "Access_pm q self' OpWrite pm2 = (Ok (Some d, new'), pm2')"
  shows "c \<noteq> d"
  using assms by (auto simp: Access_pm_run access_allowed_def Let_def split: if_splits)

theorem write_xor_execute_witness:
  "\<exists>c d n m. fst (Access_pm 0x10000000 True OpExecute (set_page 0 0 (Some new_page) empty_pm)) = Ok (Some c, n)
     \<and> fst (Access_pm 0x20000000 True OpWrite empty_pm) = Ok (Some d, m) \<and> c \<noteq> d"
proof -
  have x: "Access_pm 0x10000000 True OpExecute (set_page 0 0 (Some new_page) empty_pm)
      = (Ok (Some (0, 0, 0), False), set_page 0 0 (Some new_page) empty_pm)"
    by (simp add: Access_pm_run access_allowed_def Let_def addr_bid_eq addr_pageId_eq addr_pagePos_eq
        MaxPagesPerBlock_def set_page_def)
  have w: "Access_pm 0x20000000 True OpWrite empty_pm
      = (Ok (Some (1, 0, 0), True), set_page 1 0 (Some new_page) empty_pm)"
    by (simp add: Access_pm_run access_allowed_def Let_def addr_bid_eq addr_pageId_eq addr_pagePos_eq
        MaxPagesPerBlock_def empty_pm_def)
  from write_xor_execute [OF x w] x w show ?thesis by auto
qed

text \<open>
  What a program can do with the memory of another one. The access only succeeds as a read of an
  existing page of the blocks 1, 4 or 5, and leaves that memory as it was.
\<close>

lemma foreign_access:
  assumes "Access_pm ptr False op pm = (Ok (Some c, new), pm')"
  shows "op = OpRead \<and> \<not> new \<and> pm' = pm \<and> fst c + 1 \<in> {1, 4, 5} \<and> blocks pm (fst c) (fst (snd c)) \<noteq> None"
proof -
  have "op = OpRead" using assms
    by (cases op) (simp_all add: Access_pm_run access_allowed_def Let_def split: if_splits)
  then show ?thesis
    using assms by (auto simp: Access_pm_run access_allowed_def Let_def split: if_splits)
qed

lemma foreign_access_witness:
  "\<exists>c. Access_pm 0x40000008 False OpRead (set_page 3 0 (Some new_page) empty_pm)
      = (Ok (Some c, False), set_page 3 0 (Some new_page) empty_pm) \<and> fst c + 1 \<in> {1, 4, 5}"
proof -
  have r: "Access_pm 0x40000008 False OpRead (set_page 3 0 (Some new_page) empty_pm)
      = (Ok (Some (3, 0, 1), False), set_page 3 0 (Some new_page) empty_pm)"
    by (simp add: Access_pm_run access_allowed_def Let_def addr_bid_eq addr_pageId_eq addr_pagePos_eq
        MaxPagesPerBlock_def set_page_def)
  from foreign_access [OF r] r show ?thesis by blast
qed

text \<open>
  Raw code that is loaded without an error reads back. Every word of the pages of block 1 that the
  code covers holds the eight bytes of the code at its place, missing bytes as zero, every other page
  of the program is unchanged, and the pages have been paid for.
\<close>

lemma LoadRawCode_image:
  assumes "LoadRawCode code off (pm, g) = (Ok (), (pm', g'))"
    and "code \<noteq> []"
  shows "(\<forall>k<512 * page_count (length code).
            cell_get (0, addr_pageId off + k div 512, k mod 512) pm' = le_word (take 8 (drop (8 * k) code)))
    \<and> (\<forall>b i. \<not> (b = 0 \<and> addr_pageId off \<le> i \<and> i < addr_pageId off + page_count (length code))
          \<longrightarrow> blocks pm' b i = blocks pm b i)
    \<and> g = g' + of_nat (page_count (length code)) * GasMemoryPage"
proof -
  let ?n = "page_count (length code)"
  have pm': "pm' = load_image off ?n code pm" and g: "g' = g - of_nat ?n * GasMemoryPage" and bid: "addr_bid off = 1"
    using LoadRawCode_Ok [OF assms(1)] by simp_all
  have "cell_get (0, addr_pageId off + k div 512, k mod 512) pm' = le_word (take 8 (drop (8 * k) code))"
    if "k < 512 * ?n" for k
  proof -
    have "k div 512 < ?n" using that by (simp add: less_mult_imp_div_less mult.commute)
    moreover have "8 * (k mod 512) + k div 512 * PageSize = 8 * k"
      using div_mult_mod_eq [of k 512] unfolding PageSize_def by linarith
    ultimately show ?thesis
      by (simp add: pm' cell_get_def load_image_def bid nth_read_words)
  qed
  with bid g show ?thesis by (auto simp: pm' load_image_def)
qed

lemma LoadRawCode_image_witness:
  "\<exists>pm' g'. LoadRawCode [0x13, 0, 0, 0] 0x10000000 (empty_pm, 5000) = (Ok (), (pm', g'))
     \<and> cell_get (0, 0, 0) pm' = 0x13 \<and> g' = 3000"
proof -
  let ?code = "[0x13, 0, 0, 0] :: bytes"
  have n: "page_count (length ?code) = 1" by (simp add: page_count_def PageSize_def)
  have bid: "addr_bid 0x10000000 = 1" and pg: "addr_pageId 0x10000000 = 0"
    by (simp_all add: addr_bid_eq addr_pageId_eq)
  have fits: "fits 0x10000000 1 empty_pm"
    by (simp add: fits_def bid pg NumBlocks_def MaxPagesPerBlock_def empty_pm_def)
  have "LoadRawCode ?code 0x10000000 (empty_pm, 5000)
      = (Ok (), (load_image 0x10000000 (page_count (length ?code)) ?code empty_pm,
           5000 - of_nat (page_count (length ?code)) * GasMemoryPage))"
    by (rule LoadRawCode_run) (use fits in \<open>simp_all add: n [simplified] bid PageSize_def GasMemoryPage_def\<close>)
  then have "LoadRawCode ?code 0x10000000 (empty_pm, 5000) = (Ok (), (load_image 0x10000000 1 ?code empty_pm, 3000))"
    by (simp add: n [simplified] GasMemoryPage_def)
  from LoadRawCode_image [OF this] this show ?thesis
    by (auto simp: n [simplified] pg dest: spec [where x = 0])
qed

text \<open>
  A file of one program header whose offset and size wrap around to zero: \<open>p_offset\<close> is \<open>2 ^ 64 - 8\<close>
  and \<open>p_filesz\<close> is 8.
\<close>

definition wrapping_elf :: bytes where
  "wrapping_elf = elf_header 0x10000000 1 @ segment_header
     \<lparr>Privileges = 5, Offset = 0, Addr = 0x10000000, FileSz = 0, MemSz = 4096\<rparr> (2 ^ 64 - 8) 8"

lemma ParseELF_wrapping:
  "ParseELF wrapping_elf = Ok \<lparr>Entry = 0x10000000, ProgramHeaderOffset = 64, Segments =
     [\<lparr>Privileges = 5, Offset = 0xfffffff8, Addr = 0x10000000, FileSz = 8, MemSz = 4096\<rparr>]\<rparr>"
  by (simp add: wrapping_elf_def ParseELF_elf_header SizeLimit_def parse_segment_def segment_header_fields
      sub_bytes_def ElfPageSize_def int_of_u64_def length_segment_header)

text \<open>
  The bounds check of \<open>ParseELF\<close> adds two 64-bit words, and the sum may wrap around: there is a
  file it accepts whose only segment lies outside of the file, and loading it, with gas for its page,
  is a slice out of bounds that panics.
\<close>

lemma LoadELF_wrapping_panics:
  "2000 \<le> g \<Longrightarrow> fst (LoadELF wrapping_elf 0 (empty_pm, g)) = Panic"
proof -
  assume g: "2000 \<le> g"
  have bid: "addr_bid 0x10000000 = 1" and pg: "addr_pageId 0x10000000 = 0"
    by (simp_all add: addr_bid_eq addr_pageId_eq)
  let ?seg = "\<lparr>Privileges = 5, Offset = 0xfffffff8, Addr = 0x10000000, FileSz = 8, MemSz = 4096\<rparr> :: Segment"
  have plan: "plan_segments 0 empty_pm [?seg]
      = Ok [\<lparr>seg_offset = 0xfffffff8, seg_length = 8, seg_addr = 0x10000000, seg_numPages = 1\<rparr>]"
    by (simp add: plan_segment_def Let_def PageSize_def MaxPagesPerBlock_def NumBlocks_def pg empty_pm_def)
  with g show ?thesis
    by (simp add: LoadELF_def ParseELF_wrapping PageSize_def bindG_Ok bindG_Panic liftR_run charge_run GasMemoryPage_def
        not_less [symmetric] seg_slice_def on_fst_def)
qed

lemma LoadELF_wrapping_panics_witness: "fst (LoadELF wrapping_elf 0 (empty_pm, 5000)) = Panic"
  by (rule LoadELF_wrapping_panics) simp

end
