(* ===== verification/Memory.thy ===== *)
theory Memory
  imports Program_Memory
begin

text \<open>
  The memories of all programs a transaction has loaded, \<^verbatim>\<open>vm/memory.go\<close>. A 64-bit address names a
  program in its upper half and a byte of that program's memory in its lower half. The bulk accesses
  go word by word; they are written over an interface of word accesses, so that what they do to the
  bytes of the memory is proved once from the laws of that interface.
\<close>

section \<open>The programs\<close>

definition MaxLoadedPrograms :: nat where "MaxLoadedPrograms = 256"

record Memory =
  Programs :: "nat \<Rightarrow> ProgramMemory option"

type_synonym mcell = "nat \<times> cell"

definition empty_mem :: Memory where
  "empty_mem = \<lparr>Programs = (\<lambda>_. None)\<rparr>"

definition mcell_get :: "mcell \<Rightarrow> Memory \<Rightarrow> u64" where
  "mcell_get c m = (case Programs m (fst c) of None \<Rightarrow> 0 | Some pm \<Rightarrow> cell_get (snd c) pm)"

definition mcell_set :: "mcell \<Rightarrow> u64 \<Rightarrow> Memory \<Rightarrow> Memory" where
  "mcell_set c v m =
     (case Programs m (fst c) of
        None \<Rightarrow> m
      | Some pm \<Rightarrow> m\<lparr>Programs := (Programs m)(fst c \<mapsto> cell_set (snd c) v pm)\<rparr>)"

text \<open>A new program takes the first free slot; the pool hands out recycled, hence empty, memories.\<close>

definition NewProgram :: "(Memory, nat) go" where
  "NewProgram m =
     (case List.find (\<lambda>i. Programs m i = None) [0..<MaxLoadedPrograms] of
        Some i \<Rightarrow> (Ok i, m\<lparr>Programs := (Programs m)(i \<mapsto> empty_pm)\<rparr>)
      | None \<Rightarrow> (Err (ErrVm ErrTooManyPrograms), m))"

definition Recycle_mem :: "Memory \<Rightarrow> Memory" where
  "Recycle_mem m = \<lparr>Programs = (\<lambda>i. if i < MaxLoadedPrograms then None else Programs m i)\<rparr>"

text \<open>\<open>m.Programs[p].Access(a, isSelf, op)\<close>.\<close>

definition prog_access :: "nat \<Rightarrow> bool \<Rightarrow> mem_op \<Rightarrow> u32 \<Rightarrow> (Memory, mcell option \<times> bool) go" where
  "prog_access p isSelf op a m =
     (let tag = (\<lambda>r. case r of
                   Ok (c, new) \<Rightarrow> Ok (map_option (Pair p) c, new)
                 | Err e \<Rightarrow> Err e | Panic \<Rightarrow> Panic | Diverge \<Rightarrow> Diverge) in
      case Programs m p of
        None \<Rightarrow> (tag (Access_nil a isSelf op), m)
      | Some pm \<Rightarrow>
          (case Access_pm a isSelf op pm of
             (r, pm') \<Rightarrow> (tag r, m\<lparr>Programs := (Programs m)(p \<mapsto> pm')\<rparr>)))"

definition Access_mem :: "u64 \<Rightarrow> u64 \<Rightarrow> mem_op \<Rightarrow> (Memory, mcell option \<times> bool) go" where
  "Access_mem pcProg ptr op =
     (let ptrProg = drop_bit 32 ptr in
      if of_nat MaxLoadedPrograms \<le> pcProg \<or> of_nat MaxLoadedPrograms \<le> ptrProg then ret (None, False)
      else prog_access (unat ptrProg) (pcProg = ptrProg) op (ucast ptr))"

section \<open>Bulk accesses over words\<close>

text \<open>
  The closure \<^verbatim>\<open>chk\<close>: a page that the access has allocated is paid for, and a missing word is a fault.
\<close>

definition chk_access :: "(Memory, mcell option \<times> bool) go \<Rightarrow> (Memory \<times> u64, mcell) go" where
  "chk_access acc =
     bindG (on_fst acc) (\<lambda>(x, new).
     bindG (if new then charge GasMemoryPage else ret ()) (\<lambda>_.
     case x of None \<Rightarrow> throw (ErrVm ErrSegFault) | Some c \<Rightarrow> ret c))"

definition get_word :: "mcell \<Rightarrow> Memory \<times> u64 \<Rightarrow> u64" where
  "get_word c st = mcell_get c (fst st)"

definition set_word :: "mcell \<Rightarrow> u64 \<Rightarrow> Memory \<times> u64 \<Rightarrow> Memory \<times> u64" where
  "set_word c v st = (mcell_set c v (fst st), snd st)"

text \<open>
  The bodies of the bulk accesses, over the access \<open>acc\<close> of the word at an address and the reading and
  writing of the word it returns. \<open>cur\<close> counts the bytes done; the first and the last word may be
  covered in part only.
\<close>

definition read_word_at :: "(u32 \<Rightarrow> ('s, 'c) go) \<Rightarrow> ('c \<Rightarrow> 's \<Rightarrow> u64) \<Rightarrow> u32 \<Rightarrow> ('s, u64) go" where
  "read_word_at acc get a = bindG (acc a) (\<lambda>c. getS (get c))"

fun read_loop :: "(u32 \<Rightarrow> ('s, 'c) go) \<Rightarrow> ('c \<Rightarrow> 's \<Rightarrow> u64) \<Rightarrow> u64 \<Rightarrow> nat \<Rightarrow> nat \<Rightarrow> ('s, bytes) go" where
  "read_loop acc get ptr cur 0 = ret []"
| "read_loop acc get ptr cur (Suc k) =
     bindG (read_word_at acc get (ucast (ptr + of_nat cur))) (\<lambda>x.
     bindG (read_loop acc get ptr (cur + 8) k) (\<lambda>r. ret (le_bytes 8 x @ r)))"

definition read_bytes_at :: "(u32 \<Rightarrow> ('s, 'c) go) \<Rightarrow> ('c \<Rightarrow> 's \<Rightarrow> u64) \<Rightarrow> u64 \<Rightarrow> nat \<Rightarrow> ('s, bytes) go" where
  "read_bytes_at acc get ptr n =
     bindG (if ptr AND 7 \<noteq> 0 then
              bindG (read_word_at acc get (ucast (ptr AND 0xfffffff8))) (\<lambda>x.
              let o1 = unat (ptr AND 7); c = min (8 - o1) n in ret (sub_bytes o1 (o1 + c) (le_bytes 8 x)))
            else ret []) (\<lambda>hd.
     let cur = length hd; k = (n - cur) div 8 in
     bindG (read_loop acc get ptr cur k) (\<lambda>mid.
     let cur2 = cur + 8 * k in
     if cur2 \<noteq> n then
       bindG (read_word_at acc get (ucast (ptr + of_nat cur2))) (\<lambda>x.
       ret (hd @ mid @ take (n - cur2) (le_bytes 8 x)))
     else ret (hd @ mid)))"

definition write_word_at ::
  "(u32 \<Rightarrow> ('s, 'c) go) \<Rightarrow> ('c \<Rightarrow> 's \<Rightarrow> u64) \<Rightarrow> ('c \<Rightarrow> u64 \<Rightarrow> 's \<Rightarrow> 's) \<Rightarrow> u32 \<Rightarrow> (u64 \<Rightarrow> u64) \<Rightarrow> ('s, unit) go" where
  "write_word_at acc get put a f =
     bindG (acc a) (\<lambda>c. bindG (getS (get c)) (\<lambda>x. modifyS (put c (f x))))"

fun write_loop ::
  "(u32 \<Rightarrow> ('s, 'c) go) \<Rightarrow> ('c \<Rightarrow> 's \<Rightarrow> u64) \<Rightarrow> ('c \<Rightarrow> u64 \<Rightarrow> 's \<Rightarrow> 's) \<Rightarrow> u64 \<Rightarrow> bytes \<Rightarrow> nat \<Rightarrow> nat \<Rightarrow> ('s, unit) go" where
  "write_loop acc get put ptr data cur 0 = ret ()"
| "write_loop acc get put ptr data cur (Suc k) =
     bindG (write_word_at acc get put (ucast (ptr + of_nat cur)) (\<lambda>_. le_word (sub_bytes cur (cur + 8) data)))
       (\<lambda>_. write_loop acc get put ptr data (cur + 8) k)"

definition write_bytes_at ::
  "(u32 \<Rightarrow> ('s, 'c) go) \<Rightarrow> ('c \<Rightarrow> 's \<Rightarrow> u64) \<Rightarrow> ('c \<Rightarrow> u64 \<Rightarrow> 's \<Rightarrow> 's) \<Rightarrow> u64 \<Rightarrow> bytes \<Rightarrow> ('s, unit) go" where
  "write_bytes_at acc get put ptr data =
     (let n = length data; o1 = unat (ptr AND 7); cur = (if o1 = 0 then 0 else min (8 - o1) n);
          k = (n - cur) div 8; cur2 = cur + 8 * k in
      bindG (if ptr AND 7 \<noteq> 0 then
               write_word_at acc get put (ucast (ptr AND 0xfffffff8)) (\<lambda>x. le_word (blit (le_bytes 8 x) o1 (take cur data)))
             else ret ()) (\<lambda>_.
      bindG (write_loop acc get put ptr data cur k) (\<lambda>_.
      if cur2 \<noteq> n then
        write_word_at acc get put (ucast (ptr + of_nat cur2)) (\<lambda>x. le_word (blit (le_bytes 8 x) 0 (drop cur2 data)))
      else ret ())))"

text \<open>
  Reading a string up to its zero byte or \<open>maxLen\<close> bytes. \<open>chkRes\<close> looks for the end among the bytes
  from \<open>lst\<close> on; the loop reads another word when it finds none.
\<close>

fun chkRes :: "int \<Rightarrow> nat \<Rightarrow> bytes \<Rightarrow> nat option" where
  "chkRes maxLen lst [] = None"
| "chkRes maxLen lst (b # bs) = (if b = 0 \<or> int lst = maxLen then Some lst else chkRes maxLen (Suc lst) bs)"

fun read_string_loop ::
  "(u32 \<Rightarrow> ('s, 'c) go) \<Rightarrow> ('c \<Rightarrow> 's \<Rightarrow> u64) \<Rightarrow> nat \<Rightarrow> u64 \<Rightarrow> int \<Rightarrow> nat \<Rightarrow> bytes \<Rightarrow> ('s, bytes) go" where
  "read_string_loop acc get 0 ptr maxLen lst res = diverge"
| "read_string_loop acc get (Suc fuel) ptr maxLen lst res =
     (case chkRes maxLen lst (drop lst res) of
        Some i \<Rightarrow> ret (take i res)
      | None \<Rightarrow>
          bindG (read_word_at acc get (ucast (ptr + of_nat (length res)))) (\<lambda>x.
          read_string_loop acc get fuel ptr maxLen (length res) (res @ le_bytes 8 x)))"

definition read_string_at ::
  "(u32 \<Rightarrow> ('s, 'c) go) \<Rightarrow> ('c \<Rightarrow> 's \<Rightarrow> u64) \<Rightarrow> nat \<Rightarrow> u64 \<Rightarrow> int \<Rightarrow> ('s, bytes) go" where
  "read_string_at acc get fuel ptr maxLen =
     bindG (if ptr AND 7 \<noteq> 0 then
              bindG (read_word_at acc get (ucast (ptr AND 0xfffffff8))) (\<lambda>x. ret (drop (unat (ptr AND 7)) (le_bytes 8 x)))
            else ret []) (\<lambda>res.
     read_string_loop acc get fuel ptr maxLen 0 res)"

section \<open>The operations\<close>

definition word_access :: "u64 \<Rightarrow> u64 \<Rightarrow> mem_op \<Rightarrow> u32 \<Rightarrow> (Memory \<times> u64, mcell) go" where
  "word_access pcProg ptrProg op a = chk_access (prog_access (unat ptrProg) (pcProg = ptrProg) op a)"

definition progs_in_range :: "u64 \<Rightarrow> u64 \<Rightarrow> bool" where
  "progs_in_range pcProg ptrProg \<longleftrightarrow> pcProg < of_nat MaxLoadedPrograms \<and> ptrProg < of_nat MaxLoadedPrograms"

definition ReadBytes :: "u64 \<Rightarrow> u64 \<Rightarrow> nat \<Rightarrow> (Memory \<times> u64, bytes) go" where
  "ReadBytes pcProg ptr n =
     (let ptrProg = drop_bit 32 ptr in
      if n = 0 then ret []
      else if \<not> progs_in_range pcProg ptrProg then throw (ErrVm ErrSegFault)
      else if 2 ^ 32 < n then throw (ErrVm ErrSegFault)
      else read_bytes_at (word_access pcProg ptrProg OpRead) get_word ptr n)"

definition WriteBytes :: "u64 \<Rightarrow> u64 \<Rightarrow> bytes \<Rightarrow> (Memory \<times> u64, unit) go" where
  "WriteBytes pcProg ptr data =
     (let ptrProg = drop_bit 32 ptr in
      if data = [] then ret ()
      else if \<not> progs_in_range pcProg ptrProg then throw (ErrVm ErrSegFault)
      else if 2 ^ 32 < length data then throw (ErrVm ErrSegFault)
      else write_bytes_at (word_access pcProg ptrProg OpWrite) get_word set_word ptr data)"

text \<open>
  \<open>ReadString\<close> needs a word per eight bytes of the longest string it may return, plus two; the loop
  counter is shown to be enough below.
\<close>

definition ReadString :: "u64 \<Rightarrow> u64 \<Rightarrow> u64 \<Rightarrow> (Memory \<times> u64, bytes) go" where
  "ReadString pcProg ptr maxLen =
     (let ptrProg = drop_bit 32 ptr in
      if \<not> progs_in_range pcProg ptrProg then throw (ErrVm ErrSegFault)
      else read_string_at (word_access pcProg ptrProg OpRead) get_word (unat maxLen div 8 + 3) ptr (int_of_u64 maxLen))"

section \<open>Bytes by address\<close>

text \<open>The \<open>n\<close> bytes from address \<open>a\<close> of a memory seen as a function, and the memory with bytes replaced.\<close>

definition bytes_at :: "(u32 \<Rightarrow> u8) \<Rightarrow> u32 \<Rightarrow> nat \<Rightarrow> bytes" where
  "bytes_at v a n = map (\<lambda>j. v (a + of_nat j)) [0..<n]"

definition upd_bytes :: "(u32 \<Rightarrow> u8) \<Rightarrow> u32 \<Rightarrow> bytes \<Rightarrow> u32 \<Rightarrow> u8" where
  "upd_bytes v a bs x = (if unat (x - a) < length bs then bs ! unat (x - a) else v x)"

lemma length_bytes_at [simp]: "length (bytes_at v a n) = n"
  by (simp add: bytes_at_def)

lemma nth_bytes_at [simp]: "j < n \<Longrightarrow> bytes_at v a n ! j = v (a + of_nat j)"
  by (simp add: bytes_at_def)

lemma bytes_at_0 [simp]: "bytes_at v a 0 = []"
  by (simp add: bytes_at_def)

lemma bytes_at_append: "bytes_at v a n @ bytes_at v (a + of_nat n) m = bytes_at v a (n + m)"
  by (rule nth_equalityI) (auto simp: nth_append of_nat_diff)

lemma take_bytes_at: "n \<le> m \<Longrightarrow> take n (bytes_at v a m) = bytes_at v a n"
  by (rule nth_equalityI) auto

lemma drop_bytes_at: "drop k (bytes_at v a n) = bytes_at v (a + of_nat k) (n - k)"
  by (rule nth_equalityI) (auto simp: algebra_simps)

lemma unat_add_small:
  fixes y :: u32
  shows "k < 2 ^ 32 \<Longrightarrow>
    unat (y + of_nat k) = (if unat y + k < 2 ^ 32 then unat y + k else unat y + k - 2 ^ 32)"
  using unsigned_less [of y, where ?'a = nat]
  by (simp add: unat_word_ariths unat_of_nat mod_if)

lemma upd_bytes_Nil [simp]: "upd_bytes v a [] = v"
  by (simp add: upd_bytes_def fun_eq_iff)

lemma unat_diff_add:
  fixes x a :: u32
  assumes "k < 2 ^ 32"
  obtains (low) "unat (x - a) = unat (x - (a + of_nat k)) + k"
  | (high) "unat (x - a) < k" "2 ^ 32 \<le> unat (x - (a + of_nat k)) + k"
proof -
  have "unat (x - a) = unat ((x - (a + of_nat k)) + of_nat k)" by (simp only: diff_diff_eq [symmetric] diff_add_cancel)
  then show thesis
    using unat_add_small [OF assms, of "x - (a + of_nat k)"] unsigned_less [of "x - (a + of_nat k)", where ?'a = nat] that
    by (cases "unat (x - (a + of_nat k)) + k < 2 ^ 32") simp_all
qed

lemma upd_bytes_append:
  assumes "length xs + length ys \<le> 2 ^ 32"
  shows "upd_bytes (upd_bytes v a xs) (a + of_nat (length xs)) ys = upd_bytes v a (xs @ ys)"
proof (cases "ys = []")
  case False
  then have k: "length xs < 2 ^ 32" using assms by (cases ys) auto
  show ?thesis
  proof
    fix x
    show "upd_bytes (upd_bytes v a xs) (a + of_nat (length xs)) ys x = upd_bytes v a (xs @ ys) x"
      by (rule unat_diff_add [OF k, of x a]) (use assms in \<open>simp_all add: upd_bytes_def nth_append\<close>)
  qed
qed simp

lemma nth_blit:
  "k + length d \<le> length xs \<Longrightarrow> j < length xs \<Longrightarrow>
     blit xs k d ! j = (if k \<le> j \<and> j < k + length d then d ! (j - k) else xs ! j)"
  by (auto simp: blit_def nth_append min_def)

lemma upd_bytes_blit:
  assumes "k + length d \<le> 8"
  shows "upd_bytes v a (blit (bytes_at v a 8) k d) = upd_bytes v (a + of_nat k) d"
proof
  fix x
  have k: "k < 2 ^ 32" using assms by simp
  have self: "a + of_nat (unat (x - a)) = x" by simp
  have lt: "unat (x - (a + of_nat k)) < 2 ^ 32" using unsigned_less [of "x - (a + of_nat k)", where ?'a = nat] by simp
  show "upd_bytes v a (blit (bytes_at v a 8) k d) x = upd_bytes v (a + of_nat k) d x"
    by (rule unat_diff_add [OF k, of x a]) (use assms self lt in \<open>auto simp: upd_bytes_def nth_blit\<close>)
qed

lemma bytes_at_upd_bytes: "length d \<le> 2 ^ 32 \<Longrightarrow> bytes_at (upd_bytes v a d) a (length d) = d"
  by (rule nth_equalityI) (auto simp: upd_bytes_def unat_of_nat)

text \<open>The 32-bit half of an address, and its alignment.\<close>

lemma ucast_add_down: "(ucast (p + of_nat n :: u64) :: u32) = ucast p + of_nat n"
  by (simp add: word_unat_eq_iff unat_word_ariths unsigned_ucast_eq unat_of_nat take_bit_eq_mod mod_simps mod_mod_cancel)

lemma unat_and7: "unat ((p :: u64) AND 7) = unat p mod 8"
proof -
  have "p AND 7 = take_bit 3 p" by (simp only: take_bit_eq_mask) (simp add: mask_numeral)
  then show ?thesis by (simp only: unat_take_mod) simp
qed

lemma ucast_align: "(ucast (p AND 0xfffffff8 :: u64) :: u32) = ucast p - of_nat (unat (p AND 7))"
proof -
  have hi: "(0xfffffff8 :: u64) = push_bit 3 (mask 29)" and lo: "(7 :: u64) = mask 3"
    by (simp_all add: mask_eq_exp_minus_1)
  have "(ucast (p AND 0xfffffff8) :: u32) + ucast (p AND 7) = ucast (p AND 0xfffffff8) OR ucast (p AND 7)"
    unfolding hi lo by (rule disjunctive_add) (auto simp: bit_simps)
  also have "\<dots> = ucast p"
    unfolding hi lo by (rule bit_word_eqI) (auto simp: bit_simps)
  finally show ?thesis by (simp add: eq_diff_eq)
qed

lemma aligned_ucast: "unat (ucast (p :: u64) + of_nat n :: u32) mod 8 = (unat p + n) mod 8"
  unfolding ucast_add_down [symmetric]
  by (simp add: unsigned_ucast_eq unat_word_ariths unat_of_nat take_bit_eq_mod mod_mod_cancel mod_simps)

lemma aligned_ucast_and: "unat (ucast (p AND 0xfffffff8 :: u64) :: u32) mod 8 = 0"
proof -
  have lo: "(7 :: u64) = mask 3" and hi: "(0xfffffff8 :: u64) = push_bit 3 (mask 29)"
    by (simp_all add: mask_eq_exp_minus_1)
  have "(p AND 0xfffffff8) AND 7 = 0" unfolding lo hi by (rule bit_word_eqI) (auto simp: bit_simps)
  with unat_and7 [of "p AND 0xfffffff8"] have "unat (p AND 0xfffffff8) mod 8 = 0" by simp
  with aligned_ucast [of "p AND 0xfffffff8" 0] show ?thesis by simp
qed

text \<open>The bytes before the first whole word: with the offset in its word, they end on a word boundary.\<close>

definition head_len :: "u64 \<Rightarrow> nat \<Rightarrow> nat" where
  "head_len ptr n = (if ptr AND 7 = 0 then 0 else min (8 - unat (ptr AND 7)) n)"

lemma head_len_cases:
  assumes "cur = head_len ptr n"
  shows "cur \<le> n" and "unat (ptr AND 7) + cur \<le> 8" and "cur \<noteq> n \<longrightarrow> (unat ptr + cur) mod 8 = 0"
proof -
  have u: "unat (ptr AND 7) = unat ptr mod 8" "unat (ptr AND 7) < 8" by (simp_all add: unat_and7)
  show "cur \<le> n" and "unat (ptr AND 7) + cur \<le> 8"
    using u assms by (auto simp: head_len_def)
  have "unat ptr mod 8 + cur = 8 \<or> unat ptr mod 8 + cur = 0" if "cur \<noteq> n"
    using that u assms by (auto simp: head_len_def min_def simp flip: unat_eq_0 split: if_splits)
  then have "cur \<noteq> n \<longrightarrow> (unat ptr mod 8 + cur) mod 8 = 0" by auto
  then show "cur \<noteq> n \<longrightarrow> (unat ptr + cur) mod 8 = 0" by (simp only: mod_add_left_eq)
qed

lemma whole_words:
  assumes "cur \<noteq> n \<longrightarrow> (p + cur) mod 8 = 0" and "cur \<le> n"
  shows "cur + 8 * ((n - cur) div 8) \<noteq> n \<Longrightarrow> (p + (cur + 8 * ((n - cur) div 8))) mod 8 = (0 :: nat)"
    and "cur + 8 * ((n - cur) div 8) \<le> n" and "n - (cur + 8 * ((n - cur) div 8)) < 8"
proof -
  have d: "8 * ((n - cur) div 8) + (n - cur) mod 8 = n - cur" by simp
  have m: "(n - cur) mod 8 < 8" by simp
  show "cur + 8 * ((n - cur) div 8) \<le> n" and "n - (cur + 8 * ((n - cur) div 8)) < 8" using d m assms(2) by linarith+
  assume "cur + 8 * ((n - cur) div 8) \<noteq> n"
  then have "cur \<noteq> n" by auto
  from assms(1) [rule_format, OF this] show "(p + (cur + 8 * ((n - cur) div 8))) mod 8 = 0"
    by (simp only: add.assoc [symmetric] mod_mult_self2)
qed

text \<open>The words that an access of \<open>n\<close> bytes at \<open>ptr\<close> touches, in order.\<close>

definition word_addrs :: "u64 \<Rightarrow> nat \<Rightarrow> u32 list" where
  "word_addrs ptr n =
     (let cur = head_len ptr n; k = (n - cur) div 8; cur2 = cur + 8 * k in
      (if ptr AND 7 \<noteq> 0 then [ucast (ptr AND 0xfffffff8)] else [])
      @ map (\<lambda>i. ucast (ptr + of_nat (cur + 8 * i))) [0..<k]
      @ (if cur2 \<noteq> n then [ucast (ptr + of_nat cur2)] else []))"

lemma read_word_at_total: "\<exists>c. acc a s = (Ok c, s) \<Longrightarrow> \<exists>x. read_word_at acc get a s = (Ok x, s)"
  by (auto simp: read_word_at_def bindG_Ok getS_run)

lemma read_loop_total:
  assumes "\<forall>i<k. \<exists>c. acc (ucast (ptr + of_nat (cur + 8 * i))) s = (Ok c, s)"
  shows "\<exists>bs. read_loop acc get ptr cur k s = (Ok bs, s)"
  using assms
proof (induction k arbitrary: cur)
  case (Suc k)
  have "\<forall>i<k. \<exists>c. acc (ucast (ptr + of_nat (cur + 8 + 8 * i))) s = (Ok c, s)"
  proof (intro allI impI)
    fix i assume "i < k"
    with Suc.prems have "\<exists>c. acc (ucast (ptr + of_nat (cur + 8 * Suc i))) s = (Ok c, s)" by blast
    then show "\<exists>c. acc (ucast (ptr + of_nat (cur + 8 + 8 * i))) s = (Ok c, s)" by (simp add: algebra_simps)
  qed
  from Suc.IH [OF this] obtain bs where "read_loop acc get ptr (cur + 8) k s = (Ok bs, s)" by blast
  moreover have "\<exists>c. acc (ucast (ptr + of_nat cur)) s = (Ok c, s)" using Suc.prems [rule_format, of 0] by simp
  from read_word_at_total [where acc = acc and get = get, OF this]
  obtain x where "read_word_at acc get (ucast (ptr + of_nat cur)) s = (Ok x, s)" by (elim exE)
  ultimately show ?case by (auto simp: bindG_Ok ret_run)
qed (simp add: ret_run)

text \<open>A read succeeds, and costs nothing, when each of its words is there.\<close>

lemma read_bytes_at_total:
  assumes "\<forall>a\<in>set (word_addrs ptr n). \<exists>c. acc a s = (Ok c, s)"
  shows "\<exists>bs. read_bytes_at acc get ptr n s = (Ok bs, s)"
proof -
  let ?cur = "head_len ptr n"
  let ?k = "(n - ?cur) div 8"
  obtain hd where h: "(if ptr AND 7 \<noteq> 0 then bindG (read_word_at acc get (ucast (ptr AND 0xfffffff8))) (\<lambda>x.
              let o1 = unat (ptr AND 7); c = min (8 - o1) n in ret (sub_bytes o1 (o1 + c) (le_bytes 8 x)))
            else ret []) s = (Ok hd, s)" and len: "length hd = ?cur"
  proof (cases "ptr AND 7 = 0")
    case True
    then show thesis using that by (simp add: ret_run head_len_def)
  next
    case False
    then have "ucast (ptr AND 0xfffffff8) \<in> set (word_addrs ptr n)" by (simp add: word_addrs_def Let_def)
    from read_word_at_total [where acc = acc and get = get, OF bspec [OF assms this]]
    obtain x where "read_word_at acc get (ucast (ptr AND 0xfffffff8)) s = (Ok x, s)" by (elim exE)
    moreover have "unat (ptr AND 7) < 8" by (simp add: unat_and7)
    ultimately show thesis using that False
      by (simp add: bindG_Ok ret_run Let_def head_len_def length_sub_bytes)
  qed
  obtain mid where m: "read_loop acc get ptr ?cur ?k s = (Ok mid, s)"
  proof -
    have "ucast (ptr + of_nat (?cur + 8 * i)) \<in> set (word_addrs ptr n)" if "i < ?k" for i
      unfolding word_addrs_def Let_def set_append set_map using that by force
    with assms have "\<forall>i<?k. \<exists>c. acc (ucast (ptr + of_nat (?cur + 8 * i))) s = (Ok c, s)" by blast
    from read_loop_total [where acc = acc and get = get, OF this] that show thesis by blast
  qed
  show ?thesis
  proof (cases "?cur + 8 * ?k = n")
    case True
    with h m len show ?thesis by (auto simp: read_bytes_at_def bindG_def Let_def ret_run)
  next
    case False
    then have "ucast (ptr + of_nat (?cur + 8 * ?k)) \<in> set (word_addrs ptr n)"
      unfolding word_addrs_def Let_def set_append by simp
    from read_word_at_total [where acc = acc and get = get, OF bspec [OF assms this]]
    obtain x where "read_word_at acc get (ucast (ptr + of_nat (?cur + 8 * ?k))) s = (Ok x, s)" by (elim exE)
    with False h m len show ?thesis by (auto simp: read_bytes_at_def bindG_def Let_def ret_run)
  qed
qed

text \<open>What holds of a word right after it is written, and survives the writing of others, holds of all words in the end.\<close>

lemma write_bytes_at_all:
  assumes hit: "\<And>a s c t v. acc a s = (Ok c, t) \<Longrightarrow> P a (put c v t)"
    and keep: "\<And>a b s c t v. P b s \<Longrightarrow> acc a s = (Ok c, t) \<Longrightarrow> P b (put c v t)"
    and run: "write_bytes_at acc get put ptr data s = (Ok u, t)"
  shows "\<forall>a\<in>set (word_addrs ptr (length data)). P a t"
proof -
  have all: "P a t" "P b s \<Longrightarrow> P b t" if "write_word_at acc get put a f s = (Ok u, t)" for a b f s u t
    using that hit keep by (auto simp: write_word_at_def bindG_eq_Ok getS_run modifyS_run)
  have loop: "(\<forall>i<k. P (ucast (ptr + of_nat (cur + 8 * i))) t) \<and> (\<forall>b. P b s \<longrightarrow> P b t)"
    if "write_loop acc get put ptr data cur k s = (Ok u, t)" for cur k s t u
    using that
  proof (induction k arbitrary: cur s)
    case (Suc k)
    then obtain w where w: "write_word_at acc get put (ucast (ptr + of_nat cur)) (\<lambda>_. le_word (sub_bytes cur (cur + 8) data)) s = (Ok (), w)"
      and l: "write_loop acc get put ptr data (cur + 8) k w = (Ok u, t)" by (auto simp: bindG_eq_Ok)
    have "P (ucast (ptr + of_nat (cur + 8 * i))) t" if "i < Suc k" for i
      using that Suc.IH [OF l] all(1) [OF w] by (cases i) (auto simp: algebra_simps)
    with Suc.IH [OF l] all(2) [OF w] show ?case by blast
  qed (simp add: ret_run)
  let ?n = "length data"
  let ?cur = "head_len ptr ?n"
  let ?k = "(?n - ?cur) div 8"
  have cur: "(if unat (ptr AND 7) = 0 then 0 else min (8 - unat (ptr AND 7)) ?n) = ?cur" by (simp add: head_len_def unat_eq_0)
  obtain p w where
    h: "(if ptr AND 7 \<noteq> 0 then
               write_word_at acc get put (ucast (ptr AND 0xfffffff8)) (\<lambda>x. le_word (blit (le_bytes 8 x) (unat (ptr AND 7)) (take ?cur data)))
             else ret ()) s = (Ok (), p)"
    and m: "write_loop acc get put ptr data ?cur ?k p = (Ok (), w)"
    and l: "(if ?cur + 8 * ?k \<noteq> ?n then write_word_at acc get put (ucast (ptr + of_nat (?cur + 8 * ?k)))
         (\<lambda>x. le_word (blit (le_bytes 8 x) 0 (drop (?cur + 8 * ?k) data))) else ret ()) w = (Ok u, t)"
    using run unfolding write_bytes_at_def Let_def bindG_eq_Ok cur by auto
  have keep_l: "P b w \<Longrightarrow> P b t" for b
    using l all(2) by (cases "?cur + 8 * ?k = ?n") (auto simp: ret_run)
  have "P (ucast (ptr + of_nat (?cur + 8 * ?k))) t" if "?cur + 8 * ?k \<noteq> ?n"
    using l that all(1) by auto
  moreover have "P (ucast (ptr AND 0xfffffff8)) t" if "ptr AND 7 \<noteq> 0"
    using h that all(1) loop [OF m] keep_l by auto
  ultimately show ?thesis
    using loop [OF m] keep_l by (auto simp: word_addrs_def Let_def)
qed

lemma nth_Cons_diff: "lst \<le> j \<Longrightarrow> (b # bs) ! (j - lst) = (if j = lst then b else bs ! (j - Suc lst))"
proof (cases "j = lst")
  case False
  moreover assume "lst \<le> j"
  ultimately have "j - lst = Suc (j - Suc lst)" by arith
  with False show ?thesis by simp
qed simp

lemma chkRes_Some:
  "chkRes m lst bs = Some i \<Longrightarrow> lst \<le> i \<and> i < lst + length bs \<and> (bs ! (i - lst) = 0 \<or> int i = m)
     \<and> (\<forall>j. lst \<le> j \<and> j < i \<longrightarrow> bs ! (j - lst) \<noteq> 0 \<and> int j \<noteq> m)"
proof (induction bs arbitrary: lst)
  case (Cons b bs)
  show ?case
  proof (cases "b = 0 \<or> int lst = m")
    case True
    with Cons.prems show ?thesis by auto
  next
    case False
    with Cons.prems have "chkRes m (Suc lst) bs = Some i" by simp
    from Cons.IH [OF this] have IH: "Suc lst \<le> i \<and> i < Suc lst + length bs \<and> (bs ! (i - Suc lst) = 0 \<or> int i = m)
      \<and> (\<forall>j. Suc lst \<le> j \<and> j < i \<longrightarrow> bs ! (j - Suc lst) \<noteq> 0 \<and> int j \<noteq> m)" .
    with False show ?thesis by (auto simp: Suc_le_eq nth_Cons_diff)
  qed
qed simp

lemma chkRes_None:
  "chkRes m lst bs = None \<Longrightarrow> lst \<le> j \<Longrightarrow> j < lst + length bs \<Longrightarrow> bs ! (j - lst) \<noteq> 0 \<and> int j \<noteq> m"
proof (induction bs arbitrary: lst)
  case (Cons b bs)
  show ?case
  proof (cases "j = lst")
    case False
    then have "(b # bs) ! (j - lst) = bs ! (j - Suc lst)" using Cons.prems(2)
      by (simp add: nth_Cons_diff)
    with Cons.IH [of "Suc lst"] Cons.prems False show ?thesis by (auto split: if_splits)
  qed (use Cons.prems in \<open>auto split: if_splits\<close>)
qed simp

section \<open>The word interface\<close>

text \<open>
  What the bulk reads rely on: a granted access of the word at an aligned address changes no byte, and
  the word has the eight bytes at that address. A writer may also replace them.
\<close>

locale word_reader =
  fixes acc :: "u32 \<Rightarrow> ('s, 'c) go"
    and get :: "'c \<Rightarrow> 's \<Rightarrow> u64"
    and view :: "'s \<Rightarrow> u32 \<Rightarrow> u8"
    and inv :: "'s \<Rightarrow> bool"
  assumes acc_inv: "inv s \<Longrightarrow> acc a s = (r, t) \<Longrightarrow> inv t"
    and acc_view: "inv s \<Longrightarrow> acc a s = (r, t) \<Longrightarrow> view t = view s"
    and acc_get: "inv s \<Longrightarrow> acc a s = (Ok c, t) \<Longrightarrow> unat a mod 8 = 0 \<Longrightarrow> le_bytes 8 (get c t) = bytes_at (view t) a 8"
begin

lemma read_word:
  assumes "inv s" and "read_word_at acc get a s = (Ok x, t)" and "unat a mod 8 = 0"
  shows "inv t \<and> view t = view s \<and> le_bytes 8 x = bytes_at (view s) a 8"
  using assms acc_inv [of s a] acc_view [of s a] acc_get [of s a]
  by (auto simp: read_word_at_def bindG_eq_Ok getS_run)

lemma read_loop_view:
  assumes "inv s" and "read_loop acc get ptr cur k s = (Ok bs, t)" and "(unat ptr + cur) mod 8 = 0"
  shows "inv t \<and> view t = view s \<and> bs = bytes_at (view s) (ucast ptr + of_nat cur) (8 * k)"
  using assms
proof (induction k arbitrary: cur s bs)
  case 0
  then show ?case by (simp add: ret_run)
next
  case (Suc k)
  then obtain x u r where rd: "read_word_at acc get (ucast (ptr + of_nat cur)) s = (Ok x, u)"
    and lp: "read_loop acc get ptr (cur + 8) k u = (Ok r, t)" and bs: "bs = le_bytes 8 x @ r"
    by (auto simp: bindG_eq_Ok ret_run)
  have w: "inv u \<and> view u = view s \<and> le_bytes 8 x = bytes_at (view s) (ucast ptr + of_nat cur) 8"
    using read_word [OF Suc.prems(1) rd] Suc.prems(3) by (simp add: ucast_add_down aligned_ucast)
  have "inv t \<and> view t = view u \<and> r = bytes_at (view u) (ucast ptr + of_nat (cur + 8)) (8 * k)"
    by (rule Suc.IH) (use w lp Suc.prems(3) in \<open>simp_all add: mod_add_left_eq flip: add.assoc\<close>)
  then show ?case
    using w bs bytes_at_append [of "view s" "ucast ptr + of_nat cur" 8 "8 * k"] by (simp add: algebra_simps)
qed

lemma read_bytes_at_view:
  assumes inv: "inv s" and run: "read_bytes_at acc get ptr n s = (Ok bs, t)"
  shows "inv t \<and> view t = view s \<and> bs = bytes_at (view s) (ucast ptr) n"
proof -
  let ?a = "ucast ptr :: u32" and ?cur = "head_len ptr n"
  let ?k = "(n - ?cur) div 8" and ?v = "view s"
  obtain hd u mid w where
    h: "(if ptr AND 7 \<noteq> 0 then bindG (read_word_at acc get (ucast (ptr AND 0xfffffff8))) (\<lambda>x.
              let o1 = unat (ptr AND 7); c = min (8 - o1) n in ret (sub_bytes o1 (o1 + c) (le_bytes 8 x)))
            else ret []) s = (Ok hd, u)"
    and m: "read_loop acc get ptr (length hd) ((n - length hd) div 8) u = (Ok mid, w)"
    and l: "(if length hd + 8 * ((n - length hd) div 8) \<noteq> n then
       bindG (read_word_at acc get (ucast (ptr + of_nat (length hd + 8 * ((n - length hd) div 8))))) (\<lambda>x.
       ret (hd @ mid @ take (n - (length hd + 8 * ((n - length hd) div 8))) (le_bytes 8 x)))
     else ret (hd @ mid)) w = (Ok bs, t)"
    using run unfolding read_bytes_at_def Let_def bindG_eq_Ok by blast
  have hd: "inv u \<and> view u = ?v \<and> hd = bytes_at ?v ?a ?cur"
  proof (cases "ptr AND 7 = 0")
    case True
    with h inv show ?thesis by (simp add: ret_run head_len_def)
  next
    case False
    with h obtain x where x: "read_word_at acc get (ucast (ptr AND 0xfffffff8)) s = (Ok x, u)"
      and hd: "hd = sub_bytes (unat (ptr AND 7)) (unat (ptr AND 7) + ?cur) (le_bytes 8 x)"
      by (auto simp: bindG_eq_Ok ret_run Let_def head_len_def)
    have "inv u \<and> view u = ?v \<and> le_bytes 8 x = bytes_at ?v (?a - of_nat (unat (ptr AND 7))) 8"
      using read_word [OF inv x aligned_ucast_and] by (simp only: ucast_align)
    moreover have "?cur \<le> 8 - unat (ptr AND 7)" using head_len_cases(2) [OF refl, of ptr n] by simp
    ultimately show ?thesis
      by (simp add: hd sub_bytes_def drop_bytes_at take_bytes_at)
  qed
  then have len: "length hd = ?cur" by simp
  note hl = head_len_cases [OF refl, of ptr n]
  note ww = whole_words [OF hl(3) hl(1)]
  have mid: "inv w \<and> view w = ?v \<and> mid = bytes_at ?v (?a + of_nat ?cur) (8 * ?k)"
  proof (cases "?k = 0")
    case True
    with m hd len show ?thesis by (simp add: ret_run)
  next
    case False
    then have "?cur \<noteq> n" by auto
    with read_loop_view [OF _ m] hd len hl(3) show ?thesis by simp
  qed
  have hm: "hd @ mid = bytes_at ?v ?a (?cur + 8 * ?k)"
    using hd mid by (simp only: bytes_at_append)
  show ?thesis
  proof (cases "?cur + 8 * ?k = n")
    case True
    with l hm mid len show ?thesis by (simp add: ret_run)
  next
    case False
    with l len obtain x where x: "read_word_at acc get (ucast (ptr + of_nat (?cur + 8 * ?k))) w = (Ok x, t)"
      and bs: "bs = hd @ mid @ take (n - (?cur + 8 * ?k)) (le_bytes 8 x)"
      by (auto simp: bindG_eq_Ok ret_run)
    have t: "inv t \<and> view t = ?v \<and> le_bytes 8 x = bytes_at ?v (?a + of_nat (?cur + 8 * ?k)) 8"
      using read_word [OF _ x] mid ww(1) [OF False] by (simp only: ucast_add_down aligned_ucast)
    then have "bs = (hd @ mid) @ bytes_at ?v (?a + of_nat (?cur + 8 * ?k)) (n - (?cur + 8 * ?k))"
      using bs ww(3) by (simp add: take_bytes_at less_imp_le)
    then have "bs = bytes_at ?v ?a n" unfolding hm bytes_at_append using ww(2) by simp
    with t show ?thesis by simp
  qed
qed

end

text \<open>
  The string at an address is the bytes before the first zero, at most \<open>m\<close>. The loop finds it, as long
  as its counter covers the rest of the \<open>m\<close> bytes.
\<close>

definition c_string :: "(u32 \<Rightarrow> u8) \<Rightarrow> u32 \<Rightarrow> nat \<Rightarrow> bytes" where
  "c_string v a m = takeWhile (\<lambda>b. b \<noteq> 0) (bytes_at v a m)"

lemma take_c_string:
  assumes "i \<le> m" and "i < n" and "\<forall>j<i. bytes_at v a n ! j \<noteq> 0" and "bytes_at v a n ! i = 0 \<or> i = m"
  shows "take i (bytes_at v a n) = c_string v a m"
proof -
  have i: "take i (bytes_at v a n) = bytes_at v a i" using assms(2) by (simp add: take_bytes_at)
  have nz: "\<forall>b\<in>set (bytes_at v a i). b \<noteq> 0"
    using assms(2,3) by (auto simp: bytes_at_def)
  have "c_string v a m = bytes_at v a i @ takeWhile (\<lambda>b. b \<noteq> 0) (bytes_at v (a + of_nat i) (m - i))"
    using nz assms(1) bytes_at_append [of v a i "m - i"] by (simp add: c_string_def takeWhile_append2 [symmetric])
  moreover have "takeWhile (\<lambda>b. b \<noteq> 0) (bytes_at v (a + of_nat i) (m - i)) = []"
  proof (cases "i = m")
    case False
    with assms have "v (a + of_nat i) = 0" "0 < m - i" by auto
    then show ?thesis by (cases "m - i") (simp_all add: bytes_at_def upt_conv_Cons del: upt_Suc)
  qed simp
  ultimately show ?thesis using i by simp
qed

context word_reader
begin

lemma read_string_loop_spec:
  assumes "inv s" and "\<And>a s. fst (acc a s) \<noteq> Diverge"
    and "(unat ptr + length res) mod 8 = 0" and "res = bytes_at (view s) (ucast ptr) (length res)"
    and "lst \<le> m" and "lst \<le> length res" and "\<forall>j<lst. res ! j \<noteq> 0"
    and "0 < fuel" and "m < length res + 8 * (fuel - 1)"
    and "read_string_loop acc get fuel ptr (int m) lst res s = (r, t)"
  shows "r \<noteq> Diverge \<and> (\<forall>bs. r = Ok bs \<longrightarrow> bs = c_string (view s) (ucast ptr) m)"
  using assms(1,3-)
proof (induction fuel arbitrary: s lst res)
  case (Suc fuel)
  show ?case
  proof (cases "chkRes (int m) lst (drop lst res)")
    case (Some i)
    have ch: "lst \<le> i" "i < length res" "res ! i = 0 \<or> i = m" "\<forall>j. lst \<le> j \<and> j < i \<longrightarrow> res ! j \<noteq> 0 \<and> j \<noteq> m"
      using chkRes_Some [OF Some] Suc.prems(5) by auto
    then have "\<forall>j<i. res ! j \<noteq> 0" using Suc.prems(6) by (metis linorder_not_le)
    moreover have "i \<le> m" using ch Suc.prems(4) by (metis linorder_not_le)
    ultimately have "take i res = c_string (view s) (ucast ptr) m"
      using take_c_string [of i m "length res" "view s" "ucast ptr"] ch Suc.prems(3) by simp
    with Some Suc.prems(9) show ?thesis by (auto simp: ret_run)
  next
    case None
    have nz: "\<forall>j<length res. res ! j \<noteq> 0"
      using chkRes_None [OF None] Suc.prems(5,6) by (metis add_diff_inverse_nat length_drop nat_add_left_cancel_less nth_drop le_add_diff_inverse linorder_not_le)
    have le: "length res \<le> m"
      using chkRes_None [OF None, of m] Suc.prems(4,5) by (metis add_diff_inverse_nat length_drop linorder_not_le le_add_diff_inverse)
    obtain q u where acc: "read_word_at acc get (ucast (ptr + of_nat (length res))) s = (q, u)" by fastforce
    show ?thesis
    proof (cases q)
      case (Ok x)
      have w: "inv u \<and> view u = view s \<and> le_bytes 8 x = bytes_at (view s) (ucast ptr + of_nat (length res)) 8"
        using read_word [OF Suc.prems(1)] acc Ok Suc.prems(2) by (simp add: ucast_add_down aligned_ucast)
      have run: "read_string_loop acc get fuel ptr (int m) (length res) (res @ le_bytes 8 x) u = (r, t)"
        using Suc.prems(9) None acc Ok by (simp add: bindG_def)
      have app: "res @ le_bytes 8 x = bytes_at (view s) (ucast ptr) (length res + 8)"
        using w Suc.prems(3) bytes_at_append by metis
      have "r \<noteq> Diverge \<and> (\<forall>bs. r = Ok bs \<longrightarrow> bs = c_string (view u) (ucast ptr) m)"
      proof (rule Suc.IH [OF _ _ _ le _ _ _ _ run])
        show "(unat ptr + length (res @ le_bytes 8 x)) mod 8 = 0"
          using Suc.prems(2) by (simp add: mod_add_left_eq flip: add.assoc)
        show "\<forall>j<length res. (res @ le_bytes 8 x) ! j \<noteq> 0" using nz by (simp add: nth_append)
        show "res @ le_bytes 8 x = bytes_at (view u) (ucast ptr) (length (res @ le_bytes 8 x))"
          using w app by simp
        show "0 < fuel" using Suc.prems(8) le by (cases fuel) simp_all
        then show "m < length (res @ le_bytes 8 x) + 8 * (fuel - 1)" using Suc.prems(8) by simp
      qed (use w in simp_all)
      with w show ?thesis by simp
    next
      case Diverge
      with acc assms(2) [of "ucast (ptr + of_nat (length res))" s] show ?thesis
        by (auto simp: read_word_at_def bindG_def getS_run split: prod.splits res.splits)
    qed (use Suc.prems(9) None acc in \<open>auto simp: bindG_def\<close>)
  qed
qed simp

end

text \<open>Writers also replace the eight bytes of the word.\<close>

locale word_writer = word_reader acc get view inv
  for acc :: "u32 \<Rightarrow> ('s, 'c) go" and get view inv +
  fixes put :: "'c \<Rightarrow> u64 \<Rightarrow> 's \<Rightarrow> 's"
  assumes put_inv: "inv s \<Longrightarrow> acc a s = (Ok c, t) \<Longrightarrow> inv (put c v t)"
    and put_view: "inv s \<Longrightarrow> acc a s = (Ok c, t) \<Longrightarrow> unat a mod 8 = 0 \<Longrightarrow>
           view (put c v t) = upd_bytes (view t) a (le_bytes 8 v)"
begin

lemma write_word:
  assumes "inv s" and "write_word_at acc get put a f s = (Ok u, t)" and "unat a mod 8 = 0"
  shows "\<exists>x. le_bytes 8 x = bytes_at (view s) a 8 \<and> inv t \<and> view t = upd_bytes (view s) a (le_bytes 8 (f x))"
proof -
  obtain c w where c: "acc a s = (Ok c, w)" and t: "t = put c (f (get c w)) w"
    using assms(2) by (auto simp: write_word_at_def bindG_eq_Ok getS_run modifyS_run)
  have "le_bytes 8 (get c w) = bytes_at (view s) a 8"
    using acc_get [OF assms(1) c assms(3)] acc_view [OF assms(1) c] by simp
  with put_inv [OF assms(1) c] put_view [OF assms(1) c assms(3)] acc_view [OF assms(1) c] t show ?thesis by auto
qed

lemma write_part:
  assumes "inv s" and "write_word_at acc get put a (\<lambda>x. le_word (blit (le_bytes 8 x) k d)) s = (Ok u, t)"
    and "unat a mod 8 = 0" and "k + length d \<le> 8"
  shows "inv t \<and> view t = upd_bytes (view s) (a + of_nat k) d"
proof -
  have "le_bytes 8 (le_word (blit (le_bytes 8 x) k d) :: u64) = blit (le_bytes 8 x) k d" for x :: u64
    using le_bytes_le_word [of "blit (le_bytes 8 x) k d", where 'a = 64] assms(4) by simp
  then show ?thesis
    using write_word [OF assms(1-3)] upd_bytes_blit [OF assms(4), of "view s" a] by auto
qed

lemma write_loop_view:
  assumes "inv s" and "write_loop acc get put ptr data cur k s = (Ok u, t)" and "(unat ptr + cur) mod 8 = 0"
    and "cur + 8 * k \<le> length data" and "length data \<le> 2 ^ 32"
  shows "inv t \<and> view t = upd_bytes (view s) (ucast ptr + of_nat cur) (sub_bytes cur (cur + 8 * k) data)"
  using assms
proof (induction k arbitrary: cur s)
  case 0
  then show ?case by (simp add: ret_run sub_bytes_def)
next
  case (Suc k)
  then obtain w where wr: "write_word_at acc get put (ucast (ptr + of_nat cur)) (\<lambda>_. le_word (sub_bytes cur (cur + 8) data)) s = (Ok (), w)"
    and lp: "write_loop acc get put ptr data (cur + 8) k w = (Ok u, t)"
    by (auto simp: bindG_eq_Ok)
  let ?d = "sub_bytes cur (cur + 8) data" and ?a = "ucast ptr + of_nat cur :: u32"
  have len: "length ?d = 8" using Suc.prems(4) by (simp add: length_sub_bytes)
  have al: "unat (ucast (ptr + of_nat cur) :: u32) mod 8 = 0"
    using Suc.prems(3) by (simp add: ucast_add_down aligned_ucast)
  have w: "inv w \<and> view w = upd_bytes (view s) ?a ?d"
    using write_word [OF Suc.prems(1) wr al] le_bytes_le_word [of ?d, where 'a = 64] len
    by (auto simp: ucast_add_down)
  have "inv t \<and> view t = upd_bytes (view w) (ucast ptr + of_nat (cur + 8)) (sub_bytes (cur + 8) (cur + 8 + 8 * k) data)"
    by (rule Suc.IH) (use w lp Suc.prems in \<open>simp_all add: mod_add_left_eq flip: add.assoc\<close>)
  moreover have "upd_bytes (upd_bytes (view s) ?a ?d) (?a + of_nat (length ?d)) (sub_bytes (cur + 8) (cur + 8 + 8 * k) data)
      = upd_bytes (view s) ?a (?d @ sub_bytes (cur + 8) (cur + 8 + 8 * k) data)"
    by (rule upd_bytes_append) (use len Suc.prems(4,5) in \<open>simp add: length_sub_bytes\<close>)
  ultimately show ?case
    using w len sub_bytes_append [of cur "cur + 8" "cur + 8 + 8 * k" data] by (simp add: algebra_simps)
qed

lemma write_bytes_at_view:
  assumes inv: "inv s" and run: "write_bytes_at acc get put ptr data s = (Ok u, t)" and len: "length data \<le> 2 ^ 32"
  shows "inv t \<and> view t = upd_bytes (view s) (ucast ptr) data"
proof -
  let ?n = "length data"
  let ?a = "ucast ptr :: u32" and ?cur = "head_len ptr ?n" and ?o = "unat (ptr AND 7)"
  let ?k = "(?n - ?cur) div 8" and ?v = "view s"
  have cur: "(if ?o = 0 then 0 else min (8 - ?o) ?n) = ?cur" by (simp add: head_len_def unat_eq_0)
  obtain p w where
    h: "(if ptr AND 7 \<noteq> 0 then
               write_word_at acc get put (ucast (ptr AND 0xfffffff8)) (\<lambda>x. le_word (blit (le_bytes 8 x) ?o (take ?cur data)))
             else ret ()) s = (Ok (), p)"
    and m: "write_loop acc get put ptr data ?cur ?k p = (Ok (), w)"
    and l: "(if ?cur + 8 * ?k \<noteq> ?n then write_word_at acc get put (ucast (ptr + of_nat (?cur + 8 * ?k)))
         (\<lambda>x. le_word (blit (le_bytes 8 x) 0 (drop (?cur + 8 * ?k) data))) else ret ()) w = (Ok u, t)"
    using run unfolding write_bytes_at_def Let_def bindG_eq_Ok cur by auto
  note hl = head_len_cases [OF refl, of ptr ?n]
  note ww = whole_words [OF hl(3) hl(1)]
  have hd: "inv p \<and> view p = upd_bytes ?v ?a (take ?cur data)"
  proof (cases "ptr AND 7 = 0")
    case True
    with h inv show ?thesis by (simp add: ret_run head_len_def)
  next
    case False
    with h have wr: "write_word_at acc get put (ucast (ptr AND 0xfffffff8))
        (\<lambda>x. le_word (blit (le_bytes 8 x) ?o (take ?cur data))) s = (Ok (), p)" by simp
    have ol: "?o + length (take ?cur data) \<le> 8" using hl(1,2) by simp
    show ?thesis
      using write_part [OF inv wr aligned_ucast_and ol] by (simp add: ucast_align)
  qed
  have mid: "inv w \<and> view w = upd_bytes ?v ?a (take (?cur + 8 * ?k) data)"
  proof (cases "?k = 0")
    case True
    with m hd show ?thesis by (simp add: ret_run)
  next
    case False
    then have ne: "?cur \<noteq> ?n" by auto
    have "inv w \<and> view w = upd_bytes (view p) (?a + of_nat ?cur) (sub_bytes ?cur (?cur + 8 * ?k) data)"
      by (rule write_loop_view [OF _ m]) (use hd hl(3) ne ww(2) len in auto)
    moreover have "upd_bytes (upd_bytes ?v ?a (take ?cur data)) (?a + of_nat (length (take ?cur data))) (sub_bytes ?cur (?cur + 8 * ?k) data)
        = upd_bytes ?v ?a (take ?cur data @ sub_bytes ?cur (?cur + 8 * ?k) data)"
      by (rule upd_bytes_append) (use len ww(2) hl(1) in \<open>simp add: length_sub_bytes\<close>)
    moreover have "take ?cur data @ sub_bytes ?cur (?cur + 8 * ?k) data = take (?cur + 8 * ?k) data"
      by (simp only: sub_bytes_def take_add) simp
    ultimately show ?thesis using hd hl(1) by (simp add: min_absorb2)
  qed
  show ?thesis
  proof (cases "?cur + 8 * ?k = ?n")
    case True
    with l mid show ?thesis by (simp add: ret_run)
  next
    case False
    define c where "c = ?cur + 8 * ?k"
    from False l have wr: "write_word_at acc get put (ucast ptr + of_nat c) (\<lambda>x. le_word (blit (le_bytes 8 x) 0 (drop c data))) w = (Ok u, t)"
      by (simp only: c_def ucast_add_down if_True simp_thms)
    have al: "unat (ucast ptr + of_nat c :: u32) mod 8 = 0"
      using ww(1) [OF False] by (simp only: c_def aligned_ucast)
    have ol: "0 + length (drop c data) \<le> 8" using ww(3) by (simp add: c_def)
    have "inv t \<and> view t = upd_bytes (view w) (?a + of_nat c) (drop c data)"
      using write_part [OF _ wr al ol] mid by simp
    moreover have "upd_bytes (upd_bytes ?v ?a (take c data)) (?a + of_nat (length (take c data))) (drop c data)
        = upd_bytes ?v ?a (take c data @ drop c data)"
      by (rule upd_bytes_append) (use len in simp)
    ultimately show ?thesis using mid ww(2) by (simp add: min_absorb2 flip: c_def)
  qed
qed

end

section \<open>The bytes of a program's memory\<close>

definition wf_mem :: "Memory \<Rightarrow> bool" where
  "wf_mem m \<longleftrightarrow> (\<forall>p pm. Programs m p = Some pm \<longrightarrow> wf_pm pm)"

definition addr_cell :: "u32 \<Rightarrow> cell" where
  "addr_cell a = (addr_bid a - 1, addr_pageId a, addr_pagePos a)"

definition pm_byte :: "ProgramMemory \<Rightarrow> u32 \<Rightarrow> u8" where
  "pm_byte pm a = (if addr_bid a = 0 then 0 else le_bytes 8 (cell_get (addr_cell a) pm) ! (unat a mod 8))"

definition mem_view :: "nat \<Rightarrow> Memory \<times> 'g \<Rightarrow> u32 \<Rightarrow> u8" where
  "mem_view p st a = (case Programs (fst st) p of None \<Rightarrow> 0 | Some pm \<Rightarrow> pm_byte pm a)"

lemma addr_word:
  "addr_bid a = unat a div 8 div 2 ^ 25" "addr_pageId a = unat a div 8 div 512 mod 65536" "addr_pagePos a = unat a div 8 mod 512"
  by (simp_all add: addr_bid_eq addr_pageId_eq addr_pagePos_eq div_mult2_eq [symmetric])

lemma mult8_add:
  fixes m j :: nat
  assumes "m mod 8 = 0" and "j < 8"
  shows "(m + j) div 8 = m div 8" and "(m + j) mod 8 = j" and "m < 2 ^ 32 \<Longrightarrow> m + j < 2 ^ 32"
proof -
  obtain q where m: "m = 8 * q" using assms(1) by (auto simp: mod_eq_0_iff_dvd elim: dvdE)
  then show "(m + j) div 8 = m div 8" and "(m + j) mod 8 = j" using assms(2) by simp_all
  show "m < 2 ^ 32 \<Longrightarrow> m + j < 2 ^ 32" using m assms(2) by simp
qed

lemma addr_cell_eq_iff:
  assumes "addr_bid a \<noteq> 0" and "addr_bid x \<noteq> 0"
  shows "addr_cell x = addr_cell a \<longleftrightarrow> unat x div 8 = unat a div 8"
proof
  assume c: "addr_cell x = addr_cell a"
  with assms have "addr_bid x = addr_bid a" unfolding addr_cell_def by (elim Pair_inject) linarith
  with c have "unat x div 8 div 2 ^ 25 = unat a div 8 div 2 ^ 25"
    "unat x div 8 div 512 mod 65536 = unat a div 8 div 512 mod 65536" "unat x div 8 mod 512 = unat a div 8 mod 512"
    by (simp_all add: addr_cell_def addr_word)
  moreover have "k = (k div 2 ^ 25 * 65536 + k div 512 mod 65536) * 512 + k mod 512" for k :: nat
  proof -
    have "k div 2 ^ 25 = k div 512 div 65536" by (simp add: div_mult2_eq [symmetric])
    then show ?thesis by (simp only: div_mult_mod_eq)
  qed
  ultimately show "unat x div 8 = unat a div 8" by metis
qed (simp add: addr_cell_def addr_word)

lemma aligned_add:
  fixes a :: u32
  assumes "unat a mod 8 = 0" and "j < 8"
  shows "unat (a + of_nat j) = unat a + j"
proof -
  have "unat a < 2 ^ 32" using unsigned_less [of a, where ?'a = nat] by simp
  then have "unat a + j < 2 ^ 32" by (rule mult8_add(3) [OF assms])
  then show ?thesis using unat_add_small [of j a] assms(2) by simp
qed

lemma same_word_iff:
  fixes a x :: u32
  assumes "unat a mod 8 = 0"
  shows "unat x div 8 = unat a div 8 \<longleftrightarrow> unat (x - a) < 8"
    and "unat (x - a) < 8 \<Longrightarrow> unat x mod 8 = unat (x - a)"
proof -
  have up: "unat x = unat a + unat (x - a)" if "unat (x - a) < 8"
    using aligned_add [OF assms that] by simp
  then show "unat (x - a) < 8 \<Longrightarrow> unat x mod 8 = unat (x - a)" using mult8_add(2) [OF assms] by metis
  have "unat (x - a) < 8" if d: "unat x div 8 = unat a div 8"
  proof -
    have "8 * (unat a div 8) = unat a" using assms by (simp add: mult_div_mod_eq [symmetric] minus_mod_eq_mult_div [symmetric])
    then have x: "unat x = unat a + unat x mod 8" using d mult_div_mod_eq [of 8 "unat x"] by simp
    then have "a \<le> x" by (simp add: word_le_nat_alt)
    then have "unat (x - a) = unat x mod 8" using x by (simp add: unat_sub)
    then show ?thesis by simp
  qed
  then show "unat x div 8 = unat a div 8 \<longleftrightarrow> unat (x - a) < 8" using up mult8_add(1) [OF assms] by metis
qed

lemma pm_byte_word:
  assumes "unat a mod 8 = 0" and "addr_bid a \<noteq> 0"
  shows "bytes_at (pm_byte pm) a 8 = le_bytes 8 (cell_get (addr_cell a) pm)"
proof (rule nth_equalityI)
  fix j assume "j < length (bytes_at (pm_byte pm) a 8)"
  then have j: "j < 8" by simp
  have "unat (a + of_nat j) div 8 = unat a div 8" "unat (a + of_nat j) mod 8 = j"
    using aligned_add [OF assms(1) j] mult8_add(1,2) [OF assms(1) j] by simp_all
  moreover from this have "addr_bid (a + of_nat j) = addr_bid a" "addr_cell (a + of_nat j) = addr_cell a"
    by (simp_all add: addr_cell_def addr_word)
  ultimately show "bytes_at (pm_byte pm) a 8 ! j = le_bytes 8 (cell_get (addr_cell a) pm) ! j"
    using assms(2) j by (simp add: pm_byte_def)
qed simp

lemma pm_byte_set:
  assumes "unat a mod 8 = 0" and "addr_bid a \<noteq> 0" and "valid_cell (addr_cell a) pm"
  shows "pm_byte (cell_set (addr_cell a) v pm) = upd_bytes (pm_byte pm) a (le_bytes 8 v)"
proof
  fix x
  show "pm_byte (cell_set (addr_cell a) v pm) x = upd_bytes (pm_byte pm) a (le_bytes 8 v) x"
  proof (cases "unat (x - a) < 8")
    case True
    then have "unat x div 8 = unat a div 8" using same_word_iff(1) [OF assms(1)] by simp
    then have "addr_bid x = addr_bid a" "addr_cell x = addr_cell a" by (simp_all add: addr_cell_def addr_word)
    then show ?thesis
      using True assms same_word_iff(2) [OF assms(1) True] by (simp add: pm_byte_def upd_bytes_def)
  next
    case False
    then have "addr_bid x \<noteq> 0 \<Longrightarrow> addr_cell a \<noteq> addr_cell x"
      using same_word_iff(1) [OF assms(1)] addr_cell_eq_iff [OF assms(2)] by metis
    with False show ?thesis by (simp add: pm_byte_def upd_bytes_def)
  qed
qed

lemma Access_pm_byte: "Access_pm a isSelf op pm = (r, pm') \<Longrightarrow> pm_byte pm' = pm_byte pm"
  using cell_get_Access_pm [of a isSelf op pm r pm'] by (auto simp: pm_byte_def addr_cell_def fun_eq_iff)

lemma Access_pm_granted:
  assumes "wf_pm pm" and "Access_pm a isSelf op pm = (Ok (Some c, new), pm')"
  shows "c = addr_cell a \<and> addr_bid a \<noteq> 0 \<and> valid_cell c pm'"
  using Access_pm_cell [OF assms] access_allowed_bounds [of a isSelf op] assms(2)
  by (auto simp: addr_cell_def Access_pm_run split: if_splits)

lemma prog_access_inv:
  assumes "wf_mem m" and "prog_access p isSelf op a m = (r, m')"
  shows "wf_mem m' \<and> mem_view q (m', g) = mem_view q (m, h) \<and> (Programs m' q = None \<longleftrightarrow> Programs m q = None)"
proof (cases "Programs m p")
  case None
  with assms show ?thesis by (auto simp: prog_access_def Let_def mem_view_def fun_eq_iff)
next
  case (Some pm)
  obtain r' pm' where acc: "Access_pm a isSelf op pm = (r', pm')" by fastforce
  with assms Some have m': "m' = m\<lparr>Programs := (Programs m)(p \<mapsto> pm')\<rparr>" by (simp add: prog_access_def Let_def)
  have "wf_pm pm'" and "pm_byte pm' = pm_byte pm"
    using wf_Access_pm [OF _ acc] Access_pm_byte [OF acc] assms(1) Some by (auto simp: wf_mem_def)
  with m' assms(1) Some show ?thesis by (auto simp: wf_mem_def mem_view_def fun_eq_iff)
qed

lemma prog_access_granted:
  assumes "wf_mem m" and "prog_access p isSelf op a m = (Ok (Some c, new), m')"
  shows "\<exists>pm. c = (p, addr_cell a) \<and> addr_bid a \<noteq> 0 \<and> Programs m' p = Some pm \<and> valid_cell (addr_cell a) pm"
proof -
  obtain pm r pm' where pm: "Programs m p = Some pm" and acc: "Access_pm a isSelf op pm = (r, pm')"
    and m': "m' = m\<lparr>Programs := (Programs m)(p \<mapsto> pm')\<rparr>"
    using assms(2) by (cases "Programs m p")
      (auto simp: prog_access_def Let_def Access_nil_def split: if_splits prod.splits)
  with assms(2) obtain c' where "r = Ok (Some c', new)" and "c = (p, c')"
    by (auto simp: prog_access_def Let_def split: res.splits)
  with acc Access_pm_granted [of pm a isSelf op c' new pm'] assms(1) pm m' show ?thesis
    by (auto simp: wf_mem_def)
qed

definition wf_st :: "Memory \<times> u64 \<Rightarrow> bool" where
  "wf_st st \<longleftrightarrow> wf_mem (fst st)"

lemma charge_fst: "charge c st = (r, st') \<Longrightarrow> fst st' = fst st"
  by (auto simp: charge_def split: if_splits)

lemma chk_access_state:
  "chk_access acc st = (r, st') \<Longrightarrow> fst st' = snd (acc (fst st))"
  by (auto simp: chk_access_def bindG_def on_fst_def ret_run throw_run dest!: charge_fst
      split: prod.splits res.splits option.splits if_splits)

lemma chk_access_granted:
  "chk_access acc st = (Ok c, st') \<Longrightarrow> \<exists>new. fst (acc (fst st)) = Ok (Some c, new)"
  by (auto simp: chk_access_def bindG_def on_fst_def ret_run throw_run
      split: prod.splits res.splits option.splits if_splits)

lemma word_access_inv:
  assumes "wf_st st" and "word_access pc p op a st = (r, st')"
  shows "wf_st st'" and "mem_view q st' = mem_view q st"
  using chk_access_state [of "prog_access (unat p) (pc = p) op a" st r st'] assms
    prog_access_inv [of "fst st" "unat p" "pc = p" op a "fst (prog_access (unat p) (pc = p) op a (fst st))" "fst st'" q "snd st'" "snd st"]
  by (cases st; cases st'; auto simp: wf_st_def word_access_def)+

lemma word_access_granted:
  assumes "wf_st st" and "word_access pc p op a st = (Ok c, st')"
  shows "\<exists>pm. c = (unat p, addr_cell a) \<and> addr_bid a \<noteq> 0 \<and> Programs (fst st') (unat p) = Some pm
     \<and> valid_cell (addr_cell a) pm"
proof -
  from assms(2) obtain new where "fst (prog_access (unat p) (pc = p) op a (fst st)) = Ok (Some c, new)"
    using chk_access_granted unfolding word_access_def by blast
  moreover have "fst st' = snd (prog_access (unat p) (pc = p) op a (fst st))"
    using chk_access_state assms(2) unfolding word_access_def by blast
  ultimately have "prog_access (unat p) (pc = p) op a (fst st) = (Ok (Some c, new), fst st')"
    by (simp add: prod_eq_iff)
  with prog_access_granted assms(1) show ?thesis unfolding wf_st_def by blast
qed

interpretation mem: word_writer "word_access pc p op" get_word "mem_view (unat p)" wf_st set_word for pc p op
proof unfold_locales
  fix s a r t assume "wf_st s" and "word_access pc p op a s = (r, t)"
  then show "wf_st t" and "mem_view (unat p) t = mem_view (unat p) s" by (rule word_access_inv)+
next
  fix s a c t assume "wf_st s" and "word_access pc p op a s = (Ok c, t)" and al: "unat a mod 8 = 0"
  from word_access_granted [OF this(1,2)] obtain pm where
    "c = (unat p, addr_cell a)" "addr_bid a \<noteq> 0" "Programs (fst t) (unat p) = Some pm" by blast
  with pm_byte_word [OF al, of pm]
  show "le_bytes 8 (get_word c t) = bytes_at (mem_view (unat p) t) a 8"
    by (simp add: get_word_def mcell_get_def mem_view_def bytes_at_def)
next
  fix s a c t v assume acc: "wf_st s" "word_access pc p op a s = (Ok c, t)"
  from word_access_inv(1) [OF this] show "wf_st (set_word c v t)"
    by (auto simp: wf_st_def set_word_def mcell_set_def wf_mem_def wf_cell_set split: option.splits)
  assume al: "unat a mod 8 = 0"
  from word_access_granted [OF acc] obtain pm where
    "c = (unat p, addr_cell a)" "addr_bid a \<noteq> 0" "Programs (fst t) (unat p) = Some pm" "valid_cell (addr_cell a) pm" by blast
  with pm_byte_set [OF al, of pm v]
  show "mem_view (unat p) (set_word c v t) = upd_bytes (mem_view (unat p) t) a (le_bytes 8 v)"
    by (simp add: set_word_def mcell_set_def mem_view_def fun_eq_iff upd_bytes_def)
qed

lemma ReadBytes_view:
  assumes "wf_st st" and "ReadBytes pc ptr n st = (Ok bs, st')"
  shows "wf_st st' \<and> mem_view (unat (drop_bit 32 ptr)) st' = mem_view (unat (drop_bit 32 ptr)) st
    \<and> bs = bytes_at (mem_view (unat (drop_bit 32 ptr)) st) (ucast ptr) n"
  using assms mem.read_bytes_at_view [OF assms(1)]
  by (auto simp: ReadBytes_def Let_def ret_run throw_run split: if_splits)

lemma WriteBytes_view:
  assumes "wf_st st" and "WriteBytes pc ptr data st = (Ok u, st')"
  shows "wf_st st' \<and> mem_view (unat (drop_bit 32 ptr)) st' = upd_bytes (mem_view (unat (drop_bit 32 ptr)) st) (ucast ptr) data"
  using assms mem.write_bytes_at_view [OF assms(1), of pc "drop_bit 32 ptr" OpWrite ptr data]
  by (auto simp: WriteBytes_def Let_def ret_run throw_run split: if_splits)

section \<open>Properties\<close>

text \<open>A program's own words are readable without a charge once their page is there.\<close>

definition own_word :: "nat \<Rightarrow> u32 \<Rightarrow> Memory \<Rightarrow> bool" where
  "own_word p a m \<longleftrightarrow> access_allowed a True OpRead \<and>
     (\<exists>pm. Programs m p = Some pm \<and> blocks pm (addr_bid a - 1) (addr_pageId a) \<noteq> None)"

lemma set_page_idem: "blocks pm b i = Some pg \<Longrightarrow> set_page b i (Some pg) pm = pm"
  by (rule pm_eqI) (simp add: set_page_def)

lemma own_word_read:
  assumes "own_word (unat p) a (fst st)"
  shows "word_access p p OpRead a st = (Ok (unat p, addr_cell a), st)"
proof -
  obtain pm pg where pm: "Programs (fst st) (unat p) = Some pm" and pg: "blocks pm (addr_bid a - 1) (addr_pageId a) = Some pg"
    and al: "access_allowed a True OpRead" using assms by (auto simp: own_word_def)
  have "Access_pm a True OpRead pm = (Ok (Some (addr_cell a), False), pm)"
    using pg al by (auto simp: Access_pm_run Let_def addr_cell_def set_page_idem)
  with pm have "prog_access (unat p) True OpRead a (fst st) = (Ok (Some (unat p, addr_cell a), False), fst st)"
    by (simp add: prog_access_def Let_def fun_upd_idem)
  then show ?thesis
    by (simp add: word_access_def chk_access_def bindG_def on_fst_def ret_run)
qed

lemma Access_pm_keeps: "Access_pm a isSelf op pm = (r, pm') \<Longrightarrow> blocks pm b i \<noteq> None \<Longrightarrow> blocks pm' b i \<noteq> None"
  by (auto simp: Access_pm_run Let_def set_page_def split: if_splits)

lemma cell_set_keeps: "blocks (cell_set c v pm) b i = None \<longleftrightarrow> blocks pm b i = None"
  by (auto simp: cell_set_def set_page_def split: prod.splits option.splits)

lemma own_word_set: "own_word q b (mcell_set c v m) \<longleftrightarrow> own_word q b m"
  by (auto simp: own_word_def mcell_set_def cell_set_keeps simp del: not_None_eq split: option.splits)

lemma own_word_keep:
  assumes "own_word q b (fst st)" and "word_access pc p op a st = (r, st')"
  shows "own_word q b (fst st')"
proof -
  have "fst st' = snd (prog_access (unat p) (pc = p) op a (fst st))"
    using chk_access_state assms(2) unfolding word_access_def by blast
  with assms(1) show ?thesis
    by (auto simp: own_word_def prog_access_def Let_def dest: Access_pm_keeps split: option.splits prod.splits)
       (metis Access_pm_keeps not_None_eq)+
qed

lemma own_word_hit:
  assumes "word_access pc p OpWrite a st = (Ok c, st')"
  shows "pc = p \<and> own_word (unat p) a (fst st')"
proof -
  from assms obtain new where "fst (prog_access (unat p) (pc = p) OpWrite a (fst st)) = Ok (Some c, new)"
    using chk_access_granted unfolding word_access_def by blast
  moreover have "fst st' = snd (prog_access (unat p) (pc = p) OpWrite a (fst st))"
    using chk_access_state assms unfolding word_access_def by blast
  ultimately show ?thesis
    by (auto simp: own_word_def prog_access_def Let_def Access_nil_def Access_pm_run access_allowed_def set_page_def
        split: option.splits if_splits)
qed

text \<open>
  What a program writes it reads back. When \<open>WriteBytes\<close> succeeds, reading as many bytes at the same
  address succeeds, costs nothing, changes nothing and returns the bytes written, whatever the
  alignment of the address and the length.
\<close>

lemma ReadBytes_WriteBytes:
  assumes "wf_mem m" and "WriteBytes pc ptr data (m, g) = (Ok (), st)"
  shows "ReadBytes pc ptr (length data) st = (Ok data, st)"
proof (cases "data = []")
  case True
  then show ?thesis by (simp add: ReadBytes_def ret_run Let_def)
next
  case False
  let ?p = "drop_bit 32 ptr"
  have len: "length data \<le> 2 ^ 32" and rng: "progs_in_range pc ?p"
    and wr: "write_bytes_at (word_access pc ?p OpWrite) get_word set_word ptr data (m, g) = (Ok (), st)"
    using assms(2) False by (auto simp: WriteBytes_def Let_def throw_run split: if_splits)
  have own: "\<forall>a\<in>set (word_addrs ptr (length data)). pc = ?p \<and> own_word (unat ?p) a (fst st)"
    by (rule write_bytes_at_all [OF _ _ wr])
       (auto simp: set_word_def own_word_set dest: own_word_hit own_word_keep)
  have "\<exists>c. word_access pc ?p OpRead a st = (Ok c, st)" if "a \<in> set (word_addrs ptr (length data))" for a
    using own that own_word_read by metis
  then have "\<exists>bs. read_bytes_at (word_access pc ?p OpRead) get_word ptr (length data) st = (Ok bs, st)"
    by (intro read_bytes_at_total) blast
  then obtain bs where rd: "ReadBytes pc ptr (length data) st = (Ok bs, st)"
    using False len rng by (auto simp: ReadBytes_def Let_def)
  have w: "wf_st st \<and> mem_view (unat ?p) st = upd_bytes (mem_view (unat ?p) (m, g)) (ucast ptr) data"
    using WriteBytes_view [OF _ assms(2)] assms(1) by (simp add: wf_st_def)
  with ReadBytes_view [OF _ rd] len have "bs = data" by (simp add: bytes_at_upd_bytes)
  with rd show ?thesis by simp
qed

definition demo_mem :: Memory where
  "demo_mem = \<lparr>Programs = [0 \<mapsto> empty_pm]\<rparr>"

lemma wf_demo_mem [simp]: "wf_mem demo_mem"
  by (simp add: demo_mem_def wf_mem_def)

lemma ReadBytes_WriteBytes_witness:
  "\<exists>st. WriteBytes 0 0x20000003 [1, 2, 3] (demo_mem, 5000) = (Ok (), st)
     \<and> ReadBytes 0 0x20000003 3 st = (Ok [1, 2, 3], st)"
proof -
  have "fst (WriteBytes 0 0x20000003 [1, 2, 3] (demo_mem, 5000)) = Ok ()"
    by (simp add: WriteBytes_def Let_def progs_in_range_def MaxLoadedPrograms_def write_bytes_at_def write_word_at_def
        word_access_def chk_access_def prog_access_def Access_pm_run access_allowed_def addr_bid_eq addr_pageId_eq
        MaxPagesPerBlock_def demo_mem_def empty_pm_def bindG_def on_fst_def getS_run modifyS_run ret_run charge_def
        GasMemoryPage_def)
  then obtain st where w: "WriteBytes 0 0x20000003 [1, 2, 3] (demo_mem, 5000) = (Ok (), st)"
    by (metis prod.collapse)
  from ReadBytes_WriteBytes [OF wf_demo_mem w] w show ?thesis by (auto simp: eval_nat_numeral)
qed

lemma word_access_no_diverge: "fst (word_access pc p op a st) \<noteq> Diverge"
  by (auto simp: word_access_def chk_access_def prog_access_def Access_nil_def Access_pm_run charge_def Let_def
      bindG_def on_fst_def ret_run throw_run split: option.splits prod.splits)

text \<open>
  Reading a string ends, and what it returns is the bytes before the first zero byte at the address,
  cut off at the given length.
\<close>

lemma ReadString_spec:
  assumes "wf_mem m" and "maxLen < 2 ^ 63" and "ReadString pc ptr maxLen (m, g) = (r, st)"
  shows "r \<noteq> Diverge \<and>
    (\<forall>bs. r = Ok bs \<longrightarrow> bs = c_string (mem_view (unat (drop_bit 32 ptr)) (m, g)) (ucast ptr) (unat maxLen))"
proof (cases "progs_in_range pc (drop_bit 32 ptr)")
  case False
  with assms(3) show ?thesis by (auto simp: ReadString_def throw_run)
next
  case True
  let ?acc = "word_access pc (drop_bit 32 ptr) OpRead" and ?v = "mem_view (unat (drop_bit 32 ptr))"
  let ?fuel = "unat maxLen div 8 + 3"
  have m: "int_of_u64 maxLen = int (unat maxLen)"
    using assms(2) by (rule int_of_u64_small)
  have fuel: "unat maxLen < 8 * (?fuel - 1)" by simp
  let ?init = "if ptr AND 7 \<noteq> 0 then bindG (read_word_at ?acc get_word (ucast (ptr AND 0xfffffff8)))
      (\<lambda>x. ret (drop (unat (ptr AND 7)) (le_bytes 8 x))) else ret []"
  obtain q u where init: "?init (m, g) = (q, u)" by (cases "?init (m, g)")
  have run: "bindG ?init (\<lambda>res. read_string_loop ?acc get_word ?fuel ptr (int (unat maxLen)) 0 res) (m, g) = (r, st)"
    using assms(3) True by (simp add: ReadString_def read_string_at_def Let_def m)
  show ?thesis
  proof (cases q)
    case (Ok res)
    have wf: "wf_st (m, g)" using assms(1) by (simp add: wf_st_def)
    have "wf_st u \<and> ?v u = ?v (m, g) \<and> res = bytes_at (?v (m, g)) (ucast ptr) (length res) \<and> (unat ptr + length res) mod 8 = 0"
    proof (cases "ptr AND 7 = 0")
      case True
      with init Ok wf unat_and7 [of ptr] show ?thesis by (auto simp: ret_run)
    next
      case False
      with init Ok obtain x where x: "read_word_at ?acc get_word (ucast (ptr AND 0xfffffff8)) (m, g) = (Ok x, u)"
        and res: "res = drop (unat (ptr AND 7)) (le_bytes 8 x)" by (auto simp: bindG_eq_Ok ret_run)
      have "(unat ptr + (8 - unat ptr mod 8)) mod 8 = 0"
        using head_len_cases(3) [OF refl, of ptr 9] False by (simp add: head_len_def unat_and7)
      then show ?thesis
        using mem.read_word [OF wf x aligned_ucast_and]
        by (simp add: res ucast_align drop_bytes_at unat_and7)
    qed
    moreover have "read_string_loop ?acc get_word ?fuel ptr (int (unat maxLen)) 0 res u = (r, st)"
      using run init Ok by (simp add: bindG_def)
    ultimately show ?thesis
      using mem.read_string_loop_spec [of u pc "drop_bit 32 ptr" OpRead ptr res 0 "unat maxLen" ?fuel r st]
        word_access_no_diverge fuel by simp
  next
    case Diverge
    with init word_access_no_diverge [of pc "drop_bit 32 ptr" OpRead "ucast (ptr AND 0xfffffff8)" "(m, g)"] show ?thesis
      by (auto simp: bindG_def read_word_at_def getS_run ret_run split: if_splits prod.splits res.splits)
  qed (use run init in \<open>auto simp: bindG_def\<close>)
qed

lemma ReadString_spec_witness:
  "fst (ReadString 0 0x20000000 1024 (demo_mem, 5000)) = Ok []
     \<and> c_string (mem_view 0 (demo_mem, 5000 :: u64)) 0x20000000 1024 = []"
proof -
  obtain st where rd: "read_word_at (word_access 0 0 OpRead) get_word 0x20000000 (demo_mem, 5000) = (Ok 0, st)"
    by (simp add: read_word_at_def word_access_def chk_access_def prog_access_def Access_pm_run access_allowed_def addr_bid_eq
        addr_pageId_eq addr_pagePos_eq MaxPagesPerBlock_def demo_mem_def empty_pm_def bindG_def on_fst_def getS_run ret_run
        charge_def GasMemoryPage_def get_word_def mcell_get_def cell_get_def set_page_def new_page_def)
  have b8: "le_bytes 8 (0 :: u64) = [0, 0, 0, 0, 0, 0, 0, 0]" by (simp add: eval_nat_numeral)
  have two: "(131 :: nat) = Suc (Suc 129)" by simp
  have "read_string_loop (word_access 0 0 OpRead) get_word 131 0x20000000 1024 0 [] (demo_mem, 5000) = (Ok [], st)"
    unfolding two read_string_loop.simps using rd by (simp add: bindG_def b8 ret_run)
  then have run: "ReadString 0 0x20000000 1024 (demo_mem, 5000) = (Ok [], st)"
    by (simp add: ReadString_def Let_def progs_in_range_def MaxLoadedPrograms_def read_string_at_def bindG_def ret_run int_of_u64_def)
  from ReadString_spec [OF wf_demo_mem _ run] run show ?thesis by simp
qed


end
