(* ===== verification/Cpu.thy ===== *)
theory Cpu
  imports Memory "HOL-Library.Signed_Division"
begin

text \<open>
  The RV64IM processor, \<^verbatim>\<open>vm/cpu.go\<close>, and the instruction formats of \<^verbatim>\<open>vm/utils.go\<close>. \<open>execStep\<close> takes
  the memory through an interface of its own, the \<^verbatim>\<open>MemAccess\<close> of its environment, as the source does; the
  instructions that do not touch memory are pure functions of the register values.
\<close>

section \<open>Instruction formats\<close>

definition SignExtend32 :: "u32 \<Rightarrow> u64" where
  "SignExtend32 x = scast x"

definition ImmIType :: "u32 \<Rightarrow> u32" where
  "ImmIType insn = signed_drop_bit 20 (insn AND 0xfff00000)"

definition ImmSType :: "u32 \<Rightarrow> u32" where
  "ImmSType insn =
     (let a = insn AND 0xfe000000; b = insn AND 0x00000f80 in signed_drop_bit 20 (a + push_bit 13 b))"

definition ImmBType :: "u32 \<Rightarrow> u32" where
  "ImmBType insn =
     (let a = insn AND 0x7e000000; b = insn AND 0x00000f00; c = insn AND 0x80000000; d = insn AND 0x00000080 in
      signed_drop_bit 19 (c + push_bit 23 d + drop_bit 1 a + push_bit 12 b))"

definition ImmUType :: "u32 \<Rightarrow> u32" where
  "ImmUType insn = insn AND 0xfffff000"

definition ImmJType :: "u32 \<Rightarrow> u32" where
  "ImmJType insn =
     (let a = insn AND 0x80000000; b = insn AND 0x7fe00000; c = insn AND 0x00100000; d = insn AND 0x000ff000 in
      signed_drop_bit 11 (a + push_bit 11 d + push_bit 2 c + drop_bit 9 b))"

definition BoolToInt :: "bool \<Rightarrow> u64" where
  "BoolToInt x = (if x then 1 else 0)"

text \<open>
  The encoders of the built-in assembler. A field out of range is a panic; the immediate is an
  \<^verbatim>\<open>int32\<close>, given here as the integer it stands for.
\<close>

definition fields_ok :: "u32 \<Rightarrow> u32 \<Rightarrow> u32 list \<Rightarrow> bool" where
  "fields_ok opcode funct3 regs \<longleftrightarrow> opcode < 128 \<and> funct3 < 8 \<and> (\<forall>r\<in>set regs. r < 32)"

definition genRType :: "u32 \<Rightarrow> u32 \<Rightarrow> u32 \<Rightarrow> u32 \<Rightarrow> u32 \<Rightarrow> u32 \<Rightarrow> u32 res" where
  "genRType opcode rd funct3 rs1 rs2 funct7 =
     (if fields_ok opcode funct3 [rd, rs1, rs2] \<and> funct7 < 128
      then Ok (opcode OR push_bit 7 rd OR push_bit 12 funct3 OR push_bit 15 rs1 OR push_bit 20 rs2 OR push_bit 25 funct7)
      else Panic)"

definition genIType :: "u32 \<Rightarrow> u32 \<Rightarrow> u32 \<Rightarrow> u32 \<Rightarrow> int \<Rightarrow> u32 res" where
  "genIType opcode rd funct3 rs1 imm =
     (if fields_ok opcode funct3 [rd, rs1] \<and> - 2048 \<le> imm \<and> imm \<le> 2047
      then let immt = word_of_int imm AND 4095 in
        Ok (opcode OR push_bit 7 rd OR push_bit 12 funct3 OR push_bit 15 rs1 OR push_bit 20 immt)
      else Panic)"

definition genSType :: "u32 \<Rightarrow> u32 \<Rightarrow> u32 \<Rightarrow> u32 \<Rightarrow> int \<Rightarrow> u32 res" where
  "genSType opcode funct3 rs1 rs2 imm =
     (if fields_ok opcode funct3 [rs1, rs2] \<and> - 2048 \<le> imm \<and> imm \<le> 2047
      then let immt = word_of_int imm AND 4095; imm_4_0 = immt AND 31; imm_11_5 = drop_bit 5 immt in
        Ok (opcode OR push_bit 7 imm_4_0 OR push_bit 12 funct3 OR push_bit 15 rs1 OR push_bit 20 rs2
            OR push_bit 25 imm_11_5)
      else Panic)"

definition genBType :: "u32 \<Rightarrow> u32 \<Rightarrow> u32 \<Rightarrow> u32 \<Rightarrow> int \<Rightarrow> u32 res" where
  "genBType opcode funct3 rs1 rs2 imm =
     (if fields_ok opcode funct3 [rs1, rs2] \<and> - 4096 \<le> imm \<and> imm \<le> 4095 \<and> imm mod 2 = 0
      then let immt = word_of_int imm AND 8191;
               imm_4_1 = drop_bit 1 immt AND 15;
               imm_10_5 = drop_bit 5 immt AND 63;
               imm_11 = drop_bit 11 immt AND 1;
               imm_12 = drop_bit 12 immt AND 1;
               imm_4_1_11 = push_bit 1 imm_4_1 OR imm_11;
               imm_12_10_5 = push_bit 6 imm_12 OR imm_10_5 in
        Ok (opcode OR push_bit 7 imm_4_1_11 OR push_bit 12 funct3 OR push_bit 15 rs1 OR push_bit 20 rs2
            OR push_bit 25 imm_12_10_5)
      else Panic)"

definition genUType :: "u32 \<Rightarrow> u32 \<Rightarrow> int \<Rightarrow> u32 res" where
  "genUType opcode rd imm =
     (if fields_ok opcode 0 [rd] \<and> imm mod 4096 = 0 then Ok (opcode OR push_bit 7 rd OR word_of_int imm) else Panic)"

definition genJType :: "u32 \<Rightarrow> u32 \<Rightarrow> int \<Rightarrow> u32 res" where
  "genJType opcode rd imm =
     (if fields_ok opcode 0 [rd] \<and> - 1048576 \<le> imm \<and> imm \<le> 1048575 \<and> imm mod 2 = 0
      then let immt = word_of_int imm AND 2097151;
               imm_10_1 = drop_bit 1 immt AND 1023;
               imm_11 = drop_bit 11 immt AND 1;
               imm_19_12 = drop_bit 12 immt AND 255;
               imm_20 = drop_bit 20 immt AND 1;
               immn = push_bit 19 imm_20 OR push_bit 9 imm_10_1 OR push_bit 8 imm_11 OR imm_19_12 in
        Ok (opcode OR push_bit 7 rd OR push_bit 12 immn)
      else Panic)"

section \<open>The processor\<close>

type_synonym reg = "5 word"

record CPU =
  Reg :: "reg \<Rightarrow> u64"
  Pc :: u64

definition GasInstructionBase :: u64 where "GasInstructionBase = 10"
definition GasMemoryOp :: u64 where "GasMemoryOp = 10"

definition set_reg :: "reg \<Rightarrow> u64 \<Rightarrow> CPU \<Rightarrow> CPU" where
  "set_reg rd v cpu = cpu\<lparr>Reg := (Reg cpu)(rd := v)\<rparr>"

definition SetCall :: "u64 \<Rightarrow> u64 \<Rightarrow> CPU \<Rightarrow> CPU" where
  "SetCall target retaddr cpu = set_reg 1 retaddr (cpu\<lparr>Pc := target\<rparr>)"

definition GetArg :: "nat \<Rightarrow> CPU \<Rightarrow> u64" where
  "GetArg i cpu = Reg cpu (of_nat (10 + i))"

definition SetArg :: "nat \<Rightarrow> u64 \<Rightarrow> CPU \<Rightarrow> CPU" where
  "SetArg i v cpu = set_reg (of_nat (10 + i)) v cpu"

definition Ret_cpu :: "CPU \<Rightarrow> CPU" where
  "Ret_cpu cpu = cpu\<lparr>Pc := Reg cpu 1\<rparr>"

text \<open>The fields of an instruction word.\<close>

definition insn_opcode :: "u32 \<Rightarrow> 5 word" where "insn_opcode insn = ucast (drop_bit 2 insn)"
definition insn_rd :: "u32 \<Rightarrow> reg" where "insn_rd insn = ucast (drop_bit 7 insn)"
definition insn_funct3 :: "u32 \<Rightarrow> 3 word" where "insn_funct3 insn = ucast (drop_bit 12 insn)"
definition insn_rs1 :: "u32 \<Rightarrow> reg" where "insn_rs1 insn = ucast (drop_bit 15 insn)"
definition insn_rs2 :: "u32 \<Rightarrow> reg" where "insn_rs2 insn = ucast (drop_bit 20 insn)"
definition insn_funct7 :: "u32 \<Rightarrow> 7 word" where "insn_funct7 insn = ucast (drop_bit 25 insn)"

abbreviation illegal :: "'a res" where
  "illegal \<equiv> Err (ErrVm ErrIllegalInstruction)"

subsection \<open>Branches\<close>

definition branch_cond :: "3 word \<Rightarrow> u64 \<Rightarrow> u64 \<Rightarrow> bool res" where
  "branch_cond funct3 rs1v rs2v =
     (if funct3 = 0 then Ok (rs1v = rs2v)
      else if funct3 = 1 then Ok (rs1v \<noteq> rs2v)
      else if funct3 = 4 then Ok (sint rs1v < sint rs2v)
      else if funct3 = 5 then Ok (sint rs1v \<ge> sint rs2v)
      else if funct3 = 6 then Ok (rs1v < rs2v)
      else if funct3 = 7 then Ok (rs1v \<ge> rs2v)
      else illegal)"

subsection \<open>Loads and stores\<close>

text \<open>What a load extracts from a word and what a store makes of it; \<open>offset\<close> is in bits.\<close>

definition load_value :: "3 word \<Rightarrow> nat \<Rightarrow> u64 \<Rightarrow> u64 res" where
  "load_value funct3 offset val =
     (if funct3 = 0 then Ok (scast (ucast (drop_bit offset val AND 0xff) :: u8))
      else if funct3 = 1 then Ok (scast (ucast (drop_bit offset val AND 0xffff) :: u16))
      else if funct3 = 2 then Ok (scast (ucast (drop_bit offset val AND 0xffffffff) :: u32))
      else if funct3 = 3 then Ok val
      else if funct3 = 4 then Ok (ucast (ucast (drop_bit offset val AND 0xff) :: u8))
      else if funct3 = 5 then Ok (ucast (ucast (drop_bit offset val AND 0xffff) :: u16))
      else if funct3 = 6 then Ok (ucast (ucast (drop_bit offset val AND 0xffffffff) :: u32))
      else illegal)"

definition store_value :: "3 word \<Rightarrow> nat \<Rightarrow> u64 \<Rightarrow> u64 \<Rightarrow> u64 res" where
  "store_value funct3 offset rs2v val =
     (if funct3 = 0 then Ok ((val AND NOT (push_bit offset 0xff)) OR push_bit offset (ucast (ucast rs2v :: u8)))
      else if funct3 = 1 then Ok ((val AND NOT (push_bit offset 0xffff)) OR push_bit offset (ucast (ucast rs2v :: u16)))
      else if funct3 = 2 then Ok ((val AND NOT (push_bit offset 0xffffffff)) OR push_bit offset (ucast (ucast rs2v :: u32)))
      else if funct3 = 3 then Ok rs2v
      else illegal)"

subsection \<open>Arithmetic\<close>

definition exec_op_imm :: "u32 \<Rightarrow> u64 \<Rightarrow> u64 res" where
  "exec_op_imm insn rs1v =
     (let funct3 = insn_funct3 insn; imm = SignExtend32 (ImmIType insn);
          shamt = unat (drop_bit 20 insn AND 0x3f); tmp = insn_funct7 insn AND 0x7e in
      if funct3 = 0 then Ok (rs1v + imm)
      else if funct3 = 2 then Ok (BoolToInt (sint rs1v < sint imm))
      else if funct3 = 3 then Ok (BoolToInt (rs1v < imm))
      else if funct3 = 4 then Ok (rs1v XOR imm)
      else if funct3 = 6 then Ok (rs1v OR imm)
      else if funct3 = 7 then Ok (rs1v AND imm)
      else if tmp = 0x20 then if funct3 \<noteq> 5 then illegal else Ok (signed_drop_bit shamt rs1v)
      else if tmp = 0 then if funct3 = 1 then Ok (push_bit shamt rs1v) else Ok (drop_bit shamt rs1v)
      else illegal)"

definition exec_op_imm32 :: "u32 \<Rightarrow> u64 \<Rightarrow> u64 res" where
  "exec_op_imm32 insn rs1v =
     (let funct3 = insn_funct3 insn; funct7 = insn_funct7 insn; rs2 = unat (insn_rs2 insn); r = ucast rs1v :: u32 in
      if funct3 = 0 then Ok (SignExtend32 (r + ImmIType insn))
      else if funct3 = 1 then if funct7 \<noteq> 0 then illegal else Ok (SignExtend32 (push_bit rs2 r))
      else if funct3 = 5 then
        if funct7 = 0x20 then Ok (SignExtend32 (signed_drop_bit rs2 r))
        else if funct7 = 0 then Ok (SignExtend32 (drop_bit rs2 r))
        else illegal
      else illegal)"

text \<open>
  \<open>Mul64_hi\<close> is the upper half of \<^verbatim>\<open>bits.Mul64\<close>; the signed variants correct it for negative operands.
  Go's \<^verbatim>\<open>/\<close> and \<^verbatim>\<open>%\<close> on signed integers round towards zero.
\<close>

definition Mul64_hi :: "u64 \<Rightarrow> u64 \<Rightarrow> u64" where
  "Mul64_hi a b = word_of_int (uint a * uint b div 2 ^ 64)"

definition exec_muldiv :: "3 word \<Rightarrow> u64 \<Rightarrow> u64 \<Rightarrow> u64 res" where
  "exec_muldiv funct3 rs1v rs2v =
     (let hi = Mul64_hi rs1v rs2v;
          hi1 = (if drop_bit 63 rs1v \<noteq> 0 then hi - rs2v else hi) in
      if funct3 = 0 then Ok (rs1v * rs2v)
      else if funct3 = 1 then Ok (if drop_bit 63 rs2v \<noteq> 0 then hi1 - rs1v else hi1)
      else if funct3 = 2 then Ok hi1
      else if funct3 = 3 then Ok hi
      else if funct3 = 4 \<or> funct3 = 6 then
        if rs2v = 0 \<or> (rs1v = 2 ^ 63 \<and> rs2v + 1 = 0) then Err (ErrVm ErrDivision)
        else if funct3 = 4 then Ok (word_of_int (sint rs1v sdiv sint rs2v))
        else Ok (word_of_int (sint rs1v smod sint rs2v))
      else if rs2v = 0 then Err (ErrVm ErrDivision)
      else if funct3 = 5 then Ok (rs1v div rs2v)
      else Ok (rs1v mod rs2v))"

definition exec_op :: "u32 \<Rightarrow> u64 \<Rightarrow> u64 \<Rightarrow> u64 res" where
  "exec_op insn rs1v rs2v =
     (let funct3 = insn_funct3 insn; funct7 = insn_funct7 insn; sh = unat (rs2v AND 0x3f) in
      if funct7 = 1 then exec_muldiv funct3 rs1v rs2v
      else if funct7 = 0x20 \<and> funct3 \<noteq> 0 \<and> funct3 \<noteq> 5 then illegal
      else if funct7 \<noteq> 0x20 \<and> funct7 \<noteq> 0 then illegal
      else if funct3 = 0 then Ok (if funct7 = 0x20 then rs1v - rs2v else rs1v + rs2v)
      else if funct3 = 1 then Ok (push_bit sh rs1v)
      else if funct3 = 2 then Ok (BoolToInt (sint rs1v < sint rs2v))
      else if funct3 = 3 then Ok (BoolToInt (rs1v < rs2v))
      else if funct3 = 4 then Ok (rs1v XOR rs2v)
      else if funct3 = 5 then Ok (if funct7 = 0x20 then signed_drop_bit sh rs1v else drop_bit sh rs1v)
      else if funct3 = 6 then Ok (rs1v OR rs2v)
      else Ok (rs1v AND rs2v))"

definition exec_muldiv32 :: "3 word \<Rightarrow> u64 \<Rightarrow> u64 \<Rightarrow> u64 res" where
  "exec_muldiv32 funct3 rs1v rs2v =
     (let rs1u = ucast rs1v :: u32; rs2u = ucast rs2v :: u32 in
      if funct3 = 0 then Ok (SignExtend32 (ucast (rs1v * rs2v)))
      else if funct3 < 4 then illegal
      else if rs2u = 0 then Err (ErrVm ErrDivision)
      else if funct3 = 4 \<or> funct3 = 6 then
        if rs1u = 2 ^ 31 \<and> rs2u + 1 = 0 then Err (ErrVm ErrDivision)
        else if funct3 = 4 then Ok (SignExtend32 (word_of_int (sint rs1u sdiv sint rs2u)))
        else Ok (SignExtend32 (word_of_int (sint rs1u smod sint rs2u)))
      else if funct3 = 5 then Ok (SignExtend32 (rs1u div rs2u))
      else Ok (SignExtend32 (rs1u mod rs2u)))"

definition exec_op32 :: "u32 \<Rightarrow> u64 \<Rightarrow> u64 \<Rightarrow> u64 res" where
  "exec_op32 insn rs1v rs2v =
     (let funct3 = insn_funct3 insn; funct7 = insn_funct7 insn; sh = unat (rs2v AND 0x1f); r = ucast rs1v :: u32 in
      if funct7 = 1 then exec_muldiv32 funct3 rs1v rs2v
      else if funct7 = 0x20 \<and> funct3 \<noteq> 0 \<and> funct3 \<noteq> 5 then illegal
      else if funct7 \<noteq> 0x20 \<and> funct7 \<noteq> 0 then illegal
      else if funct3 = 0 then Ok (SignExtend32 (ucast (if funct7 = 0x20 then rs1v - rs2v else rs1v + rs2v)))
      else if funct3 = 1 then Ok (SignExtend32 (push_bit sh r))
      else if funct3 = 5 then Ok (SignExtend32 (if funct7 = 0x20 then signed_drop_bit sh r else drop_bit sh r))
      else illegal)"

subsection \<open>One instruction\<close>

text \<open>
  An instruction that does not access memory: the value for \<open>rd\<close>, if it has one, and the next program
  counter.
\<close>

definition set_rd :: "u64 res \<Rightarrow> u64 \<Rightarrow> (u64 option \<times> u64) res" where
  "set_rd r nextPc = (case r of Ok v \<Rightarrow> Ok (Some v, nextPc) | Err e \<Rightarrow> Err e | Panic \<Rightarrow> Panic | Diverge \<Rightarrow> Diverge)"

definition exec_alu :: "u32 \<Rightarrow> CPU \<Rightarrow> (u64 option \<times> u64) res" where
  "exec_alu insn cpu =
     (let opcode = insn_opcode insn; pc = Pc cpu; nextPc = pc + 4;
          rs1v = Reg cpu (insn_rs1 insn); rs2v = Reg cpu (insn_rs2 insn) in
      if opcode = 0b01101 then Ok (Some (SignExtend32 (ImmUType insn)), nextPc)
      else if opcode = 0b00101 then Ok (Some (SignExtend32 (ImmUType insn) + pc), nextPc)
      else if opcode = 0b11011 then Ok (Some nextPc, SignExtend32 (ImmJType insn) + pc)
      else if opcode = 0b11001 then
        if insn_funct3 insn = 0
        then Ok (Some nextPc, (SignExtend32 (ImmIType insn) + rs1v) AND NOT 1)
        else illegal
      else if opcode = 0b11000 then
        (case branch_cond (insn_funct3 insn) rs1v rs2v of
           Ok c \<Rightarrow> Ok (None, if c then pc + SignExtend32 (ImmBType insn) else nextPc)
         | Err e \<Rightarrow> Err e | Panic \<Rightarrow> Panic | Diverge \<Rightarrow> Diverge)
      else if opcode = 0b00100 then set_rd (exec_op_imm insn rs1v) nextPc
      else if opcode = 0b00110 then set_rd (exec_op_imm32 insn rs1v) nextPc
      else if opcode = 0b01100 then set_rd (exec_op insn rs1v rs2v) nextPc
      else if opcode = 0b01110 then set_rd (exec_op32 insn rs1v rs2v) nextPc
      else illegal)"

text \<open>
  A load or store, on the processor and the environment: the memory and the gas. \<open>acc\<close> is the
  \<^verbatim>\<open>MemAccess\<close> of the environment, \<open>get\<close> and \<open>put\<close> read and write through the pointer it returns.
\<close>

definition exec_mem ::
  "(u64 \<Rightarrow> mem_op \<Rightarrow> ('m \<times> u64, 'c) go) \<Rightarrow> ('c \<Rightarrow> 'm \<times> u64 \<Rightarrow> u64) \<Rightarrow> ('c \<Rightarrow> u64 \<Rightarrow> 'm \<times> u64 \<Rightarrow> 'm \<times> u64)
     \<Rightarrow> u32 \<Rightarrow> CPU \<Rightarrow> ('m \<times> u64, u64 option) go" where
  "exec_mem acc get put insn cpu =
     (let isLoad = insn_opcode insn = 0; funct3 = insn_funct3 insn;
          rs1v = Reg cpu (insn_rs1 insn); rs2v = Reg cpu (insn_rs2 insn);
          addr = rs1v + SignExtend32 (if isLoad then ImmIType insn else ImmSType insn);
          op = (if isLoad then OpRead else OpWrite);
          offset = 8 * unat (addr AND 7) in
      if addr AND (2 ^ unat (funct3 AND 3) - 1) \<noteq> 0 then throw (ErrVm ErrUnalignedMemoryAccess)
      else
        bindG (charge GasMemoryOp) (\<lambda>_.
        bindG (acc (addr AND NOT 7) op) (\<lambda>pos.
        bindG (getS (get pos)) (\<lambda>val.
        if isLoad then bindG (liftR (load_value funct3 offset val)) (\<lambda>v. ret (Some v))
        else
          bindG (liftR (store_value funct3 offset rs2v val)) (\<lambda>v.
          bindG (modifyS (put pos v)) (\<lambda>_. ret None))))))"

definition finish_step :: "u32 \<Rightarrow> u64 option \<Rightarrow> u64 \<Rightarrow> CPU \<Rightarrow> CPU" where
  "finish_step insn v nextPc cpu =
     (case v of None \<Rightarrow> cpu | Some x \<Rightarrow> set_reg (insn_rd insn) x cpu)\<lparr>Pc := nextPc\<rparr>"

definition execStep ::
  "(u64 \<Rightarrow> mem_op \<Rightarrow> ('m \<times> u64, 'c) go) \<Rightarrow> ('c \<Rightarrow> 'm \<times> u64 \<Rightarrow> u64) \<Rightarrow> ('c \<Rightarrow> u64 \<Rightarrow> 'm \<times> u64 \<Rightarrow> 'm \<times> u64)
     \<Rightarrow> u32 \<Rightarrow> (CPU \<times> ('m \<times> u64), unit) go" where
  "execStep acc get put insn =
     bindG (modifyS (\<lambda>(cpu, e). (set_reg 0 0 cpu, e))) (\<lambda>_.
     bindG (on_snd (charge GasInstructionBase)) (\<lambda>_.
     if insn AND 3 \<noteq> 3 then throw (ErrVm ErrIllegalInstruction)
     else
       bindG (getS fst) (\<lambda>cpu.
       if insn_opcode insn = 0b00000 \<or> insn_opcode insn = 0b01000 then
         bindG (on_snd (exec_mem acc get put insn cpu)) (\<lambda>v.
         modifyS (\<lambda>(cpu, e). (finish_step insn v (Pc cpu + 4) cpu, e)))
       else
         bindG (liftR (exec_alu insn cpu)) (\<lambda>(v, nextPc).
         modifyS (\<lambda>(cpu, e). (finish_step insn v nextPc cpu, e))))))"

section \<open>Multiplication and division\<close>

lemma sint_u64: "sint (w :: u64) = uint w - (if drop_bit 63 w \<noteq> 0 then 2 ^ 64 else 0)"
proof -
  have top: "drop_bit 63 w = of_bool (bit w 63)"
  proof (rule bit_word_eqI)
    fix n
    show "bit (drop_bit 63 w) n = bit (of_bool (bit w 63) :: u64) n"
      by (cases n) (auto simp: bit_simps dest: bit_imp_le_length)
  qed
  have "take_bit 64 (uint w) = uint w"
    by (rule take_bit_int_eq_self) (use uint_ge_0 [of w] unsigned_less [of w, where ?'a = int] in simp_all)
  then have "signed_take_bit 63 (uint w) = uint w - 2 ^ 64 * of_bool (bit w 63)"
    unfolding signed_take_bit_eq_take_bit_minus by (simp add: bit_uint_iff)
  then show ?thesis unfolding sint_uint top by simp
qed

lemma mulh_correction:
  fixes A B :: int
  assumes "sa \<in> {0, 1}" and "sb \<in> {0, 1 :: int}"
  shows "word_of_int ((A - 2 ^ 64 * sa) * (B - 2 ^ 64 * sb) div 2 ^ 64)
    = (word_of_int (A * B div 2 ^ 64) - word_of_int (sa * B) - word_of_int (sb * A) :: u64)"
proof -
  have "(A - 2 ^ 64 * sa) * (B - 2 ^ 64 * sb) = A * B + (2 ^ 64 * sa * sb - sa * B - sb * A) * 2 ^ 64"
    by (simp add: algebra_simps)
  then have "(A - 2 ^ 64 * sa) * (B - 2 ^ 64 * sb) div 2 ^ 64 = 2 ^ 64 * sa * sb - sa * B - sb * A + A * B div 2 ^ 64"
    by (simp only: div_mult_self1) simp
  moreover have "(2 ^ 64 :: u64) = 0" by simp
  ultimately show ?thesis by (simp only: of_int_add of_int_diff of_int_mult of_int_power of_int_numeral) simp
qed

text \<open>
  C39: the signed high multiplications. \<open>MULH\<close> is the upper half of the product of two signed operands,
  \<open>MULHSU\<close> that of a signed and an unsigned one and \<open>MULHU\<close> that of two unsigned ones, although the code
  computes each from the unsigned product.
\<close>

theorem mulh_spec:
  "exec_muldiv 1 a b = Ok (word_of_int (sint a * sint b div 2 ^ 64))
   \<and> exec_muldiv 2 a b = Ok (word_of_int (sint a * uint b div 2 ^ 64))
   \<and> exec_muldiv 3 a b = Ok (word_of_int (uint a * uint b div 2 ^ 64))"
proof -
  let ?s = "\<lambda>w :: u64. if drop_bit 63 w \<noteq> 0 then 1 else 0 :: int"
  have s: "sint w = uint w - 2 ^ 64 * ?s w" for w :: u64
    by (simp add: sint_u64)
  have "word_of_int (sint a * sint b div 2 ^ 64)
      = Mul64_hi a b - word_of_int (?s a * uint b) - word_of_int (?s b * uint a)"
    unfolding s Mul64_hi_def by (rule mulh_correction) simp_all
  moreover have "word_of_int ((uint a - 2 ^ 64 * ?s a) * (uint b - 2 ^ 64 * 0) div 2 ^ 64)
      = Mul64_hi a b - word_of_int (?s a * uint b) - word_of_int (0 * uint a)"
    unfolding Mul64_hi_def by (rule mulh_correction) simp_all
  then have "word_of_int (sint a * uint b div 2 ^ 64) = Mul64_hi a b - word_of_int (?s a * uint b)"
    unfolding s by simp
  ultimately show ?thesis
    by (simp add: exec_muldiv_def Let_def) (simp add: Mul64_hi_def)
qed

lemma sint_word_of_int_u64: "- (2 ^ 63) \<le> k \<Longrightarrow> k < 2 ^ 63 \<Longrightarrow> sint (word_of_int k :: u64) = k"
  using int_of_u64_u64_of_int by (simp add: int_of_u64_def u64_of_int_def)

text \<open>
  Signed division. When neither operand is in the error case, \<open>DIV\<close> and \<open>REM\<close> return the quotient
  rounded towards zero and a remainder of the sign of the dividend and smaller than the divisor; both
  fit 64 bits.
\<close>

lemma div_rem_spec:
  assumes "b \<noteq> 0" and "\<not> (a = 2 ^ 63 \<and> b = - 1)"
  shows "\<exists>q r. exec_muldiv 4 a b = Ok q \<and> exec_muldiv 6 a b = Ok r
    \<and> sint a = sint q * sint b + sint r \<and> \<bar>sint r\<bar> < \<bar>sint b\<bar> \<and> (sint r = 0 \<or> sgn (sint r) = sgn (sint a))"
proof -
  have rng: "- (2 ^ 63) \<le> sint w" "sint w < 2 ^ 63" for w :: u64
    using sint_greater_eq [of w] sint_less [of w] by simp_all
  have b: "sint b \<noteq> 0" using assms(1) by (simp add: signed_eq_0_iff)
  let ?q = "sint a sdiv sint b" and ?r = "sint a smod sint b"
  have q_le: "- \<bar>sint a\<bar> \<le> ?q" "?q \<le> \<bar>sint a\<bar>" using sdiv_int_range [of "sint a" "sint b"] by simp_all
  have "?q < 2 ^ 63"
  proof (rule ccontr)
    assume big: "\<not> ?q < 2 ^ 63"
    with q_le rng [of a] have a: "sint a = - (2 ^ 63)" and q: "?q = - sint a" by linarith+
    have "sint a \<noteq> 0" using a by simp
    from int_sdiv_negated_is_minus1 [OF this] q have "sint b = - 1" by blast
    then have "b = - 1" by (intro signed_word_eqI [where 'a = int]) simp
    moreover have "a = 2 ^ 63" using a by (intro signed_word_eqI [where 'a = int]) simp
    ultimately show False using assms(2) by simp
  qed
  moreover have "- (2 ^ 63) \<le> ?q" using q_le rng [of a] by linarith
  ultimately have q: "sint (word_of_int ?q :: u64) = ?q" by (intro sint_word_of_int_u64) simp_all
  have r_abs: "\<bar>?r\<bar> < \<bar>sint b\<bar>" using smod_int_range [OF b, of "sint a"] by (simp only: atLeastAtMost_iff) linarith
  then have "- (2 ^ 63) \<le> ?r" "?r < 2 ^ 63" using rng [of b] by linarith+
  then have r: "sint (word_of_int ?r :: u64) = ?r" by (intro sint_word_of_int_u64) simp_all
  have sg: "?r = 0 \<or> sgn ?r = sgn (sint a)"
  proof (cases "\<bar>sint a\<bar> mod \<bar>sint b\<bar> = 0")
    case False
    moreover have "0 \<le> \<bar>sint a\<bar> mod \<bar>sint b\<bar>" using b by simp
    ultimately have "sgn (\<bar>sint a\<bar> mod \<bar>sint b\<bar>) = 1" by (simp only: sgn_1_pos order_less_le) simp
    then show ?thesis unfolding signed_modulo_int_def by (simp add: sgn_mult)
  qed (simp add: signed_modulo_int_def)
  have neg1: "b + 1 = 0 \<longleftrightarrow> b = - 1" by (simp add: eq_neg_iff_add_eq_0)
  have "exec_muldiv 4 a b = Ok (word_of_int ?q)" "exec_muldiv 6 a b = Ok (word_of_int ?r)"
    using assms by (auto simp: exec_muldiv_def Let_def neg1)
  with q r r_abs sg sdiv_mult_smod_eq [of "sint a" "sint b"] show ?thesis by auto
qed

lemma div_rem_spec_witness:
  "\<exists>q r. exec_muldiv 4 (- 7) 2 = Ok q \<and> exec_muldiv 6 (- 7) 2 = Ok r \<and> sint (- 7 :: u64) = sint q * sint (2 :: u64) + sint r"
  using div_rem_spec [of 2 "- 7"] by (auto simp del: sint_numeral)

section \<open>Loads and stores\<close>

text \<open>The width in bits of an access.\<close>

definition access_bits :: "3 word \<Rightarrow> nat" where
  "access_bits funct3 = 8 * 2 ^ unat (funct3 AND 3)"

lemma and_masks:
  "w AND 0xff = take_bit 8 (w :: u64)" "w AND 0xffff = take_bit 16 (w :: u64)" "w AND 0xffffffff = take_bit 32 (w :: u64)"
  by (simp_all only: take_bit_eq_mask) (simp_all add: mask_eq_exp_minus_1)

lemma masks: "(0xff :: u64) = mask 8" "(0xffff :: u64) = mask 16" "(0xffffffff :: u64) = mask 32"
  by (simp_all add: mask_eq_exp_minus_1)

lemma funct3_cases: "(f :: 3 word) \<in> {0, 1, 2, 3, 4, 5, 6, 7}"
proof -
  have "unat f < 8" using unsigned_less [of f, where ?'a = nat] by simp
  then have "unat f \<in> {0, 1, 2, 3, 4, 5, 6, 7}" by auto
  then show ?thesis by (simp add: word_unat_eq_iff)
qed

lemma store_byte:
  assumes "k \<in> {8, 16, 32}" and "n < 64"
  shows "bit ((val AND NOT (push_bit offset (mask k))) OR push_bit offset (take_bit k v) :: u64) n
     = (if offset \<le> n \<and> n < offset + k then bit v (n - offset) else bit val n)"
  using assms(2) by (auto simp: bit_simps)

lemma ucast_ucast_take:
  "ucast (ucast v :: u8) = take_bit 8 (v :: u64)" "ucast (ucast v :: u16) = take_bit 16 (v :: u64)"
  "ucast (ucast v :: u32) = take_bit 32 (v :: u64)"
  by (rule bit_word_eqI; auto simp: bit_simps)+

lemma scast_ucast_take:
  "scast (ucast v :: u8) = signed_take_bit 7 (v :: u64)" "scast (ucast v :: u16) = signed_take_bit 15 (v :: u64)"
  "scast (ucast v :: u32) = signed_take_bit 31 (v :: u64)"
  by (rule bit_word_eqI; auto simp: bit_simps min_def)+

lemma signed_take_bit_word_63: "signed_take_bit 63 (v :: u64) = v"
proof (rule bit_word_eqI)
  fix n assume "n < LENGTH(64)"
  then have "min n 63 = n" by auto
  then show "bit (signed_take_bit 63 v) n = bit v n" by (auto simp: bit_simps dest: bit_imp_le_length)
qed

lemma store_value_bits:
  assumes "store_value funct3 offset v val = Ok val'" and "funct3 = 3 \<longrightarrow> offset = 0" and "n < 64"
  shows "bit val' n = (if offset \<le> n \<and> n < offset + access_bits funct3 then bit v (n - offset) else bit val n)"
proof -
  from assms(1) have "funct3 \<in> {0, 1, 2, 3}"
    using funct3_cases [of funct3] by (auto simp: store_value_def)
  then show ?thesis
    using assms store_byte [of 8 n] store_byte [of 16 n] store_byte [of 32 n]
    by (elim insertE emptyE) (auto simp: store_value_def access_bits_def ucast_ucast_take masks)
qed

lemma load_value_eq:
  "load_value 0 offset val = Ok (signed_take_bit 7 (drop_bit offset val))"
  "load_value 1 offset val = Ok (signed_take_bit 15 (drop_bit offset val))"
  "load_value 2 offset val = Ok (signed_take_bit 31 (drop_bit offset val))"
  "load_value 3 offset val = Ok val"
  "load_value 4 offset val = Ok (take_bit 8 (drop_bit offset val))"
  "load_value 5 offset val = Ok (take_bit 16 (drop_bit offset val))"
  "load_value 6 offset val = Ok (take_bit 32 (drop_bit offset val))"
  by (simp_all add: load_value_def and_masks ucast_ucast_take scast_ucast_take signed_take_bit_take_bit)

text \<open>
  a store followed by a load of the same width at the same place gives the stored bits, extended
  with their sign or with zeros, and the store leaves all other bits of the word alone.
\<close>

lemma load_store:
  assumes "funct3 < 4" and "access_bits funct3 + offset \<le> 64"
  shows "\<exists>val'. store_value funct3 offset v val = Ok val'
    \<and> load_value funct3 offset val' = Ok (signed_take_bit (access_bits funct3 - 1) v)
    \<and> (funct3 \<noteq> 3 \<longrightarrow> load_value (funct3 + 4) offset val' = Ok (take_bit (access_bits funct3) v))
    \<and> (\<forall>n<64. n < offset \<or> offset + access_bits funct3 \<le> n \<longrightarrow> bit val' n = bit val n)"
proof -
  have f: "funct3 \<in> {0, 1, 2, 3}" using funct3_cases [of funct3] assms(1) by auto
  then obtain val' where st: "store_value funct3 offset v val = Ok val'" by (auto simp: store_value_def)
  have o3: "funct3 = 3 \<longrightarrow> offset = 0" using assms(2) by (auto simp: access_bits_def)
  note bits = store_value_bits [OF st o3]
  have low: "take_bit (access_bits funct3) (drop_bit offset val') = take_bit (access_bits funct3) v"
    by (rule bit_word_eqI) (use bits assms(2) in \<open>auto simp: bit_simps\<close>)
  have w: "access_bits 0 = 8" "access_bits 1 = 16" "access_bits 2 = 32" "access_bits 3 = 64"
    by (simp_all add: access_bits_def)
  have same: "signed_take_bit k (drop_bit offset val') = signed_take_bit k v" if "access_bits funct3 = Suc k" for k
  proof -
    have "signed_take_bit k x = signed_take_bit k (take_bit (Suc k) x)" for x :: u64
      by (simp add: signed_take_bit_take_bit)
    then show ?thesis using low that by metis
  qed
  have "load_value funct3 offset val' = Ok (signed_take_bit (access_bits funct3 - 1) v)"
    using f same [of 7] same [of 15] same [of 31] low o3
    by (elim insertE emptyE) (simp_all add: load_value_eq w signed_take_bit_word_63)
  moreover have "funct3 \<noteq> 3 \<longrightarrow> load_value (funct3 + 4) offset val' = Ok (take_bit (access_bits funct3) v)"
    using f low by (elim insertE emptyE) (simp_all add: load_value_eq w)
  ultimately show ?thesis using st bits by auto
qed

lemma load_store_witness:
  "\<exists>val'. store_value 1 16 0xabcd1234 0x1111222233334444 = Ok val' \<and> load_value 1 16 val' = Ok (signed_take_bit 15 0xabcd1234)"
  using load_store [of 1 16 "0xabcd1234" "0x1111222233334444"] by (auto simp: access_bits_def)

section \<open>Encoding and decoding of instructions\<close>

lemma bit_high_small:
  assumes "unat (w :: u32) < 2 ^ k" and "k \<le> n"
  shows "\<not> bit w n"
proof -
  have "take_bit k w = w" by (rule word_unat_eq_iff [THEN iffD2]) (use assms(1) in \<open>simp only: unat_take_mod mod_less\<close>)
  then show ?thesis using assms(2) by (metis bit_take_bit_iff linorder_not_le)
qed

lemma fields_okD:
  assumes "fields_ok opcode funct3 regs"
  shows "7 \<le> n \<Longrightarrow> bit opcode n = False" and "3 \<le> n \<Longrightarrow> bit funct3 n = False"
    and "r \<in> set regs \<Longrightarrow> 5 \<le> n \<Longrightarrow> bit r n = False"
  using assms bit_high_small [of opcode 7 n] bit_high_small [of funct3 3 n] bit_high_small [of r 5 n]
  by (auto simp: fields_ok_def word_less_nat_alt)

text \<open>The bits of an integer in a signed range repeat its sign; an even one has no lowest bit.\<close>

lemma bit_int_range:
  fixes i :: int
  assumes "- (2 ^ k) \<le> i" and "i < 2 ^ k" and "k < n"
  shows "bit i n = bit i k"
proof -
  have "signed_take_bit k i = i" using assms by (intro signed_take_bit_int_eq_self) auto
  then have "bit i n = bit (signed_take_bit k i) n" by simp
  also have "\<dots> = bit i k" using assms(3) by (simp add: bit_signed_take_bit_iff min_def)
  finally show ?thesis .
qed

lemma bit_int_multiple: "i mod 2 ^ k = (0 :: int) \<Longrightarrow> n < k \<Longrightarrow> bit i n = False"
  by (metis bit_0_eq bit_take_bit_iff bot_apply bot_bool_def take_bit_eq_mod)

text \<open>Words are compared, and sums of words with disjoint bits replaced, bit by bit.\<close>

abbreviation (input) bits32 :: "nat set" where
  "bits32 \<equiv> {0, 1, 2, 3, 4, 5, 6, 7, 8, 9, 10, 11, 12, 13, 14, 15, 16, 17, 18, 19, 20, 21, 22, 23, 24, 25, 26, 27, 28, 29, 30, 31}"

lemma bits32: "n < 32 \<Longrightarrow> n \<in> bits32"
  unfolding insert_iff empty_iff by presburger

lemma u32_eqI: "(\<And>n. n \<in> bits32 \<Longrightarrow> bit a n = bit b n) \<Longrightarrow> a = (b :: u32)"
  by (rule bit_word_eqI) (use bits32 in simp)

lemma u32_add_or: "(\<And>n. n \<in> bits32 \<Longrightarrow> \<not> (bit a n \<and> bit b n)) \<Longrightarrow> a + b = (a OR b :: u32)"
proof (rule disjunctive_add)
  fix n assume *: "\<And>n. n \<in> bits32 \<Longrightarrow> \<not> (bit a n \<and> bit b n)"
  show "\<not> bit a n \<or> \<not> bit b n"
  proof (cases "n < 32")
    case True
    from * [OF bits32 [OF this]] show ?thesis by blast
  qed (auto dest: bit_imp_le_length)
qed

lemma imm_or:
  "ImmSType insn = signed_drop_bit 20 ((insn AND 0xfe000000) OR push_bit 13 (insn AND 0x00000f80))"
  "ImmBType insn = signed_drop_bit 19 ((((insn AND 0x80000000) OR push_bit 23 (insn AND 0x00000080))
     OR drop_bit 1 (insn AND 0x7e000000)) OR push_bit 12 (insn AND 0x00000f00))"
  "ImmJType insn = signed_drop_bit 11 ((((insn AND 0x80000000) OR push_bit 11 (insn AND 0x000ff000))
     OR push_bit 2 (insn AND 0x00100000)) OR drop_bit 9 (insn AND 0x7fe00000))"
proof -
  let ?top = "insn AND 0x80000000"
  let ?b1 = "push_bit 23 (insn AND 0x00000080)" and ?b2 = "drop_bit 1 (insn AND 0x7e000000)" and ?b3 = "push_bit 12 (insn AND 0x00000f00)"
  let ?j1 = "push_bit 11 (insn AND 0x000ff000)" and ?j2 = "push_bit 2 (insn AND 0x00100000)" and ?j3 = "drop_bit 9 (insn AND 0x7fe00000)"
  have s: "(insn AND 0xfe000000) + push_bit 13 (insn AND 0x00000f80) = (insn AND 0xfe000000) OR push_bit 13 (insn AND 0x00000f80)"
    by (rule u32_add_or) (elim insertE emptyE; simp add: bit_simps)
  have b: "?top + ?b1 = ?top OR ?b1" "(?top OR ?b1) + ?b2 = (?top OR ?b1) OR ?b2"
      "((?top OR ?b1) OR ?b2) + ?b3 = ((?top OR ?b1) OR ?b2) OR ?b3"
    by (rule u32_add_or, elim insertE emptyE; simp add: bit_simps)+
  have j: "?top + ?j1 = ?top OR ?j1" "(?top OR ?j1) + ?j2 = (?top OR ?j1) OR ?j2"
      "((?top OR ?j1) OR ?j2) + ?j3 = ((?top OR ?j1) OR ?j2) OR ?j3"
    by (rule u32_add_or, elim insertE emptyE; simp add: bit_simps)+
  show "ImmSType insn = signed_drop_bit 20 ((insn AND 0xfe000000) OR push_bit 13 (insn AND 0x00000f80))"
    unfolding ImmSType_def Let_def s ..
  show "ImmBType insn = signed_drop_bit 19 (((?top OR ?b1) OR ?b2) OR ?b3)"
    unfolding ImmBType_def Let_def b ..
  show "ImmJType insn = signed_drop_bit 11 (((?top OR ?j1) OR ?j2) OR ?j3)"
    unfolding ImmJType_def Let_def j ..
qed

text \<open>An encoder that succeeds has had fields in range, and this is the word it builds.\<close>

lemma if_Ok_eq: "(if P then Ok x else Panic) = Ok y \<longleftrightarrow> P \<and> x = y"
  by simp

lemma ImmIType_gen:
  assumes "genIType opcode rd funct3 rs1 imm = Ok insn"
  shows "ImmIType insn = word_of_int imm"
proof (rule u32_eqI)
  have rng: "- (2 ^ 11) \<le> imm" "imm < 2 ^ 11" and ok: "fields_ok opcode funct3 [rd, rs1]"
    and insn: "insn = opcode OR push_bit 7 rd OR push_bit 12 funct3 OR push_bit 15 rs1 OR push_bit 20 (word_of_int imm AND 4095)"
    using assms unfolding genIType_def Let_def if_Ok_eq by auto
  fix n :: nat assume "n \<in> bits32"
  then show "bit (ImmIType insn) n = bit (word_of_int imm :: u32) n"
    unfolding ImmIType_def insn
    by (elim insertE emptyE) (simp_all add: bit_simps fields_okD [OF ok] bit_int_range [OF rng])
qed

lemma ImmSType_gen:
  assumes "genSType opcode funct3 rs1 rs2 imm = Ok insn"
  shows "ImmSType insn = word_of_int imm"
proof (rule u32_eqI)
  have rng: "- (2 ^ 11) \<le> imm" "imm < 2 ^ 11" and ok: "fields_ok opcode funct3 [rs1, rs2]"
    and insn: "insn = opcode OR push_bit 7 ((word_of_int imm AND 4095) AND 31) OR push_bit 12 funct3 OR push_bit 15 rs1
      OR push_bit 20 rs2 OR push_bit 25 (drop_bit 5 (word_of_int imm AND 4095))"
    using assms unfolding genSType_def Let_def if_Ok_eq by auto
  fix n :: nat assume "n \<in> bits32"
  then show "bit (ImmSType insn) n = bit (word_of_int imm :: u32) n"
    unfolding imm_or insn
    by (elim insertE emptyE) (simp_all add: bit_simps fields_okD [OF ok] bit_int_range [OF rng])
qed

lemma ImmBType_gen:
  assumes "genBType opcode funct3 rs1 rs2 imm = Ok insn"
  shows "ImmBType insn = word_of_int imm"
proof (rule u32_eqI)
  let ?w = "word_of_int imm AND 8191 :: u32"
  have rng: "- (2 ^ 12) \<le> imm" "imm < 2 ^ 12" and even: "imm mod 2 ^ 1 = 0" and ok: "fields_ok opcode funct3 [rs1, rs2]"
    and insn: "insn = opcode OR push_bit 7 (push_bit 1 (drop_bit 1 ?w AND 15) OR (drop_bit 11 ?w AND 1)) OR push_bit 12 funct3
      OR push_bit 15 rs1 OR push_bit 20 rs2 OR push_bit 25 (push_bit 6 (drop_bit 12 ?w AND 1) OR (drop_bit 5 ?w AND 63))"
    using assms unfolding genBType_def Let_def if_Ok_eq by auto
  fix n :: nat assume "n \<in> bits32"
  then show "bit (ImmBType insn) n = bit (word_of_int imm :: u32) n"
    unfolding imm_or insn
    by (elim insertE emptyE)
       (simp_all add: bit_simps fields_okD [OF ok] bit_int_range [OF rng] bit_int_multiple [OF even],
        simp_all add: mult.commute [of _ 2] bit_double_iff bit_simps eval_nat_numeral)
qed

lemma ImmUType_gen:
  assumes "genUType opcode rd imm = Ok insn"
  shows "ImmUType insn = word_of_int imm"
proof (rule u32_eqI)
  have low: "imm mod 2 ^ 12 = 0" and ok: "fields_ok opcode 0 [rd]" and insn: "insn = opcode OR push_bit 7 rd OR word_of_int imm"
    using assms unfolding genUType_def if_Ok_eq by auto
  fix n :: nat assume "n \<in> bits32"
  then show "bit (ImmUType insn) n = bit (word_of_int imm :: u32) n"
    unfolding ImmUType_def insn
    by (elim insertE emptyE) (simp_all add: bit_simps fields_okD [OF ok] bit_int_multiple [OF low])
qed

lemma ImmJType_gen:
  assumes "genJType opcode rd imm = Ok insn"
  shows "ImmJType insn = word_of_int imm"
proof (rule u32_eqI)
  let ?w = "word_of_int imm AND 2097151 :: u32"
  have rng: "- (2 ^ 20) \<le> imm" "imm < 2 ^ 20" and even: "imm mod 2 ^ 1 = 0" and ok: "fields_ok opcode 0 [rd]"
    and insn: "insn = opcode OR push_bit 7 rd OR push_bit 12 (push_bit 19 (drop_bit 20 ?w AND 1) OR push_bit 9 (drop_bit 1 ?w AND 1023)
      OR push_bit 8 (drop_bit 11 ?w AND 1) OR (drop_bit 12 ?w AND 255))"
    using assms unfolding genJType_def Let_def if_Ok_eq by auto
  fix n :: nat assume "n \<in> bits32"
  then show "bit (ImmJType insn) n = bit (word_of_int imm :: u32) n"
    unfolding imm_or insn
    by (elim insertE emptyE)
       (simp_all add: bit_simps fields_okD [OF ok] bit_int_range [OF rng] bit_int_multiple [OF even],
        simp_all add: numeral_2_eq_2 numeral_3_eq_3)
qed

text \<open>
  Every immediate survives its encoding. For each of the five formats, an instruction word that the
  encoder of the assembler builds without a panic decodes to the immediate it was given.
\<close>

lemma immediates_roundtrip:
  "(genIType opcode rd funct3 rs1 imm = Ok insn \<longrightarrow> ImmIType insn = word_of_int imm)
   \<and> (genSType opcode funct3 rs1 rs2 imm = Ok insn \<longrightarrow> ImmSType insn = word_of_int imm)
   \<and> (genBType opcode funct3 rs1 rs2 imm = Ok insn \<longrightarrow> ImmBType insn = word_of_int imm)
   \<and> (genUType opcode rd imm = Ok insn \<longrightarrow> ImmUType insn = word_of_int imm)
   \<and> (genJType opcode rd imm = Ok insn \<longrightarrow> ImmJType insn = word_of_int imm)"
  by (intro conjI impI) (erule ImmIType_gen ImmSType_gen ImmBType_gen ImmUType_gen ImmJType_gen)+

lemma immediates_roundtrip_witness:
  "\<exists>insn. genBType 0x63 1 5 6 (- 8) = Ok insn \<and> ImmBType insn = word_of_int (- 8)"
proof -
  obtain insn where "genBType 0x63 1 5 6 (- 8) = Ok insn" by (simp add: genBType_def fields_ok_def Let_def)
  with immediates_roundtrip [of _ _ _ _ "- 8" insn 6] show ?thesis by blast
qed

section \<open>Gas and the zero register\<close>

lemma charge_Ok: "charge c st = (Ok u, st') \<Longrightarrow> fst st' = fst st \<and> unat (snd st') + unat c = unat (snd st)"
  by (auto simp: charge_def not_less unat_sub split: if_splits) (simp add: word_le_nat_alt)

lemma ops_end:
  "branch_cond f3 a b \<noteq> Diverge" "exec_muldiv f3 a b \<noteq> Diverge" "exec_muldiv32 f3 a b \<noteq> Diverge"
  by (simp_all only: branch_cond_def exec_muldiv_def exec_muldiv32_def Let_def if_split_asm split: if_split) simp_all

lemma ops_end2:
  "exec_op_imm insn a \<noteq> Diverge" "exec_op_imm32 insn a \<noteq> Diverge" "exec_op insn a b \<noteq> Diverge" "exec_op32 insn a b \<noteq> Diverge"
  by (simp_all only: exec_op_imm_def exec_op_imm32_def exec_op_def exec_op32_def Let_def split: if_split) (simp_all add: ops_end)

lemma set_rd_ends: "r \<noteq> Diverge \<Longrightarrow> set_rd r pc \<noteq> Diverge"
  by (cases r) (simp_all add: set_rd_def)

lemma exec_alu_ends: "exec_alu insn cpu \<noteq> Diverge"
  unfolding exec_alu_def Let_def by (simp add: set_rd_ends ops_end ops_end2 split: res.split)

text \<open>
  What \<open>execStep\<close> relies on in its environment: an access and a write through the pointer it returns never
  add gas, and an access ends.
\<close>

locale cpu_env =
  fixes acc :: "u64 \<Rightarrow> mem_op \<Rightarrow> ('m \<times> u64, 'c) go"
    and get :: "'c \<Rightarrow> 'm \<times> u64 \<Rightarrow> u64"
    and put :: "'c \<Rightarrow> u64 \<Rightarrow> 'm \<times> u64 \<Rightarrow> 'm \<times> u64"
  assumes acc_lowers: "lowers snd (acc a op)"
    and put_gas: "snd (put c v e) = snd e"
begin

lemma exec_mem_lowers: "lowers snd (exec_mem acc get put insn cpu)"
proof -
  have v: "load_value f n val \<noteq> Diverge" "store_value f n v val \<noteq> Diverge" for f n v val
    by (simp_all add: load_value_def store_value_def)
  show ?thesis
    unfolding exec_mem_def Let_def
    by (intro lowers_intro acc_lowers lowers_liftR lowers_modifyS v) (simp_all add: put_gas)
qed

lemma step_rest_lowers:
  "lowers (\<lambda>s. snd (snd s)) (if insn AND 3 \<noteq> 3 then throw (ErrVm ErrIllegalInstruction)
     else
       bindG (getS fst) (\<lambda>cpu.
       if insn_opcode insn = 0b00000 \<or> insn_opcode insn = 0b01000 then
         bindG (on_snd (exec_mem acc get put insn cpu)) (\<lambda>v.
         modifyS (\<lambda>(cpu, e). (finish_step insn v (Pc cpu + 4) cpu, e)))
       else
         bindG (liftR (exec_alu insn cpu)) (\<lambda>(v, nextPc).
         modifyS (\<lambda>(cpu, e). (finish_step insn v nextPc cpu, e)))))"
  by (intro lowers_intro exec_mem_lowers lowers_liftR lowers_modifyS exec_alu_ends) auto

text \<open>A step ends; when it succeeds it has used at least the ten units of gas of an instruction.\<close>

lemma execStep_lowers: "lowers (\<lambda>s. snd (snd s)) (execStep acc get put insn)"
  unfolding execStep_def by (intro lowers_intro step_rest_lowers lowers_modifyS) auto

lemma execStep_gas:
  assumes "execStep acc get put insn s = (Ok u, s')"
  shows "unat (snd (snd s')) + 10 \<le> unat (snd (snd s))"
proof -
  obtain t where ch: "on_snd (charge GasInstructionBase) (set_reg 0 0 (fst s), snd s) = (Ok (), t)"
    and rest: "(if insn AND 3 \<noteq> 3 then throw (ErrVm ErrIllegalInstruction)
     else
       bindG (getS fst) (\<lambda>cpu.
       if insn_opcode insn = 0b00000 \<or> insn_opcode insn = 0b01000 then
         bindG (on_snd (exec_mem acc get put insn cpu)) (\<lambda>v.
         modifyS (\<lambda>(cpu, e). (finish_step insn v (Pc cpu + 4) cpu, e)))
       else
         bindG (liftR (exec_alu insn cpu)) (\<lambda>(v, nextPc).
         modifyS (\<lambda>(cpu, e). (finish_step insn v nextPc cpu, e))))) t = (Ok u, s')"
    using assms by (cases s) (auto simp only: execStep_def bindG_eq_Ok modifyS_run prod.inject res.inject split_conv fst_conv snd_conv)
  have "unat (snd (snd t)) + 10 = unat (snd (snd s))"
    using ch charge_Ok [of GasInstructionBase "snd s"]
    by (auto simp: on_snd_def GasInstructionBase_def split: prod.splits)
  with lowersD [OF step_rest_lowers rest] show ?thesis by (simp add: word_le_nat_alt)
qed

end

text \<open>
  Any reflexive and transitive relation that the accesses keep, and that a write through a pointer
  granted for writing keeps, relates the environments before and after a step.
\<close>

locale step_rel =
  fixes acc :: "u64 \<Rightarrow> mem_op \<Rightarrow> ('m \<times> u64, 'c) go"
    and get :: "'c \<Rightarrow> 'm \<times> u64 \<Rightarrow> u64"
    and put :: "'c \<Rightarrow> u64 \<Rightarrow> 'm \<times> u64 \<Rightarrow> 'm \<times> u64"
    and R :: "'m \<times> u64 \<Rightarrow> 'm \<times> u64 \<Rightarrow> bool"
  assumes R_refl: "R e e"
    and R_trans: "R e f \<Longrightarrow> R f g \<Longrightarrow> R e g"
    and acc_R: "acc a op e = (r, f) \<Longrightarrow> R e f"
    and charge_R: "charge k e = (q, f) \<Longrightarrow> R e f"
    and put_R: "acc a OpWrite e = (Ok c, f) \<Longrightarrow> R f (put c v f)"
begin

lemma exec_mem_R:
  assumes "exec_mem acc get put insn cpu e = (r, f)"
  shows "R e f"
proof -
  let ?ld = "insn_opcode insn = 0"
  define a where "a = (Reg cpu (insn_rs1 insn) + SignExtend32 (if ?ld then ImmIType insn else ImmSType insn)) AND NOT 7"
  obtain q e1 where ch: "charge GasMemoryOp e = (q, e1)" by (cases "charge GasMemoryOp e")
  obtain q2 e2 where ac: "acc a (if ?ld then OpRead else OpWrite) e1 = (q2, e2)"
    by (cases "acc a (if ?ld then OpRead else OpWrite) e1")
  have e1: "R e e1" and e2: "R e e2" using charge_R [OF ch] acc_R [OF ac] R_trans by blast+
  have put: "R e (put c v e2)" if "\<not> ?ld" and "q2 = Ok c" for c v
    using put_R [of a e1 c e2 v] ac that e2 R_trans by auto
  show ?thesis
    using assms ch ac e1 e2 put R_refl [of e] unfolding exec_mem_def Let_def a_def [symmetric]
    by (cases ?ld)
       (auto simp: bindG_def throw_run ret_run getS_run modifyS_run liftR_run a_def split: if_splits res.splits)
qed

lemma execStep_R:
  assumes "execStep acc get put insn (cpu, e) = (r, (cpu', f))"
  shows "R e f"
proof -
  obtain q e1 where ch: "charge GasInstructionBase e = (q, e1)" by (cases "charge GasInstructionBase e")
  have e1: "R e e1" using charge_R [OF ch] .
  have "R e e2" if "exec_mem acc get put insn c e1 = (q2, e2)" for c q2 e2
    using exec_mem_R [OF that] e1 R_trans by blast
  with assms ch e1 show ?thesis
    unfolding execStep_def
    by (auto simp: bindG_def throw_run getS_run modifyS_run liftR_run on_snd_def split: if_splits prod.splits res.splits)
qed

end

end
