(* ===== verification/Vm_Exec.thy ===== *)
theory Vm_Exec
  imports Cpu
begin

text \<open>
  Running a program until it leaves its own address range, \<^verbatim>\<open>vm/exec.go\<close>. Every instruction costs gas,
  so the run ends; the loop counter of the model is shown to be enough.
\<close>

section \<open>The loop\<close>

text \<open>The closure \<^verbatim>\<open>MemAccess\<close>, and the fetch of the instruction at \<open>pc\<close>.\<close>

definition mem_access :: "u64 \<Rightarrow> u64 \<Rightarrow> mem_op \<Rightarrow> (Memory \<times> u64, mcell) go" where
  "mem_access pcProg ptr op = chk_access (Access_mem pcProg ptr op)"

definition fetch :: "u64 \<Rightarrow> u64 \<Rightarrow> (Memory \<times> u64, u32) go" where
  "fetch pcProg pc =
     bindG (mem_access pcProg (pc AND NOT 7) OpExecute) (\<lambda>c.
     getS (\<lambda>e. ucast (drop_bit (8 * unat (pc AND 7)) (get_word c e))))"

definition step :: "u64 \<Rightarrow> (CPU \<times> (Memory \<times> u64), unit) go" where
  "step pcProg s =
     (let pc = Pc (fst s) in
      if pc AND 3 \<noteq> 0 then throw (ErrVm ErrIllegalPc) s
      else
        bindG (on_snd (fetch pcProg pc)) (\<lambda>insn.
        execStep (mem_access pcProg) get_word set_word insn) s)"

fun Exec_loop :: "nat \<Rightarrow> u64 \<Rightarrow> (CPU \<times> (Memory \<times> u64), unit) go" where
  "Exec_loop 0 pcProg = diverge"
| "Exec_loop (Suc fuel) pcProg = (\<lambda>s.
     if drop_bit 32 (Pc (fst s)) \<noteq> pcProg then (Ok (), s)
     else bindG (step pcProg) (\<lambda>_. Exec_loop fuel pcProg) s)"

definition Exec :: "(CPU \<times> (Memory \<times> u64), unit) go" where
  "Exec s = Exec_loop (unat (snd (snd s)) div 10 + 1) (drop_bit 32 (Pc (fst s))) s"

section \<open>Termination and gas\<close>

lemma Access_mem_ends: "fst (Access_mem pcProg ptr op m) \<noteq> Diverge"
  by (auto simp: Access_mem_def prog_access_def Access_nil_def Access_pm_run Let_def ret_run split: option.splits prod.splits)

lemma chk_access_lowers: "(\<And>m. fst (acc m) \<noteq> Diverge) \<Longrightarrow> lowers snd (chk_access acc)"
  unfolding chk_access_def by (intro lowers_intro lowers_on_fst)

lemma mem_access_lowers: "lowers snd (mem_access pcProg ptr op)"
  unfolding mem_access_def by (intro chk_access_lowers Access_mem_ends)

interpretation vm_env: cpu_env "mem_access pcProg" get_word set_word for pcProg
  by unfold_locales (simp_all add: mem_access_lowers set_word_def)

lemma fetch_lowers: "lowers snd (fetch pcProg pc)"
  unfolding fetch_def by (intro lowers_intro mem_access_lowers)

lemma step_lowers: "lowers (\<lambda>s. snd (snd s)) (step pcProg)"
proof -
  have "lowers (\<lambda>s. snd (snd s)) (bindG (on_snd (fetch pcProg pc)) (\<lambda>insn. execStep (mem_access pcProg) get_word set_word insn))"
    for pc by (intro lowers_intro fetch_lowers vm_env.execStep_lowers)
  then show ?thesis by (auto simp: lowers_def step_def Let_def throw_run)
qed

lemma step_gas:
  assumes "step pcProg s = (Ok u, t)"
  shows "unat (snd (snd t)) + 10 \<le> unat (snd (snd s))"
proof -
  obtain insn v where f: "on_snd (fetch pcProg (Pc (fst s))) s = (Ok insn, v)"
    and x: "execStep (mem_access pcProg) get_word set_word insn v = (Ok u, t)"
    using assms by (auto simp: step_def Let_def throw_run bindG_eq_Ok split: if_splits)
  have "snd (snd v) \<le> snd (snd s)" using lowersD [OF lowers_on_snd [OF fetch_lowers] f] by simp
  with vm_env.execStep_gas [OF x] show ?thesis by (simp add: word_le_nat_alt)
qed

lemma Exec_loop_ends: "unat (snd (snd s)) div 10 < n \<Longrightarrow> fst (Exec_loop n p s) \<noteq> Diverge"
proof (induction n arbitrary: s)
  case (Suc n)
  obtain r t where st: "step p s = (r, t)" by (cases "step p s")
  show ?case
  proof (cases r)
    case (Ok u)
    with step_gas st have "unat (snd (snd t)) + 10 \<le> unat (snd (snd s))" by blast
    then have "unat (snd (snd t)) div 10 < n" using Suc.prems by linarith
    from Suc.IH [OF this] st Ok show ?thesis by (simp add: bindG_def)
  qed (use st lowersD [OF step_lowers st] in \<open>simp_all add: bindG_def\<close>)
qed simp

lemma Exec_loop_mono:
  "fst (Exec_loop n p s) \<noteq> Diverge \<Longrightarrow> n \<le> m \<Longrightarrow> Exec_loop m p s = Exec_loop n p s"
proof (induction n arbitrary: m s)
  case (Suc n)
  then obtain k where m: "m = Suc k" and k: "n \<le> k" by (cases m) auto
  show ?case
  proof (cases "drop_bit 32 (Pc (fst s)) \<noteq> p")
    case False
    obtain r t where st: "step p s = (r, t)" by (cases "step p s")
    show ?thesis
    proof (cases r)
      case (Ok u)
      with Suc.prems(1) False st have "fst (Exec_loop n p t) \<noteq> Diverge" by (simp add: bindG_def)
      from Suc.IH [OF this k] Ok st False show ?thesis by (simp add: m bindG_def)
    qed (use st False in \<open>simp_all add: m bindG_def\<close>)
  qed (simp add: m)
qed (simp add: diverge_run)

lemma Exec_loop_gas: "snd (snd (snd (Exec_loop n p s))) \<le> snd (snd s)"
proof (induction n arbitrary: s)
  case (Suc n)
  obtain r t where st: "step p s = (r, t)" by (cases "step p s")
  have "snd (snd t) \<le> snd (snd s)" using lowersD [OF step_lowers st] by simp
  with Suc [of t] st show ?case by (cases r) (auto simp: bindG_def intro: order_trans)
qed (simp add: diverge_run)

lemma Exec_lowers: "lowers (\<lambda>s. snd (snd s)) Exec"
  unfolding lowers_def Exec_def by (intro allI conjI Exec_loop_gas Exec_loop_ends) simp

text \<open>
  C26: a run of a program ends, without ever adding gas. The loop of the model takes a counter of one
  more than a tenth of the gas, and any larger counter gives the same run: the counter is no limit.
\<close>

theorem Exec_terminates:
  "fst (Exec s) \<noteq> Diverge \<and> snd (snd (snd (Exec s))) \<le> snd (snd s)
   \<and> Exec_loop (unat (snd (snd s)) div 10 + 1 + n) (drop_bit 32 (Pc (fst s))) s = Exec s"
proof -
  have "fst (Exec s) \<noteq> Diverge" unfolding Exec_def by (rule Exec_loop_ends) simp
  moreover from this have "Exec_loop (unat (snd (snd s)) div 10 + 1 + n) (drop_bit 32 (Pc (fst s))) s = Exec s"
    unfolding Exec_def by (rule Exec_loop_mono) simp
  ultimately show ?thesis using Exec_loop_gas unfolding Exec_def by blast
qed

section \<open>Isolation\<close>

text \<open>What a run of program \<open>p\<close> leaves alone: every other program, and its own code block.\<close>

definition confined :: "nat \<Rightarrow> Memory \<times> u64 \<Rightarrow> Memory \<times> u64 \<Rightarrow> bool" where
  "confined p e f \<longleftrightarrow> (\<forall>q. q \<noteq> p \<longrightarrow> Programs (fst f) q = Programs (fst e) q)
     \<and> map_option (\<lambda>pm. blocks pm 0) (Programs (fst f) p) = map_option (\<lambda>pm. blocks pm 0) (Programs (fst e) p)"

lemma confined_refl [simp]: "confined p e e"
  by (simp add: confined_def)

lemma confined_trans: "confined p e f \<Longrightarrow> confined p f g \<Longrightarrow> confined p e g"
  by (simp add: confined_def)

lemma confined_fst: "fst f = fst e \<Longrightarrow> confined p e f"
  by (simp add: confined_def)

lemma Access_pm_code: "Access_pm a isSelf op pm = (r, pm') \<Longrightarrow> blocks pm' 0 = blocks pm 0"
  by (auto simp: Access_pm_run Let_def set_page_def split: if_splits)

lemma foreign_unchanged: "Access_pm a False op pm = (r, pm') \<Longrightarrow> pm' = pm"
  by (auto simp: Access_pm_run Let_def split: if_splits)

lemma mem_access_confined:
  assumes "mem_access pcProg ptr op e = (r, f)"
  shows "confined (unat pcProg) e f"
proof -
  have f: "fst f = snd (Access_mem pcProg ptr op (fst e))"
    using chk_access_state assms unfolding mem_access_def by blast
  let ?p = "drop_bit 32 ptr"
  show ?thesis
  proof (cases "of_nat MaxLoadedPrograms \<le> pcProg \<or> of_nat MaxLoadedPrograms \<le> ?p \<or> Programs (fst e) (unat ?p) = None")
    case True
    then have "fst f = fst e" by (auto simp: f Access_mem_def Let_def ret_run prog_access_def)
    then show ?thesis by (rule confined_fst)
  next
    case False
    then obtain pm r' pm' where pm: "Programs (fst e) (unat ?p) = Some pm"
      and acc: "Access_pm (ucast ptr) (pcProg = ?p) op pm = (r', pm')"
      by (metis not_None_eq surj_pair)
    with False have f': "fst f = (fst e)\<lparr>Programs := (Programs (fst e))(unat ?p \<mapsto> pm')\<rparr>"
      by (simp add: f Access_mem_def Let_def prog_access_def)
    show ?thesis
    proof (cases "pcProg = ?p")
      case True
      with f' pm Access_pm_code [OF acc] show ?thesis by (simp add: confined_def)
    next
      case False
      with acc have "pm' = pm" using foreign_unchanged by simp
      with f' pm show ?thesis by (intro confined_fst) (simp add: fun_upd_idem)
    qed
  qed
qed

lemma mem_access_write:
  assumes "mem_access pcProg ptr OpWrite e = (Ok c, f)"
  shows "fst c = unat pcProg \<and> fst (snd c) \<noteq> 0"
proof -
  obtain new where "fst (Access_mem pcProg ptr OpWrite (fst e)) = Ok (Some c, new)"
    using chk_access_granted assms unfolding mem_access_def by blast
  then show ?thesis
    by (auto simp: Access_mem_def Let_def ret_run prog_access_def Access_nil_def Access_pm_run access_allowed_def
        split: if_splits option.splits prod.splits)
qed

lemma set_word_confined:
  assumes "fst c = p" and "fst (snd c) \<noteq> 0"
  shows "confined p e (set_word c v e)"
  using assms
  by (auto simp: confined_def set_word_def mcell_set_def cell_set_def set_page_def split: option.splits prod.splits)

interpretation iso: step_rel "mem_access pcProg" get_word set_word "confined (unat pcProg)" for pcProg
proof unfold_locales
  fix k and e f :: "Memory \<times> u64" and q assume "charge k e = (q, f)"
  then show "confined (unat pcProg) e f" by (intro confined_fst charge_fst)
next
  fix a e c f v assume "mem_access pcProg a OpWrite e = (Ok c, f)"
  then show "confined (unat pcProg) f (set_word c v f)" using mem_access_write set_word_confined by blast
qed (auto intro: confined_trans mem_access_confined)

lemma step_confined: "confined (unat p) (snd s) (snd (snd (step p s)))"
proof -
  obtain r c where mem: "mem_access p (Pc (fst s) AND NOT 7) OpExecute (snd s) = (r, c)"
    by (cases "mem_access p (Pc (fst s) AND NOT 7) OpExecute (snd s)")
  then have "confined (unat p) (snd s) c" by (rule mem_access_confined)
  moreover have "confined (unat p) d (snd (snd (execStep (mem_access p) get_word set_word i (cpu, d))))" for i cpu d
    using iso.execStep_R [of p i cpu d] by (metis prod.collapse)
  ultimately show ?thesis
    using mem by (auto simp: step_def Let_def throw_run bindG_def on_snd_def fetch_def getS_run
        intro: confined_trans split: prod.splits res.splits)
qed

lemma Exec_loop_confined: "confined (unat p) (snd s) (snd (snd (Exec_loop n p s)))"
proof (induction n arbitrary: s)
  case (Suc n)
  obtain r t where st: "step p s = (r, t)" by (cases "step p s")
  with step_confined [of p s] have "confined (unat p) (snd s) (snd t)" by simp
  with Suc [of t] st show ?case by (cases r) (auto simp: bindG_def intro: confined_trans)
qed (simp add: diverge_run)

text \<open>
  C27: programs are isolated. However a run of a program goes, it changes nothing in the memory of any
  other program, and nothing in its own code.
\<close>

theorem Exec_isolation:
  "q \<noteq> unat (drop_bit 32 (Pc (fst s))) \<Longrightarrow> Programs (fst (snd (snd (Exec s)))) q = Programs (fst (snd s)) q"
  using Exec_loop_confined [of "drop_bit 32 (Pc (fst s))" s] unfolding Exec_def confined_def by blast

theorem Exec_isolation_witness:
  "Programs (fst (snd (snd (Exec (\<lparr>Reg = (\<lambda>_. 0), Pc = 0x10000000\<rparr>, (demo_mem, 100)))))) 7 = None"
proof -
  have "Programs (fst (snd (\<lparr>Reg = (\<lambda>_. 0), Pc = 0x10000000\<rparr> :: CPU, (demo_mem, 100 :: u64)))) 7 = None"
    by (simp add: demo_mem_def)
  then show ?thesis
    by (subst Exec_isolation) simp_all
qed

text \<open>
  a program does not modify itself. Its code block is the same after a run, so that what is loaded
  is what is executed.
\<close>

lemma Exec_code_unchanged:
  "map_option (\<lambda>pm. blocks pm 0) (Programs (fst (snd (snd (Exec s)))) p)
   = map_option (\<lambda>pm. blocks pm 0) (Programs (fst (snd s)) p)"
  using Exec_loop_confined [of "drop_bit 32 (Pc (fst s))" s] unfolding Exec_def confined_def by metis

end
