(* ===== verification/Vm_Gas.thy ===== *)
theory Vm_Gas
  imports Vm_Exec
begin

text \<open>
  Gas of the bulk operations: reading and writing memory, reading a string and loading code never add
  gas and always end. The system calls use nothing else of the memory.
\<close>

lemma lowers_bindG_post:
  assumes "lowers g m" and "\<And>s x t. m s = (Ok x, t) \<Longrightarrow> lowers g (f x)"
  shows "lowers g (bindG m f)"
  unfolding lowers_def
proof
  fix s
  obtain r t where m: "m s = (r, t)" by (cases "m s")
  note t = lowersD [OF assms(1) m]
  show "g (snd (bindG m f s)) \<le> g s \<and> fst (bindG m f s) \<noteq> Diverge"
  proof (cases r)
    case (Ok x)
    have "g (snd (f x t)) \<le> g t \<and> fst (f x t) \<noteq> Diverge"
      using assms(2) m Ok unfolding lowers_def by blast
    with t m Ok show ?thesis by (auto simp: bindG_def)
  qed (use t m in \<open>auto simp: bindG_def\<close>)
qed

lemma word_access_lowers: "lowers snd (word_access pc p op a)"
  unfolding word_access_def
  by (rule chk_access_lowers) (auto simp: prog_access_def Access_nil_def Access_pm_run Let_def split: option.splits prod.splits)

lemma read_word_lowers [lowers_intro]: "lowers snd (read_word_at (word_access pc p op) get a)"
  unfolding read_word_at_def by (intro lowers_intro word_access_lowers)

lemma write_word_lowers [lowers_intro]: "lowers snd (write_word_at (word_access pc p op) get set_word a f)"
  unfolding write_word_at_def
  by (intro lowers_intro word_access_lowers lowers_modifyS) (simp add: set_word_def)

lemma read_loop_lowers [lowers_intro]: "lowers snd (read_loop (word_access pc p op) get ptr cur k)"
  by (induction k arbitrary: cur) (auto intro!: lowers_intro)

lemma write_loop_lowers [lowers_intro]: "lowers snd (write_loop (word_access pc p op) get set_word ptr d cur k)"
  by (induction k arbitrary: cur) (auto intro!: lowers_intro)

lemma ReadBytes_lowers: "lowers snd (ReadBytes pc ptr n)"
  unfolding ReadBytes_def read_bytes_at_def Let_def by (intro lowers_intro)

lemma WriteBytes_lowers: "lowers snd (WriteBytes pc ptr d)"
  unfolding WriteBytes_def write_bytes_at_def Let_def by (intro lowers_intro)

lemma chkRes_misses: "chkRes (int m) lst bs = None \<Longrightarrow> lst \<le> m \<Longrightarrow> lst + length bs \<le> m"
  by (induction "int m" lst bs rule: chkRes.induct) (auto split: if_splits)

lemma read_string_loop_lowers:
  assumes "lst \<le> length res" and "lst \<le> m" and "length res \<le> lst + 8" and "m + 9 \<le> length res + 8 * n"
  shows "lowers snd (read_string_loop (word_access pc p op) get n ptr (int m) lst res)"
  using assms
proof (induction n arbitrary: lst res)
  case (Suc n)
  show ?case
  proof (cases "chkRes (int m) lst (drop lst res)")
    case None
    have "length res \<le> m" using chkRes_misses [OF None Suc.prems(2)] Suc.prems(1) by simp
    with None Suc.prems show ?thesis by (auto intro!: lowers_intro Suc.IH)
  qed (auto intro: lowers_intro)
qed simp

lemma ReadString_lowers:
  assumes "maxLen < 2 ^ 63"
  shows "lowers snd (ReadString pc ptr maxLen)"
proof -
  have m: "int_of_u64 maxLen = int (unat maxLen)" using assms by (rule int_of_u64_small)
  have fuel: "unat maxLen + 9 \<le> 8 * (unat maxLen div 8 + 3)" by simp
  let ?acc = "word_access pc (drop_bit 32 ptr) OpRead"
  let ?init = "if ptr AND 7 \<noteq> 0 then bindG (read_word_at ?acc get_word (ucast (ptr AND 0xfffffff8)))
      (\<lambda>x. ret (drop (unat (ptr AND 7)) (le_bytes 8 x))) else ret []"
  let ?loop = "read_string_loop ?acc get_word (unat maxLen div 8 + 3) ptr (int (unat maxLen)) 0"
  have loop: "lowers snd (?loop res)" if "length res \<le> 8" for res
    using that fuel by (intro read_string_loop_lowers) auto
  have short: "length res \<le> 8" if "?init s = (Ok res, t)" for res s t
    using that by (auto simp: bindG_eq_Ok ret_run split: if_splits)
  have init: "lowers snd ?init" by (intro lowers_intro)
  have "lowers snd (bindG ?init ?loop)"
    using init loop [OF short] by (rule lowers_bindG_post)
  then show ?thesis
    unfolding ReadString_def read_string_at_def Let_def m by (simp add: lowers_basic)
qed

section \<open>Loading code\<close>

lemma NewProgram_ends: "fst (NewProgram m) \<noteq> Diverge"
  by (auto simp: NewProgram_def split: option.splits)

lemma check_pages_ends: "check_pages e1 e2 i n addr b pm \<noteq> Diverge"
  by (induction n arbitrary: i) (auto simp: Let_def)

lemma load_touch_ends: "fst (load_touch i n addr pm) \<noteq> Diverge"
proof (induction n arbitrary: i pm)
  case (Suc n)
  then show ?case by (auto simp: Let_def bindG_def Access_pm_run split: prod.splits res.splits)
qed (simp add: ret_run)

lemma load_copy_ends: "fst (load_copy i n addr len buf pm) \<noteq> Diverge"
  by (induction n arbitrary: i buf pm) (auto simp: Let_def ret_run)

lemma load_pm_ends: "fst (load_pm addr n s pm) \<noteq> Diverge"
  using load_touch_ends [of 0 n addr pm] load_copy_ends
  by (auto simp: load_pm_def bindG_def split: prod.splits res.splits)

lemma LoadRawCode_lowers: "lowers snd (LoadRawCode code off)"
proof -
  have "lowers snd (bindG (liftR (check_pages e1 e2 0 n off b pm)) (\<lambda>_.
      bindG (charge c) (\<lambda>_. on_fst (load_pm off n code))))" for e1 e2 n b pm c
    by (intro lowers_intro lowers_liftR lowers_on_fst check_pages_ends load_pm_ends)
  then show ?thesis by (auto simp: lowers_def LoadRawCode_def Let_def throw_run)
qed

lemma parse_segments_ends: "parse_segments elf off n \<noteq> Diverge"
  by (induction n arbitrary: off) (auto simp: parse_segment_def Let_def split: res.splits)

lemma ParseELF_ends: "ParseELF elf \<noteq> Diverge"
  by (auto simp: ParseELF_def Let_def parse_segments_ends split: res.splits)

lemma trim_segments_ends: "trim_segments s ign req first segs resf cur n \<noteq> Diverge"
  by (induction segs arbitrary: first resf cur n) (auto simp: seg_slice_def Let_def)

lemma TrimELF_ends: "TrimELF s e ign entry \<noteq> Diverge"
  using trim_segments_ends
  by (auto simp: TrimELF_def Let_def simp del: trim_segments.simps split: list.splits res.splits)

lemma plan_segments_ends: "plan_segments off pm segs \<noteq> Diverge"
  by (induction segs) (auto simp: plan_segment_def Let_def check_pages_ends split: res.splits)

lemma load_segments_ends: "fst (load_segments elf ps pm) \<noteq> Diverge"
proof (induction ps arbitrary: pm)
  case (Cons p ps)
  then show ?case
    using load_pm_ends by (auto simp: bindG_def liftR_run seg_slice_def split: prod.splits res.splits) (metis fst_conv)
qed (simp add: ret_run)

lemma LoadELF_lowers: "lowers snd (LoadELF elf off)"
  unfolding lowers_def
proof
  fix st
  show "snd (snd (LoadELF elf off st)) \<le> snd st \<and> fst (LoadELF elf off st) \<noteq> Diverge"
  proof (cases "ParseELF elf")
    case (Ok e)
    have "lowers snd (bindG (liftR (plan_segments off (fst st) (Segments e))) (\<lambda>plan.
        bindG (charge (of_nat (sum_list (map seg_numPages plan)) * GasMemoryPage)) (\<lambda>_.
        bindG (on_fst (load_segments elf plan)) (\<lambda>_. ret (Entry e + off)))))"
      by (intro lowers_intro lowers_liftR lowers_on_fst plan_segments_ends load_segments_ends)
    from this [unfolded lowers_def, rule_format, of st] Ok show ?thesis
      by (simp add: LoadELF_def throw_run)
  qed (use ParseELF_ends [of elf] in \<open>simp_all add: LoadELF_def throw_run\<close>)
qed

text \<open>A run that starts inside its own program executes an instruction, so it costs gas.\<close>

lemma Exec_burns:
  assumes "Exec s = (Ok u, t)"
  shows "unat (snd (snd t)) < unat (snd (snd s))"
proof -
  have "Exec s = bindG (step (drop_bit 32 (Pc (fst s)))) (\<lambda>_. Exec_loop (unat (snd (snd s)) div 10) (drop_bit 32 (Pc (fst s)))) s"
    by (simp add: Exec_def)
  with assms obtain v w where st: "step (drop_bit 32 (Pc (fst s))) s = (Ok v, w)"
    and lp: "Exec_loop (unat (snd (snd s)) div 10) (drop_bit 32 (Pc (fst s))) w = (Ok u, t)"
    by (auto simp: bindG_eq_Ok)
  have "snd (snd t) \<le> snd (snd w)" using Exec_loop_gas lp by (metis snd_conv)
  with step_gas [OF st] show ?thesis by (simp add: word_le_nat_alt)
qed

end
