(* ===== verification/Vm_State.thy ===== *)
theory Vm_State
  imports Account Vm_Gas
begin

text \<open>
  The state of a contract run, the first half of \<^verbatim>\<open>core/block/vm.go\<close>, and the contract code kept in the
  storage, \<^verbatim>\<open>LoadContractCode\<close> to \<^verbatim>\<open>storeContractCode\<close> of \<^verbatim>\<open>core/block/vm_syscall.go\<close>.

  The state extends the code's \<^verbatim>\<open>vmCtx\<close> by the gas of the current call's environment and by the store of
  slices; the parts that a run never changes (execution context, callback, origin, transaction, the
  cryptography) are an argument. The lemmas show that what is stored as a contract's code is what is
  loaded, at the advertised price.
\<close>

section \<open>State\<close>

datatype call_type = CallExternal | CallStart | CallRegular | CallInit | CallView

definition DefaultSp :: u64 where
  "DefaultSp = 0x30000000 + of_nat PageSize * of_nat MaxPagesPerBlock - 16"

definition SyscallProg :: u64 where "SyscallProg = 0x7fffffff"
definition GasCall :: u64 where "GasCall = 2800"
definition GasVmTxRawCode :: u64 where "GasVmTxRawCode = 5000"

definition zero_cpu :: CPU where
  "zero_cpu = \<lparr>Reg = (\<lambda>_. 0), Pc = 0\<rparr>"

record vmCtx =
  cpus :: "nat \<Rightarrow> CPU"
  vmem :: Memory
  loadId :: "AddressType \<rightharpoonup> nat"
  elfCache :: "AddressType \<rightharpoonup> bytes"
  prog_addr :: "nat \<Rightarrow> AddressType"
  prog_entry :: "nat \<Rightarrow> u32"
  jumpDest :: "u64 set"

record vm_state = vmCtx +
  gas :: u64
  heap :: SliceHeap

record vm_info =
  ctx_of :: ExecutionContext
  callback_of :: "ExecutionCallback option"
  origin :: AddressType
  tx_of :: "Transaction option"
  crypto_of :: crypto

record callCtx =
  call_s :: slice_ptr
  call_pc :: u64
  call_prog :: u64
  callValue :: u64
  call_args :: "u64 list"
  caller :: nat
  callType :: call_type

definition newVmCtx :: "u64 \<Rightarrow> SliceHeap \<Rightarrow> vm_state" where
  "newVmCtx g h =
     \<lparr>cpus = (\<lambda>_. zero_cpu), vmem = empty_mem, loadId = Map.empty, elfCache = Map.empty,
      prog_addr = (\<lambda>_. zero32), prog_entry = (\<lambda>_. 0), jumpDest = {}, gas = g, heap = h\<rparr>"

section \<open>Running the parts\<close>

text \<open>Calls that work on the store, on the memory and the gas, on one program, or on one processor.\<close>

definition on_heap :: "(SliceHeap, 'a) go \<Rightarrow> (vm_state, 'a) go" where
  "on_heap m s = (case m (heap s) of (r, h) \<Rightarrow> (r, s\<lparr>heap := h\<rparr>))"

definition on_mem :: "(Memory \<times> u64, 'a) go \<Rightarrow> (vm_state, 'a) go" where
  "on_mem m s = (case m (vmem s, gas s) of (r, (me, g)) \<Rightarrow> (r, s\<lparr>vmem := me, gas := g\<rparr>))"

text \<open>A program that has not been loaded is a nil pointer, whose use panics.\<close>

definition on_prog :: "nat \<Rightarrow> (ProgramMemory \<times> u64, 'a) go \<Rightarrow> (vm_state, 'a) go" where
  "on_prog i m s =
     (case Programs (vmem s) i of
        None \<Rightarrow> (Panic, s)
      | Some pm \<Rightarrow>
          (case m (pm, gas s) of
             (r, (pm', g)) \<Rightarrow> (r, s\<lparr>vmem := (vmem s)\<lparr>Programs := (Programs (vmem s))(i \<mapsto> pm')\<rparr>, gas := g\<rparr>)))"

definition set_cpu :: "nat \<Rightarrow> CPU \<Rightarrow> vm_state \<Rightarrow> vm_state" where
  "set_cpu i c s = s\<lparr>cpus := (cpus s)(i := c)\<rparr>"

definition on_cpu :: "nat \<Rightarrow> (CPU \<times> (Memory \<times> u64), 'a) go \<Rightarrow> (vm_state, 'a) go" where
  "on_cpu i m s =
     (case m (cpus s i, (vmem s, gas s)) of
        (r, (c, (me, g))) \<Rightarrow> (r, set_cpu i c (s\<lparr>vmem := me, gas := g\<rparr>)))"

definition mod_cpu :: "nat \<Rightarrow> (CPU \<Rightarrow> CPU) \<Rightarrow> (vm_state, unit) go" where
  "mod_cpu i f = modifyS (\<lambda>s. set_cpu i (f (cpus s i)) s)"

definition charge_gas :: "u64 \<Rightarrow> (vm_state, unit) go" where
  "charge_gas c s = (if gas s < c then (Err (ErrVm ErrInsufficientGas), s) else (Ok (), s\<lparr>gas := gas s - c\<rparr>))"

text \<open>\<^verbatim>\<open>defer func() { *cpu = oldCpu }()\<close>: whatever the outcome, the processor is restored.\<close>

definition restoring_cpu :: "nat \<Rightarrow> (vm_state, 'a) go \<Rightarrow> (vm_state, 'a) go" where
  "restoring_cpu i m s = (case m s of (r, t) \<Rightarrow> (r, set_cpu i (cpus s i) t))"

text \<open>
  A call with an environment of its own: it has at most \<open>gasLimit\<close> gas, what it uses is taken from the
  caller's, and its error is a value for the caller.
\<close>

definition with_limit :: "u64 \<Rightarrow> (vm_state, 'a) go \<Rightarrow> (vm_state, error + 'a) go" where
  "with_limit gasLimit m s =
     (let limit = (if gas s < gasLimit then gas s else gasLimit) in
      case m (s\<lparr>gas := limit\<rparr>) of
        (r, t) \<Rightarrow>
          (case r of Ok x \<Rightarrow> Ok (Inr x) | Err e \<Rightarrow> Ok (Inl e) | Panic \<Rightarrow> Panic | Diverge \<Rightarrow> Diverge,
           t\<lparr>gas := gas s - (limit - gas t)\<rparr>))"

section \<open>Programs\<close>

definition newProgram :: "AddressType \<Rightarrow> (vm_state, nat \<times> bool) go" where
  "newProgram a s =
     (case loadId s a of
        Some i \<Rightarrow> (Ok (i, False), s)
      | None \<Rightarrow>
          bindG (on_mem (on_fst NewProgram)) (\<lambda>i.
          bindG (modifyS (\<lambda>s. s\<lparr>prog_addr := (prog_addr s)(i := a), loadId := (loadId s)(a \<mapsto> i)\<rparr>)) (\<lambda>_.
          ret (i, True))) s)"

definition isValidJumpDest :: "u64 \<Rightarrow> vm_state \<Rightarrow> bool" where
  "isValidJumpDest a s \<longleftrightarrow> a \<in> jumpDest s"

section \<open>Contract code in the storage\<close>

definition GasLoadContractCodeCached :: u64 where "GasLoadContractCodeCached = 400"
definition GasLoadContractCode :: u64 where "GasLoadContractCode = 20000"
definition GasLoadContractCodePerBlock :: u64 where "GasLoadContractCodePerBlock = 2000"

text \<open>
  The keys of a contract: its header, its creation nonce, the blocks of its code, and its storage. The
  block number is written over the first eight of the sixteen bytes \<^verbatim>\<open>key[49:65]\<close>; the last byte keeps
  the 1 of the header's key.
\<close>

definition header_key :: "AddressType \<Rightarrow> KeyType" where
  "header_key a = [1] @ a @ replicate 31 0 @ [1]"

definition nonce_key :: "AddressType \<Rightarrow> KeyType" where
  "nonce_key a = [1] @ a @ replicate 31 0 @ [2]"

definition code_key :: "AddressType \<Rightarrow> nat \<Rightarrow> KeyType" where
  "code_key a i = [2] @ a @ replicate 16 0 @ be_bytes 8 (of_nat i :: u64) @ replicate 7 0 @ [1]"

definition storage_key :: "AddressType \<Rightarrow> bytes \<Rightarrow> KeyType" where
  "storage_key a k = [2] @ a @ k"

fun read_blocks :: "slice_ptr \<Rightarrow> AddressType \<Rightarrow> nat \<Rightarrow> nat \<Rightarrow> (SliceHeap, bytes) go" where
  "read_blocks s a i 0 = ret []"
| "read_blocks s a i (Suc n) =
     bindG (Read s (code_key a i)) (\<lambda>val.
     bindG (read_blocks s a (Suc i) n) (\<lambda>r. ret (val @ r)))"

text \<open>
  A \<^verbatim>\<open>make\<close> of more than \<open>2 ^ 48\<close> bytes panics, and so does cutting the result to a length it has not.
\<close>

definition loadContractCode :: "callCtx \<Rightarrow> AddressType \<Rightarrow> (vm_state, bytes) go" where
  "loadContractCode call a =
     bindG (getS (\<lambda>s. elfCache s a)) (\<lambda>cached.
     case cached of
       Some c \<Rightarrow> bindG (charge_gas GasLoadContractCodeCached) (\<lambda>_. ret c)
     | None \<Rightarrow>
         bindG (charge_gas GasLoadContractCode) (\<lambda>_.
         bindG (on_heap (Read (call_s call) (header_key a))) (\<lambda>val.
         if val ! 0 \<noteq> 1 then throw ErrContractNotExist
         else
           let n = le_word (sub_bytes 8 16 val) :: u64;
               nBlocks = (n + of_nat DataLen - 1) div of_nat DataLen in
           bindG (charge_gas (nBlocks * GasLoadContractCodePerBlock)) (\<lambda>_.
           if 2 ^ 48 < unat (nBlocks * of_nat DataLen) then panic
           else
             bindG (on_heap (read_blocks (call_s call) a 0 (unat nBlocks))) (\<lambda>res.
             if length res < unat n then panic
             else
               bindG (modifyS (\<lambda>s. s\<lparr>elfCache := (elfCache s)(a \<mapsto> take (unat n) res)\<rparr>)) (\<lambda>_.
               ret (take (unat n) res)))))))"

definition code_blocks :: "nat \<Rightarrow> nat" where
  "code_blocks n = (n + DataLen - 1) div DataLen"

definition code_block :: "bytes \<Rightarrow> nat \<Rightarrow> DataType" where
  "code_block elf i =
     (if i + 1 < code_blocks (length elf) then sub_bytes (i * DataLen) ((i + 1) * DataLen) elf
      else blit zero_data 0 (drop (i * DataLen) elf))"

fun write_blocks :: "slice_ptr \<Rightarrow> AddressType \<Rightarrow> bytes \<Rightarrow> nat \<Rightarrow> nat \<Rightarrow> (SliceHeap, unit) go" where
  "write_blocks s a elf i 0 = ret ()"
| "write_blocks s a elf i (Suc n) =
     bindG (Write s (code_key a i) (code_block elf i)) (\<lambda>_. write_blocks s a elf (Suc i) n)"

definition storeContractCode :: "slice_ptr \<Rightarrow> AddressType \<Rightarrow> bytes \<Rightarrow> (SliceHeap, unit) go" where
  "storeContractCode s a elf =
     bindG (Write s (header_key a) (blit (blit zero_data 0 [1]) 8 (le_bytes 8 (of_nat (length elf) :: u64)))) (\<lambda>_.
     write_blocks s a elf 0 (code_blocks (length elf)))"

text \<open>\<^verbatim>\<open>LoadContractCode\<close>, which the node's interface calls outside any transaction.\<close>

definition LoadContractCode :: "slice_ptr \<Rightarrow> AddressType \<Rightarrow> (SliceHeap, bytes) go" where
  "LoadContractCode s a h =
     (let call = \<lparr>call_s = s, call_pc = 0, call_prog = 0, callValue = 0, call_args = [], caller = 0,
                  callType = CallExternal\<rparr>;
          (r, t) = loadContractCode call a (newVmCtx 1000000000 h) in
      (r, heap t))"

section \<open>What is stored is loaded\<close>

lemma code_key_eq_iff:
  assumes "i < 2 ^ 64" and "j < 2 ^ 64"
  shows "code_key a i = code_key a j \<longleftrightarrow> i = j"
proof -
  have "(of_nat i :: u64) = of_nat j \<longleftrightarrow> i = j" using assms unat_of_nat_u64 by metis
  then show ?thesis by (simp add: code_key_def)
qed

lemma header_code_key [simp]: "header_key a \<noteq> code_key b i"
  by (simp add: header_key_def code_key_def)

lemma write_blocks_run:
  assumes "writable h s" and "i + n \<le> 2 ^ 64"
  shows "\<exists>h'. write_blocks s a elf i n h = (Ok (), h') \<and> frame h s h'
     \<and> (\<forall>j. i \<le> j \<and> j < i + n \<longrightarrow> slice_view h' s (code_key a j) = code_block elf j)
     \<and> (\<forall>k. (\<forall>j. i \<le> j \<and> j < i + n \<longrightarrow> k \<noteq> code_key a j) \<longrightarrow> slice_view h' s k = slice_view h s k)"
  using assms
proof (induction n arbitrary: i h)
  case 0
  then show ?case by (auto simp: ret_run writable_def intro: frame_refl)
next
  case (Suc n)
  obtain h1 where 1: "Write s (code_key a i) (code_block elf i) h = (Ok (), h1)"
    "slice_view h1 s = (slice_view h s)(code_key a i := code_block elf i)" "frame h s h1" "writable h1 s"
    using slice_kv.wrt_wr [OF Suc.prems(1)] .
  have "Suc i + n \<le> 2 ^ 64" using Suc.prems(2) by simp
  from Suc.IH [OF 1(4) this] obtain h2 where 2: "write_blocks s a elf (Suc i) n h1 = (Ok (), h2)" "frame h1 s h2"
    and hit: "\<And>j. Suc i \<le> j \<Longrightarrow> j < Suc i + n \<Longrightarrow> slice_view h2 s (code_key a j) = code_block elf j"
    and miss: "\<And>k. \<forall>j. Suc i \<le> j \<and> j < Suc i + n \<longrightarrow> k \<noteq> code_key a j \<Longrightarrow> slice_view h2 s k = slice_view h1 s k"
    by blast
  have "slice_view h2 s (code_key a j) = code_block elf j" if "i \<le> j" "j < i + Suc n" for j
  proof (cases "j = i")
    case True
    have "slice_view h2 s (code_key a i) = slice_view h1 s (code_key a i)"
      using Suc.prems(2) by (intro miss) (auto simp: code_key_eq_iff)
    with True 1(2) show ?thesis by simp
  qed (use that hit in simp)
  moreover have "slice_view h2 s k = slice_view h s k" if "\<forall>j. i \<le> j \<and> j < i + Suc n \<longrightarrow> k \<noteq> code_key a j" for k
    using that miss [of k] 1(2) by auto
  ultimately show ?case
    using 1 2 slice_kv.frm_trans [OF Suc.prems(1) 1(3) 2(2)] by (simp add: bindG_Ok)
qed

lemma concat_blocks:
  "concat (map (\<lambda>i. sub_bytes (i * DataLen) ((i + 1) * DataLen) elf) [0..<k]) = take (k * DataLen) elf"
proof (induction k)
  case (Suc k)
  then show ?case by (simp add: sub_bytes_def take_add [symmetric] add.commute)
qed simp

lemma code_block_concat:
  "take (length elf) (concat (map (code_block elf) [0..<code_blocks (length elf)])) = elf
   \<and> length elf \<le> length (concat (map (code_block elf) [0..<code_blocks (length elf)]))"
proof (cases "code_blocks (length elf)")
  case 0
  then have "length elf = 0" unfolding code_blocks_def DataLen_def by linarith
  with 0 show ?thesis by simp
next
  case (Suc k)
  then have k: "k * DataLen < length elf" "length elf \<le> (k + 1) * DataLen"
    using mult_div_mod_eq [of DataLen "length elf + DataLen - 1"] mod_less_divisor [of DataLen "length elf + DataLen - 1"]
    unfolding code_blocks_def DataLen_def by simp_all
  have "map (code_block elf) [0..<k] = map (\<lambda>i. sub_bytes (i * DataLen) ((i + 1) * DataLen) elf) [0..<k]"
    using Suc by (auto simp: code_block_def)
  then have "concat (map (code_block elf) [0..<k]) = take (k * DataLen) elf"
    by (simp only: concat_blocks)
  moreover have "code_block elf k = drop (k * DataLen) elf @ drop (length elf - k * DataLen) zero_data"
    using Suc k by (simp add: code_block_def blit_def zero_data_def DataLen_def)
  ultimately have "concat (map (code_block elf) [0..<Suc k]) = elf @ drop (length elf - k * DataLen) zero_data"
    by simp
  then show ?thesis using Suc by simp
qed

lemma read_blocks_run:
  assumes "live h s"
  shows "read_blocks s a i n h = (Ok (concat (map (\<lambda>j. slice_view h s (code_key a j)) [i..<i + n])), h)"
  using assms
proof (induction n arbitrary: i)
  case (Suc n)
  have "[i..<i + Suc n] = i # [Suc i..<Suc i + n]" by (simp add: upt_conv_Cons del: upt_Suc)
  with Suc show ?case by (simp add: bindG_Ok Read_view ret_run del: upt_Suc)
qed (simp add: ret_run)

lemma storeContractCode_run:
  assumes "writable h s" and "length elf < 2 ^ 63"
  obtains h' where "storeContractCode s a elf h = (Ok (), h')" and "frame h s h'"
    and "slice_view h' s (header_key a) = blit (blit zero_data 0 [1]) 8 (le_bytes 8 (of_nat (length elf) :: u64))"
    and "\<And>j. j < code_blocks (length elf) \<Longrightarrow> slice_view h' s (code_key a j) = code_block elf j"
    and "\<And>k. k \<noteq> header_key a \<Longrightarrow> \<forall>j. k \<noteq> code_key a j \<Longrightarrow> slice_view h' s k = slice_view h s k"
proof -
  let ?hd = "blit (blit zero_data 0 [1]) 8 (le_bytes 8 (of_nat (length elf) :: u64))"
  obtain h1 where 1: "Write s (header_key a) ?hd h = (Ok (), h1)"
    "slice_view h1 s = (slice_view h s)(header_key a := ?hd)" "frame h s h1" "writable h1 s"
    using slice_kv.wrt_wr [OF assms(1)] .
  have "0 + code_blocks (length elf) \<le> 2 ^ 64"
    using assms(2) div_le_dividend [of "length elf + DataLen - 1" DataLen]
    unfolding code_blocks_def DataLen_def by simp
  from write_blocks_run [OF 1(4) this, of a elf] obtain h2
    where 2: "write_blocks s a elf 0 (code_blocks (length elf)) h1 = (Ok (), h2)" "frame h1 s h2"
    and hit: "\<And>j. j < code_blocks (length elf) \<Longrightarrow> slice_view h2 s (code_key a j) = code_block elf j"
    and miss: "\<And>k. \<forall>j < code_blocks (length elf). k \<noteq> code_key a j \<Longrightarrow> slice_view h2 s k = slice_view h1 s k"
    by auto
  show thesis
  proof (rule that [of h2])
    show "storeContractCode s a elf h = (Ok (), h2)" using 1 2 by (simp add: storeContractCode_def bindG_Ok)
    show "frame h s h2" using slice_kv.frm_trans [OF assms(1) 1(3) 2(2)] .
    show "slice_view h2 s (header_key a) = ?hd" using 1(2) miss [of "header_key a"] by simp
    show "slice_view h2 s (code_key a j) = code_block elf j" if "j < code_blocks (length elf)" for j
      using hit [OF that] .
    show "slice_view h2 s k = slice_view h s k" if "k \<noteq> header_key a" "\<forall>j. k \<noteq> code_key a j" for k
      using that miss [of k] 1(2) by simp
  qed
qed

text \<open>Loading code that is not cached, from a slice whose header and blocks are those of \<open>elf\<close>.\<close>

lemma unat_code_blocks:
  assumes "n < 2 ^ 63"
  shows "unat ((of_nat n + of_nat DataLen - 1 :: u64) div of_nat DataLen) = code_blocks n"
proof -
  have "(of_nat n + of_nat DataLen - 1 :: u64) = of_nat (n + DataLen - 1)" by (simp add: DataLen_def)
  moreover have "unat (of_nat (n + DataLen - 1) :: u64) = n + DataLen - 1"
    by (rule unat_of_nat_u64) (use assms in \<open>simp add: DataLen_def\<close>)
  ultimately show ?thesis by (simp add: unat_div code_blocks_def DataLen_def)
qed

definition load_price :: "nat \<Rightarrow> u64" where
  "load_price n = GasLoadContractCode + of_nat (code_blocks n) * GasLoadContractCodePerBlock"

lemma charge_gas_Ok: "c \<le> gas s \<Longrightarrow> charge_gas c s = (Ok (), s\<lparr>gas := gas s - c\<rparr>)"
  by (simp add: charge_gas_def not_less [symmetric])

lemma loadContractCode_run:
  assumes s: "live (heap t) (call_s call)" and n: "length elf < 2 ^ 47" and new: "elfCache t a = None"
    and gas: "20000 + 2000 * code_blocks (length elf) \<le> unat (gas t)"
    and hdr: "slice_view (heap t) (call_s call) (header_key a)
      = blit (blit zero_data 0 [1]) 8 (le_bytes 8 (of_nat (length elf) :: u64))"
    and blk: "\<And>j. j < code_blocks (length elf) \<Longrightarrow> slice_view (heap t) (call_s call) (code_key a j) = code_block elf j"
  shows "loadContractCode call a t
    = (Ok elf, t\<lparr>gas := gas t - load_price (length elf), elfCache := (elfCache t)(a \<mapsto> elf)\<rparr>)"
proof -
  let ?val = "blit (blit zero_data 0 [1]) 8 (le_bytes 8 (of_nat (length elf) :: u64))"
  let ?nb = "(of_nat (length elf) + of_nat DataLen - 1 :: u64) div of_nat DataLen"
  have val: "?val ! 0 = 1" "le_word (sub_bytes 8 16 ?val) = (of_nat (length elf) :: u64)"
    by (simp_all add: blit_def sub_bytes_def zero_data_def DataLen_def)
  have nb: "unat ?nb = code_blocks (length elf)" using n by (intro unat_code_blocks) simp
  have le: "code_blocks (length elf) \<le> 2 ^ 43" using n unfolding code_blocks_def DataLen_def by simp
  have u: "unat (?nb * 2000) = 2000 * code_blocks (length elf)" "unat (?nb * of_nat DataLen) = 32 * code_blocks (length elf)"
    using nb le by (simp_all add: unat_mult_lem [THEN iffD1] DataLen_def)
  have len: "unat (of_nat (length elf) :: u64) = length elf"
    using n by (intro unat_of_nat_u64) simp
  have blks: "map (\<lambda>j. slice_view (heap t) (call_s call) (code_key a j)) [0..<code_blocks (length elf)]
      = map (code_block elf) [0..<code_blocks (length elf)]"
    using blk by (intro map_cong) auto
  have rd: "read_blocks (call_s call) a 0 (code_blocks (length elf)) (heap t)
      = (Ok (concat (map (code_block elf) [0..<code_blocks (length elf)])), heap t)"
    using read_blocks_run [OF s, of a 0 "code_blocks (length elf)"] by (simp only: blks add_0)
  have g1: "20000 \<le> gas t" using gas by (simp add: word_le_nat_alt)
  have g2: "?nb * 2000 \<le> gas t - 20000"
    using gas u(1) g1 by (simp add: word_le_nat_alt unat_sub)
  have eq: "gas t - 20000 - ?nb * 2000 = gas t - load_price (length elf)"
    using nb by (simp add: load_price_def GasLoadContractCode_def GasLoadContractCodePerBlock_def algebra_simps
        word_unat_eq_iff flip: nb)
  show ?thesis
    using code_block_concat [of elf] le u(2) len
    by (simp add: loadContractCode_def new go_run GasLoadContractCode_def GasLoadContractCodePerBlock_def
        charge_gas_Ok g1 g2 on_heap_def Read_view s hdr val Let_def nb rd eq len)
qed

text \<open>
  C28: a deployed contract's code comes back. After \<^verbatim>\<open>storeContractCode\<close> has put a file of fewer than
  \<open>2 ^ 47\<close> bytes into a slice, a call with enough gas loads exactly these bytes from it, pays the price of
  a first load plus so much a block, and caches them, and \<^verbatim>\<open>LoadContractCode\<close> reads them outside a call.
\<close>

theorem contract_code_roundtrip:
  assumes s: "writable h s" and n: "length elf < 2 ^ 47" and c: "call_s call = s" "elfCache t a = None"
    and g: "20000 + 2000 * code_blocks (length elf) \<le> unat (gas t)"
  shows "\<exists>h'. storeContractCode s a elf h = (Ok (), h') \<and> frame h s h'
     \<and> loadContractCode call a (t\<lparr>heap := h'\<rparr>)
         = (Ok elf, t\<lparr>heap := h', gas := gas t - load_price (length elf), elfCache := (elfCache t)(a \<mapsto> elf)\<rparr>)
     \<and> (length elf \<le> 2 ^ 20 \<longrightarrow> LoadContractCode s a h' = (Ok elf, h'))"
proof -
  have "length elf < 2 ^ 63" using n by simp
  then obtain h' where st: "storeContractCode s a elf h = (Ok (), h')" "frame h s h'"
    and hdr: "slice_view h' s (header_key a) = blit (blit zero_data 0 [1]) 8 (le_bytes 8 (of_nat (length elf) :: u64))"
    and blk: "\<And>j. j < code_blocks (length elf) \<Longrightarrow> slice_view h' s (code_key a j) = code_block elf j"
    using storeContractCode_run [OF s] by metis
  have lv: "live h' s" using frame_live st(2) s writable_live by blast
  have ld: "loadContractCode call' a t' = (Ok elf, t'\<lparr>gas := gas t' - load_price (length elf), elfCache := (elfCache t')(a \<mapsto> elf)\<rparr>)"
    if "call_s call' = s" "heap t' = h'" "elfCache t' a = None"
      "20000 + 2000 * code_blocks (length elf) \<le> unat (gas t')" for call' t'
    using that lv hdr blk n by (intro loadContractCode_run) simp_all
  have "LoadContractCode s a h' = (Ok elf, h')" if "length elf \<le> 2 ^ 20"
  proof -
    have "code_blocks (length elf) \<le> 2 ^ 15" using that unfolding code_blocks_def DataLen_def by simp
    then show ?thesis by (simp add: LoadContractCode_def Let_def ld newVmCtx_def)
  qed
  with st ld [of call "t\<lparr>heap := h'\<rparr>"] c g show ?thesis by auto
qed

definition demo_call :: callCtx where
  "demo_call = \<lparr>call_s = 0, call_pc = 0x10000000, call_prog = 0, callValue = 0, call_args = [], caller = 0,
     callType = CallExternal\<rparr>"

theorem contract_code_roundtrip_witness:
  "\<exists>h'. storeContractCode 0 zero32 [1, 2, 3] demo_heap = (Ok (), h')
     \<and> LoadContractCode 0 zero32 h' = (Ok [1, 2, 3], h')"
  using contract_code_roundtrip [OF writable_demo_heap, of "[1, 2, 3]" demo_call "newVmCtx 30000 demo_heap" zero32]
  by (auto simp: demo_call_def newVmCtx_def code_blocks_def DataLen_def)

end
