(* ===== verification/Vm.thy ===== *)
theory Vm
  imports Vm_State Error_Text
begin

text \<open>
  Contracts: the system calls of \<^verbatim>\<open>core/block/vm_syscall.go\<close> and the call loop of \<^verbatim>\<open>core/block/vm.go\<close>. The
  functions \<^verbatim>\<open>execVM\<close>, \<^verbatim>\<open>execSyscall\<close> and \<^verbatim>\<open>create\<close> of the code call each other; here the system calls take
  the call of a program as an argument \<open>exec\<close>, and \<open>execVM\<close> ties the knot over a counter, which bounds
  the depth of calls and the turns of each loop alike.
\<close>

section \<open>System calls\<close>

definition MaxRevertMsgLen :: u64 where "MaxRevertMsgLen = 1024"
definition MaxByteArrayLen :: u64 where "MaxByteArrayLen = 2 ^ 20"

definition GasSyscallBase :: "int \<rightharpoonup> u64" where
  "GasSyscallBase = map_of
     [(1, 40), (2, 40), (3, 40), (4, 40), (5, 50000), (6, 50000), (7, 400), (8, 20000), (9, 500),
      (10, 1000), (11, 500), (12, 40), (13, 40), (14, 40), (15, 40), (16, 40), (17, 40), (18, 200),
      (19, 40000), (20, 25000), (21, 50000), (22, 500)]"

definition GasTransfer :: u64 where "GasTransfer = 40000"
definition GasSyscallSha256PerBlock :: u64 where "GasSyscallSha256PerBlock = 60"
definition GasSyscallEd25519PerBlock :: u64 where "GasSyscallEd25519PerBlock = 100"
definition GasSyscallRevertPerByte :: u64 where "GasSyscallRevertPerByte = 1"
definition GasSyscallTransferMessagePerByte :: u64 where "GasSyscallTransferMessagePerByte = 1"
definition GasSyscallCreatePerByte :: u64 where "GasSyscallCreatePerByte = 1"
definition GasSyscallCreateStorePerBlock :: u64 where "GasSyscallCreateStorePerBlock = 10000"

text \<open>The arguments of a system call are registers of the running program's processor.\<close>

definition prog_id :: "callCtx \<Rightarrow> nat" where
  "prog_id call = unat (call_prog call)"

definition get_arg :: "callCtx \<Rightarrow> nat \<Rightarrow> (vm_state, u64) go" where
  "get_arg call i = getS (\<lambda>s. GetArg i (cpus s (prog_id call)))"

definition set_arg :: "callCtx \<Rightarrow> nat \<Rightarrow> u64 \<Rightarrow> (vm_state, unit) go" where
  "set_arg call i v = mod_cpu (prog_id call) (SetArg i v)"

definition read_arg :: "callCtx \<Rightarrow> nat \<Rightarrow> nat \<Rightarrow> (vm_state, bytes) go" where
  "read_arg call i n = bindG (get_arg call i) (\<lambda>p. on_mem (ReadBytes (call_prog call) p n))"

definition write_arg :: "callCtx \<Rightarrow> nat \<Rightarrow> bytes \<Rightarrow> (vm_state, unit) go" where
  "write_arg call i d = bindG (get_arg call i) (\<lambda>p. on_mem (WriteBytes (call_prog call) p d))"

definition self_addr :: "callCtx \<Rightarrow> (vm_state, AddressType) go" where
  "self_addr call = getS (\<lambda>s. prog_addr s (prog_id call))"

definition prog_pc :: "nat \<Rightarrow> u32 \<Rightarrow> u64" where
  "prog_pc i entry = push_bit 32 (of_nat i) OR ucast entry"

definition set_sp :: "nat \<Rightarrow> (vm_state, unit) go" where
  "set_sp i = mod_cpu i (set_reg 2 (push_bit 32 (of_nat i) OR DefaultSp))"

definition sub_call :: "callCtx \<Rightarrow> slice_ptr \<Rightarrow> u64 \<Rightarrow> u64 \<Rightarrow> u64 list \<Rightarrow> call_type \<Rightarrow> callCtx" where
  "sub_call call s pc v args ty =
     \<lparr>call_s = s, call_pc = pc, call_prog = 0, callValue = v, call_args = args, caller = prog_id call,
      callType = ty\<rparr>"

definition sys_storage_store :: "callCtx \<Rightarrow> (vm_state, unit) go" where
  "sys_storage_store call =
     bindG (self_addr call) (\<lambda>a.
     bindG (read_arg call 0 32) (\<lambda>k.
     bindG (read_arg call 1 DataLen) (\<lambda>val.
     on_heap (Write (call_s call) (storage_key a k) val))))"

definition sys_storage_load :: "callCtx \<Rightarrow> (vm_state, unit) go" where
  "sys_storage_load call =
     bindG (self_addr call) (\<lambda>a.
     bindG (read_arg call 0 32) (\<lambda>k.
     bindG (on_heap (Read (call_s call) (storage_key a k))) (\<lambda>val.
     write_arg call 1 val)))"

definition sys_sha256 :: "vm_info \<Rightarrow> callCtx \<Rightarrow> (vm_state, unit) go" where
  "sys_sha256 info call =
     bindG (get_arg call 1) (\<lambda>n.
     if MaxByteArrayLen < n then throw ErrIllegalSyscallParameters
     else
       bindG (charge_gas ((n + 64) div 64 * GasSyscallSha256PerBlock)) (\<lambda>_.
       bindG (read_arg call 0 (unat n)) (\<lambda>buf.
       write_arg call 2 (sha256 (crypto_of info) buf))))"

definition sys_balance :: "callCtx \<Rightarrow> (vm_state, unit) go" where
  "sys_balance call =
     bindG (read_arg call 0 AddressLen) (\<lambda>a.
     bindG (on_heap (GetAccountInfo (call_s call) a)) (\<lambda>ai.
     set_arg call 0 (Balance ai)))"

text \<open>
  Loading a contract: the first load of an address reads its code, loads it as a new program and runs
  its start routine, which returns the entry point. A failure leaves the program slot taken.
\<close>

definition start_contract ::
  "(callCtx \<Rightarrow> (vm_state, u64) go) \<Rightarrow> callCtx \<Rightarrow> AddressType \<Rightarrow> nat \<Rightarrow> (vm_state, unit) go" where
  "start_contract exec call a i =
     bindG (loadContractCode call a) (\<lambda>elf.
     bindG (on_prog i (LoadELF elf 0)) (\<lambda>entry.
     bindG (set_sp i) (\<lambda>_.
     bindG (exec (sub_call call (call_s call) (prog_pc i entry) 0 [] CallStart)) (\<lambda>res.
     if unat (drop_bit 32 res) \<noteq> i then throw ErrIllegalEntry
     else modifyS (\<lambda>s. s\<lparr>prog_entry := (prog_entry s)(i := ucast res)\<rparr>)))))"

definition sys_load_contract :: "(callCtx \<Rightarrow> (vm_state, u64) go) \<Rightarrow> callCtx \<Rightarrow> (vm_state, unit) go" where
  "sys_load_contract exec call =
     bindG (read_arg call 0 AddressLen) (\<lambda>a.
     bindG (newProgram a) (\<lambda>(i, new).
     bindG (if new then start_contract exec call a i else ret ()) (\<lambda>_.
     bindG (getS (\<lambda>s. prog_entry s i)) (\<lambda>entry.
     set_arg call 0 (push_bit 32 (of_nat i) + ucast entry)))))"

text \<open>
  The last steps of a payment: the receiver's account is read before the payer's is written, and both
  are written.
\<close>

definition settle :: "slice_ptr \<Rightarrow> AddressType \<Rightarrow> AddressType \<Rightarrow> AccountInfo \<Rightarrow> u64 \<Rightarrow> (SliceHeap, unit) go" where
  "settle s from to selfInfo value =
     bindG (GetAccountInfo s to) (\<lambda>targetInfo.
     bindG (SetAccountInfo s from (selfInfo\<lparr>Balance := Balance selfInfo - value\<rparr>)) (\<lambda>_.
     SetAccountInfo s to (targetInfo\<lparr>Balance := Balance targetInfo + value\<rparr>)))"

text \<open>
  A protected call runs on a fork of the slice and with gas of its own. The fork is merged when the call
  returns; when it fails the caller learns the text of the error and the fork is dropped.
\<close>

definition protected_value :: "slice_ptr \<Rightarrow> AddressType \<Rightarrow> AddressType \<Rightarrow> u64 \<Rightarrow> (vm_state, unit) go" where
  "protected_value q from to v =
     (if v = 0 then ret ()
      else
        bindG (charge_gas GasTransfer) (\<lambda>_.
        bindG (on_heap (GetAccountInfo q from)) (\<lambda>selfInfo.
        if Balance selfInfo < v then throw ErrInsufficientBalance
        else on_heap (settle q from to selfInfo v))))"

definition protected_body ::
  "(callCtx \<Rightarrow> (vm_state, u64) go) \<Rightarrow> vm_info \<Rightarrow> callCtx \<Rightarrow> slice_ptr \<Rightarrow> u64 \<Rightarrow> u64 \<Rightarrow> u64 \<Rightarrow> (vm_state, error + u64) go" where
  "protected_body exec info call q callPc v gasLimit =
     bindG (getS (\<lambda>s. isValidJumpDest callPc s)) (\<lambda>ok.
     if of_nat MaxLoadedPrograms \<le> drop_bit 32 callPc then throw ErrIllegalSyscallParameters
     else if \<not> ok then throw ErrInvalidJumpDest
     else
       bindG (self_addr call) (\<lambda>from.
       bindG (getS (\<lambda>s. prog_addr s (unat (drop_bit 32 callPc)))) (\<lambda>to.
       bindG (protected_value q from to v) (\<lambda>_.
       bindG (on_heap (notify_transfer (callback_of info) q from to v [] (tx_of info) (ctx_of info))) (\<lambda>_.
       bindG (get_arg call 1) (\<lambda>a1.
       bindG (get_arg call 2) (\<lambda>a2.
       bindG (with_limit gasLimit (exec (sub_call call q callPc v [a1, a2] CallRegular))) (\<lambda>r.
       bindG (case r of
                Inl e \<Rightarrow> bindG (write_arg call 5 [0]) (\<lambda>_. write_arg call 6 (Error e @ [0]))
              | Inr x \<Rightarrow> write_arg call 5 [1]) (\<lambda>_.
       ret r)))))))))"

definition sys_protected_call :: "(callCtx \<Rightarrow> (vm_state, u64) go) \<Rightarrow> vm_info \<Rightarrow> callCtx \<Rightarrow> (vm_state, unit) go" where
  "sys_protected_call exec info call =
     bindG (get_arg call 0) (\<lambda>callPc.
     bindG (get_arg call 3) (\<lambda>v.
     bindG (get_arg call 4) (\<lambda>gasLimit.
     bindG (on_heap (ForkSlice (call_s call))) (\<lambda>q.
     bindG (protected_body exec info call q callPc v gasLimit) (\<lambda>r.
     case r of
       Inl e \<Rightarrow> ret ()
     | Inr x \<Rightarrow> bindG (on_heap (Merge q)) (\<lambda>_. set_arg call 0 x))))))"

definition sys_revert :: "callCtx \<Rightarrow> (vm_state, unit) go" where
  "sys_revert call =
     bindG (get_arg call 0) (\<lambda>p.
     bindG (on_mem (ReadString (call_prog call) p MaxRevertMsgLen)) (\<lambda>str.
     bindG (charge_gas (of_nat (length str) * GasSyscallRevertPerByte)) (\<lambda>_.
     throw (ErrReverted str))))"

definition sys_jumpdest :: "callCtx \<Rightarrow> (vm_state, unit) go" where
  "sys_jumpdest call =
     bindG (get_arg call 0) (\<lambda>target.
     if call_prog call \<noteq> drop_bit 32 target then throw ErrIllegalSyscallParameters
     else modifyS (\<lambda>s. s\<lparr>jumpDest := insert target (jumpDest s)\<rparr>))"

definition sys_transfer :: "vm_info \<Rightarrow> callCtx \<Rightarrow> (vm_state, unit) go" where
  "sys_transfer info call =
     bindG (read_arg call 0 AddressLen) (\<lambda>to.
     bindG (get_arg call 1) (\<lambda>v.
     bindG (self_addr call) (\<lambda>from.
     bindG (on_heap (GetAccountInfo (call_s call) from)) (\<lambda>selfInfo.
     if Balance selfInfo < v then throw ErrInsufficientBalance
     else
       bindG (get_arg call 3) (\<lambda>n.
       if MaxByteArrayLen < n then throw ErrIllegalSyscallParameters
       else
         bindG (charge_gas (n * GasSyscallTransferMessagePerByte)) (\<lambda>_.
         bindG (read_arg call 2 (unat n)) (\<lambda>buf.
         bindG (on_heap (settle (call_s call) from to selfInfo v)) (\<lambda>_.
         on_heap (notify_transfer (callback_of info) (call_s call) from to v buf (tx_of info) (ctx_of info))))))))))"

text \<open>
  Creating a contract. Its address is the hash of creator, flags, nonce and code; with \<^verbatim>\<open>CREATE_INIT\<close> the
  code is run once, in a program of its own, to find the entry point, and with \<^verbatim>\<open>CREATE_TRIMELF\<close> the
  file is trimmed before it is stored.
\<close>

definition run_init ::
  "(callCtx \<Rightarrow> (vm_state, u64) go) \<Rightarrow> callCtx \<Rightarrow> bytes \<Rightarrow> nat \<Rightarrow> (vm_state, u32) go" where
  "run_init exec call elf i =
     bindG (on_prog i (LoadELF elf 0)) (\<lambda>entry.
     bindG (set_sp i) (\<lambda>_.
     bindG (exec (sub_call call (call_s call) (prog_pc i entry) 0 [] CallInit)) (\<lambda>tEntry.
     if unat (drop_bit 32 tEntry) \<noteq> i then throw ErrIllegalEntry
     else ret (ucast tEntry))))"

definition trim_code :: "bytes \<Rightarrow> u32 \<Rightarrow> bytes res" where
  "trim_code elf newEntry =
     (case ParseELF elf of
        Ok e \<Rightarrow> TrimELF elf e [0x100FF000] (ucast (if NOT newEntry = 0 then Entry e else newEntry))
      | Err e \<Rightarrow> Err e | Panic \<Rightarrow> Panic | Diverge \<Rightarrow> Diverge)"

definition create ::
  "(callCtx \<Rightarrow> (vm_state, u64) go) \<Rightarrow> vm_info \<Rightarrow> callCtx \<Rightarrow> bytes \<Rightarrow> u64 \<Rightarrow> u64 \<Rightarrow> (vm_state, AddressType) go" where
  "create exec info call elf flags nonce =
     bindG (self_addr call) (\<lambda>self.
     let addr = sha256 (crypto_of info) (self @ le_bytes 8 flags @ le_bytes 8 nonce @ elf) in
     bindG (newProgram addr) (\<lambda>(i, new).
     if \<not> new then throw ErrContractExists
     else
       bindG (on_heap (Read (call_s call) (header_key addr))) (\<lambda>val.
       if val ! 0 = 1 then throw ErrContractExists
       else
         bindG (if flags AND 2 \<noteq> 0 then run_init exec call elf i else ret (NOT 0)) (\<lambda>newEntry.
         bindG (if flags AND 1 \<noteq> 0 then liftR (trim_code elf newEntry) else ret elf) (\<lambda>elf'.
         bindG (charge_gas (of_nat (code_blocks (length elf')) * GasSyscallCreateStorePerBlock)) (\<lambda>_.
         bindG (on_heap (storeContractCode (call_s call) addr elf')) (\<lambda>_.
         ret addr)))))))"

definition next_nonce :: "callCtx \<Rightarrow> u64 \<Rightarrow> u64 \<Rightarrow> (vm_state, u64) go" where
  "next_nonce call flags nonce =
     (if flags AND 4 = 0 then
        bindG (self_addr call) (\<lambda>self.
        bindG (on_heap (Read (call_s call) (nonce_key self))) (\<lambda>val.
        let n = le_word (take 8 val) in
        bindG (on_heap (Write (call_s call) (nonce_key self) (blit val 0 (le_bytes 8 (n + 1))))) (\<lambda>_.
        ret n)))
      else ret nonce)"

definition sys_create :: "(callCtx \<Rightarrow> (vm_state, u64) go) \<Rightarrow> vm_info \<Rightarrow> callCtx \<Rightarrow> (vm_state, unit) go" where
  "sys_create exec info call =
     bindG (get_arg call 2) (\<lambda>n.
     if MaxByteArrayLen < n then throw ErrIllegalSyscallParameters
     else
       bindG (charge_gas (n * GasSyscallCreatePerByte)) (\<lambda>_.
       bindG (read_arg call 1 (unat n)) (\<lambda>buf.
       bindG (get_arg call 3) (\<lambda>flags.
       bindG (get_arg call 4) (\<lambda>nonce.
       bindG (next_nonce call flags nonce) (\<lambda>nonce'.
       bindG (create exec info call buf flags nonce') (\<lambda>addr.
       write_arg call 0 addr)))))))"

definition sys_ed25519_verify :: "vm_info \<Rightarrow> callCtx \<Rightarrow> (vm_state, unit) go" where
  "sys_ed25519_verify info call =
     bindG (get_arg call 1) (\<lambda>n.
     if MaxByteArrayLen < n then throw ErrIllegalSyscallParameters
     else
       bindG (charge_gas ((n + 128 - 1) div 128 * GasSyscallEd25519PerBlock)) (\<lambda>_.
       bindG (read_arg call 0 (unat n)) (\<lambda>buf.
       bindG (read_arg call 2 PubkeyLen) (\<lambda>pk.
       bindG (read_arg call 3 SigLen) (\<lambda>sig.
       set_arg call 0 (if ed25519_verify (crypto_of info) pk buf sig then 1 else 0))))))"

definition sys_load_elf :: "callCtx \<Rightarrow> (vm_state, unit) go" where
  "sys_load_elf call =
     (if callType call \<noteq> CallStart then throw ErrIllegalSyscallParameters
      else
        bindG (read_arg call 0 AddressLen) (\<lambda>a.
        bindG (loadContractCode call a) (\<lambda>elf.
        bindG (get_arg call 1) (\<lambda>off.
        bindG (on_prog (prog_id call) (LoadELF elf (ucast off))) (\<lambda>entry.
        set_arg call 0 (push_bit 32 (call_prog call) OR ucast entry))))))"

text \<open>The switch. Every known number has a base price, which is charged first.\<close>

definition syscall_body ::
  "(callCtx \<Rightarrow> (vm_state, u64) go) \<Rightarrow> vm_info \<Rightarrow> callCtx \<Rightarrow> u64 \<Rightarrow> (vm_state, unit) go" where
  "syscall_body exec info call syscallId =
     (if syscallId = 1 then bindG (self_addr call) (write_arg call 0)
      else if syscallId = 2 then write_arg call 0 (origin info)
      else if syscallId = 3 then bindG (getS (\<lambda>s. prog_addr s (caller call))) (write_arg call 0)
      else if syscallId = 4 then set_arg call 0 (callValue call)
      else if syscallId = 5 then sys_storage_store call
      else if syscallId = 6 then sys_storage_load call
      else if syscallId = 7 then sys_sha256 info call
      else if syscallId = 8 then sys_balance call
      else if syscallId = 9 then sys_load_contract exec call
      else if syscallId = 10 then sys_protected_call exec info call
      else if syscallId = 11 then sys_revert call
      else if syscallId = 12 then set_arg call 0 (Time_ctx (ctx_of info))
      else if syscallId = 13 then write_arg call 0 (Miner_ctx (ctx_of info))
      else if syscallId = 14 then set_arg call 0 (u64_of_int (Height_ctx (ctx_of info)))
      else if syscallId = 15 then write_arg call 0 (Difficulty_ctx (ctx_of info))
      else if syscallId = 16 then set_arg call 0 (ucast (ChainId_ctx (ctx_of info)))
      else if syscallId = 17 then bindG (getS gas) (set_arg call 0)
      else if syscallId = 18 then sys_jumpdest call
      else if syscallId = 19 then sys_transfer info call
      else if syscallId = 20 then sys_create exec info call
      else if syscallId = 21 then sys_ed25519_verify info call
      else if syscallId = 22 then sys_load_elf call
      else ret ())"

definition execSyscall ::
  "(callCtx \<Rightarrow> (vm_state, u64) go) \<Rightarrow> vm_info \<Rightarrow> callCtx \<Rightarrow> u64 \<Rightarrow> (vm_state, unit) go" where
  "execSyscall exec info call syscallId =
     (case GasSyscallBase (int_of_u64 syscallId) of
        None \<Rightarrow> throw ErrInvalidSyscall
      | Some gasBase \<Rightarrow> bindG (charge_gas gasBase) (\<lambda>_. syscall_body exec info call syscallId))"

section \<open>Calls\<close>

text \<open>
  A call runs its program until the program returns to \<^verbatim>\<open>RetAddr\<close>. Whenever the program leaves its
  address range, the address is a system call or a jump destination of another program, which is called
  in turn. The code's two nested loops are one loop here: a turn runs the program when the program
  counter is in its range and deals with the address otherwise.
\<close>

definition RetAddr :: u64 where "RetAddr = 0xdeadbeef00000000"

fun exec_loop ::
  "(callCtx \<Rightarrow> (vm_state, u64) go) \<Rightarrow> vm_info \<Rightarrow> callCtx \<Rightarrow> nat \<Rightarrow> (vm_state, u64) go" where
  "exec_loop exec info call 0 = diverge"
| "exec_loop exec info call (Suc n) =
     bindG (getS (\<lambda>s. Pc (cpus s (prog_id call)))) (\<lambda>curPc.
     if drop_bit 32 curPc = call_prog call then
       bindG (on_cpu (prog_id call) Exec) (\<lambda>_. exec_loop exec info call n)
     else if curPc = RetAddr then get_arg call 0
     else if drop_bit 32 curPc = SyscallProg then
       if curPc AND 3 \<noteq> 0 then throw ErrInvalidSyscall
       else
         bindG (execSyscall exec info call (drop_bit 2 (2 ^ 63 - curPc))) (\<lambda>_.
         bindG (mod_cpu (prog_id call) Ret_cpu) (\<lambda>_.
         exec_loop exec info call n))
     else
       bindG (getS (isValidJumpDest curPc)) (\<lambda>ok.
       if \<not> ok then throw ErrInvalidJumpDest
       else
         bindG (get_arg call 0) (\<lambda>a0.
         bindG (get_arg call 1) (\<lambda>a1.
         bindG (exec (sub_call call (call_s call) curPc 0 [a0, a1] CallRegular)) (\<lambda>r.
         bindG (set_arg call 0 r) (\<lambda>_.
         bindG (mod_cpu (prog_id call) Ret_cpu) (\<lambda>_.
         exec_loop exec info call n)))))))"

fun set_args :: "nat \<Rightarrow> u64 list \<Rightarrow> CPU \<Rightarrow> CPU" where
  "set_args i [] cpu = cpu"
| "set_args i (x # xs) cpu = set_args (Suc i) xs (SetArg i x cpu)"

definition execVM_body ::
  "(callCtx \<Rightarrow> (vm_state, u64) go) \<Rightarrow> nat \<Rightarrow> vm_info \<Rightarrow> callCtx \<Rightarrow> (vm_state, u64) go" where
  "execVM_body exec n info call =
     (let call' = call\<lparr>call_prog := drop_bit 32 (call_pc call)\<rparr> in
      if of_nat MaxLoadedPrograms \<le> call_prog call' then throw (ErrVm ErrIllegalPc)
      else
        bindG (charge_gas GasCall) (\<lambda>_.
        restoring_cpu (prog_id call')
          (bindG (mod_cpu (prog_id call') (\<lambda>cpu. set_args 0 (call_args call) (SetCall (call_pc call) RetAddr cpu))) (\<lambda>_.
           exec_loop exec info call' n))))"

primrec execVM :: "nat \<Rightarrow> vm_info \<Rightarrow> callCtx \<Rightarrow> (vm_state, u64) go" where
  "execVM 0 info call = diverge"
| "execVM (Suc n) info call = execVM_body (execVM n info) (Suc n) info call"

section \<open>Entry points\<close>

text \<open>
  Running a transaction's code and running code for its result. The counter is one more than the gas,
  which is shown to be enough. \<^verbatim>\<open>newProgram\<close> cannot fail on a fresh memory, and its error is ignored as
  in the code.
\<close>

definition initPc :: u64 where "initPc = 0x10000000"

definition load_origin :: "AddressType \<Rightarrow> bytes \<Rightarrow> (vm_state, nat) go" where
  "load_origin a data =
     bindG (newProgram a) (\<lambda>(i, _).
     bindG (on_prog i (LoadRawCode data (ucast initPc))) (\<lambda>_.
     bindG (set_sp i) (\<lambda>_. ret i)))"

definition root_call :: "slice_ptr \<Rightarrow> nat \<Rightarrow> call_type \<Rightarrow> callCtx" where
  "root_call s i ty =
     \<lparr>call_s = s, call_pc = initPc, call_prog = 0, callValue = 0, call_args = [], caller = i, callType = ty\<rparr>"

definition run_raw :: "vm_info \<Rightarrow> nat \<Rightarrow> bytes \<Rightarrow> slice_ptr \<Rightarrow> call_type \<Rightarrow> (vm_state, u64) go" where
  "run_raw info n data s ty =
     bindG (load_origin (origin info) data) (\<lambda>i. execVM n info (root_call s i ty))"

text \<open>The result is the gas left together with the error, if there is one.\<close>

definition ExecVmTxRawCode :: "vm_info \<Rightarrow> u64 \<Rightarrow> bytes \<Rightarrow> slice_ptr \<Rightarrow> (SliceHeap, u64 \<times> error option) go" where
  "ExecVmTxRawCode info gasLimit data s h =
     (if gasLimit < GasVmTxRawCode then (Ok (gasLimit, Some (ErrVm ErrInsufficientGas)), h)
      else
        case run_raw info (unat gasLimit + 1) data s CallExternal (newVmCtx (gasLimit - GasVmTxRawCode) h) of
          (Ok _, t) \<Rightarrow> (Ok (gas t, None), heap t)
        | (Err e, t) \<Rightarrow> (Ok (gas t, Some e), heap t)
        | (Panic, t) \<Rightarrow> (Panic, heap t)
        | (Diverge, t) \<Rightarrow> (Diverge, heap t))"

text \<open>
  The result of a view is a length and that many bytes, read on behalf of program 0. A length over a
  megabyte ends the call with no bytes and no error: the error returned there is the nil of the read
  before.
\<close>

definition read_result :: "u64 \<Rightarrow> (vm_state, bytes) go" where
  "read_result p =
     bindG (on_mem (ReadBytes 0 p 8)) (\<lambda>lenb.
     let n = le_word lenb :: u64 in
     if 2 ^ 20 < n then ret []
     else
       bindG (getS gas) (\<lambda>g.
       if g < n then throw (ErrVm ErrInsufficientGas)
       else on_mem (ReadBytes 0 (p + 8) (unat n))))"

definition ExecVmViewRawCode :: "vm_info \<Rightarrow> u64 \<Rightarrow> bytes \<Rightarrow> slice_ptr \<Rightarrow> (SliceHeap, bytes) go" where
  "ExecVmViewRawCode info gasLimit data s h =
     (case bindG (run_raw info (unat gasLimit + 1) data s CallView) read_result (newVmCtx gasLimit h) of
        (r, t) \<Rightarrow> (r, heap t))"

end
