(* ===== verification/Vm_Safety.thy ===== *)
theory Vm_Safety
  imports Vm
begin

text \<open>
  What holds of every contract run. A run on a slice touches no other slice and no account's nonce, never
  adds gas, and ends: a counter above the gas is never exhausted, and a larger one changes nothing.

  \<open>good n p Q m\<close> states the first three for a computation \<open>m\<close> that works on slice \<open>p\<close> from a store with
  \<open>Q\<close>, and that \<open>m\<close> ends whenever there is less gas than \<open>n\<close>. The rules in \<open>runs_intro\<close> follow the
  combinators, so that a system call is checked by one step. The locale \<open>vm_callee\<close> is the contract of
  the calls a program makes; the induction over the counter shows that \<open>execVM\<close> keeps it.
\<close>

section \<open>The contract of a computation\<close>

definition nonces :: "SliceHeap \<Rightarrow> slice_ptr \<Rightarrow> AddressType \<Rightarrow> u64" where
  "nonces h p a = AccountNonce (acct h p a)"

definition kept :: "slice_ptr \<Rightarrow> SliceHeap \<Rightarrow> SliceHeap \<Rightarrow> bool" where
  "kept p h h' \<longleftrightarrow> frame h p h' \<and> nonces h' p = nonces h p"

definition good :: "nat \<Rightarrow> slice_ptr \<Rightarrow> (SliceHeap \<Rightarrow> bool) \<Rightarrow> (vm_state, 'a) go \<Rightarrow> bool" where
  "good n p Q m \<longleftrightarrow> (\<forall>s. writable (heap s) p \<and> Q (heap s) \<longrightarrow>
     kept p (heap s) (heap (snd (m s))) \<and> gas (snd (m s)) \<le> gas s \<and>
     (unat (gas s) < n \<longrightarrow> fst (m s) \<noteq> Diverge))"

abbreviation runs :: "nat \<Rightarrow> slice_ptr \<Rightarrow> (vm_state, 'a) go \<Rightarrow> bool" where
  "runs n p m \<equiv> good n p (\<lambda>_. True) m"

definition burns :: "slice_ptr \<Rightarrow> (vm_state, 'a) go \<Rightarrow> bool" where
  "burns p m \<longleftrightarrow> (\<forall>s x t. writable (heap s) p \<longrightarrow> m s = (Ok x, t) \<longrightarrow> unat (gas t) < unat (gas s))"

definition heap_runs :: "slice_ptr \<Rightarrow> (SliceHeap \<Rightarrow> bool) \<Rightarrow> (SliceHeap, 'a) go \<Rightarrow> bool" where
  "heap_runs p Q m \<longleftrightarrow> (\<forall>h. writable h p \<and> Q h \<longrightarrow> kept p h (snd (m h)) \<and> fst (m h) \<noteq> Diverge)"

named_theorems runs_intro "computations that keep the contract of a run"

lemma kept_refl: "writable h p \<Longrightarrow> kept p h h"
  by (auto simp: kept_def writable_def intro: frame_refl)

lemma kept_trans: "writable h p \<Longrightarrow> kept p h h1 \<Longrightarrow> kept p h1 h2 \<Longrightarrow> kept p h h2"
  by (auto simp: kept_def intro: slice_kv.frm_trans)

lemma kept_writable: "kept p h h' \<Longrightarrow> writable h q \<Longrightarrow> writable h' q"
  by (auto simp: kept_def intro: frame_writable)

lemma goodD:
  assumes "good n p Q m" and "m s = (r, t)" and "writable (heap s) p" and "Q (heap s)"
  shows "kept p (heap s) (heap t)" and "gas t \<le> gas s" and "unat (gas s) < n \<Longrightarrow> r \<noteq> Diverge"
    and "writable (heap t) p"
proof -
  have "kept p (heap s) (heap t) \<and> gas t \<le> gas s \<and> (unat (gas s) < n \<longrightarrow> r \<noteq> Diverge)"
    using assms(1,3,4) unfolding good_def by (metis assms(2) fst_conv snd_conv)
  then show "kept p (heap s) (heap t)" and "gas t \<le> gas s" and "unat (gas s) < n \<Longrightarrow> r \<noteq> Diverge" by auto
  then show "writable (heap t) p" using kept_writable assms(3) by blast
qed

lemma goodI:
  assumes "\<And>s r t. m s = (r, t) \<Longrightarrow> writable (heap s) p \<Longrightarrow> Q (heap s) \<Longrightarrow>
    kept p (heap s) (heap t) \<and> gas t \<le> gas s \<and> (unat (gas s) < n \<longrightarrow> r \<noteq> Diverge)"
  shows "good n p Q m"
  using assms unfolding good_def by (metis prod.collapse)

lemma good_weaken: "good n p Q m \<Longrightarrow> k \<le> n \<Longrightarrow> (\<And>h. R h \<Longrightarrow> Q h) \<Longrightarrow> good k p R m"
  by (auto simp: good_def)

lemma good_bindG_post:
  assumes m: "good n p Q m"
    and post: "\<And>s x t. writable (heap s) p \<Longrightarrow> Q (heap s) \<Longrightarrow> m s = (Ok x, t) \<Longrightarrow> R x (heap t)"
    and f: "\<And>x. good n p (R x) (f x)"
  shows "good n p Q (bindG m f)"
proof (rule goodI)
  fix s r t assume run: "bindG m f s = (r, t)" and w: "writable (heap s) p" "Q (heap s)"
  obtain r1 s1 where m1: "m s = (r1, s1)" by (cases "m s")
  note 1 = goodD [OF m m1 w]
  show "kept p (heap s) (heap t) \<and> gas t \<le> gas s \<and> (unat (gas s) < n \<longrightarrow> r \<noteq> Diverge)"
  proof (cases r1)
    case (Ok x)
    with run m1 have "f x s1 = (r, t)" by (simp add: bindG_def)
    from goodD [OF f this 1(4)] post [OF w] m1 Ok
    have 2: "kept p (heap s1) (heap t)" "gas t \<le> gas s1" "unat (gas s1) < n \<Longrightarrow> r \<noteq> Diverge" by blast+
    have "unat (gas s1) \<le> unat (gas s)" using 1(2) by (simp add: word_le_nat_alt)
    with 1 2 kept_trans [OF w(1)] show ?thesis by (auto intro: order_trans)
  qed (use run m1 1 in \<open>auto simp: bindG_def\<close>)
qed

lemma runs_bindG [runs_intro]:
  assumes "good n p Q m" and "\<And>x. runs n p (f x)"
  shows "good n p Q (bindG m f)"
  by (rule good_bindG_post [OF assms(1), where R = "\<lambda>_ _. True"]) (simp_all add: assms(2))

lemma runs_burn:
  assumes m: "runs n p m" and b: "burns p m" and f: "\<And>x. runs (n - 1) p (f x)"
  shows "runs n p (bindG m f)"
proof (rule goodI)
  fix s r t assume run: "bindG m f s = (r, t)" and w: "writable (heap s) p" "True"
  obtain r1 s1 where m1: "m s = (r1, s1)" by (cases "m s")
  note 1 = goodD [OF m m1 w]
  show "kept p (heap s) (heap t) \<and> gas t \<le> gas s \<and> (unat (gas s) < n \<longrightarrow> r \<noteq> Diverge)"
  proof (cases r1)
    case (Ok x)
    with run m1 have "f x s1 = (r, t)" by (simp add: bindG_def)
    note 2 = goodD [OF f this 1(4) TrueI]
    have "unat (gas s1) < unat (gas s)" using b m1 Ok w(1) unfolding burns_def by blast
    with 1 2 kept_trans [OF w(1)] show ?thesis by (auto intro: order_trans)
  qed (use run m1 1 in \<open>auto simp: bindG_def\<close>)
qed

lemma runs_basic [runs_intro]:
  "good n p Q (ret x)" "good n p Q (throw e)" "good n p Q panic" "good n p Q (getS f)"
  by (simp_all add: good_def go_run kept_refl)

lemma runs_diverge: "good 0 p Q diverge"
  by (simp add: good_def go_run kept_refl)

lemma runs_if [runs_intro]: "(b \<Longrightarrow> good n p Q m) \<Longrightarrow> (\<not> b \<Longrightarrow> good n p Q k) \<Longrightarrow> good n p Q (if b then m else k)"
  by simp

lemma runs_option [runs_intro]:
  "good n p Q m \<Longrightarrow> (\<And>x. good n p Q (f x)) \<Longrightarrow> good n p Q (case o1 of None \<Rightarrow> m | Some x \<Rightarrow> f x)"
  by (cases o1) simp_all

lemma runs_prod [runs_intro]: "(\<And>a b. good n p Q (f a b)) \<Longrightarrow> good n p Q (case z of (a, b) \<Rightarrow> f a b)"
  by (cases z) simp

lemma runs_sum [runs_intro]:
  "(\<And>x. good n p Q (f x)) \<Longrightarrow> (\<And>y. good n p Q (g y)) \<Longrightarrow> good n p Q (case z of Inl x \<Rightarrow> f x | Inr y \<Rightarrow> g y)"
  by (cases z) simp_all

lemma runs_liftR: "r \<noteq> Diverge \<Longrightarrow> good n p Q (liftR r)"
  by (simp add: good_def liftR_run kept_refl)

lemma runs_modifyS: "(\<And>s. heap (f s) = heap s \<and> gas (f s) = gas s) \<Longrightarrow> good n p Q (modifyS f)"
  by (simp add: good_def modifyS_run kept_refl)

lemma runs_mod_cpu [runs_intro]: "good n p Q (mod_cpu i f)"
  unfolding mod_cpu_def by (rule runs_modifyS) (simp add: set_cpu_def)

lemma runs_charge [runs_intro]: "good n p Q (charge_gas c)"
  by (auto simp: good_def charge_gas_def not_less word_le_nat_alt unat_sub kept_refl)

lemma runs_on_mem: "lowers snd m \<Longrightarrow> good n p Q (on_mem m)"
  by (rule goodI) (auto simp: on_mem_def kept_refl dest: lowersD split: prod.splits)

lemma runs_on_prog: "lowers snd m \<Longrightarrow> good n p Q (on_prog i m)"
  by (rule goodI) (auto simp: on_prog_def kept_refl dest: lowersD split: prod.splits option.splits)

lemma runs_on_cpu: "lowers (\<lambda>s. snd (snd s)) m \<Longrightarrow> good n p Q (on_cpu i m)"
  by (rule goodI) (auto simp: on_cpu_def set_cpu_def kept_refl dest: lowersD split: prod.splits)

lemma runs_on_heap: "heap_runs p Q m \<Longrightarrow> good n p Q (on_heap m)"
  by (auto simp: good_def heap_runs_def on_heap_def split: prod.splits)

lemma runs_restoring_cpu [runs_intro]: "good n p Q m \<Longrightarrow> good n p Q (restoring_cpu i m)"
  by (rule goodI) (auto simp: restoring_cpu_def set_cpu_def split: prod.splits dest: goodD)

lemma runs_with_limit [runs_intro]:
  assumes "good n p Q m"
  shows "good n p Q (with_limit l m)"
proof (rule goodI)
  fix s r t assume run: "with_limit l m s = (r, t)" and w: "writable (heap s) p" "Q (heap s)"
  define k where "k = (if gas s < l then gas s else l)"
  obtain r1 t1 where m1: "m (s\<lparr>gas := k\<rparr>) = (r1, t1)" by (cases "m (s\<lparr>gas := k\<rparr>)")
  have k: "k \<le> gas s" by (simp add: k_def not_less)
  note 1 = goodD [OF assms m1, simplified, OF w]
  have "gas s - (k - gas t1) \<le> gas s"
    using k 1(2) by (simp add: word_le_nat_alt unat_sub)
  moreover have "unat k \<le> unat (gas s)" using k by (simp add: word_le_nat_alt)
  ultimately show "kept p (heap s) (heap t) \<and> gas t \<le> gas s \<and> (unat (gas s) < n \<longrightarrow> r \<noteq> Diverge)"
    using run m1 1 by (auto simp: with_limit_def Let_def k_def [symmetric] split: res.splits)
qed

lemma burns_charge:
  assumes "c \<noteq> 0" and "runs 0 p (f ())"
  shows "burns p (bindG (charge_gas c) f)"
  unfolding burns_def
proof (intro allI impI)
  fix s x t assume w: "writable (heap s) p" and "bindG (charge_gas c) f s = (Ok x, t)"
  then have c: "c \<le> gas s" and f: "f () (s\<lparr>gas := gas s - c\<rparr>) = (Ok x, t)"
    by (auto simp: charge_gas_def bindG_def not_less split: if_splits)
  have "gas t \<le> gas s - c" using goodD(2) [OF assms(2) f] w by simp
  moreover have "0 < unat c" using assms(1) by (simp add: unat_gt_0)
  ultimately show "unat (gas t) < unat (gas s)" using c by (simp add: word_le_nat_alt unat_sub)
qed

section \<open>The store\<close>

lemma heap_runsD:
  assumes "heap_runs p Q m" and "m h = (r, h')" and "writable h p" and "Q h"
  shows "kept p h h'" and "r \<noteq> Diverge" and "writable h' p"
proof -
  have "kept p h h' \<and> r \<noteq> Diverge"
    using assms(1,3,4) unfolding heap_runs_def by (metis assms(2) fst_conv snd_conv)
  then show "kept p h h'" and "r \<noteq> Diverge" by auto
  then show "writable h' p" using kept_writable assms(3) by blast
qed

lemma heap_runs_bindG:
  assumes "heap_runs p Q m" and "\<And>x. heap_runs p (\<lambda>_. True) (f x)"
  shows "heap_runs p Q (bindG m f)"
  unfolding heap_runs_def
proof (intro allI impI)
  fix h assume w: "writable h p \<and> Q h"
  obtain r1 h1 where m1: "m h = (r1, h1)" by (cases "m h")
  note 1 = heap_runsD [OF assms(1) m1 conjunct1 [OF w] conjunct2 [OF w]]
  show "kept p h (snd (bindG m f h)) \<and> fst (bindG m f h) \<noteq> Diverge"
  proof (cases r1)
    case (Ok x)
    obtain r2 h2 where f2: "f x h1 = (r2, h2)" by (cases "f x h1")
    note 2 = heap_runsD [OF assms(2) f2 1(3) TrueI]
    with m1 Ok f2 kept_trans [OF conjunct1 [OF w] 1(1) 2(1)] show ?thesis by (simp add: bindG_def)
  qed (use m1 1 in \<open>auto simp: bindG_def\<close>)
qed

lemma heap_runs_ret: "heap_runs p Q (ret x)"
  by (simp add: heap_runs_def ret_run kept_refl)

lemma heap_runs_Read: "heap_runs p Q (Read p k)"
  by (simp add: heap_runs_def Read_view writable_live kept_refl)

lemma heap_runs_GetAccountInfo: "heap_runs p Q (GetAccountInfo p a)"
  by (simp add: heap_runs_def accounts.get_run kept_refl)

lemma heap_runs_Write:
  assumes "\<And>a. k \<noteq> acct_key a"
  shows "heap_runs p Q (Write p k v)"
  unfolding heap_runs_def
proof (intro allI impI)
  fix h assume "writable h p \<and> Q h"
  then obtain h' where w: "Write p k v h = (Ok (), h')" "slice_view h' p = (slice_view h p)(k := v)" "frame h p h'"
    using slice_kv.wrt_wr [of h p k v] by metis
  have "acct_key a \<noteq> k" for a using assms [of a] by simp
  then have "nonces h' p = nonces h p" by (intro ext) (simp add: nonces_def acct_def w(2))
  with w show "kept p h (snd (Write p k v h)) \<and> fst (Write p k v h) \<noteq> Diverge" by (simp add: kept_def)
qed

lemma heap_runs_silent: "silent p m \<Longrightarrow> heap_runs p Q m"
  unfolding heap_runs_def kept_def nonces_def by (metis fst_conv res.distinct(5) silentD snd_conv)

lemma contract_keys:
  "header_key a \<noteq> acct_key b" "nonce_key a \<noteq> acct_key b" "code_key a i \<noteq> acct_key b" "storage_key a k \<noteq> acct_key b"
proof -
  have last: "last (acct_key b) = 0" by (simp add: acct_key_def)
  show "header_key a \<noteq> acct_key b"
  proof
    assume "header_key a = acct_key b"
    with last have "last (header_key a) = 0" by simp
    then show False by (simp add: header_key_def)
  qed
  show "nonce_key a \<noteq> acct_key b"
  proof
    assume "nonce_key a = acct_key b"
    with last have "last (nonce_key a) = 0" by simp
    then show False by (simp add: nonce_key_def)
  qed
qed (simp_all add: code_key_def storage_key_def acct_key_def)

lemma heap_runs_read_blocks: "heap_runs p Q (read_blocks p a i n)"
  by (rule heap_runs_def [THEN iffD2]) (simp add: read_blocks_run writable_live kept_refl)

lemma heap_runs_write_blocks: "heap_runs p (\<lambda>_. True) (write_blocks p a elf i n)"
  by (induction n arbitrary: i) (auto intro!: heap_runs_bindG heap_runs_ret heap_runs_Write contract_keys)

lemma heap_runs_storeContractCode: "heap_runs p Q (storeContractCode p a elf)"
  unfolding storeContractCode_def
  by (intro heap_runs_bindG heap_runs_Write contract_keys heap_runs_write_blocks)

text \<open>The payer's account, written back, is the one that was read.\<close>

lemma heap_runs_settle: "heap_runs p (\<lambda>h. acct h p a = info) (settle p a b info v)"
  unfolding heap_runs_def
proof (intro allI impI)
  fix h assume w: "writable h p \<and> acct h p a = info"
  obtain h1 where 1: "SetAccountInfo p a (info\<lparr>Balance := Balance info - v\<rparr>) h = (Ok (), h1)"
    "acct h1 p = (acct h p)(a := info\<lparr>Balance := Balance info - v\<rparr>)" "frame h p h1" "writable h1 p"
    using accounts.set_wr conjunct1 [OF w] .
  let ?t = "acct h p b"
  obtain h2 where 2: "SetAccountInfo p b (?t\<lparr>Balance := Balance ?t + v\<rparr>) h1 = (Ok (), h2)"
    "acct h2 p = (acct h1 p)(b := ?t\<lparr>Balance := Balance ?t + v\<rparr>)" "frame h1 p h2"
    using accounts.set_wr [OF 1(4)] .
  have "settle p a b info v h = (Ok (), h2)"
    using w 1 2 by (simp add: settle_def bindG_Ok accounts.get_run)
  moreover have "nonces h2 p = nonces h p"
    using w by (intro ext) (simp add: nonces_def 1(2) 2(2))
  ultimately show "kept p h (snd (settle p a b info v h)) \<and> fst (settle p a b info v h) \<noteq> Diverge"
    using slice_kv.frm_trans 1(3) 2(3) w by (auto simp: kept_def)
qed

text \<open>Work on a fork that is merged or dropped is work on the slice.\<close>

lemma runs_fork:
  assumes body: "\<And>q. runs n q (body q)" and fin: "\<And>x s. \<exists>t. fin x s = (Ok (), t) \<and> heap t = heap s \<and> gas t = gas s"
  shows "runs n p (bindG (on_heap (ForkSlice p)) (\<lambda>q. bindG (body q) (\<lambda>r.
    case r of Inl e \<Rightarrow> ret () | Inr x \<Rightarrow> bindG (on_heap (Merge q)) (\<lambda>_. fin x))))" (is "runs n p ?m")
proof (rule goodI)
  fix s r t assume run: "?m s = (r, t)" and w: "writable (heap s) p"
  obtain q h1 where f: "ForkSlice p (heap s) = (Ok q, h1)" "forked (heap s) p h1 q" "writable h1 q"
    "slice_view h1 q = slice_view (heap s) p"
    using slice_fork.fk_run [OF w] by blast
  obtain r2 s2 where b: "body q (s\<lparr>heap := h1\<rparr>) = (r2, s2)" by (cases "body q (s\<lparr>heap := h1\<rparr>)")
  note 2 = goodD [OF body b, simplified, OF f(3)]
  have fd: "forked (heap s) p (heap s2) q" using slice_fork.fkd_frm f(2) 2(1) by (auto simp: kept_def)
  have n: "nonces (heap s2) q = nonces (heap s) p"
    using 2(1) f(4) by (simp add: kept_def nonces_def acct_def fun_eq_iff)
  have drop: "kept p (heap s) (heap s2)"
    using slice_fork.fkd_frame [OF fd] by (simp add: kept_def nonces_def acct_def fun_eq_iff)
  have step: "?m s = (case r2 of Ok (Inr x) \<Rightarrow> bindG (on_heap (Merge q)) (\<lambda>_. fin x) s2
      | Ok (Inl e) \<Rightarrow> (Ok (), s2) | Err e \<Rightarrow> (Err e, s2) | Panic \<Rightarrow> (Panic, s2) | Diverge \<Rightarrow> (Diverge, s2))"
    using f(1) b by (simp add: bindG_def on_heap_def ret_run split: res.splits sum.splits)
  show "kept p (heap s) (heap t) \<and> gas t \<le> gas s \<and> (unat (gas s) < n \<longrightarrow> r \<noteq> Diverge)"
  proof (cases "\<exists>x. r2 = Ok (Inr x)")
    case True
    then obtain x where x: "r2 = Ok (Inr x)" by blast
    obtain h3 where m: "Merge q (heap s2) = (Ok (), h3)" "slice_view h3 p = slice_view (heap s2) q" "frame (heap s) p h3"
      using slice_fork.mrg_run [OF fd] by blast
    obtain t' where t': "fin x (s2\<lparr>heap := h3\<rparr>) = (Ok (), t')" "heap t' = h3" "gas t' = gas s2"
      using fin [of x "s2\<lparr>heap := h3\<rparr>"] by auto
    have "r = Ok () \<and> t = t'" using run step x m t' by (simp add: bindG_Ok on_heap_def)
    moreover have "nonces h3 p = nonces (heap s) p" using n m(2) by (simp add: nonces_def acct_def fun_eq_iff)
    ultimately show ?thesis using m t' 2(2) by (simp add: kept_def)
  next
    case False
    with run step have "t = s2 \<and> (r2 \<noteq> Diverge \<longrightarrow> r \<noteq> Diverge)" by (auto split: res.splits sum.splits)
    with drop 2 show ?thesis by auto
  qed
qed

section \<open>The system calls\<close>

lemma runs_get_arg [runs_intro]: "good n p Q (get_arg call i)"
  unfolding get_arg_def by (intro runs_intro)

lemma runs_set_arg [runs_intro]: "good n p Q (set_arg call i v)"
  unfolding set_arg_def by (intro runs_intro)

lemma runs_self_addr [runs_intro]: "good n p Q (self_addr call)"
  unfolding self_addr_def by (intro runs_intro)

lemma runs_read_arg [runs_intro]: "good n p Q (read_arg call i k)"
  unfolding read_arg_def by (intro runs_intro runs_on_mem ReadBytes_lowers)

lemma runs_write_arg [runs_intro]: "good n p Q (write_arg call i d)"
  unfolding write_arg_def by (intro runs_intro runs_on_mem WriteBytes_lowers)

lemma runs_set_sp [runs_intro]: "good n p Q (set_sp i)"
  unfolding set_sp_def by (intro runs_intro)

lemma runs_newProgram [runs_intro]: "good n p Q (newProgram a)"
proof -
  have "good n p Q (bindG (on_mem (on_fst NewProgram)) (\<lambda>i.
      bindG (modifyS (\<lambda>s. s\<lparr>prog_addr := (prog_addr s)(i := a), loadId := (loadId s)(a \<mapsto> i)\<rparr>)) (\<lambda>_. ret (i, True))))"
    by (intro runs_intro runs_on_mem lowers_on_fst NewProgram_ends runs_modifyS) simp
  then show ?thesis by (auto simp: good_def newProgram_def kept_refl split: option.splits)
qed

lemmas heap_runs_basic =
  heap_runs_Read heap_runs_Write heap_runs_GetAccountInfo heap_runs_read_blocks heap_runs_storeContractCode contract_keys

lemma runs_loadContractCode [runs_intro]: "runs n (call_s call) (loadContractCode call a)"
  unfolding loadContractCode_def Let_def
  by (intro runs_intro runs_on_heap heap_runs_basic runs_modifyS) simp

lemma runs_storage_store: "runs n (call_s call) (sys_storage_store call)"
  unfolding sys_storage_store_def by (intro runs_intro runs_on_heap heap_runs_basic)

lemma runs_storage_load: "runs n (call_s call) (sys_storage_load call)"
  unfolding sys_storage_load_def by (intro runs_intro runs_on_heap heap_runs_basic)

lemma runs_sha256: "runs n p (sys_sha256 info call)"
  unfolding sys_sha256_def by (intro runs_intro)

lemma runs_balance: "runs n (call_s call) (sys_balance call)"
  unfolding sys_balance_def by (intro runs_intro runs_on_heap heap_runs_basic)

lemma runs_revert: "runs n p (sys_revert call)"
  unfolding sys_revert_def by (intro runs_intro runs_on_mem ReadString_lowers) (simp add: MaxRevertMsgLen_def)

lemma runs_jumpdest: "runs n p (sys_jumpdest call)"
  unfolding sys_jumpdest_def by (intro runs_intro runs_modifyS) simp

lemma runs_ed25519: "runs n p (sys_ed25519_verify info call)"
  unfolding sys_ed25519_verify_def by (intro runs_intro)

lemma runs_load_elf: "runs n (call_s call) (sys_load_elf call)"
  unfolding sys_load_elf_def by (intro runs_intro runs_on_prog LoadELF_lowers)

lemma runs_next_nonce [runs_intro]: "runs n (call_s call) (next_nonce call flags nonce)"
  unfolding next_nonce_def Let_def by (intro runs_intro runs_on_heap heap_runs_basic)

lemma runs_get_account:
  assumes "\<And>i. good n p (\<lambda>h. acct h p a = i) (f i)"
  shows "good n p Q (bindG (on_heap (GetAccountInfo p a)) f)"
  by (rule good_bindG_post [where R = "\<lambda>i h. acct h p a = i"])
     (auto simp: on_heap_def accounts.get_run assms intro!: runs_on_heap heap_runs_GetAccountInfo)

text \<open>A step that leaves the store alone keeps what is known of it.\<close>

lemma good_bindG_same:
  assumes "good n p Q m" and "\<And>s x t. m s = (Ok x, t) \<Longrightarrow> heap t = heap s" and "\<And>x. good n p Q (f x)"
  shows "good n p Q (bindG m f)"
  by (rule good_bindG_post [OF assms(1), where R = "\<lambda>_. Q"]) (auto simp: assms)

lemma same_heap:
  "charge_gas c s = (r, t) \<Longrightarrow> heap t = heap s" "get_arg call i s = (q, t) \<Longrightarrow> heap t = heap s"
  "read_arg call i k s = (z, t) \<Longrightarrow> heap t = heap s"
  by (auto simp: charge_gas_def get_arg_def getS_run read_arg_def bindG_def on_mem_def split: if_splits prod.splits res.splits)

lemma runs_protected_value [runs_intro]: "runs n p (protected_value p a b v)"
  unfolding protected_value_def
  by (rule runs_if [OF runs_basic(1)], rule runs_bindG [OF runs_charge], rule runs_get_account, rule runs_if [OF runs_basic(2)],
      intro runs_on_heap heap_runs_settle)

lemma runs_transfer:
  assumes "safe_callback (callback_of info)"
  shows "runs n (call_s call) (sys_transfer info call)"
proof -
  have pay: "good n p (\<lambda>h. acct h p from = i)
      (bindG (get_arg call 3) (\<lambda>n. if MaxByteArrayLen < n then throw ErrIllegalSyscallParameters
       else bindG (charge_gas (n * GasSyscallTransferMessagePerByte)) (\<lambda>_.
         bindG (read_arg call 2 (unat n)) (\<lambda>buf.
         bindG (on_heap (settle p from to i v)) (\<lambda>_.
         on_heap (notify_transfer (callback_of info) p from to v buf (tx_of info) (ctx_of info)))))))" for n p "from" i to v
    by (intro good_bindG_same runs_if runs_intro runs_on_heap heap_runs_settle heap_runs_silent
        notify_transfer_silent assms) (auto dest: same_heap)
  show ?thesis
    unfolding sys_transfer_def
    by (rule runs_bindG [OF runs_read_arg], rule runs_bindG [OF runs_get_arg], rule runs_bindG [OF runs_self_addr],
        rule runs_get_account, rule runs_if [OF runs_basic(2) pay])
qed

section \<open>Calls\<close>

declare exec_loop.simps [simp del]

text \<open>The contract of the calls that system calls and jumps make.\<close>

locale vm_callee =
  fixes n :: nat
    and exec :: "callCtx \<Rightarrow> (vm_state, u64) go"
  assumes exec_runs: "runs n (call_s call) (exec call)"
    and exec_burns: "burns (call_s call) (exec call)"
begin

lemma exec_sub: "runs n p (exec (sub_call call p pc v args ty))"
  using exec_runs [of "sub_call call p pc v args ty"] by (simp add: sub_call_def)

lemma runs_start_contract: "runs n (call_s call) (start_contract exec call a i)"
  unfolding start_contract_def by (intro runs_intro runs_on_prog LoadELF_lowers exec_sub runs_modifyS) simp

lemma runs_load_contract: "runs n (call_s call) (sys_load_contract exec call)"
  unfolding sys_load_contract_def by (intro runs_intro runs_start_contract)

lemma runs_protected_body:
  "safe_callback (callback_of info) \<Longrightarrow> runs n q (protected_body exec info call q callPc v gasLimit)"
  unfolding protected_body_def
  by (intro runs_intro runs_on_heap heap_runs_silent notify_transfer_silent exec_sub)

lemma runs_protected_call:
  "safe_callback (callback_of info) \<Longrightarrow> runs n (call_s call) (sys_protected_call exec info call)"
  unfolding sys_protected_call_def
  by (intro runs_bindG [OF runs_get_arg] runs_fork runs_protected_body)
     (auto simp: set_arg_def mod_cpu_def modifyS_run set_cpu_def)

lemma runs_run_init: "runs n (call_s call) (run_init exec call elf i)"
  unfolding run_init_def by (intro runs_intro runs_on_prog LoadELF_lowers exec_sub)

lemma trim_code_ends: "trim_code elf e \<noteq> Diverge"
  using ParseELF_ends [of elf] TrimELF_ends by (auto simp: trim_code_def split: res.splits)

lemma runs_create: "runs n (call_s call) (create exec info call elf flags nonce)"
  unfolding create_def Let_def
  by (intro runs_intro runs_on_heap heap_runs_basic runs_run_init runs_liftR trim_code_ends)

lemma runs_sys_create: "runs n (call_s call) (sys_create exec info call)"
  unfolding sys_create_def by (intro runs_intro runs_create)

lemma runs_syscall_body:
  assumes "safe_callback (callback_of info)"
  shows "runs n (call_s call) (syscall_body exec info call i)"
  unfolding syscall_body_def
  by (intro runs_intro runs_storage_store runs_storage_load runs_sha256 runs_balance runs_load_contract
      runs_protected_call runs_revert runs_jumpdest runs_transfer runs_sys_create runs_ed25519 runs_load_elf assms)

lemma runs_execSyscall:
  "safe_callback (callback_of info) \<Longrightarrow> runs n (call_s call) (execSyscall exec info call i)"
  unfolding execSyscall_def by (intro runs_intro runs_syscall_body)

lemma gas_base_pos: "GasSyscallBase i = Some c \<Longrightarrow> c \<noteq> 0"
  by (auto simp: GasSyscallBase_def split: if_splits)

lemma burns_execSyscall:
  assumes "safe_callback (callback_of info)"
  shows "burns (call_s call) (execSyscall exec info call i)"
proof (cases "GasSyscallBase (int_of_u64 i)")
  case None
  then show ?thesis by (simp add: burns_def execSyscall_def throw_run)
next
  case (Some c)
  have "runs 0 (call_s call) (syscall_body exec info call i)"
    by (rule good_weaken [OF runs_syscall_body [OF assms]]) auto
  with Some gas_base_pos show ?thesis by (auto simp: execSyscall_def intro: burns_charge)
qed

lemma burns_Exec: "burns p (on_cpu i Exec)"
  unfolding burns_def on_cpu_def by (auto simp: set_cpu_def split: prod.splits dest!: Exec_burns)

lemma runs_loop:
  assumes "safe_callback (callback_of info)"
  shows "runs (min n k) (call_s call) (exec_loop exec info call k)"
proof (induction k)
  case 0
  show ?case by (simp add: runs_diverge exec_loop.simps(1))
next
  case (Suc k)
  let ?n = "min n (Suc k)"
  have IH: "runs (?n - 1) (call_s call) (exec_loop exec info call k)"
    by (rule good_weaken [OF Suc.IH]) auto
  have sys: "runs ?n (call_s call) (execSyscall exec info call i)" for i
    by (rule good_weaken [OF runs_execSyscall [OF assms]]) auto
  have ex: "runs ?n (call_s call) (exec c)" "burns (call_s call) (exec c)" if "call_s c = call_s call" for c
    using good_weaken [OF exec_runs [of c]] exec_burns [of c] that by auto
  show ?case
    unfolding exec_loop.simps
    by (intro runs_bindG [OF runs_basic(4)] runs_if runs_burn [OF runs_on_cpu [OF Exec_lowers] burns_Exec]
        runs_burn [OF sys burns_execSyscall [OF assms]] runs_bindG [OF runs_mod_cpu] runs_bindG [OF runs_get_arg]
        runs_burn [OF ex] runs_bindG [OF runs_set_arg] runs_get_arg runs_basic(2) IH)
       (simp_all add: sub_call_def)
qed

lemma runs_body:
  assumes "safe_callback (callback_of info)"
  shows "runs (Suc n) (call_s call) (execVM_body exec (Suc n) info call)"
    and "burns (call_s call) (execVM_body exec (Suc n) info call)"
proof -
  let ?c = "call\<lparr>call_prog := drop_bit 32 (call_pc call)\<rparr>"
  let ?rest = "restoring_cpu (prog_id ?c)
    (bindG (mod_cpu (prog_id ?c) (\<lambda>cpu. set_args 0 (call_args call) (SetCall (call_pc call) RetAddr cpu))) (\<lambda>_.
     exec_loop exec info ?c (Suc n)))"
  have loop: "runs n (call_s call) (exec_loop exec info ?c (Suc n))"
    using runs_loop [OF assms, of "Suc n" ?c] by simp
  then have rest: "runs n (call_s call) ?rest" by (intro runs_intro)
  have pos: "GasCall \<noteq> 0" by (simp add: GasCall_def)
  have burn: "burns (call_s call) (charge_gas GasCall)"
    using burns_charge [OF pos, of "call_s call" ret] by (simp add: runs_basic bindG_def burns_def ret_run split: prod.splits res.splits)
  have "runs (Suc n) (call_s call) (bindG (charge_gas GasCall) (\<lambda>_. ?rest))"
    by (rule runs_burn [OF runs_charge burn]) (simp add: rest)
  then show "runs (Suc n) (call_s call) (execVM_body exec (Suc n) info call)"
    unfolding execVM_body_def Let_def by (simp add: runs_basic)
  have "burns (call_s call) (bindG (charge_gas GasCall) (\<lambda>_. ?rest))"
    by (rule burns_charge [OF pos]) (rule good_weaken [OF rest], auto)
  then show "burns (call_s call) (execVM_body exec (Suc n) info call)"
    unfolding execVM_body_def Let_def by (simp add: burns_def throw_run)
qed

end

lemma execVM_callee:
  assumes "safe_callback (callback_of info)"
  shows "vm_callee n (execVM n info)"
proof (induction n)
  case 0
  have "runs 0 (call_s call) (execVM 0 info call)" for call
    unfolding execVM.simps by (rule runs_diverge)
  moreover have "burns (call_s call) (execVM 0 info call)" for call
    by (simp add: burns_def diverge_run)
  ultimately show ?case by (rule vm_callee.intro)
next
  case (Suc n)
  show ?case
    by unfold_locales (simp_all add: vm_callee.runs_body [OF Suc assms])
qed

section \<open>The counter is no limit\<close>

text \<open>\<open>extends m m'\<close>: whenever \<open>m\<close> ends, \<open>m'\<close> does the same.\<close>

definition extends :: "('s, 'a) go \<Rightarrow> ('s, 'a) go \<Rightarrow> bool" where
  "extends m m' \<longleftrightarrow> (\<forall>s. fst (m s) \<noteq> Diverge \<longrightarrow> m' s = m s)"

named_theorems extends_intro "computations that a larger counter leaves alone"

lemma extends_refl: "extends m m"
  by (simp add: extends_def)

lemma extends_diverge: "extends diverge m"
  by (simp add: extends_def diverge_run)

lemma extends_bindG [extends_intro]:
  assumes "extends m m'" and "\<And>x. extends (f x) (f' x)"
  shows "extends (bindG m f) (bindG m' f')"
  unfolding extends_def
proof (intro allI impI)
  fix s assume d: "fst (bindG m f s) \<noteq> Diverge"
  obtain r t where m: "m s = (r, t)" by (cases "m s")
  with d have "r \<noteq> Diverge" by (auto simp: bindG_def)
  with m assms(1) have m': "m' s = (r, t)" by (simp add: extends_def)
  show "bindG m' f' s = bindG m f s"
    using d m m' assms(2) by (cases r) (auto simp: bindG_def extends_def)
qed

lemma extends_if [extends_intro]: "(b \<Longrightarrow> extends m m') \<Longrightarrow> (\<not> b \<Longrightarrow> extends k k') \<Longrightarrow> extends (if b then m else k) (if b then m' else k')"
  by simp

lemma extends_prod [extends_intro]: "(\<And>a b. extends (f a b) (f' a b)) \<Longrightarrow> extends (case z of (a, b) \<Rightarrow> f a b) (case z of (a, b) \<Rightarrow> f' a b)"
  by (cases z) simp

lemma extends_option [extends_intro]:
  "extends m m' \<Longrightarrow> (\<And>x. extends (f x) (f' x)) \<Longrightarrow> extends (case z of None \<Rightarrow> m | Some x \<Rightarrow> f x) (case z of None \<Rightarrow> m' | Some x \<Rightarrow> f' x)"
  by (cases z) simp_all

lemma extends_restoring_cpu [extends_intro]: "extends m m' \<Longrightarrow> extends (restoring_cpu i m) (restoring_cpu i m')"
  by (auto simp: extends_def restoring_cpu_def split: prod.splits)

lemma extends_with_limit [extends_intro]:
  assumes "extends m m'"
  shows "extends (with_limit l m) (with_limit l m')"
  unfolding extends_def
proof (intro allI impI)
  fix s assume d: "fst (with_limit l m s) \<noteq> Diverge"
  let ?s = "s\<lparr>gas := if gas s < l then gas s else l\<rparr>"
  have "fst (m ?s) \<noteq> Diverge" using d by (auto simp: with_limit_def Let_def split: prod.splits res.splits)
  with assms have "m' ?s = m ?s" by (simp add: extends_def)
  then show "with_limit l m' s = with_limit l m s" by (simp add: with_limit_def Let_def)
qed

text \<open>Every system call, and the loop, extends with the calls it makes.\<close>

locale call_extension =
  fixes e e' :: "callCtx \<Rightarrow> (vm_state, u64) go"
  assumes ext: "extends (e c) (e' c)"
begin

lemma ext_syscall: "extends (execSyscall e info call i) (execSyscall e' info call i)"
  unfolding execSyscall_def syscall_body_def sys_load_contract_def start_contract_def sys_protected_call_def
    protected_body_def sys_create_def create_def run_init_def Let_def
  by (intro extends_intro extends_refl ext)

lemma ext_loop: "k \<le> k' \<Longrightarrow> extends (exec_loop e info call k) (exec_loop e' info call k')"
proof (induction k arbitrary: k')
  case 0
  show ?case by (simp add: exec_loop.simps(1) extends_diverge)
next
  case (Suc k)
  then obtain j where j: "k' = Suc j" "k \<le> j" by (cases k') auto
  show ?case
    unfolding j exec_loop.simps(2) by (intro extends_intro extends_refl ext ext_syscall Suc.IH j(2))
qed

lemma ext_body: "n \<le> m \<Longrightarrow> extends (execVM_body e n info call) (execVM_body e' m info call)"
  unfolding execVM_body_def Let_def by (intro extends_intro extends_refl ext_loop)

end

interpretation deeper: call_extension "execVM n info" "execVM (n + d) info" for n d info
proof
  show "extends (execVM n info c) (execVM (n + d) info c)" for c
  proof (induction n arbitrary: c)
    case 0
    show ?case by (simp add: extends_diverge)
  next
    case (Suc n)
    have "call_extension (execVM n info) (execVM (n + d) info)" using Suc by (rule call_extension.intro)
    then show ?case by (simp add: call_extension.ext_body)
  qed
qed

section \<open>Properties\<close>

lemma load_origin_runs: "runs n p (load_origin a data)"
  unfolding load_origin_def by (intro runs_intro runs_on_prog LoadRawCode_lowers)

lemma run_raw_runs: "safe_callback (callback_of info) \<Longrightarrow> runs n s (run_raw info n data s ty)"
  unfolding run_raw_def
  using vm_callee.exec_runs [OF execVM_callee, of info n "root_call s i ty" for i]
  by (intro runs_bindG [OF load_origin_runs]) (simp add: root_call_def)

text \<open>
  C25: a contract call ends. With a counter above its gas the call ends, whatever the contracts do, and
  no larger counter changes the outcome; the gas left is at most the gas given.
\<close>

theorem execVM_terminates:
  assumes "safe_callback (callback_of info)" and "writable (heap s) (call_s call)" and "unat (gas s) < n"
  shows "fst (execVM n info call s) \<noteq> Diverge \<and> gas (snd (execVM n info call s)) \<le> gas s
    \<and> execVM (n + d) info call s = execVM n info call s"
proof -
  obtain r t where run: "execVM n info call s = (r, t)" by (cases "execVM n info call s")
  note good = goodD [OF vm_callee.exec_runs [OF execVM_callee [OF assms(1)]] run assms(2) TrueI]
  with assms(3) run have "fst (execVM n info call s) \<noteq> Diverge" by simp
  with deeper.ext [of n info call d] run good(2) show ?thesis by (simp add: extends_def)
qed

definition demo_ctx :: ExecutionContext where
  "demo_ctx = \<lparr>Height_ctx = 1, Time_ctx = 0, Miner_ctx = zero32, Difficulty_ctx = zero32, ChainId_ctx = 1,
     Tip1Enabled = True\<rparr>"

definition demo_info :: vm_info where
  "demo_info = \<lparr>ctx_of = demo_ctx, callback_of = None, origin = zero32, tx_of = None,
     crypto_of = \<lparr>sha256 = (\<lambda>_. zero32), ed25519_sign = (\<lambda>_ _. []), ed25519_verify = (\<lambda>_ _ _. True)\<rparr>\<rparr>"

theorem execVM_terminates_witness:
  "fst (execVM 6000 demo_info demo_call (newVmCtx 5000 demo_heap)) \<noteq> Diverge"
  using execVM_terminates [of demo_info "newVmCtx 5000 demo_heap" demo_call 6000 0] writable_demo_heap
  by (simp add: demo_info_def demo_call_def newVmCtx_def)

text \<open>
  C3: a contract call is confined to the slice it is given. Whatever its outcome, every other slice that
  existed before is as it was, and so is the nonce of every account: no contract can make a signed
  transaction valid again.
\<close>

theorem execVM_confined:
  assumes "safe_callback (callback_of info)" and "writable (heap s) (call_s call)"
  shows "frame (heap s) (call_s call) (heap (snd (execVM n info call s)))
    \<and> (\<forall>a. AccountNonce (acct (heap (snd (execVM n info call s))) (call_s call) a) = AccountNonce (acct (heap s) (call_s call) a))"
proof -
  obtain r t where run: "execVM n info call s = (r, t)" by (cases "execVM n info call s")
  from goodD(1) [OF vm_callee.exec_runs [OF execVM_callee [OF assms(1)]] run assms(2) TrueI] run show ?thesis
    by (simp add: kept_def nonces_def fun_eq_iff)
qed

theorem execVM_confined_witness:
  "frame demo_heap 0 (heap (snd (execVM 7 demo_info demo_call (newVmCtx 5000 demo_heap))))"
  using execVM_confined [of demo_info "newVmCtx 5000 demo_heap" demo_call 7] writable_demo_heap
  by (simp add: demo_info_def demo_call_def newVmCtx_def)

text \<open>
  C29: paying another account conserves money. Settling a payment that the payer can cover lowers the
  payer's balance and raises the receiver's by the same amount, keeps every other account, and leaves
  the sum of all balances unchanged, as long as that sum is below \<open>2 ^ 64\<close>.
\<close>

theorem settle_conserves:
  assumes s: "writable h s" and a: "from \<in> addresses" "to \<in> addresses" "from \<noteq> to"
    and v: "v \<le> Balance (acct h s from)" and total: "total_supply (acct h s) < 2 ^ 64"
  shows "\<exists>h'. settle s from to (acct h s from) v h = (Ok (), h') \<and> frame h s h'
     \<and> acct h' s = (acct h s)(from := (acct h s from)\<lparr>Balance := Balance (acct h s from) - v\<rparr>,
                              to := (acct h s to)\<lparr>Balance := Balance (acct h s to) + v\<rparr>)
     \<and> total_supply (acct h' s) = total_supply (acct h s)"
proof -
  let ?T = "acct h s"
  let ?T1 = "?T(from := (?T from)\<lparr>Balance := Balance (?T from) - v\<rparr>)"
  let ?T2 = "?T1(to := (?T to)\<lparr>Balance := Balance (?T to) + v\<rparr>)"
  obtain h1 where 1: "SetAccountInfo s from ((?T from)\<lparr>Balance := Balance (?T from) - v\<rparr>) h = (Ok (), h1)"
    "acct h1 s = ?T1" "frame h s h1" "writable h1 s"
    using accounts.set_wr [OF s] .
  obtain h2 where 2: "SetAccountInfo s to ((?T to)\<lparr>Balance := Balance (?T to) + v\<rparr>) h1 = (Ok (), h2)"
    "acct h2 s = ?T2" "frame h1 s h2"
    using accounts.set_wr [OF 1(4)] 1(2) by metis
  have deb: "total_supply ?T1 + unat v = total_supply ?T"
    using supply_debit [of "from" v ?T "(?T from)\<lparr>Balance := Balance (?T from) - v\<rparr>"] a v by simp
  with total have "total_supply ?T1 + unat v < 2 ^ 64" by simp
  then have "total_supply ?T2 = total_supply ?T1 + unat v" using a by (intro supply_credit) simp_all
  with deb have "total_supply ?T2 = total_supply ?T" by simp
  with 1 2 s slice_kv.frm_trans [OF s 1(3) 2(3)] show ?thesis
    by (intro exI [of _ h2]) (simp add: settle_def bindG_Ok accounts.get_run)
qed

theorem settle_conserves_witness:
  "\<exists>h'. settle 0 zero32 (replicate 32 1) (acct demo_heap 0 zero32) 0 demo_heap = (Ok (), h')
     \<and> total_supply (acct h' 0) = total_supply (acct demo_heap 0)"
  using settle_conserves [OF writable_demo_heap, of zero32 "replicate 32 1" 0]
  by (auto simp: addresses_def AddressLen_def zero32_def acct_demo_heap total_supply_def)

text \<open>
  C30: paying oneself creates money. Both accounts are read before either is written, so that a payment
  whose payer is its receiver ends with the balance raised by the amount paid.
\<close>

theorem self_payment_mints:
  assumes "writable h s" and "v \<le> Balance (acct h s a)"
  shows "\<exists>h'. settle s a a (acct h s a) v h = (Ok (), h')
     \<and> acct h' s = (acct h s)(a := (acct h s a)\<lparr>Balance := Balance (acct h s a) + v\<rparr>)"
proof -
  let ?i = "acct h s a"
  obtain h1 where 1: "SetAccountInfo s a (?i\<lparr>Balance := Balance ?i - v\<rparr>) h = (Ok (), h1)"
    "acct h1 s = (acct h s)(a := ?i\<lparr>Balance := Balance ?i - v\<rparr>)" "writable h1 s"
    using accounts.set_wr [OF assms(1)] by metis
  obtain h2 where "SetAccountInfo s a (?i\<lparr>Balance := Balance ?i + v\<rparr>) h1 = (Ok (), h2)"
    "acct h2 s = (acct h1 s)(a := ?i\<lparr>Balance := Balance ?i + v\<rparr>)"
    using accounts.set_wr [OF 1(3)] by metis
  with 1 show ?thesis by (simp add: settle_def bindG_Ok accounts.get_run [OF assms(1)])
qed

theorem self_payment_mints_witness:
  "\<exists>h h'. Balance (acct h 0 zero32) = 100 \<and> settle 0 zero32 zero32 (acct h 0 zero32) 5 h = (Ok (), h')
     \<and> Balance (acct h' 0 zero32) = 105"
proof -
  obtain h where h: "acct h 0 = (acct demo_heap 0)(zero32 := \<lparr>Balance = 100, AccountNonce = 0\<rparr>)" "writable h 0"
    using accounts.set_wr [OF writable_demo_heap] by metis
  with self_payment_mints [of h 0 5 zero32] obtain h' where
    "settle 0 zero32 zero32 (acct h 0 zero32) 5 h = (Ok (), h')"
    "acct h' 0 = (acct h 0)(zero32 := (acct h 0 zero32)\<lparr>Balance := Balance (acct h 0 zero32) + 5\<rparr>)"
    by auto
  with h show ?thesis by (intro exI [of _ h] exI [of _ h']) simp
qed

end
