(* ===== verification/Explorer.thy ===== *)
theory Explorer
  imports Account
begin

text \<open>
  The explorer's index, the first half of \<^verbatim>\<open>core/explorer.go\<close>: append-only lists kept in a slice, and the
  callbacks that record every transfer and every block there. A list has its length under its own key
  and the \<open>i\<close>-th item under the key whose last eight bytes are \<open>i\<close>.

  The abstraction \<open>items\<close> reads a list; the lemmas show that adding appends, that reading returns the
  latest items, newest first, and that the callbacks leave the accounts alone, which is what execution
  asks of a callback: here the locale \<open>account_callback\<close> is interpreted.
\<close>

section \<open>Lists in a slice\<close>

definition item_key :: "KeyType \<Rightarrow> bytes \<Rightarrow> KeyType" where
  "item_key k i = blit k (KeyLen - 8) i"

definition explorerListAdd :: "slice_ptr \<Rightarrow> KeyType \<Rightarrow> DataType \<Rightarrow> (SliceHeap, unit) go" where
  "explorerListAdd s k v =
     bindG (Read s k) (\<lambda>t.
     let x = be_word (take 8 t) :: u64; t' = blit t 0 (be_bytes 8 (x + 1)) in
     bindG (Write s k t') (\<lambda>_.
     Write s (item_key k (take 8 t')) v))"

definition list_key :: "AddressType \<Rightarrow> u64 \<Rightarrow> KeyType" where
  "list_key a i = [0xf0] @ a @ le_bytes 8 i @ replicate 24 0"

definition explorerListAddAddr :: "slice_ptr \<Rightarrow> AddressType \<Rightarrow> u64 \<Rightarrow> DataType \<Rightarrow> (SliceHeap, unit) go" where
  "explorerListAddAddr s a i v = explorerListAdd s (list_key a i) v"

text \<open>
  Reading counts down from \<open>i\<close>; the loop runs \<open>n\<close> times. The bounds are computed in Go's integers, which
  wrap around.
\<close>

fun read_down :: "slice_ptr \<Rightarrow> KeyType \<Rightarrow> int \<Rightarrow> nat \<Rightarrow> (SliceHeap, DataType list) go" where
  "read_down s k i 0 = ret []"
| "read_down s k i (Suc n) =
     bindG (Read s (item_key k (be_bytes 8 (u64_of_int i)))) (\<lambda>d.
     bindG (read_down s k (i - 1) n) (\<lambda>ds. ret (d # ds)))"

definition explorerReadList :: "slice_ptr \<Rightarrow> KeyType \<Rightarrow> int \<Rightarrow> int \<Rightarrow> (SliceHeap, DataType list \<times> int) go" where
  "explorerReadList s k l r =
     bindG (Read s k) (\<lambda>t.
     let x = int_of_u64 (be_word (take 8 t));
         hi = i64 (x - l + 1);
         lo = max (i64 (x - r + 1)) 1 in
     bindG (read_down s k hi (nat (hi - lo + 1))) (\<lambda>res.
     ret (res, x)))"

definition explorerReadListAddr ::
  "slice_ptr \<Rightarrow> AddressType \<Rightarrow> u64 \<Rightarrow> int \<Rightarrow> int \<Rightarrow> (SliceHeap, DataType list \<times> int) go" where
  "explorerReadListAddr s a i l r = explorerReadList s (list_key a i) l r"

section \<open>Callbacks\<close>

definition transfer_data :: "u64 \<Rightarrow> ExecutionContext \<Rightarrow> DataType" where
  "transfer_data value ctx =
     le_bytes 8 value @ le_bytes 8 (Time_ctx ctx) @ le_bytes 8 (u64_of_int (Height_ctx ctx)) @ replicate 8 0"

definition list_transfer ::
  "slice_ptr \<Rightarrow> AddressType \<Rightarrow> AddressType \<Rightarrow> AddressType \<Rightarrow> HashType \<Rightarrow> DataType \<Rightarrow> (SliceHeap, unit) go" where
  "list_transfer s owner from to txh v =
     bindG (explorerListAddAddr s owner 101 from) (\<lambda>_.
     bindG (explorerListAddAddr s owner 102 to) (\<lambda>_.
     bindG (explorerListAddAddr s owner 103 txh) (\<lambda>_.
     explorerListAddAddr s owner 104 v)))"

definition hash_key :: "HashType \<Rightarrow> u8 \<Rightarrow> KeyType" where
  "hash_key h kind = [0xf1] @ h @ [kind] @ replicate 31 0"

definition height_data :: "ExecutionContext \<Rightarrow> DataType" where
  "height_data ctx = le_bytes 8 (u64_of_int (Height_ctx ctx) + 1) @ replicate 24 0"

definition explorerTransferCallback ::
  "crypto \<Rightarrow> slice_ptr \<Rightarrow> AddressType \<Rightarrow> AddressType \<Rightarrow> u64 \<Rightarrow> bytes \<Rightarrow> Transaction option
     \<Rightarrow> ExecutionContext \<Rightarrow> (SliceHeap, unit) go" where
  "explorerTransferCallback C s from to value msg tx ctx =
     (let v = transfer_data value ctx;
          txh = (case tx of None \<Rightarrow> zero32 | Some t \<Rightarrow> Tx_Hash C t) in
      bindG (if from \<noteq> zero32 then list_transfer s from from to txh v else ret ()) (\<lambda>_.
      bindG (if from \<noteq> to then list_transfer s to from to txh v else ret ()) (\<lambda>_.
      case tx of None \<Rightarrow> ret () | Some t \<Rightarrow> Write s (hash_key txh 0) (height_data ctx))))"

definition explorerBlockCallback :: "slice_ptr \<Rightarrow> Block \<Rightarrow> ExecutionContext \<Rightarrow> (SliceHeap, unit) go" where
  "explorerBlockCallback s b ctx = Write s (hash_key (Hash (Header b)) 1) (height_data ctx)"

definition ExplorerExecutionCallback :: "crypto \<Rightarrow> ExecutionCallback" where
  "ExplorerExecutionCallback C =
     \<lparr>Transfer_cb = explorerTransferCallback C, Block_cb = explorerBlockCallback\<rparr>"

section \<open>The callbacks leave the accounts alone\<close>

lemma hd_list_key: "hd (list_key a i) = 0xf0"
  by (simp add: list_key_def)

lemma hd_item_key: "hd (item_key (list_key a i) j) = 0xf0"
  by (simp add: item_key_def blit_def list_key_def KeyLen_def)

lemma silent_ListAddAddr: "silent s (explorerListAddAddr s a i v)"
  unfolding explorerListAddAddr_def explorerListAdd_def Let_def
  by (intro silent_Read silent_bindG silent_Write) (simp_all add: hd_item_key hd_list_key)

lemma silent_list_transfer: "silent s (list_transfer s owner from to txh v)"
  unfolding list_transfer_def by (intro silent_bindG silent_ListAddAddr)

lemma silent_hash_key: "silent s (Write s (hash_key h k) v)"
  by (rule silent_Write) (simp add: hash_key_def)

interpretation explorer: account_callback "ExplorerExecutionCallback C" for C
proof
  fix s "from" to v msg tx ctx
  show "silent s (Transfer_cb (ExplorerExecutionCallback C) s from to v msg tx ctx)"
    unfolding ExplorerExecutionCallback_def explorerTransferCallback_def Let_def ExecutionCallback.simps
    by (intro silent_bindG) (auto intro: silent_list_transfer silent_hash_key split: option.splits)
next
  fix s b ctx
  show "silent s (Block_cb (ExplorerExecutionCallback C) s b ctx)"
    by (simp add: ExplorerExecutionCallback_def explorerBlockCallback_def silent_hash_key)
qed

lemma safe_explorer [simp]: "safe_callback (Some (ExplorerExecutionCallback C))"
  by (simp add: safe_callback_def explorer.account_callback_axioms)

section \<open>Lists\<close>

definition list_len :: "(KeyType \<Rightarrow> DataType) \<Rightarrow> KeyType \<Rightarrow> nat" where
  "list_len w k = unat (be_word (take 8 (w k)) :: u64)"

definition items :: "(KeyType \<Rightarrow> DataType) \<Rightarrow> KeyType \<Rightarrow> DataType list" where
  "items w k = map (\<lambda>i. w (item_key k (be_bytes 8 (of_nat (i + 1) :: u64)))) [0..<list_len w k]"

text \<open>A list's key ends in eight zero bytes, which no item's does.\<close>

definition list_head :: "KeyType \<Rightarrow> bool" where
  "list_head k \<longleftrightarrow> length k = KeyLen \<and> drop (KeyLen - 8) k = be_bytes 8 (0 :: u64)"

lemma length_items: "length (items w k) = list_len w k"
  by (simp add: items_def)

lemma list_head_key: "length a = 32 \<Longrightarrow> list_head (list_key a i)"
  by (simp add: list_head_def list_key_def KeyLen_def be_bytes_def eval_nat_numeral)

lemma item_key_eq:
  assumes "list_head k"
  shows "item_key k (be_bytes 8 (i :: u64)) = take (KeyLen - 8) k @ be_bytes 8 i"
  using assms by (simp add: item_key_def blit_def list_head_def KeyLen_def)

lemma item_key_inj:
  "list_head k \<Longrightarrow> item_key k (be_bytes 8 (i :: u64)) = item_key k (be_bytes 8 j) \<longleftrightarrow> i = j"
  by (simp add: item_key_eq)

lemma item_key_head:
  assumes "list_head k"
  shows "item_key k (be_bytes 8 (i :: u64)) = k \<longleftrightarrow> i = 0"
proof -
  have "k = take (KeyLen - 8) k @ be_bytes 8 (0 :: u64)"
    using assms append_take_drop_id [of "KeyLen - 8" k] by (simp add: list_head_def)
  then show ?thesis using item_key_eq [OF assms, of i] by (metis be_bytes8_eq_iff same_append_eq)
qed

lemma unat_Suc_u64: "n + 1 < 2 ^ 64 \<Longrightarrow> unat (of_nat n + 1 :: u64) = n + 1"
  using unat_of_nat_u64 [of "n + 1"] by (simp add: add.commute)

text \<open>Adding to a list: the new length is written, then the new item under its number.\<close>

lemma explorerListAdd_items:
  assumes s: "writable h s" and k: "list_head k" and d: "8 \<le> length (slice_view h s k)"
    and len: "list_len (slice_view h s) k + 1 < 2 ^ 64"
  obtains h' where "explorerListAdd s k v h = (Ok (), h')" and "frame h s h'" and "writable h' s"
    and "items (slice_view h' s) k = items (slice_view h s) k @ [v]"
    and "length (slice_view h' s k) = length (slice_view h s k)"
    and "\<And>j. j \<noteq> k \<Longrightarrow> take (KeyLen - 8) j \<noteq> take (KeyLen - 8) k \<Longrightarrow> slice_view h' s j = slice_view h s j"
proof -
  let ?w = "slice_view h s" and ?n = "list_len (slice_view h s) k"
  let ?x = "be_word (take 8 (?w k)) :: u64"
  let ?t = "blit (?w k) 0 (be_bytes 8 (?x + 1))"
  have x: "?x = of_nat ?n" by (simp add: list_len_def)
  have t: "take 8 ?t = be_bytes 8 (?x + 1)" "length ?t = length (?w k)" using d by (simp_all add: blit_def)
  obtain h2 where h2: "bindG (Write s k ?t) (\<lambda>_. Write s (item_key k (be_bytes 8 (?x + 1))) v) h = (Ok (), h2)"
    "slice_view h2 s = ?w(k := ?t, item_key k (be_bytes 8 (?x + 1)) := v)" "frame h s h2" "writable h2 s"
    using slice_kv.write_write [OF s] .
  have u: "unat (?x + 1) = ?n + 1" using unat_Suc_u64 [OF len] by (simp only: x)
  then have nz: "?x + 1 \<noteq> 0" by auto
  have other: "item_key k (be_bytes 8 (?x + 1)) \<noteq> k" using nz item_key_head [OF k] by blast
  have len': "list_len (slice_view h2 s) k = ?n + 1"
    using other [symmetric] t(1) u by (simp only: h2(2) list_len_def fun_upd_apply if_False if_True simp_thms be_word_be_bytes)
  have it: "slice_view h2 s (item_key k (be_bytes 8 (of_nat (i + 1) :: u64)))
      = (if i = ?n then v else ?w (item_key k (be_bytes 8 (of_nat (i + 1) :: u64))))" if "i \<le> ?n" for i
  proof -
    let ?i = "of_nat (i + 1) :: u64"
    have i: "unat ?i = i + 1" using that len by (intro unat_of_nat_u64) simp
    have "?i = ?x + 1 \<longleftrightarrow> i = ?n" unfolding word_unat_eq_iff i u by simp
    moreover have "?i \<noteq> 0" using i by auto
    ultimately show ?thesis
      unfolding h2(2) fun_upd_apply item_key_inj [OF k] item_key_head [OF k] by simp
  qed
  show thesis
  proof (rule that)
    show "explorerListAdd s k v h = (Ok (), h2)"
      using h2(1) t(1) s by (simp add: explorerListAdd_def Let_def bindG_Ok Read_view writable_live)
    show "items (slice_view h2 s) k = items ?w k @ [v]"
      using it by (simp add: items_def len')
    show "length (slice_view h2 s k) = length (?w k)" using other t(2) by (simp add: h2(2))
    show "slice_view h2 s j = ?w j" if "j \<noteq> k" "take (KeyLen - 8) j \<noteq> take (KeyLen - 8) k" for j
      using that item_key_eq [OF k, of "?x + 1"] k by (auto simp: h2(2) list_head_def KeyLen_def)
  qed (use h2 in auto)
qed

lemma read_down_run:
  assumes "live h s"
  shows "read_down s k i n h = (Ok (map (\<lambda>j. slice_view h s (item_key k (be_bytes 8 (u64_of_int (i - int j))))) [0..<n]), h)"
proof (induction n arbitrary: i)
  case (Suc n)
  have "[0..<Suc n] = 0 # map Suc [0..<n]" by (simp add: upt_conv_Cons map_Suc_upt del: upt_Suc)
  then show ?case
    using Suc [of "i - 1"] assms by (simp add: bindG_Ok Read_view ret_run algebra_simps del: upt_Suc)
qed (simp add: ret_run)

lemma explorerReadList_items:
  assumes s: "live h s" and len: "list_len (slice_view h s) k < 2 ^ 62" and l: "1 \<le> l" "l < 2 ^ 62" "0 \<le> r" "r < 2 ^ 62"
  shows "explorerReadList s k l r h =
    (Ok (take (nat (r - l + 1)) (drop (nat (l - 1)) (rev (items (slice_view h s) k))), int (list_len (slice_view h s) k)), h)"
proof -
  let ?w = "slice_view h s" and ?n = "list_len (slice_view h s) k"
  have x: "int_of_u64 (be_word (take 8 (?w k))) = int ?n"
    unfolding list_len_def by (rule int_of_u64_small) (use len in \<open>simp add: word_less_nat_alt list_len_def\<close>)
  have wrap: "i64 (int ?n - l + 1) = int ?n - l + 1" "i64 (int ?n - r + 1) = int ?n - r + 1"
    using len l by (intro i64_id; simp)+
  define lo where "lo = max (int ?n - r + 1) 1"
  define m where "m = nat (int ?n - l + 1 - lo + 1)"
  have rd: "explorerReadList s k l r h =
      (Ok (map (\<lambda>j. ?w (item_key k (be_bytes 8 (u64_of_int (int ?n - l + 1 - int j))))) [0..<m], int ?n), h)"
    using s by (simp add: explorerReadList_def Let_def bindG_Ok Read_view ret_run x wrap read_down_run lo_def m_def)
  have "map (\<lambda>j. ?w (item_key k (be_bytes 8 (u64_of_int (int ?n - l + 1 - int j))))) [0..<m]
      = take (nat (r - l + 1)) (drop (nat (l - 1)) (rev (items ?w k)))" (is "?a = ?b")
  proof (rule nth_equalityI)
    show "length ?a = length ?b"
      using l by (simp add: m_def lo_def length_items)
    fix j assume "j < length ?a"
    then have j: "j < m" by simp
    then have i: "int ?n - l + 1 - int j = int (?n - nat l - j) + 1" "nat l + j \<le> ?n" "j < nat (r - l + 1)"
      using l unfolding m_def lo_def by linarith+
    have "?b ! j = items ?w k ! (?n - nat l - j)"
      using i(2,3) l by (simp add: rev_nth length_items nat_diff_distrib)
    also have "\<dots> = ?w (item_key k (be_bytes 8 (of_nat (?n - nat l - j + 1) :: u64)))"
      using i(2) l by (subst items_def) simp
    also have "(of_nat (?n - nat l - j + 1) :: u64) = u64_of_int (int ?n - l + 1 - int j)"
      unfolding i(1) u64_of_int_def by simp
    finally have "?b ! j = ?w (item_key k (be_bytes 8 (u64_of_int (int ?n - l + 1 - int j))))" .
    moreover have "?a ! j = ?w (item_key k (be_bytes 8 (u64_of_int (int ?n - l + 1 - int j))))" using j by simp
    ultimately show "?a ! j = ?b ! j" by (rule trans [OF _ sym, rotated])
  qed
  with rd show ?thesis by simp
qed

text \<open>
  A list of the explorer is a list. Adding an item appends it, and reading the \<open>l\<close>-th to \<open>r\<close>-th latest
  items returns exactly these, the newest first, with the number of items.
\<close>

lemma explorer_list:
  assumes s: "writable h s" and k: "list_head k" and d: "8 \<le> length (slice_view h s k)"
    and len: "list_len (slice_view h s) k + 1 < 2 ^ 62" and l: "1 \<le> l" "l < 2 ^ 62" "0 \<le> r" "r < 2 ^ 62"
  shows "\<exists>h'. explorerListAdd s k v h = (Ok (), h') \<and>
    explorerReadList s k l r h' =
      (Ok (take (nat (r - l + 1)) (drop (nat (l - 1)) (v # rev (items (slice_view h s) k))),
           int (length (items (slice_view h s) k)) + 1), h')"
proof -
  have "list_len (slice_view h s) k + 1 < 2 ^ 64" using len by simp
  then obtain h' where add: "explorerListAdd s k v h = (Ok (), h')" "writable h' s"
    "items (slice_view h' s) k = items (slice_view h s) k @ [v]"
    using explorerListAdd_items [OF s k d] by metis
  then have n: "list_len (slice_view h' s) k = length (items (slice_view h s) k) + 1"
    using length_items [of "slice_view h' s" k] by simp
  with len have "list_len (slice_view h' s) k < 2 ^ 62" by (simp add: length_items)
  from explorerReadList_items [OF writable_live [OF add(2)] this l] add n show ?thesis by (simp add: length_items)
qed

lemma explorer_list_witness:
  "\<exists>h'. explorerListAdd 0 (list_key zero32 101) (replicate 32 7) demo_heap = (Ok (), h') \<and>
     explorerReadList 0 (list_key zero32 101) 1 10 h' = (Ok ([replicate 32 7], 1), h')"
proof -
  have z: "be_word (replicate 8 0) = (0 :: u64)" by (simp add: be_word_def eval_nat_numeral)
  then have len: "list_len (slice_view demo_heap 0) k = 0" for k
    by (simp add: list_len_def view_demo_heap zero_data_def DataLen_def)
  then have "items (slice_view demo_heap 0) k = []" for k using length_items [of "slice_view demo_heap 0" k] by simp
  then show ?thesis
    using explorer_list [OF writable_demo_heap list_head_key, of zero32 101 1 10 "replicate 32 7"] len
    by (simp add: view_demo_heap zero_data_def DataLen_def)
qed

end
