(* ===== verification/Execution.thy ===== *)
theory Execution
  imports Vm_Safety Explorer
begin

text \<open>
  Executing transactions and blocks: \<^verbatim>\<open>ExecuteTx\<close> of \<^verbatim>\<open>core/block/transaction.go\<close> and \<^verbatim>\<open>ExecuteBlock\<close> of
  \<^verbatim>\<open>core/block/block.go\<close>. Here the slices, the accounts, the contracts and the explorer's callbacks meet.

  The lemmas show that a rejected transaction has no effect, what an accepted payment does to the
  accounts, that code that fails costs its sender the fee and the nonce and nothing else, that no
  transaction is accepted twice, and that a block of payments raises the supply by its reward.
\<close>

section \<open>Operations\<close>

text \<open>The two kinds of transaction, once the sender's account has been debited.\<close>

definition execute_payment ::
  "ExecutionCallback option \<Rightarrow> ExecutionContext \<Rightarrow> Transaction \<Rightarrow> AddressType \<Rightarrow> slice_ptr \<Rightarrow> (SliceHeap, unit) go" where
  "execute_payment cb ctx tx sender s =
     bindG (GetAccountInfo s (Receiver tx)) (\<lambda>i.
     bindG (SetAccountInfo s (Receiver tx) (i\<lparr>Balance := Balance i + Value tx\<rparr>)) (\<lambda>_.
     notify_transfer cb s sender (Receiver tx) (Value tx) (Data tx) (Some tx) ctx))"

definition execute_code ::
  "crypto \<Rightarrow> ExecutionCallback option \<Rightarrow> ExecutionContext \<Rightarrow> Transaction \<Rightarrow> AddressType \<Rightarrow> slice_ptr \<Rightarrow> (SliceHeap, unit) go" where
  "execute_code C cb ctx tx sender s =
     bindG (ForkSlice s) (\<lambda>newS.
     bindG (ExecVmTxRawCode \<lparr>ctx_of = ctx, callback_of = cb, origin = sender, tx_of = Some tx, crypto_of = C\<rparr>
              (GasLimit tx) (Data tx) newS) (\<lambda>r.
     if snd r = None then Merge newS else ret ()))"

definition ExecuteTx ::
  "crypto \<Rightarrow> ExecutionCallback option \<Rightarrow> ExecutionContext \<Rightarrow> Transaction \<Rightarrow> slice_ptr \<Rightarrow> (SliceHeap, unit) go" where
  "ExecuteTx C cb ctx tx s =
     (let senderAddr = PubkeyToAddress C (SenderPubkey tx); totalValue = Value tx + Fee tx in
      if TxType tx \<noteq> 1 \<and> TxType tx \<noteq> 2 then throw ErrWrongTxType
      else if TxType tx = 2 \<and> \<not> Tip1Enabled ctx then throw ErrWrongTxType
      else if \<not> ed25519_verify C (SenderPubkey tx) (prepareSignData tx) (SenderSig tx) then throw ErrSignatureMismatch
      else
        bindG (GetAccountInfo s senderAddr) (\<lambda>senderAccount.
        if totalValue < Value tx then throw ErrIntegerOverflow
        else if Balance senderAccount < totalValue then throw ErrBalanceNotEnough
        else if AccountNonce senderAccount \<noteq> Nonce tx then throw ErrNonceMismatch
        else if TxType tx = 1 \<and> Tip1Enabled ctx \<and> GasLimit tx < GasTransfer + of_nat (length (Data tx))
          then throw (ErrVm ErrInsufficientGas)
        else
          bindG (SetAccountInfo s senderAddr
                   \<lparr>Balance = Balance senderAccount - totalValue, AccountNonce = AccountNonce senderAccount + 1\<rparr>) (\<lambda>_.
          if TxType tx = 1 then execute_payment cb ctx tx senderAddr s
          else execute_code C cb ctx tx senderAddr s)))"

fun ExecuteTxs ::
  "crypto \<Rightarrow> ExecutionCallback option \<Rightarrow> ExecutionContext \<Rightarrow> Transaction list \<Rightarrow> u64 \<Rightarrow> slice_ptr \<Rightarrow> (SliceHeap, u64) go" where
  "ExecuteTxs C cb ctx [] totalFee s = ret totalFee"
| "ExecuteTxs C cb ctx (tx # txs) totalFee s =
     bindG (ExecuteTx C cb ctx tx s) (\<lambda>_. ExecuteTxs C cb ctx txs (totalFee + Fee tx) s)"

definition ExecuteBlock ::
  "crypto \<Rightarrow> ExecutionCallback option \<Rightarrow> ExecutionContext \<Rightarrow> Block \<Rightarrow> u64 \<Rightarrow> slice_ptr \<Rightarrow> (SliceHeap, unit) go" where
  "ExecuteBlock C cb ctx b reward s =
     bindG (ExecuteTxs C cb ctx (Txs b) 0 s) (\<lambda>totalFee.
     bindG (GetAccountInfo s (Miner b)) (\<lambda>i.
     bindG (SetAccountInfo s (Miner b) (i\<lparr>Balance := Balance i + (totalFee + reward)\<rparr>)) (\<lambda>_.
     bindG (notify_transfer cb s zero32 (Miner b) (totalFee + reward) [] None ctx) (\<lambda>_.
     notify_block cb s b ctx))))"

section \<open>What is accepted\<close>

text \<open>The checks of \<^verbatim>\<open>ExecuteTx\<close>, in its order; no value is acceptance.\<close>

definition tx_check :: "crypto \<Rightarrow> ExecutionContext \<Rightarrow> Transaction \<Rightarrow> AccountInfo \<Rightarrow> error option" where
  "tx_check C ctx tx i =
     (if TxType tx \<noteq> 1 \<and> TxType tx \<noteq> 2 \<or> TxType tx = 2 \<and> \<not> Tip1Enabled ctx then Some ErrWrongTxType
      else if \<not> ed25519_verify C (SenderPubkey tx) (prepareSignData tx) (SenderSig tx) then Some ErrSignatureMismatch
      else if Value tx + Fee tx < Value tx then Some ErrIntegerOverflow
      else if Balance i < Value tx + Fee tx then Some ErrBalanceNotEnough
      else if AccountNonce i \<noteq> Nonce tx then Some ErrNonceMismatch
      else if TxType tx = 1 \<and> Tip1Enabled ctx \<and> GasLimit tx < GasTransfer + of_nat (length (Data tx))
        then Some (ErrVm ErrInsufficientGas)
      else None)"

definition sender_of :: "crypto \<Rightarrow> Transaction \<Rightarrow> AddressType" where
  "sender_of C tx = PubkeyToAddress C (SenderPubkey tx)"

definition debited :: "Transaction \<Rightarrow> AccountInfo \<Rightarrow> AccountInfo" where
  "debited tx i = \<lparr>Balance = Balance i - (Value tx + Fee tx), AccountNonce = AccountNonce i + 1\<rparr>"

lemma ExecuteTx_run:
  assumes "writable h s"
  shows "ExecuteTx C cb ctx tx s h =
    (case tx_check C ctx tx (acct h s (sender_of C tx)) of
       Some e \<Rightarrow> (Err e, h)
     | None \<Rightarrow> bindG (SetAccountInfo s (sender_of C tx) (debited tx (acct h s (sender_of C tx)))) (\<lambda>_.
         if TxType tx = 1 then execute_payment cb ctx tx (sender_of C tx) s
         else execute_code C cb ctx tx (sender_of C tx) s) h)"
  using accounts.get_run [OF assms]
  by (simp add: ExecuteTx_def tx_check_def Let_def throw_run bindG_Ok sender_of_def debited_def)

text \<open>The result of debiting the sender, from which the second half starts.\<close>

lemma debit_run:
  assumes "writable h s"
  obtains h1 where "SetAccountInfo s (sender_of C tx) (debited tx (acct h s (sender_of C tx))) h = (Ok (), h1)"
    and "slice_view h1 s = (slice_view h s)(acct_key (sender_of C tx) := encode_account (debited tx (acct h s (sender_of C tx))))"
    and "frame h s h1" and "writable h1 s"
  using slice_kv.wrt_wr [OF assms] unfolding SetAccountInfo_def by metis

section \<open>Code\<close>

lemma heap_runs_ExecVmTxRawCode:
  assumes "safe_callback (callback_of info)"
  shows "heap_runs q (\<lambda>_. True) (ExecVmTxRawCode info gasLimit data q)"
  unfolding heap_runs_def
proof (intro allI impI)
  fix h assume w: "writable h q \<and> True"
  let ?s = "newVmCtx (gasLimit - GasVmTxRawCode) h"
  obtain r t where run: "run_raw info (unat gasLimit + 1) data q CallExternal ?s = (r, t)"
    by (cases "run_raw info (unat gasLimit + 1) data q CallExternal ?s")
  have "writable (heap ?s) q" using w by (simp add: newVmCtx_def)
  note good = goodD [OF run_raw_runs [OF assms] run this TrueI]
  have "unat (gas ?s) < unat gasLimit + 1" if "\<not> gasLimit < GasVmTxRawCode"
    using that by (simp add: newVmCtx_def not_less unat_sub)
  with good run w show "kept q h (snd (ExecVmTxRawCode info gasLimit data q h))
      \<and> fst (ExecVmTxRawCode info gasLimit data q h) \<noteq> Diverge"
    by (cases r) (auto simp: ExecVmTxRawCode_def kept_refl newVmCtx_def)
qed

text \<open>
  Running code on a fork: the slice is untouched when the code fails, and takes over the fork's contents
  when it returns.
\<close>

lemma execute_code_run:
  assumes cb: "safe_callback cb" and w: "writable h s" and run: "execute_code C cb ctx tx a s h = (r, h')"
  shows "kept s h h'" and "r = Ok () \<or> r = Panic"
    and "ForkSlice s h = (Ok q', g1) \<Longrightarrow>
      ExecVmTxRawCode \<lparr>ctx_of = ctx, callback_of = cb, origin = a, tx_of = Some tx, crypto_of = C\<rparr> (GasLimit tx) (Data tx) q' g1
         = (Ok (g, Some e), g2) \<Longrightarrow> r = Ok () \<and> slice_view h' s = slice_view h s"
    and "r = Panic \<Longrightarrow> slice_view h' s = slice_view h s"
proof -
  let ?i = "\<lparr>ctx_of = ctx, callback_of = cb, origin = a, tx_of = Some tx, crypto_of = C\<rparr>"
  obtain q h1 where f: "ForkSlice s h = (Ok q, h1)" "forked h s h1 q" "writable h1 q" "slice_view h1 q = slice_view h s"
    using slice_fork.fk_run [OF w] by blast
  obtain r2 h2 where x: "ExecVmTxRawCode ?i (GasLimit tx) (Data tx) q h1 = (r2, h2)"
    by (cases "ExecVmTxRawCode ?i (GasLimit tx) (Data tx) q h1")
  have "heap_runs q (\<lambda>_. True) (ExecVmTxRawCode ?i (GasLimit tx) (Data tx) q)"
    using cb by (intro heap_runs_ExecVmTxRawCode) simp
  note k = heap_runsD [OF this x f(3) TrueI]
  have fd: "forked h s h2 q" using slice_fork.fkd_frm f(2) k(1) by (auto simp: kept_def)
  note drop = slice_fork.fkd_frame [OF fd]
  obtain h3 where m: "Merge q h2 = (Ok (), h3)" "slice_view h3 s = slice_view h2 q" "frame h s h3"
    using slice_fork.mrg_run [OF fd] by blast
  have step: "(r, h') = (case r2 of Ok z \<Rightarrow> if snd z = None then (Ok (), h3) else (Ok (), h2)
      | Err e \<Rightarrow> (Err e, h2) | Panic \<Rightarrow> (Panic, h2) | Diverge \<Rightarrow> (Diverge, h2))"
    using run f(1) x m(1) by (cases r2) (auto simp: execute_code_def bindG_def ret_run split: if_splits)
  have noerr: "r2 \<noteq> Err e" for e
    using x by (auto simp: ExecVmTxRawCode_def split: if_splits prod.splits res.splits)
  have n: "nonces h2 q = nonces h s" using k(1) f(4) by (simp add: kept_def nonces_def acct_def fun_eq_iff)
  have kd: "kept s h h2" using drop by (simp add: kept_def nonces_def acct_def fun_eq_iff)
  have km: "kept s h h3" using m n by (simp add: kept_def nonces_def acct_def fun_eq_iff)
  from step noerr k(2) show "r = Ok () \<or> r = Panic" by (auto split: res.splits if_splits)
  from step noerr k(2) kd km show "kept s h h'" by (auto split: res.splits if_splits)
  show "r = Ok () \<and> slice_view h' s = slice_view h s" if "ForkSlice s h = (Ok q', g1)"
    "ExecVmTxRawCode ?i (GasLimit tx) (Data tx) q' g1 = (Ok (g, Some e), g2)"
    using that f(1) x step drop by auto
  show "slice_view h' s = slice_view h s" if "r = Panic"
    using that step drop by (auto split: res.splits if_splits)
qed

section \<open>Payments\<close>

definition credited :: "u64 \<Rightarrow> AccountInfo \<Rightarrow> AccountInfo" where
  "credited v i = i\<lparr>Balance := Balance i + v\<rparr>"

lemma execute_payment_run:
  assumes "safe_callback cb" and "writable h s"
  obtains h' where "execute_payment cb ctx tx a s h = (Ok (), h')" and "frame h s h'" and "writable h' s"
    and "acct h' s = (acct h s)(Receiver tx := credited (Value tx) (acct h s (Receiver tx)))"
proof -
  let ?i = "acct h s (Receiver tx)"
  obtain h1 where 1: "SetAccountInfo s (Receiver tx) (credited (Value tx) ?i) h = (Ok (), h1)"
    "acct h1 s = (acct h s)(Receiver tx := credited (Value tx) ?i)" "frame h s h1" "writable h1 s"
    using accounts.set_wr [OF assms(2)] .
  obtain h2 where 2: "notify_transfer cb s a (Receiver tx) (Value tx) (Data tx) (Some tx) ctx h1 = (Ok (), h2)"
    "frame h1 s h2" "acct h2 s = acct h1 s" "writable h2 s"
    using silentD [OF notify_transfer_silent [OF assms(1)] 1(4)] .
  show thesis
    by (rule that [of h2])
       (use 1 2 slice_kv.frm_trans [OF assms(2) 1(3) 2(2)] in
         \<open>simp_all add: execute_payment_def bindG_Ok accounts.get_run [OF assms(2)] credited_def\<close>)
qed

lemma tx_check_None:
  assumes "tx_check C ctx tx i = None"
  shows "unat (Value tx + Fee tx) = unat (Value tx) + unat (Fee tx)" and "Value tx + Fee tx \<le> Balance i"
    and "AccountNonce i = Nonce tx" and "TxType tx = 1 \<or> TxType tx = 2"
proof -
  from assms have "\<not> Value tx + Fee tx < Value tx" and "\<not> Balance i < Value tx + Fee tx"
    and n: "AccountNonce i = Nonce tx" "TxType tx = 1 \<or> TxType tx = 2"
    by (auto simp: tx_check_def split: if_splits)
  then show "unat (Value tx + Fee tx) = unat (Value tx) + unat (Fee tx)" and "Value tx + Fee tx \<le> Balance i"
    using no_olen_add_nat [of "Value tx" "Fee tx"] by (simp_all add: not_less unat_plus_simple [THEN iffD1])
qed (use assms in \<open>auto simp: tx_check_def split: if_splits\<close>)

lemma ExecuteTx_payment_run:
  assumes cb: "safe_callback cb" and w: "writable h s" and ty: "TxType tx = 1"
    and ok: "tx_check C ctx tx (acct h s (sender_of C tx)) = None"
  obtains h' where "ExecuteTx C cb ctx tx s h = (Ok (), h')" and "frame h s h'" and "writable h' s"
    and "acct h' s = (let T = (acct h s)(sender_of C tx := debited tx (acct h s (sender_of C tx)))
           in T(Receiver tx := credited (Value tx) (T (Receiver tx))))"
proof -
  obtain h1 where 1: "SetAccountInfo s (sender_of C tx) (debited tx (acct h s (sender_of C tx))) h = (Ok (), h1)"
    "acct h1 s = (acct h s)(sender_of C tx := debited tx (acct h s (sender_of C tx)))" "frame h s h1" "writable h1 s"
    using accounts.set_wr [OF w] .
  obtain h2 where 2: "execute_payment cb ctx tx (sender_of C tx) s h1 = (Ok (), h2)" "frame h1 s h2" "writable h2 s"
    "acct h2 s = (acct h1 s)(Receiver tx := credited (Value tx) (acct h1 s (Receiver tx)))"
    using execute_payment_run [OF cb 1(4)] .
  show thesis
    by (rule that [of h2])
       (use 1 2 ty ok slice_kv.frm_trans [OF w 1(3) 2(2)] in \<open>simp_all add: ExecuteTx_run [OF w] bindG_Ok Let_def\<close>)
qed

lemma payment_supply:
  assumes ok: "tx_check C ctx tx (T a) = None" and a: "a \<in> addresses" "Receiver tx \<in> addresses"
    and total: "total_supply T < 2 ^ 64"
  shows "total_supply (let T' = T(a := debited tx (T a)) in T'(Receiver tx := credited (Value tx) (T' (Receiver tx))))
    + unat (Fee tx) = total_supply T"
proof -
  let ?T = "T(a := debited tx (T a))"
  note c = tx_check_None [OF ok]
  have deb: "total_supply ?T + (unat (Value tx) + unat (Fee tx)) = total_supply T"
    using supply_debit [of a "Value tx + Fee tx" T "debited tx (T a)"] a(1) c(2) c(1) by (simp add: debited_def)
  with total have "total_supply ?T + unat (Value tx) < 2 ^ 64" by simp
  then have "total_supply (?T(Receiver tx := credited (Value tx) (?T (Receiver tx)))) = total_supply ?T + unat (Value tx)"
    using a(2) by (intro supply_credit) (simp_all add: credited_def)
  with deb show ?thesis by (simp add: Let_def)
qed

section \<open>Every execution works on its slice alone\<close>

lemma ExecuteTx_frame:
  assumes cb: "safe_callback cb" and w: "writable h s" and run: "ExecuteTx C cb ctx tx s h = (r, h')"
  shows "frame h s h'" and "r \<noteq> Diverge" and "writable h' s"
proof -
  have "frame h s h' \<and> r \<noteq> Diverge"
  proof (cases "tx_check C ctx tx (acct h s (sender_of C tx))")
    case (Some e)
    with run slice_kv.frm_refl [OF w] show ?thesis by (auto simp: ExecuteTx_run [OF w])
  next
    case None
    obtain h1 where d: "SetAccountInfo s (sender_of C tx) (debited tx (acct h s (sender_of C tx))) h = (Ok (), h1)"
      "frame h s h1" "writable h1 s"
      using debit_run [OF w] by metis
    show ?thesis
    proof (cases "TxType tx = 1")
      case True
      obtain h2 where p: "execute_payment cb ctx tx (sender_of C tx) s h1 = (Ok (), h2)" "frame h1 s h2"
        using execute_payment_run [OF cb d(3)] by blast
      with run None True d slice_kv.frm_trans [OF w d(2) p(2)] show ?thesis by (auto simp: ExecuteTx_run [OF w] bindG_Ok)
    next
      case False
      with run None d have x: "execute_code C cb ctx tx (sender_of C tx) s h1 = (r, h')"
        by (simp add: ExecuteTx_run [OF w] bindG_Ok)
      have "frame h1 s h'" using execute_code_run(1) [OF cb d(3) x] by (simp add: kept_def)
      with slice_kv.frm_trans [OF w d(2)] execute_code_run(2) [OF cb d(3) x] show ?thesis by auto
    qed
  qed
  then show "frame h s h'" and "r \<noteq> Diverge" by simp_all
  then show "writable h' s" using frame_writable [OF _ w] by blast
qed

lemma ExecuteTxs_frame:
  assumes cb: "safe_callback cb" and "writable h s" and "ExecuteTxs C cb ctx txs fee s h = (r, h')"
  shows "frame h s h' \<and> r \<noteq> Diverge \<and> writable h' s"
  using assms(2,3)
proof (induction txs arbitrary: fee h)
  case Nil
  then show ?case by (auto simp: ret_run intro: slice_kv.frm_refl)
next
  case (Cons tx txs)
  obtain r1 h1 where 1: "ExecuteTx C cb ctx tx s h = (r1, h1)" by fastforce
  note f = ExecuteTx_frame [OF cb Cons.prems(1) 1]
  show ?case
  proof (cases "r1 = Ok ()")
    case True
    then have run: "ExecuteTxs C cb ctx txs (fee + Fee tx) s h1 = (r, h')" using Cons.prems(2) 1 by (simp add: bindG_Ok)
    with Cons.IH [OF f(3) run] slice_kv.frm_trans [OF Cons.prems(1) f(1)] show ?thesis by auto
  next
    case False
    with Cons.prems(2) 1 f show ?thesis by (cases r1) (auto simp: bindG_def)
  qed
qed

text \<open>After its transactions a block cannot fail: the miner is paid and the callbacks run.\<close>

lemma ExecuteBlock_finishes:
  assumes cb: "safe_callback cb" and txs: "ExecuteTxs C cb ctx (Txs b) 0 s h = (Ok fee, h1)" and w1: "writable h1 s"
  obtains h' where "ExecuteBlock C cb ctx b reward s h = (Ok (), h')" and "frame h1 s h'"
proof -
  let ?i = "acct h1 s (Miner b)"
  obtain h2 where 2: "SetAccountInfo s (Miner b) (?i\<lparr>Balance := Balance ?i + (fee + reward)\<rparr>) h1 = (Ok (), h2)"
    "frame h1 s h2" "writable h2 s"
    using accounts.set_wr [OF w1] by metis
  obtain h3 where 3: "notify_transfer cb s zero32 (Miner b) (fee + reward) [] None ctx h2 = (Ok (), h3)" "frame h2 s h3" "writable h3 s"
    using silentD [OF notify_transfer_silent [OF cb] 2(3)] .
  obtain h4 where 4: "notify_block cb s b ctx h3 = (Ok (), h4)" "frame h3 s h4"
    using silentD [OF notify_block_silent [OF cb] 3(3)] .
  have "ExecuteBlock C cb ctx b reward s h = (Ok (), h4)"
    using txs 2(1) 3(1) 4(1) accounts.get_run [OF w1] by (simp add: ExecuteBlock_def bindG_Ok)
  moreover have "frame h1 s h4"
    using slice_kv.frm_trans [OF w1 _ 4(2)] slice_kv.frm_trans [OF w1 2(2) 3(2)] by blast
  ultimately show thesis by (rule that)
qed

lemma ExecuteBlock_frame:
  assumes cb: "safe_callback cb" and w: "writable h s" and run: "ExecuteBlock C cb ctx b reward s h = (r, h')"
  shows "frame h s h'" and "r \<noteq> Diverge" and "writable h' s"
proof -
  obtain r1 h1 where 1: "ExecuteTxs C cb ctx (Txs b) 0 s h = (r1, h1)" by fastforce
  note f = ExecuteTxs_frame [OF cb w 1]
  have "frame h s h' \<and> r \<noteq> Diverge"
  proof (cases "\<exists>fee. r1 = Ok fee")
    case True
    then obtain fee where "r1 = Ok fee" by blast
    with 1 f obtain h4 where "ExecuteBlock C cb ctx b reward s h = (Ok (), h4)" "frame h1 s h4"
      using ExecuteBlock_finishes [OF cb] by metis
    with run f slice_kv.frm_trans [OF w] show ?thesis by auto
  next
    case False
    with run 1 f show ?thesis by (cases r1) (auto simp: ExecuteBlock_def bindG_def)
  qed
  then show "frame h s h'" and "r \<noteq> Diverge" by simp_all
  then show "writable h' s" using frame_writable [OF _ w] by blast
qed

section \<open>Properties\<close>

text \<open>
  C22: the checks decide, and nothing is left half done. On a writable slice \<^verbatim>\<open>ExecuteTx\<close> returns the first error of its
  checks, with the store as it was. When there is none, a payment returns normally. Code returns normally or dies in
  a panic, but never returns an error and never runs forever; after a panic the slice reads as before except that
  its sender has been debited. In every case no other slice has changed.
\<close>

theorem ExecuteTx_decides:
  assumes "safe_callback cb" and "writable h s"
  shows "case tx_check C ctx tx (acct h s (sender_of C tx)) of
      Some e \<Rightarrow> ExecuteTx C cb ctx tx s h = (Err e, h)
    | None \<Rightarrow> (\<exists>r h'. ExecuteTx C cb ctx tx s h = (r, h') \<and> frame h s h' \<and>
        (r = Ok () \<or> TxType tx = 2 \<and> r = Panic \<and>
          slice_view h' s = (slice_view h s)(acct_key (sender_of C tx) := encode_account (debited tx (acct h s (sender_of C tx))))))"
proof (cases "tx_check C ctx tx (acct h s (sender_of C tx))")
  case (Some e)
  then show ?thesis by (simp add: ExecuteTx_run [OF assms(2)])
next
  case None
  let ?a = "sender_of C tx"
  obtain h1 where d: "SetAccountInfo s ?a (debited tx (acct h s ?a)) h = (Ok (), h1)"
    "slice_view h1 s = (slice_view h s)(acct_key ?a := encode_account (debited tx (acct h s ?a)))" "writable h1 s"
    using debit_run [OF assms(2)] by metis
  obtain r h' where run: "ExecuteTx C cb ctx tx s h = (r, h')" by (cases "ExecuteTx C cb ctx tx s h")
  note fr = ExecuteTx_frame(1) [OF assms run]
  show ?thesis
  proof (cases "TxType tx = 1")
    case True
    obtain h2 where "execute_payment cb ctx tx ?a s h1 = (Ok (), h2)"
      using execute_payment_run [OF assms(1) d(3)] by blast
    with d True None run have "r = Ok ()" by (auto simp: ExecuteTx_run [OF assms(2)] bindG_Ok)
    with None run fr show ?thesis by auto
  next
    case False
    then have ty: "TxType tx = 2" using None by (auto simp: tx_check_def split: if_splits)
    have "execute_code C cb ctx tx ?a s h1 = (r, h')" using run d(1) None ty by (simp add: ExecuteTx_run [OF assms(2)] bindG_Ok)
    with execute_code_run(2,4) [OF assms(1) d(3) this] ty d(2) None run fr show ?thesis by auto
  qed
qed

definition open_crypto :: crypto where
  "open_crypto = \<lparr>sha256 = (\<lambda>_. zero32), ed25519_sign = (\<lambda>_ _. []), ed25519_verify = (\<lambda>_ _ _. True)\<rparr>"

definition small_tx :: "u8 \<Rightarrow> Transaction" where
  "small_tx ty = \<lparr>TxType = ty, SenderPubkey = zero32, SenderSig = [], Receiver = replicate 32 1, Value = 60, GasLimit = 100,
     Fee = 40, Nonce = 0, Data = []\<rparr>"

definition funded_heap :: SliceHeap where
  "funded_heap = snd (SetAccountInfo 0 zero32 \<lparr>Balance = 1000, AccountNonce = 0\<rparr> demo_heap)"

lemma funded_heap:
  "writable funded_heap 0" "acct funded_heap 0 = (\<lambda>_. \<lparr>Balance = 0, AccountNonce = 0\<rparr>)(zero32 := \<lparr>Balance = 1000, AccountNonce = 0\<rparr>)"
proof -
  obtain h where "SetAccountInfo 0 zero32 \<lparr>Balance = 1000, AccountNonce = 0\<rparr> demo_heap = (Ok (), h)"
    "acct h 0 = (acct demo_heap 0)(zero32 := \<lparr>Balance = 1000, AccountNonce = 0\<rparr>)" "writable h 0"
    using accounts.set_wr [OF writable_demo_heap] by metis
  then show "writable funded_heap 0" "acct funded_heap 0 = (\<lambda>_. \<lparr>Balance = 0, AccountNonce = 0\<rparr>)(zero32 := \<lparr>Balance = 1000, AccountNonce = 0\<rparr>)"
    by (auto simp: funded_heap_def acct_demo_heap)
qed

lemma funded_supply: "total_supply (acct funded_heap 0) = 1000"
proof -
  have "zero32 \<in> addresses" by (simp add: addresses_def AddressLen_def)
  then have "total_supply ((\<lambda>_. \<lparr>Balance = 0, AccountNonce = 0\<rparr>)(zero32 := \<lparr>Balance = 1000, AccountNonce = 0\<rparr>)) = 1000"
    using supply_upd [of zero32 "\<lambda>_. \<lparr>Balance = 0, AccountNonce = 0\<rparr>" "\<lparr>Balance = 1000, AccountNonce = 0\<rparr>"]
    by (simp add: total_supply_def)
  then show ?thesis by (simp add: funded_heap(2))
qed

lemma small_tx_accepted:
  "sender_of open_crypto (small_tx ty) = zero32"
  "tx_check open_crypto (demo_ctx\<lparr>Tip1Enabled := False\<rparr>) (small_tx 1) (acct funded_heap 0 zero32) = None"
  "tx_check open_crypto demo_ctx (small_tx 2) (acct funded_heap 0 zero32) = None"
  by (simp_all add: sender_of_def PubkeyToAddress_def open_crypto_def small_tx_def tx_check_def funded_heap(2) demo_ctx_def)

theorem ExecuteTx_decides_witness:
  "(\<exists>h'. ExecuteTx open_crypto None (demo_ctx\<lparr>Tip1Enabled := False\<rparr>) (small_tx 1) 0 funded_heap = (Ok (), h')) \<and>
   ExecuteTx open_crypto None demo_ctx (small_tx 3) 0 funded_heap = (Err ErrWrongTxType, funded_heap)"
proof -
  have "tx_check open_crypto demo_ctx (small_tx 3) i = Some ErrWrongTxType" for i by (simp add: tx_check_def small_tx_def)
  moreover have "TxType (small_tx 1) = 1" by (simp add: small_tx_def)
  ultimately show ?thesis
    using ExecuteTx_decides [OF safe_callback_None funded_heap(1), of open_crypto "demo_ctx\<lparr>Tip1Enabled := False\<rparr>" "small_tx 1"]
      ExecuteTx_decides [OF safe_callback_None funded_heap(1), of open_crypto demo_ctx "small_tx 3"]
    by (auto simp: small_tx_accepted)
qed

text \<open>
  C23: an accepted payment moves its value, destroys its fee (which the block's miner is paid) and
  counts its sender's nonce up, and changes no other account; the supply falls by exactly the fee. This
  includes payments to oneself.
\<close>

theorem ExecuteTx_payment:
  assumes cb: "safe_callback cb" and w: "writable h s" and ty: "TxType tx = 1"
    and ok: "tx_check C ctx tx (acct h s (sender_of C tx)) = None"
    and a: "sender_of C tx \<in> addresses" "Receiver tx \<in> addresses" and total: "total_supply (acct h s) < 2 ^ 64"
  shows "\<exists>h'. ExecuteTx C cb ctx tx s h = (Ok (), h') \<and> frame h s h'
    \<and> acct h' s = (let T = (acct h s)(sender_of C tx := debited tx (acct h s (sender_of C tx)))
                   in T(Receiver tx := credited (Value tx) (T (Receiver tx))))
    \<and> total_supply (acct h' s) + unat (Fee tx) = total_supply (acct h s)"
  by (rule ExecuteTx_payment_run [OF cb w ty ok])
     (use payment_supply [OF ok a total] in \<open>metis (no_types, lifting)\<close>)

theorem ExecuteTx_payment_witness:
  "\<exists>h'. ExecuteTx open_crypto None (demo_ctx\<lparr>Tip1Enabled := False\<rparr>) (small_tx 1) 0 funded_heap = (Ok (), h')
     \<and> Balance (acct h' 0 zero32) = 900 \<and> Balance (acct h' 0 (replicate 32 1)) = 60 \<and> total_supply (acct h' 0) = 960"
proof -
  have "TxType (small_tx 1) = 1" "Receiver (small_tx 1) = replicate 32 1" "zero32 \<noteq> replicate 32 1"
    by (simp_all add: small_tx_def zero32_def)
  moreover have "zero32 \<in> addresses" "replicate 32 1 \<in> addresses" by (simp_all add: addresses_def AddressLen_def)
  ultimately obtain h' where "ExecuteTx open_crypto None (demo_ctx\<lparr>Tip1Enabled := False\<rparr>) (small_tx 1) 0 funded_heap = (Ok (), h')"
    "acct h' 0 = (let T = (acct funded_heap 0)(zero32 := debited (small_tx 1) (acct funded_heap 0 zero32))
       in T(replicate 32 1 := credited (Value (small_tx 1)) (T (replicate 32 1))))"
    "total_supply (acct h' 0) + unat (Fee (small_tx 1)) = 1000"
    using ExecuteTx_payment [OF safe_callback_None funded_heap(1), of "small_tx 1" open_crypto "demo_ctx\<lparr>Tip1Enabled := False\<rparr>"]
    by (auto simp: small_tx_accepted funded_supply)
  with \<open>zero32 \<noteq> replicate 32 1\<close> show ?thesis
    by (intro exI [of _ h']) (simp add: Let_def funded_heap(2) debited_def credited_def small_tx_def)
qed

text \<open>
  C24: code that fails costs its sender the fee and the nonce and has no other effect: when the run of an
  accepted code transaction ends in an error, the slice reads as before except for the sender's account.
\<close>

theorem ExecuteTx_failed_code:
  assumes cb: "safe_callback cb" and w: "writable h s" and ty: "TxType tx = 2"
    and ok: "tx_check C ctx tx (acct h s (sender_of C tx)) = None"
    and fails: "bindG (SetAccountInfo s (sender_of C tx) (debited tx (acct h s (sender_of C tx)))) (\<lambda>_.
      bindG (ForkSlice s) (\<lambda>q. ExecVmTxRawCode
        \<lparr>ctx_of = ctx, callback_of = cb, origin = sender_of C tx, tx_of = Some tx, crypto_of = C\<rparr>
        (GasLimit tx) (Data tx) q)) h = (Ok (g, Some e), h2)"
  shows "\<exists>h'. ExecuteTx C cb ctx tx s h = (Ok (), h')
    \<and> slice_view h' s = (slice_view h s)(acct_key (sender_of C tx) := encode_account (debited tx (acct h s (sender_of C tx))))"
proof -
  obtain h1 where 1: "SetAccountInfo s (sender_of C tx) (debited tx (acct h s (sender_of C tx))) h = (Ok (), h1)"
    "slice_view h1 s = (slice_view h s)(acct_key (sender_of C tx) := encode_account (debited tx (acct h s (sender_of C tx))))"
    "writable h1 s"
    using debit_run [OF w] by metis
  obtain r h' where run: "execute_code C cb ctx tx (sender_of C tx) s h1 = (r, h')"
    by (cases "execute_code C cb ctx tx (sender_of C tx) s h1")
  from fails 1(1) obtain q g1 where "ForkSlice s h1 = (Ok q, g1)"
    "ExecVmTxRawCode \<lparr>ctx_of = ctx, callback_of = cb, origin = sender_of C tx, tx_of = Some tx, crypto_of = C\<rparr>
      (GasLimit tx) (Data tx) q g1 = (Ok (g, Some e), h2)"
    by (auto simp: bindG_eq_Ok)
  from execute_code_run(3) [OF cb 1(3) run this] 1 run ok ty show ?thesis
    by (intro exI [of _ h']) (simp add: ExecuteTx_run [OF w] bindG_Ok)
qed

theorem ExecuteTx_failed_code_witness:
  "\<exists>h'. ExecuteTx open_crypto None demo_ctx (small_tx 2) 0 funded_heap = (Ok (), h') \<and> Balance (acct h' 0 zero32) = 900"
proof -
  let ?d = "debited (small_tx 2) (acct funded_heap 0 zero32)"
  have d: "?d = \<lparr>Balance = 900, AccountNonce = 1\<rparr>" by (simp add: debited_def funded_heap(2) small_tx_def)
  obtain h1 where 1: "SetAccountInfo 0 zero32 ?d funded_heap = (Ok (), h1)" "writable h1 0"
    using accounts.set_wr [OF funded_heap(1)] by metis
  obtain q h2 where "ForkSlice 0 h1 = (Ok q, h2)" using slice_fork.fk_run [OF 1(2)] by blast
  with 1 have "bindG (SetAccountInfo 0 zero32 ?d) (\<lambda>_. bindG (ForkSlice 0) (\<lambda>q. ExecVmTxRawCode i 100 [] q)) funded_heap
      = (Ok (100, Some (ErrVm ErrInsufficientGas)), h2)" for i
    by (simp add: bindG_Ok ExecVmTxRawCode_def GasVmTxRawCode_def)
  moreover have "GasLimit (small_tx 2) = 100" "Data (small_tx 2) = []" "TxType (small_tx 2) = 2" by (simp_all add: small_tx_def)
  ultimately obtain h' where "ExecuteTx open_crypto None demo_ctx (small_tx 2) 0 funded_heap = (Ok (), h')"
    "slice_view h' 0 = (slice_view funded_heap 0)(acct_key zero32 := encode_account ?d)"
    using ExecuteTx_failed_code [OF safe_callback_None funded_heap(1), of "small_tx 2" open_crypto demo_ctx]
    by (auto simp: small_tx_accepted)
  with d show ?thesis by (intro exI [of _ h']) (simp add: acct_def)
qed

lemma nonce_after:
  assumes cb: "safe_callback cb" and w: "writable h s" and run: "ExecuteTx C cb ctx tx s h = (Ok (), h')"
  shows "nonces h' s (sender_of C tx) = Nonce tx + 1" and "writable h' s"
proof -
  let ?a = "sender_of C tx"
  have ok: "tx_check C ctx tx (acct h s ?a) = None"
    using run by (auto simp: ExecuteTx_run [OF w] split: option.splits)
  note c = tx_check_None [OF ok]
  have "nonces h' s ?a = Nonce tx + 1 \<and> writable h' s"
  proof (cases "TxType tx = 1")
    case True
    then show ?thesis
      using run c(3) by (elim ExecuteTx_payment_run [OF cb w _ ok])
        (auto simp: nonces_def Let_def debited_def credited_def)
  next
    case False
    obtain h1 where 1: "SetAccountInfo s ?a (debited tx (acct h s ?a)) h = (Ok (), h1)"
      "acct h1 s = (acct h s)(?a := debited tx (acct h s ?a))" "writable h1 s"
      using accounts.set_wr [OF w] by metis
    with run ok False have code: "execute_code C cb ctx tx ?a s h1 = (Ok (), h')"
      by (simp add: ExecuteTx_run [OF w] bindG_Ok)
    from execute_code_run(1) [OF cb 1(3) code] have "kept s h1 h'" .
    with 1 c(3) show ?thesis by (auto simp: kept_def nonces_def debited_def fun_eq_iff intro: frame_writable)
  qed
  then show "nonces h' s ?a = Nonce tx + 1" and "writable h' s" by auto
qed

text \<open>
  C5: no transaction is accepted twice. After a transaction has been executed, of either kind and
  whatever its code did, executing it again is rejected and changes nothing, in any context.
\<close>

theorem ExecuteTx_no_replay:
  assumes "safe_callback cb" and "writable h s" and "ExecuteTx C cb ctx tx s h = (Ok (), h')"
  shows "\<exists>e. ExecuteTx C cb' ctx' tx s h' = (Err e, h')"
proof -
  note n = nonce_after [OF assms]
  have "AccountNonce (acct h' s (sender_of C tx)) \<noteq> Nonce tx" using n(1) by (simp add: nonces_def)
  then have "tx_check C ctx' tx (acct h' s (sender_of C tx)) \<noteq> None" by (auto simp: tx_check_def)
  then show ?thesis by (auto simp: ExecuteTx_run [OF n(2)])
qed

theorem ExecuteTx_no_replay_witness:
  "\<exists>h' e. ExecuteTx open_crypto None (demo_ctx\<lparr>Tip1Enabled := False\<rparr>) (small_tx 1) 0 funded_heap = (Ok (), h')
     \<and> ExecuteTx open_crypto None demo_ctx (small_tx 1) 0 h' = (Err e, h')"
proof -
  have "TxType (small_tx 1) = 1" by (simp add: small_tx_def)
  then obtain h' where "ExecuteTx open_crypto None (demo_ctx\<lparr>Tip1Enabled := False\<rparr>) (small_tx 1) 0 funded_heap = (Ok (), h')"
    using ExecuteTx_payment_run [OF safe_callback_None funded_heap(1), of "small_tx 1" open_crypto "demo_ctx\<lparr>Tip1Enabled := False\<rparr>"]
    by (auto simp: small_tx_accepted)
  with ExecuteTx_no_replay [OF safe_callback_None funded_heap(1) this, of None demo_ctx] show ?thesis by blast
qed

lemma ExecuteTxs_supply:
  assumes cb: "safe_callback cb" and C: "hash32 C"
  shows "writable h s \<Longrightarrow> list_all (\<lambda>tx. wf_tx tx \<and> TxType tx = 1) txs \<Longrightarrow> total_supply (acct h s) + unat fee0 < 2 ^ 64 \<Longrightarrow>
    ExecuteTxs C cb ctx txs fee0 s h = (Ok fee, h') \<Longrightarrow>
    total_supply (acct h' s) + unat fee = total_supply (acct h s) + unat fee0 \<and> writable h' s"
proof (induction txs arbitrary: fee0 h)
  case Nil
  then show ?case by (simp add: ret_run)
next
  case (Cons tx txs)
  let ?a = "sender_of C tx"
  from Cons.prems(4) obtain h1 where tx: "ExecuteTx C cb ctx tx s h = (Ok (), h1)"
    and rest: "ExecuteTxs C cb ctx txs (fee0 + Fee tx) s h1 = (Ok fee, h')" by (auto simp: bindG_eq_Ok)
  have ok: "tx_check C ctx tx (acct h s ?a) = None"
    using tx by (auto simp: ExecuteTx_run [OF Cons.prems(1)] split: option.splits)
  have a: "?a \<in> addresses" "Receiver tx \<in> addresses"
    using C Cons.prems(2) by (simp_all add: addresses_def sender_of_def PubkeyToAddress_def hash32_def wf_tx_def AddressLen_def)
  have s1: "total_supply (acct h1 s) + unat (Fee tx) = total_supply (acct h s)"
    by (rule ExecuteTx_payment_run [OF cb Cons.prems(1) _ ok])
       (use Cons.prems tx payment_supply [where T = "acct h s", OF ok a] in auto)
  with Cons.prems(3) have "unat fee0 + unat (Fee tx) < 2 ^ LENGTH(64)" by simp
  then have fee: "unat (fee0 + Fee tx) = unat fee0 + unat (Fee tx)" by (rule unat_add_lem [THEN iffD1])
  have w1: "writable h1 s" using nonce_after(2) [OF cb Cons.prems(1) tx] .
  from Cons.IH [OF w1 _ _ rest] Cons.prems(2,3) s1 fee show ?case by simp
qed

text \<open>
  C4: a block of payments creates its reward and nothing else. When such a block is executed on a slice
  whose supply and the reward together stay below \<open>2 ^ 64\<close>, the supply rises by exactly the reward: the
  fees its senders lose are what its miner gains. This is the bound the code's comment relies on.
\<close>

theorem ExecuteBlock_supply:
  assumes cb: "safe_callback cb" and C: "hash32 C" and w: "writable h s"
    and txs: "list_all (\<lambda>tx. wf_tx tx \<and> TxType tx = 1) (Txs b)" and miner: "length (Miner b) = AddressLen"
    and total: "total_supply (acct h s) + unat reward < 2 ^ 64"
    and run: "ExecuteBlock C cb ctx b reward s h = (Ok (), h')"
  shows "total_supply (acct h' s) = total_supply (acct h s) + unat reward"
proof -
  from run obtain fee h1 where 1: "ExecuteTxs C cb ctx (Txs b) 0 s h = (Ok fee, h1)"
    and rest: "bindG (GetAccountInfo s (Miner b)) (\<lambda>i.
      bindG (SetAccountInfo s (Miner b) (i\<lparr>Balance := Balance i + (fee + reward)\<rparr>)) (\<lambda>_.
      bindG (notify_transfer cb s zero32 (Miner b) (fee + reward) [] None ctx) (\<lambda>_. notify_block cb s b ctx))) h1 = (Ok (), h')"
    unfolding ExecuteBlock_def by (auto simp: bindG_eq_Ok)
  have s1: "total_supply (acct h1 s) + unat fee = total_supply (acct h s)" "writable h1 s"
    using ExecuteTxs_supply [OF cb C w txs _ 1] total by simp_all
  then have "unat fee + unat reward < 2 ^ LENGTH(64)" using total by simp
  then have fr: "unat (fee + reward) = unat fee + unat reward" by (rule unat_add_lem [THEN iffD1])
  have m: "Miner b \<in> addresses" using miner by (simp add: addresses_def)
  obtain h2 where 2: "SetAccountInfo s (Miner b) ((acct h1 s (Miner b))\<lparr>Balance := Balance (acct h1 s (Miner b)) + (fee + reward)\<rparr>) h1 = (Ok (), h2)"
    "acct h2 s = (acct h1 s)(Miner b := (acct h1 s (Miner b))\<lparr>Balance := Balance (acct h1 s (Miner b)) + (fee + reward)\<rparr>)" "writable h2 s"
    using accounts.set_wr [OF s1(2)] by metis
  obtain h3 where 3: "notify_transfer cb s zero32 (Miner b) (fee + reward) [] None ctx h2 = (Ok (), h3)" "acct h3 s = acct h2 s" "writable h3 s"
    using silentD [OF notify_transfer_silent [OF cb] 2(3)] by metis
  obtain h4 where 4: "notify_block cb s b ctx h3 = (Ok (), h4)" "acct h4 s = acct h3 s"
    using silentD [OF notify_block_silent [OF cb] 3(3)] by metis
  have "h' = h4" using rest 2(1) 3(1) 4(1) by (simp add: bindG_Ok accounts.get_run [OF s1(2)])
  moreover have "total_supply (acct h2 s) = total_supply (acct h1 s) + unat (fee + reward)"
    unfolding 2(2) by (rule supply_credit [OF m]) (use s1 fr total in simp_all)
  ultimately show ?thesis using s1 fr 3(2) 4(2) by simp
qed

definition small_block :: Block where
  "small_block = \<lparr>Header = \<lparr>Hash = zero32, ParentHash = zero32, BodyHash = zero32, ExtraData = zero32\<rparr>,
     Miner = zero32, Time = 0, Txs = []\<rparr>"

theorem ExecuteBlock_supply_witness:
  "\<exists>h'. ExecuteBlock open_crypto None demo_ctx small_block 50 0 funded_heap = (Ok (), h') \<and> total_supply (acct h' 0) = 1050"
proof -
  have t: "list_all (\<lambda>tx. wf_tx tx \<and> TxType tx = 1) (Txs small_block)" "length (Miner small_block) = AddressLen"
    by (simp_all add: small_block_def AddressLen_def)
  have C: "hash32 open_crypto" by (simp add: hash32_def open_crypto_def)
  obtain h' where run: "ExecuteBlock open_crypto None demo_ctx small_block 50 0 funded_heap = (Ok (), h')"
  proof -
    let ?i = "acct funded_heap 0 zero32"
    obtain h1 where "SetAccountInfo 0 zero32 (?i\<lparr>Balance := Balance ?i + (0 + 50)\<rparr>) funded_heap = (Ok (), h1)"
      using accounts.set_wr [OF funded_heap(1)] by metis
    then show thesis
      by (intro that [of h1])
         (simp add: ExecuteBlock_def small_block_def bindG_Ok ret_run accounts.get_run [OF funded_heap(1)] notify_transfer_def notify_block_def)
  qed
  from ExecuteBlock_supply [OF safe_callback_None C funded_heap(1) t _ run] run show ?thesis by (simp add: funded_supply)
qed

section \<open>The node's configuration\<close>

text \<open>The contract of calls, for the callback that the node installs for the explorer.\<close>

interpretation node_calls: vm_callee n "execVM n (info\<lparr>callback_of := Some (ExplorerExecutionCallback C)\<rparr>)" for n info C
  by (rule execVM_callee) simp

end
