(* ===== verification/Address.thy ===== *)
theory Address
  imports Transaction Error_Text
begin

text \<open>
  The text form of an address, \<^verbatim>\<open>utils/address/address.go\<close>: a prefix and the base58 text of a type byte, the
  address and a checksum byte. The base58 package is not part of the sources; its two functions are
  arguments, and what is used of them, that decoding inverts encoding on the 34 bytes of an address with its
  type and checksum, is a hypothesis.
\<close>

record base58 =
  b58_encode :: "bytes \<Rightarrow> bytes"
  b58_decode :: "bytes \<Rightarrow> bytes res"

definition checkSum :: "AddressType \<Rightarrow> u8" where
  "checkSum addr = foldl (+) 0 addr"

definition addr_prefix :: bytes where
  "addr_prefix = string_bytes ''tcoin''"

definition ParseAddr :: "base58 \<Rightarrow> bytes \<Rightarrow> AddressType res" where
  "ParseAddr B addr =
     (if length addr < 5 then Err ErrAddrLen
      else if take 5 addr \<noteq> addr_prefix then Err ErrAddrPrefix
      else case b58_decode B (drop 5 addr) of
          Ok buf \<Rightarrow>
            (let ra = sub_bytes 1 (1 + AddressLen) buf in
             if length buf \<noteq> AddressLen + 2 then Err ErrAddrLen
             else if buf ! 0 \<noteq> 1 then Err ErrAddrType
             else if buf ! (1 + AddressLen) \<noteq> checkSum ra then Err ErrAddrChecksum
             else Ok ra)
        | Err e \<Rightarrow> Err e | Panic \<Rightarrow> Panic | Diverge \<Rightarrow> Diverge)"

definition EncodeAddr :: "base58 \<Rightarrow> AddressType \<Rightarrow> bytes" where
  "EncodeAddr B addr = addr_prefix @ b58_encode B ([1] @ addr @ [checkSum addr])"

lemma length_addr_prefix [simp]: "length addr_prefix = 5"
  by (simp add: addr_prefix_def string_bytes_def)

lemma ParseAddr_EncodeAddr_run:
  assumes "b58_decode B (b58_encode B ([1] @ a @ [checkSum a])) = Ok ([1] @ a @ [checkSum a])" and "length a = AddressLen"
  shows "ParseAddr B (EncodeAddr B a) = Ok a"
  using assms by (simp add: ParseAddr_def EncodeAddr_def Let_def sub_bytes_def nth_append)

lemma checkSum_update:
  assumes "i < length a"
  shows "checkSum (a[i := b]) = checkSum a + (b - a ! i)"
proof -
  have "foldl (+) c xs = c + sum_list xs" for c and xs :: bytes
    by (induction xs arbitrary: c) (simp_all add: add.assoc)
  then have sum: "checkSum xs = sum_list xs" for xs by (simp add: checkSum_def)
  have "sum_list (a[i := b]) = sum_list a + b - a ! i"
    using assms by (induction a arbitrary: i) (auto split: nat.splits)
  then show ?thesis by (simp add: sum)
qed

text \<open>
  C40: addresses survive being written and read, and a slip is noticed. Parsing the text of an address
  gives the address; and a text whose decoded address differs from a valid one in one byte, with the
  checksum as it was, is rejected.
\<close>

theorem ParseAddr_EncodeAddr:
  assumes "\<And>bs. length bs = AddressLen + 2 \<Longrightarrow> b58_decode B (b58_encode B bs) = Ok bs" and "length a = AddressLen"
  shows "ParseAddr B (EncodeAddr B a) = Ok a
    \<and> (\<forall>i b. i < AddressLen \<and> b \<noteq> a ! i \<longrightarrow>
         ParseAddr B (addr_prefix @ b58_encode B ([1] @ a[i := b] @ [checkSum a])) = Err ErrAddrChecksum)"
proof -
  have "checkSum (a[i := b]) \<noteq> checkSum a" if "i < AddressLen" "b \<noteq> a ! i" for i b
    using that assms(2) by (simp add: checkSum_update)
  then have "ParseAddr B (addr_prefix @ b58_encode B ([1] @ a[i := b] @ [checkSum a])) = Err ErrAddrChecksum"
    if "i < AddressLen" "b \<noteq> a ! i" for i b
    using that assms by (simp add: ParseAddr_def Let_def sub_bytes_def nth_append) metis
  moreover have "ParseAddr B (EncodeAddr B a) = Ok a" by (rule ParseAddr_EncodeAddr_run) (use assms in simp_all)
  ultimately show ?thesis by blast
qed

definition plain_base58 :: base58 where
  "plain_base58 = \<lparr>b58_encode = (\<lambda>x. x), b58_decode = Ok\<rparr>"

theorem ParseAddr_EncodeAddr_witness:
  "ParseAddr plain_base58 (EncodeAddr plain_base58 (replicate 32 7)) = Ok (replicate 32 7)"
  using ParseAddr_EncodeAddr [of plain_base58 "replicate 32 7"] by (simp add: plain_base58_def AddressLen_def)

end
