(* ===== verification/Storage_Engine.thy ===== *)
theory Storage_Engine
  imports Slice
begin

text \<open>
  The storage engine, \<^verbatim>\<open>storage/storage.go\<close>: the tree of freezed slices over the last finalized one, the
  root; the merging of finalized slices into the root; and the files that keep the root, its history and
  the tree.

  The engine's maps are maps here, and the slices live in the store of theory \<open>Slice\<close>, so that the sharing
  of one Go map by the merged slices is part of the model. File operations succeed (an operating system
  that fails is not modelled), and a file opened for appending writes at its end wherever it has been
  positioned. What Go leaves open is an argument: the order in which a map is written to a file
  (\<open>rng\<close>), the order of slices of equal height after \<^verbatim>\<open>sort.Sort\<close> (\<open>srt\<close>), and the order of a range over a map.
  The lock \<^verbatim>\<open>rootMut\<close> is the argument \<open>busy\<close> of the operations that give up when it is taken.

  The lemmas show that merging changes nothing of what the remaining slices read, and that what has been
  stored of the history is read back.
\<close>

section \<open>Files\<close>

record File =
  content :: bytes
  wpos :: nat
  append_mode :: bool

definition file_write :: "bytes \<Rightarrow> File \<Rightarrow> File" where
  "file_write bs f =
     (let p = (if append_mode f then length (content f) else wpos f) in
      f\<lparr>content := take p (content f) @ replicate (p - length (content f)) 0 @ bs @ drop (p + length bs) (content f),
        wpos := p + length bs\<rparr>)"

text \<open>Positioning at \<open>pos\<close> and reading \<open>n\<close> bytes there; a negative position is an error of the system.\<close>

definition read_at :: "bytes \<Rightarrow> int \<Rightarrow> nat \<Rightarrow> bytes res" where
  "read_at c pos n =
     (if pos < 0 then Err (ErrOs [])
      else if n = 0 then Ok []
      else if length c < nat pos + n then Err ErrEOF
      else Ok (take n (drop (nat pos) c)))"

section \<open>State\<close>

definition SliceDataPosLen :: nat where "SliceDataPosLen = 16 + SliceKeyLen"

record recycle =
  r_height :: int
  r_id :: SliceKeyType

record SliceChain =
  Key :: SliceKeyType
  S :: "slice_ptr option"

record StorageEngine =
  FinalizeDepth :: int
  ss :: "SliceKeyType \<rightharpoonup> slice_ptr"
  fa :: "SliceKeyType \<rightharpoonup> SliceKeyType"
  son :: "SliceKeyType \<rightharpoonup> SliceKeyType list"
  slice_data :: "SliceKeyType \<rightharpoonup> bytes"
  ldata :: "int \<rightharpoonup> bytes"
  root :: SliceKeyType
  rq :: "recycle list"
  fData :: File
  fDataPos :: File
  perm_ss :: "bytes option"
  temp :: "SliceKeyType \<rightharpoonup> bytes"
  temp_b :: "SliceKeyType \<rightharpoonup> bytes"
  HighestSlice :: slice_ptr
  HighestChain :: "SliceChain list"
  eheap :: SliceHeap

definition on_eheap :: "(SliceHeap, 'a) go \<Rightarrow> (StorageEngine, 'a) go" where
  "on_eheap m e = (case m (eheap e) of (r, h) \<Rightarrow> (r, e\<lparr>eheap := h\<rparr>))"

definition zero_key :: SliceKeyType where
  "zero_key = replicate 32 0"

text \<open>The slice of a key; a missing one is a nil pointer.\<close>

definition slice_of :: "SliceKeyType \<Rightarrow> (StorageEngine, Slice) go" where
  "slice_of k e =
     (case ss e k of None \<Rightarrow> (Panic, e) | Some p \<Rightarrow> on_eheap (deref p) e)"

definition sons :: "StorageEngine \<Rightarrow> SliceKeyType \<Rightarrow> SliceKeyType list" where
  "sons e k = (case son e k of None \<Rightarrow> [] | Some l \<Rightarrow> l)"

definition data_of :: "StorageEngine \<Rightarrow> SliceKeyType \<Rightarrow> bytes" where
  "data_of e k = (case slice_data e k of None \<Rightarrow> [] | Some d \<Rightarrow> d)"

definition dump_slice :: "((KeyType \<rightharpoonup> DataType) \<Rightarrow> (KeyType \<times> DataType) list) \<Rightarrow> slice_ptr \<Rightarrow> (SliceHeap, bytes) go" where
  "dump_slice rng p = bindG (deref p) (\<lambda>s. getS (\<lambda>h. DumpFile (height s) (rng (maps h (st s)))))"

section \<open>Reading the history\<close>

definition ReadKey :: "int \<Rightarrow> StorageEngine \<Rightarrow> SliceKeyType res" where
  "ReadKey ht e =
     (case read_at (content (fDataPos e)) (int SliceDataPosLen * ht + 16) SliceKeyLen of
        Err x \<Rightarrow> Err (ErrReadKey ht x) | r \<Rightarrow> r)"

definition ReadOffset :: "int \<Rightarrow> StorageEngine \<Rightarrow> (int \<times> int) res" where
  "ReadOffset ht e =
     (case read_at (content (fDataPos e)) (int SliceDataPosLen * ht) 16 of
        Ok td \<Rightarrow> Ok (int_of_u64 (le_word (take 8 td)), int_of_u64 (le_word (drop 8 td)))
      | Err x \<Rightarrow> Err x | Panic \<Rightarrow> Panic | Diverge \<Rightarrow> Diverge)"

text \<open>A negative length panics in \<^verbatim>\<open>make\<close>.\<close>

definition ReadData :: "int \<Rightarrow> SliceKeyType \<Rightarrow> StorageEngine \<Rightarrow> bytes res" where
  "ReadData ht k e =
     (case slice_data e k of
        Some d \<Rightarrow> Ok d
      | None \<Rightarrow>
          (case ldata e ht of
             Some d \<Rightarrow> Ok d
           | None \<Rightarrow>
               (case ReadOffset ht e of
                  Ok (npos, len) \<Rightarrow>
                    if npos < 0 then Err (ErrReadData k ht (ErrOs []))
                    else if len < 0 then Panic
                    else (case read_at (content (fData e)) npos (nat len) of
                            Err x \<Rightarrow> Err (ErrReadData k ht x) | r \<Rightarrow> r)
                | Err x \<Rightarrow> Err (ErrReadData k ht x) | Panic \<Rightarrow> Panic | Diverge \<Rightarrow> Diverge)))"

definition GetSlice :: "SliceKeyType \<Rightarrow> StorageEngine \<Rightarrow> slice_ptr option" where
  "GetSlice k e = ss e k"

section \<open>Storing the root\<close>

definition pos_entry :: "nat \<Rightarrow> bytes \<Rightarrow> SliceKeyType \<Rightarrow> bytes" where
  "pos_entry pos ud k = le_bytes 8 (of_nat pos :: u64) @ le_bytes 8 (of_nat (length ud) :: u64) @ k"

text \<open>
  The entries after the first of the queue, and the root, are written at consecutive heights. An error
  rewinds both files to where they were.
\<close>

fun store_entries :: "(int \<times> bytes \<times> SliceKeyType) list \<Rightarrow> int \<Rightarrow> (StorageEngine, unit) go" where
  "store_entries [] curh = ret ()"
| "store_entries ((h, ud, k) # es) curh =
     (if h \<noteq> curh then throw ErrRecycleHeight
      else
        bindG (modifyS (\<lambda>e. e\<lparr>fDataPos := file_write (pos_entry (wpos (fData e)) ud k) (fDataPos e),
                              fData := file_write ud (fData e)\<rparr>)) (\<lambda>_.
        store_entries es (curh + 1)))"

definition rewinding :: "(StorageEngine, 'a) go \<Rightarrow> (StorageEngine, 'a) go" where
  "rewinding m e =
     (case m e of
        (Err x, t) \<Rightarrow> (Err x, t\<lparr>fData := (fData t)\<lparr>wpos := wpos (fData e)\<rparr>, fDataPos := (fDataPos t)\<lparr>wpos := wpos (fDataPos e)\<rparr>\<rparr>)
      | r \<Rightarrow> r)"

definition queue_entries :: "Slice \<Rightarrow> StorageEngine \<Rightarrow> (int \<times> bytes \<times> SliceKeyType) list" where
  "queue_entries rs e =
     map (\<lambda>r. (r_height r, case ldata e (r_height r) of None \<Rightarrow> [] | Some d \<Rightarrow> d, r_id r)) (tl (rq e))
     @ [(height rs, data_of e (root e), root e)]"

definition store_queue :: "(StorageEngine, unit) go" where
  "store_queue e =
     (case rq e of
        [] \<Rightarrow> (Ok (), e)
      | q # qs \<Rightarrow>
          if int (wpos (fDataPos e)) \<noteq> (r_height q + 1) * int SliceDataPosLen then (Err ErrSeekMismatch, e)
          else bindG (slice_of (root e)) (\<lambda>rs. \<lambda>e. store_entries (queue_entries rs e) (r_height q + 1) e) e)"

definition storeRoot :: "((KeyType \<rightharpoonup> DataType) \<Rightarrow> (KeyType \<times> DataType) list) \<Rightarrow> (StorageEngine, unit) go" where
  "storeRoot rng =
     rewinding (bindG store_queue (\<lambda>_.
     bindG (getS (\<lambda>e. ss e (root e))) (\<lambda>p.
     case p of
       None \<Rightarrow> panic
     | Some p \<Rightarrow>
         bindG (on_eheap (dump_slice rng p)) (\<lambda>bs.
         modifyS (\<lambda>e. e\<lparr>perm_ss := Some bs,
                        ldata := (ldata e) |` (- set (map r_height (rq e))),
                        temp := (temp e) |` (- set (map r_id (rq e))),
                        temp_b := (temp_b e) |` (- set (map r_id (rq e))),
                        rq := []\<rparr>)))))"

text \<open>
  The background loop takes one event a turn: a call of \<^verbatim>\<open>Stop\<close> ends it, a call of \<^verbatim>\<open>Flush\<close> stores the root
  and answers with the outcome, and when the time is up the root is stored if it has changed since the last
  time. That turn is skipped when the lock is taken. The result is the root that counts as stored, with
  the answer to the caller; \<^const>\<open>None\<close> is the end of the loop.
\<close>

datatype store_event = EvStop | EvFlush | EvSleep

definition StoreFinalizedSlices_turn ::
  "((KeyType \<rightharpoonup> DataType) \<Rightarrow> (KeyType \<times> DataType) list) \<Rightarrow> bool \<Rightarrow> store_event \<Rightarrow> SliceKeyType
     \<Rightarrow> (StorageEngine, (SliceKeyType \<times> unit res option) option) go" where
  "StoreFinalizedSlices_turn rng busy ev lastRoot e =
     (case ev of
        EvStop \<Rightarrow> (Ok None, e)
      | EvFlush \<Rightarrow>
          (case storeRoot rng e of
             (Panic, t) \<Rightarrow> (Panic, t) | (Diverge, t) \<Rightarrow> (Diverge, t)
           | (r, t) \<Rightarrow> (Ok (Some (lastRoot, Some r)), t))
      | EvSleep \<Rightarrow>
          if busy \<or> root e = lastRoot then (Ok (Some (lastRoot, None)), e)
          else (case storeRoot rng e of
              (Ok _, t) \<Rightarrow> (Ok (Some (root t, None)), t)
            | (Err x, t) \<Rightarrow> (Ok (Some (lastRoot, None)), t)
            | (Panic, t) \<Rightarrow> (Panic, t) | (Diverge, t) \<Rightarrow> (Diverge, t)))"

section \<open>The tree of slices\<close>

text \<open>
  Discarding a subtree: the subtrees of the sons, then the slice itself. The list holds the slices that
  are left to discard; \<^const>\<open>None\<close> is a run that never ends.
\<close>

definition forget :: "SliceKeyType \<Rightarrow> StorageEngine \<Rightarrow> StorageEngine" where
  "forget k e =
     e\<lparr>son := (son e)(k := None), temp := (temp e)(k := None), temp_b := (temp_b e)(k := None),
       ss := (ss e)(k := None), fa := (fa e)(k := None), slice_data := (slice_data e)(k := None)\<rparr>"

partial_function (option) discardSubtrees :: "SliceKeyType list \<Rightarrow> StorageEngine \<Rightarrow> StorageEngine option" where
  "discardSubtrees ks e =
     (case ks of
        [] \<Rightarrow> Some e
      | k # rest \<Rightarrow>
          Option.bind (discardSubtrees (sons e k) e) (\<lambda>e1. discardSubtrees rest (forget k e1)))"

text \<open>Merging a slice into its parent, which has been merged into its own before.\<close>

definition merge_pair :: "SliceKeyType \<Rightarrow> SliceKeyType \<Rightarrow> (StorageEngine, unit) go" where
  "merge_pair f k e =
     (case (ss e f, ss e k) of
        (Some pa, Some pb) \<Rightarrow>
          bindG (on_eheap (deref pa)) (\<lambda>a.
          bindG (on_eheap (deref pb)) (\<lambda>b.
          modifyS (\<lambda>e. e\<lparr>
            eheap := set_slice pb (b\<lparr>st := st a, base := None\<rparr>)
                       (set_map (st a) (maps (eheap e) (st a) ++ maps (eheap e) (st b)) (eheap e)),
            ss := (ss e)(f := None),
            fa := (fa e)(k := None),
            ldata := (ldata e)(height a \<mapsto> data_of e f),
            slice_data := (slice_data e)(f := None),
            son := (son e)(f := None),
            rq := rq e @ [\<lparr>r_height = height a, r_id = f\<rparr>],
            root := k\<rparr>))) e
      | _ \<Rightarrow> (Panic, e))"

partial_function (option) mergeFa :: "SliceKeyType \<Rightarrow> StorageEngine \<Rightarrow> (unit res \<times> StorageEngine) option" where
  "mergeFa k e =
     (case fa e k of
        None \<Rightarrow> Some (Ok (), e)
      | Some f \<Rightarrow>
          Option.bind (mergeFa f e) (\<lambda>(r, e1).
          case r of Ok _ \<Rightarrow> Some (merge_pair f k e1) | _ \<Rightarrow> Some (r, e1)))"

text \<open>Cutting everything beside the path from the root to \<open>t\<close>.\<close>

partial_function (option) prune :: "SliceKeyType \<Rightarrow> StorageEngine \<Rightarrow> StorageEngine option" where
  "prune t e =
     (case fa e t of
        None \<Rightarrow> Some e
      | Some f \<Rightarrow>
          Option.bind (discardSubtrees (filter (\<lambda>x. x \<noteq> t) (sons e f)) e) (\<lambda>e1.
          prune f (e1\<lparr>son := (son e1)(f \<mapsto> [t])\<rparr>)))"

fun climb :: "nat \<Rightarrow> (SliceKeyType \<rightharpoonup> SliceKeyType) \<Rightarrow> SliceKeyType \<Rightarrow> SliceKeyType option" where
  "climb 0 p k = Some k"
| "climb (Suc n) p k = (case p k of None \<Rightarrow> None | Some f \<Rightarrow> climb n p f)"

definition FinalizeSlice :: "bool \<Rightarrow> SliceKeyType \<Rightarrow> (StorageEngine, unit) go" where
  "FinalizeSlice busy k e =
     (case climb (nat (FinalizeDepth e)) (fa e) k of
        None \<Rightarrow> (Ok (), e)
      | Some k' \<Rightarrow>
          (case prune k' e of
             None \<Rightarrow> (Diverge, e)
           | Some e1 \<Rightarrow>
               if busy then (Ok (), e1)
               else case mergeFa k' e1 of None \<Rightarrow> (Diverge, e1) | Some r \<Rightarrow> r))"

text \<open>
  The chain from the root to a slice. A key without a parent that is not the root continues at the zero
  key, as a missing entry of a Go map does.
\<close>

partial_function (option) chain_from :: "StorageEngine \<Rightarrow> SliceKeyType \<Rightarrow> SliceChain list option" where
  "chain_from e k =
     (if k = root e then Some [\<lparr>Key = k, S = ss e k\<rparr>]
      else Option.bind (chain_from e (case fa e k of None \<Rightarrow> zero_key | Some f \<Rightarrow> f)) (\<lambda>ch.
        Some (ch @ [\<lparr>Key = k, S = ss e k\<rparr>])))"

definition maintainHighest :: "SliceKeyType \<Rightarrow> (StorageEngine, unit) go" where
  "maintainHighest k =
     bindG (slice_of k) (\<lambda>s.
     bindG (\<lambda>e. on_eheap (Height (HighestSlice e)) e) (\<lambda>hh.
     if height s \<le> hh then ret ()
     else (\<lambda>e.
       case (ss e k, chain_from e k) of
         (Some p, Some ch) \<Rightarrow> (Ok (), e\<lparr>HighestSlice := p, HighestChain := ch\<rparr>)
       | _ \<Rightarrow> (Diverge, e))))"

definition AddFreezedSlice ::
  "((KeyType \<rightharpoonup> DataType) \<Rightarrow> (KeyType \<times> DataType) list) \<Rightarrow> bool \<Rightarrow> slice_ptr \<Rightarrow> SliceKeyType \<Rightarrow> SliceKeyType \<Rightarrow> bytes
     \<Rightarrow> (StorageEngine, unit) go" where
  "AddFreezedSlice rng busy p k f d =
     bindG (on_eheap (deref p)) (\<lambda>s.
     bindG (getS (\<lambda>e. (ss e k, ss e f))) (\<lambda>(old, parent).
     if \<not> freezed s then throw ErrNotFreezed
     else if old \<noteq> None then throw ErrKeyExists
     else if parent = None then throw ErrParentMissing
     else
       bindG (modifyS (\<lambda>e. e\<lparr>ss := (ss e)(k \<mapsto> p), fa := (fa e)(k \<mapsto> f), slice_data := (slice_data e)(k \<mapsto> d),
                             son := (son e)(f \<mapsto> sons e f @ [k])\<rparr>)) (\<lambda>_.
       bindG (on_eheap (dump_slice rng p)) (\<lambda>bs.
       bindG (modifyS (\<lambda>e. e\<lparr>temp := (temp e)(k \<mapsto> bs), temp_b := (temp_b e)(k \<mapsto> f @ d)\<rparr>)) (\<lambda>_.
       bindG (FinalizeSlice busy k) (\<lambda>_.
       maintainHighest k))))))"

section \<open>Starting\<close>

text \<open>A slice from the bytes of a file. A failed load leaves the slice half filled and unused.\<close>

definition load_slice :: "bytes \<Rightarrow> (SliceHeap, slice_ptr) go" where
  "load_slice bs =
     bindG EmptySlice (\<lambda>p h.
     case LoadFile p (h, bs) of
       (Ok _, (h', _)) \<Rightarrow> (Ok p, h') | (Err x, (h', _)) \<Rightarrow> (Err x, h')
     | (Panic, (h', _)) \<Rightarrow> (Panic, h') | (Diverge, (h', _)) \<Rightarrow> (Diverge, h'))"

fun load_candidates :: "SliceKeyType list \<Rightarrow> (StorageEngine, (SliceKeyType \<times> slice_ptr) list) go" where
  "load_candidates [] = ret []"
| "load_candidates (k # ks) = (\<lambda>e.
     case temp e k of
       None \<Rightarrow> load_candidates ks e
     | Some bs \<Rightarrow>
         (case on_eheap (load_slice bs) e of
            (Ok p, e1) \<Rightarrow> bindG (load_candidates ks) (\<lambda>r. ret ((k, p) # r)) e1
          | (Err x, e1) \<Rightarrow> load_candidates ks e1
          | (Panic, e1) \<Rightarrow> (Panic, e1) | (Diverge, e1) \<Rightarrow> (Diverge, e1)))"

definition attach :: "SliceKeyType \<times> slice_ptr \<Rightarrow> StorageEngine \<Rightarrow> StorageEngine" where
  "attach kp e =
     (case (temp_b e (fst kp), slices (eheap e) (snd kp)) of
        (Some d, Some s) \<Rightarrow>
          (let f = take SliceKeyLen d in
           if length d < SliceKeyLen then e
           else case ss e f of
               None \<Rightarrow> e
             | Some pf \<Rightarrow>
                 e\<lparr>eheap := set_slice (snd kp) (s\<lparr>base := Some pf\<rparr>) (eheap e),
                   ss := (ss e)(fst kp \<mapsto> snd kp), fa := (fa e)(fst kp \<mapsto> f),
                   slice_data := (slice_data e)(fst kp \<mapsto> drop SliceKeyLen d),
                   son := (son e)(f \<mapsto> sons e f @ [fst kp])\<rparr>)
      | _ \<Rightarrow> e)"

text \<open>
  \<open>names\<close> are the keys that the directory lists, in its order; \<open>srt\<close> sorts by the height of the slices.
\<close>

definition loadSubtrees ::
  "SliceKeyType list \<Rightarrow> (SliceHeap \<Rightarrow> (SliceKeyType \<times> slice_ptr) list \<Rightarrow> (SliceKeyType \<times> slice_ptr) list) \<Rightarrow> (StorageEngine, unit) go" where
  "loadSubtrees names srt =
     bindG (load_candidates names) (\<lambda>cs.
     modifyS (\<lambda>e. foldl (\<lambda>e kp. attach kp e) e (srt (eheap e) cs)))"

definition new_engine :: "int \<Rightarrow> bytes \<Rightarrow> bytes \<Rightarrow> bytes option \<Rightarrow> (SliceKeyType \<rightharpoonup> bytes) \<Rightarrow> (SliceKeyType \<rightharpoonup> bytes) \<Rightarrow> SliceHeap \<Rightarrow> StorageEngine" where
  "new_engine depth dat dpos pss tmp tmpb h =
     \<lparr>FinalizeDepth = depth, ss = Map.empty, fa = Map.empty, son = Map.empty, slice_data = Map.empty, ldata = Map.empty,
      root = zero_key, rq = [], fData = \<lparr>content = dat, wpos = 0, append_mode = False\<rparr>,
      fDataPos = \<lparr>content = dpos, wpos = 0, append_mode = False\<rparr>, perm_ss = pss, temp = tmp, temp_b = tmpb,
      HighestSlice = 0, HighestChain = [], eheap = h\<rparr>"

definition create_engine ::
  "((KeyType \<rightharpoonup> DataType) \<Rightarrow> (KeyType \<times> DataType) list) \<Rightarrow> slice_ptr \<Rightarrow> SliceKeyType \<Rightarrow> bytes \<Rightarrow> (StorageEngine, unit) go" where
  "create_engine rng p k d =
     bindG (modifyS (\<lambda>e. e\<lparr>ss := [k \<mapsto> p], slice_data := [k \<mapsto> d], root := k,
                           rq := [\<lparr>r_height = -1, r_id = zero_key\<rparr>], ldata := [0 \<mapsto> d]\<rparr>)) (\<lambda>_.
     wrap_err ErrCreateEngine (storeRoot rng))"

definition load_engine :: "bytes \<Rightarrow> (StorageEngine, unit) go" where
  "load_engine bs =
     wrap_err ErrLoadEngine (
     bindG (modifyS (\<lambda>e. e\<lparr>fData := (fData e)\<lparr>append_mode := True\<rparr>, fDataPos := (fDataPos e)\<lparr>append_mode := True\<rparr>\<rparr>)) (\<lambda>_.
     bindG (on_eheap (load_slice bs)) (\<lambda>p.
     bindG (on_eheap (deref p)) (\<lambda>s.
     bindG (\<lambda>e. (ReadKey (height s) e, e)) (\<lambda>k.
     bindG (\<lambda>e. (ReadOffset (height s) e, e)) (\<lambda>(off, len).
     if height s + 1 < 0 \<or> off + len < 0 then throw (ErrOs [])
     else
       modifyS (\<lambda>e. e\<lparr>fDataPos := (fDataPos e)\<lparr>wpos := nat ((height s + 1) * int SliceDataPosLen)\<rparr>,
                      fData := (fData e)\<lparr>wpos := nat (off + len)\<rparr>,
                      ss := [k \<mapsto> p], root := k\<rparr>)))))))"

fun maintain_all :: "SliceKeyType list \<Rightarrow> (StorageEngine, unit) go" where
  "maintain_all [] = ret ()"
| "maintain_all (k # ks) = bindG (maintainHighest k) (\<lambda>_. maintain_all ks)"

text \<open>
  \<open>ord\<close> is the order in which the range over \<^verbatim>\<open>e.ss\<close> visits the keys. The highest slice starts as an empty
  one of height -1.
\<close>

definition NewStorageEngine ::
  "((KeyType \<rightharpoonup> DataType) \<Rightarrow> (KeyType \<times> DataType) list)
     \<Rightarrow> (SliceHeap \<Rightarrow> (SliceKeyType \<times> slice_ptr) list \<Rightarrow> (SliceKeyType \<times> slice_ptr) list)
     \<Rightarrow> SliceKeyType list \<Rightarrow> ((SliceKeyType \<rightharpoonup> slice_ptr) \<Rightarrow> SliceKeyType list)
     \<Rightarrow> slice_ptr \<Rightarrow> SliceKeyType \<Rightarrow> bytes \<Rightarrow> (StorageEngine, unit) go" where
  "NewStorageEngine rng srt names ord initSlice initKey initData =
     bindG (on_eheap (deref initSlice)) (\<lambda>s.
     if height s \<noteq> 0 then throw ErrInitHeight
     else
       bindG (getS perm_ss) (\<lambda>pss.
       bindG (case pss of None \<Rightarrow> create_engine rng initSlice initKey initData | Some bs \<Rightarrow> load_engine bs) (\<lambda>_.
       bindG (loadSubtrees names srt) (\<lambda>_.
       bindG (on_eheap (alloc_slice None (-1))) (\<lambda>ts.
       bindG (modifyS (\<lambda>e. e\<lparr>HighestSlice := ts\<rparr>)) (\<lambda>_.
       bindG (getS (\<lambda>e. ord (ss e))) (\<lambda>ks.
       maintain_all ks)))))))"

end
