(* ===== verification/Storage_Tree.thy ===== *)
theory Storage_Tree
  imports Storage_Engine
begin

text \<open>
  The tree of the storage engine. The invariant \<open>wf_engine\<close> says that the parents and the lists of sons
  describe one tree over the slices, that the slices are built on each other in the same way, and that no
  two of them share a map. Finalizing a slice is a sequence of two kinds of steps (\<open>finalizing\<close>): cutting
  the siblings of a node of the path off, and merging the root into its only son.

  The lemmas show that finalizing ends, that it keeps the invariant, that it makes the right slice the
  root, and that no slice that remains reads anything different afterwards, although the slices of the
  path have come to share one map.
\<close>

section \<open>The invariant\<close>

definition node :: "StorageEngine \<Rightarrow> SliceKeyType \<Rightarrow> Slice option" where
  "node e k = Option.bind (ss e k) (slices (eheap e))"

definition wf_tree :: "StorageEngine \<Rightarrow> bool" where
  "wf_tree e \<longleftrightarrow> root e \<in> dom (ss e) \<and> dom (fa e) = dom (ss e) - {root e} \<and> ran (fa e) \<subseteq> dom (ss e) \<and>
     (\<forall>f k. k \<in> set (sons e f) \<longleftrightarrow> fa e k = Some f)"

definition wf_slices :: "StorageEngine \<Rightarrow> bool" where
  "wf_slices e \<longleftrightarrow> wf_heap (eheap e) \<and> HighestSlice e \<in> dom (slices (eheap e)) \<and>
     (\<forall>k p. ss e k = Some p \<longrightarrow> (\<exists>s. slices (eheap e) p = Some s \<and> base s = Option.bind (fa e k) (ss e))) \<and>
     (\<forall>k f s t. fa e k = Some f \<longrightarrow> node e k = Some s \<longrightarrow> node e f = Some t \<longrightarrow> height s = height t + 1) \<and>
     (\<forall>k j s t. node e k = Some s \<longrightarrow> node e j = Some t \<longrightarrow> st s = st t \<longrightarrow> k = j)"

definition wf_engine :: "StorageEngine \<Rightarrow> bool" where
  "wf_engine e \<longleftrightarrow> wf_tree e \<and> wf_slices e"

lemma wf_treeD:
  assumes "wf_tree e"
  shows "root e \<in> dom (ss e)" and "fa e (root e) = None"
    and "k \<in> dom (ss e) \<Longrightarrow> k \<noteq> root e \<Longrightarrow> \<exists>f. fa e k = Some f"
    and "fa e k = Some f \<Longrightarrow> k \<in> dom (ss e)" and "fa e k = Some f \<Longrightarrow> f \<in> dom (ss e)"
    and "k \<in> set (sons e f) \<longleftrightarrow> fa e k = Some f"
  using assms unfolding wf_tree_def by (auto simp: ran_def)

lemma wf_slicesD:
  assumes "wf_slices e"
  shows "wf_heap (eheap e)" and "HighestSlice e \<in> dom (slices (eheap e))"
    and "ss e k = Some p \<Longrightarrow> \<exists>s. slices (eheap e) p = Some s \<and> base s = Option.bind (fa e k) (ss e)"
    and "fa e k = Some f \<Longrightarrow> node e k = Some s \<Longrightarrow> node e f = Some t \<Longrightarrow> height s = height t + 1"
    and "node e k = Some s \<Longrightarrow> node e j = Some t \<Longrightarrow> st s = st t \<Longrightarrow> k = j"
  using assms unfolding wf_slices_def by blast+

lemma wf_engineD: "wf_engine e \<Longrightarrow> wf_tree e" "wf_engine e \<Longrightarrow> wf_slices e"
  by (simp_all add: wf_engine_def)

lemma node_Some: "ss e k = Some p \<Longrightarrow> node e k = slices (eheap e) p"
  by (simp add: node_def)

text \<open>A parent is older than its sons.\<close>

lemma parent_older:
  assumes wf: "wf_engine e" and f: "fa e k = Some f" and p: "ss e k = Some p"
  obtains q s where "ss e f = Some q" and "q < p" and "slices (eheap e) p = Some s" and "base s = Some q"
proof -
  note t = wf_engineD(1) [OF wf] and sl = wf_engineD(2) [OF wf]
  obtain q where q: "ss e f = Some q" using wf_treeD(5) [OF t f] by blast
  obtain s where s: "slices (eheap e) p = Some s" "base s = Some q"
    using wf_slicesD(3) [OF sl p] f q by auto
  from wf_heapD(3) [OF wf_slicesD(1) [OF sl] s] have "q < p" .
  with q s show thesis by (intro that)
qed

lemma ss_inj:
  assumes wf: "wf_engine e" and "ss e k = Some p" and "ss e j = Some p"
  shows "k = j"
proof -
  obtain s where "slices (eheap e) p = Some s" using wf_slicesD(3) [OF wf_engineD(2) [OF wf] assms(2)] by blast
  with assms(2,3) show ?thesis by (intro wf_slicesD(5) [OF wf_engineD(2) [OF wf]]) (auto simp: node_Some)
qed

section \<open>Discarding subtrees\<close>

inductive reach :: "StorageEngine \<Rightarrow> SliceKeyType \<Rightarrow> SliceKeyType \<Rightarrow> bool" for e where
  reach_self: "reach e k k"
| reach_son: "j \<in> set (sons e k) \<Longrightarrow> reach e j x \<Longrightarrow> reach e k x"

definition below :: "StorageEngine \<Rightarrow> SliceKeyType list \<Rightarrow> SliceKeyType set" where
  "below e ks = {x. \<exists>k \<in> set ks. reach e k x}"

definition drop_keys :: "SliceKeyType set \<Rightarrow> StorageEngine \<Rightarrow> StorageEngine" where
  "drop_keys D e =
     e\<lparr>son := son e |` (- D), temp := temp e |` (- D), temp_b := temp_b e |` (- D),
       ss := ss e |` (- D), fa := fa e |` (- D), slice_data := slice_data e |` (- D)\<rparr>"

lemma sons_drop_keys: "sons (drop_keys D e) k = (if k \<in> D then [] else sons e k)"
  by (simp add: sons_def drop_keys_def restrict_map_def)

lemma drop_keys_empty [simp]: "drop_keys {} e = e"
  by (simp add: drop_keys_def restrict_map_def)

lemma drop_keys_drop_keys: "drop_keys A (drop_keys B e) = drop_keys (B \<union> A) e"
  by (simp add: drop_keys_def restrict_map_def fun_eq_iff)

lemma forget_drop_keys: "forget k (drop_keys D e) = drop_keys (insert k D) e"
  by (simp add: forget_def drop_keys_def restrict_map_def fun_eq_iff)

lemma reach_step: "reach e k x \<Longrightarrow> y \<in> set (sons e x) \<Longrightarrow> reach e k y"
  by (induction rule: reach.induct) (auto intro: reach.intros)

lemma reach_unfold: "{x. reach e k x} = insert k (below e (sons e k))"
  by (auto simp: below_def intro: reach.intros elim: reach.cases)

lemma below_Cons: "below e (k # ks) = {x. reach e k x} \<union> below e ks"
  by (auto simp: below_def)

definition sons_closed :: "StorageEngine \<Rightarrow> SliceKeyType set \<Rightarrow> bool" where
  "sons_closed e D \<longleftrightarrow> (\<forall>x \<in> D. set (sons e x) \<subseteq> D)"

lemma sons_closed_reach: "reach e k x \<Longrightarrow> sons_closed e D \<Longrightarrow> k \<in> D \<Longrightarrow> x \<in> D"
  by (induction rule: reach.induct) (auto simp: sons_closed_def)

lemma reach_drop_keys:
  assumes "sons_closed e D" and "reach e k x" and "x \<notin> D"
  shows "reach (drop_keys D e) k x"
  using assms(2,3)
proof (induction rule: reach.induct)
  case (reach_son j k x)
  have "k \<notin> D" using sons_closed_reach [OF reach.reach_son [OF reach_son(1,2)] assms(1)] reach_son.prems by blast
  then have "j \<in> set (sons (drop_keys D e) k)" using reach_son(1) by (simp add: sons_drop_keys)
  with reach_son show ?case by (blast intro: reach.reach_son)
qed (rule reach.reach_self)

lemma drop_keys_reach: "reach (drop_keys D e) k x \<Longrightarrow> reach e k x"
  by (induction rule: reach.induct) (auto simp: sons_drop_keys split: if_splits intro: reach.intros)

lemma below_drop_keys: "sons_closed e D \<Longrightarrow> D \<union> below (drop_keys D e) ks = D \<union> below e ks"
  using reach_drop_keys drop_keys_reach unfolding below_def by blast

lemma sons_closed_below: "sons_closed e (below e ks)"
  by (auto simp: sons_closed_def below_def intro: reach_step)

lemma discardSubtrees_ranked:
  assumes "\<And>f k. k \<in> set (sons e f) \<Longrightarrow> rk k < (rk f :: nat)" and "\<And>k. k \<in> set ks \<Longrightarrow> rk k < n"
  shows "discardSubtrees ks e = Some (drop_keys (below e ks) e)"
  using assms
proof (induction n arbitrary: ks e)
  case 0
  then have "ks = []" by (cases ks) auto
  then show ?case by (subst discardSubtrees.simps) (simp add: below_def)
next
  case (Suc n)
  from Suc.prems show ?case
  proof (induction ks arbitrary: e)
    case Nil
    then show ?case by (subst discardSubtrees.simps) (simp add: below_def)
  next
    case (Cons k ks)
    define D where "D = {x. reach e k x}"
    have closed: "sons_closed e D" by (auto simp: D_def sons_closed_def intro: reach_step)
    have "rk j < n" if "j \<in> set (sons e k)" for j
      using Cons.prems(1) [OF that] Cons.prems(2) [of k] by simp
    from Suc.IH [OF Cons.prems(1) this]
    have 1: "discardSubtrees (sons e k) e = Some (drop_keys (below e (sons e k)) e)" by blast
    have "discardSubtrees ks (drop_keys D e) = Some (drop_keys (below (drop_keys D e) ks) (drop_keys D e))"
      by (rule Cons.IH) (use Cons.prems in \<open>auto simp: sons_drop_keys split: if_splits\<close>)
    then have 2: "discardSubtrees ks (drop_keys D e) = Some (drop_keys (D \<union> below e ks) e)"
      by (simp add: drop_keys_drop_keys below_drop_keys [OF closed])
    show ?case
      by (subst discardSubtrees.simps)
         (simp add: 1 forget_drop_keys reach_unfold [symmetric] D_def [symmetric] 2 below_Cons)
  qed
qed

definition rank :: "StorageEngine \<Rightarrow> SliceKeyType \<Rightarrow> nat" where
  "rank e k = next_ref (eheap e) - the (ss e k)"

lemma discardSubtrees_run:
  assumes wf: "wf_engine e"
  shows "discardSubtrees ks e = Some (drop_keys (below e ks) e)"
proof (rule discardSubtrees_ranked [where rk = "rank e" and n = "Suc (next_ref (eheap e))"])
  fix f k assume "k \<in> set (sons e f)"
  then have f: "fa e k = Some f" using wf_treeD(6) [OF wf_engineD(1) [OF wf]] by simp
  then obtain p where p: "ss e k = Some p" using wf_treeD(4) [OF wf_engineD(1) [OF wf]] by blast
  obtain q s where "ss e f = Some q" "q < p" "slices (eheap e) p = Some s" using parent_older [OF wf f p] .
  then show "rank e k < rank e f"
    using p wf_heapD(1) [OF wf_slicesD(1) [OF wf_engineD(2) [OF wf]]] by (fastforce simp: rank_def)
next
  show "rank e k < Suc (next_ref (eheap e))" for k by (simp add: rank_def)
qed

section \<open>The steps of finalizing\<close>

definition siblings :: "StorageEngine \<Rightarrow> SliceKeyType \<Rightarrow> SliceKeyType \<Rightarrow> SliceKeyType set" where
  "siblings e f t = below e (filter (\<lambda>x. x \<noteq> t) (sons e f))"

definition cut :: "SliceKeyType \<Rightarrow> SliceKeyType \<Rightarrow> StorageEngine \<Rightarrow> StorageEngine" where
  "cut f t e = (drop_keys (siblings e f t) e)\<lparr>son := (son e |` (- siblings e f t))(f \<mapsto> [t])\<rparr>"

definition merged :: "SliceKeyType \<Rightarrow> slice_ptr \<Rightarrow> Slice \<Rightarrow> Slice \<Rightarrow> StorageEngine \<Rightarrow> StorageEngine" where
  "merged k pb a b e =
     e\<lparr>eheap := set_slice pb (b\<lparr>st := st a, base := None\<rparr>)
                  (set_map (st a) (maps (eheap e) (st a) ++ maps (eheap e) (st b)) (eheap e)),
       ss := (ss e)(root e := None), fa := (fa e)(k := None), ldata := (ldata e)(height a \<mapsto> data_of e (root e)),
       slice_data := (slice_data e)(root e := None), son := (son e)(root e := None),
       rq := rq e @ [\<lparr>r_height = height a, r_id = root e\<rparr>], root := k\<rparr>"

inductive finalizing :: "StorageEngine \<Rightarrow> StorageEngine \<Rightarrow> bool" where
  cutting: "fa e t = Some f \<Longrightarrow> finalizing e (cut f t e)"
| merging: "fa e k = Some (root e) \<Longrightarrow> sons e (root e) = [k] \<Longrightarrow> node e (root e) = Some a \<Longrightarrow>
    ss e k = Some pb \<Longrightarrow> slices (eheap e) pb = Some b \<Longrightarrow> finalizing e (merged k pb a b e)"

text \<open>The set that a cut discards is a union of subtrees that hold neither the path nor the root.\<close>

lemma reach_younger:
  assumes wf: "wf_engine e" and "reach e k x" and "ss e k = Some p"
  shows "\<exists>q. ss e x = Some q \<and> p \<le> q"
  using assms(2,3)
proof (induction arbitrary: p rule: reach.induct)
  case (reach_son j k x)
  then have f: "fa e j = Some k" using wf_treeD(6) [OF wf_engineD(1) [OF wf]] by simp
  then obtain pj where pj: "ss e j = Some pj" using wf_treeD(4) [OF wf_engineD(1) [OF wf]] by blast
  with parent_older [OF wf f pj] reach_son show ?case by (metis less_imp_le option.inject order_trans)
qed auto

lemma reach_parent:
  assumes wf: "wf_engine e" and "reach e k x" and "fa e x = Some y"
  shows "x = k \<or> reach e k y"
  using assms(2,3)
proof (induction rule: reach.induct)
  case (reach_son j k x)
  then show ?case using wf_treeD(6) [OF wf_engineD(1) [OF wf]] by (auto intro: reach.intros)
qed auto

lemma reach_inner:
  assumes wf: "wf_engine e" and "reach e k x" and "fa e k = Some y"
  shows "fa e x \<noteq> None"
  using assms(2,3)
  by (induction arbitrary: y rule: reach.induct) (auto simp: wf_treeD(6) [OF wf_engineD(1) [OF wf]])

lemma siblings_facts:
  assumes wf: "wf_engine e" and f: "fa e t = Some f"
  shows "f \<notin> siblings e f t" and "t \<notin> siblings e f t"
    and "\<And>x y. fa e y = Some x \<Longrightarrow> x \<in> siblings e f t \<Longrightarrow> y \<in> siblings e f t"
    and "\<And>x y. fa e y = Some x \<Longrightarrow> y \<in> siblings e f t \<Longrightarrow> x \<in> siblings e f t \<or> x = f \<and> y \<noteq> t"
    and "\<And>y. fa e y = Some f \<Longrightarrow> y \<noteq> t \<Longrightarrow> y \<in> siblings e f t"
    and "root e \<notin> siblings e f t"
    and "\<And>x. x \<in> siblings e f t \<Longrightarrow> ss e x \<noteq> None"
proof -
  note sons = wf_treeD(6) [OF wf_engineD(1) [OF wf]]
  have member: "x \<in> siblings e f t \<longleftrightarrow> (\<exists>k. fa e k = Some f \<and> k \<noteq> t \<and> reach e k x)" for x
    by (auto simp: siblings_def below_def sons)
  obtain pf where pf: "ss e f = Some pf" using wf_treeD(5) [OF wf_engineD(1) [OF wf] f] by blast
  have younger: "\<exists>q. ss e x = Some q \<and> pf < q" if x: "x \<in> siblings e f t" for x
  proof -
    from x member obtain k where k: "fa e k = Some f" "reach e k x" by blast
    obtain pk where pk: "ss e k = Some pk" using wf_treeD(4) [OF wf_engineD(1) [OF wf] k(1)] by blast
    show ?thesis
      using parent_older [OF wf k(1) pk] reach_younger [OF wf k(2) pk] pf by (metis less_le_trans option.inject)
  qed
  show f': "f \<notin> siblings e f t" using younger pf by fastforce
  show up: "x \<in> siblings e f t \<or> x = f \<and> y \<noteq> t" if "fa e y = Some x" "y \<in> siblings e f t" for x y
    using that member reach_parent [OF wf _ that(1)] by fastforce
  show "t \<notin> siblings e f t" using up [OF f] f' by blast
  show "y \<in> siblings e f t" if "fa e y = Some x" "x \<in> siblings e f t" for x y
    using that sons by (auto simp: member intro: reach_step)
  show "y \<in> siblings e f t" if "fa e y = Some f" "y \<noteq> t" for y
    using that by (auto simp: member intro: reach.reach_self)
  show "ss e x \<noteq> None" if "x \<in> siblings e f t" for x using younger [OF that] by auto
  show "root e \<notin> siblings e f t"
  proof
    assume "root e \<in> siblings e f t"
    then obtain k where k: "fa e k = Some f" "reach e k (root e)" using member by blast
    from reach_inner [OF wf k(2,1)] show False using wf_treeD(2) [OF wf_engineD(1) [OF wf]] by simp
  qed
qed

lemma cut_fields:
  "ss (cut f t e) = ss e |` (- siblings e f t)" "fa (cut f t e) = fa e |` (- siblings e f t)"
  "slice_data (cut f t e) = slice_data e |` (- siblings e f t)"
  "root (cut f t e) = root e" "eheap (cut f t e) = eheap e" "HighestSlice (cut f t e) = HighestSlice e"
  "sons (cut f t e) k = (if k = f then [t] else if k \<in> siblings e f t then [] else sons e k)"
  "FinalizeDepth (cut f t e) = FinalizeDepth e" "ldata (cut f t e) = ldata e" "rq (cut f t e) = rq e"
  "fData (cut f t e) = fData e" "fDataPos (cut f t e) = fDataPos e"
  by (auto simp: cut_def drop_keys_def sons_def restrict_map_def)

lemma cut_wf:
  assumes wf: "wf_engine e" and f: "fa e t = Some f"
  shows "wf_engine (cut f t e)"
proof -
  note t = wf_engineD(1) [OF wf] and sl = wf_engineD(2) [OF wf] and sib = siblings_facts [OF wf f]
  have up: "ss e x \<noteq> None \<and> x \<notin> siblings e f t" if "fa e y = Some x" "y \<notin> siblings e f t" for x y
    using that sib(3) wf_treeD(5) [OF t] by blast
  have "k \<in> set (sons (cut f t e) j) \<longleftrightarrow> fa (cut f t e) k = Some j" for j k
  proof (cases "j = f")
    case True
    then show ?thesis using f sib(2,5) by (auto simp: cut_fields restrict_map_def)
  next
    case False
    with sib(3) [of k j] sib(4) [of k j] show ?thesis
      by (auto simp: cut_fields restrict_map_def wf_treeD(6) [OF t])
  qed
  then have "wf_tree (cut f t e)"
    unfolding wf_tree_def using t sib(6) up
    by (auto simp: cut_fields wf_tree_def ran_def restrict_map_def dom_def split: if_splits)
  moreover have node: "node (cut f t e) k = (if k \<in> siblings e f t then None else node e k)" for k
    by (simp add: node_def cut_fields restrict_map_def)
  have "Option.bind (fa (cut f t e) k) (ss (cut f t e)) = Option.bind (fa e k) (ss e)"
    if "k \<notin> siblings e f t" for k
    using that up by (cases "fa e k") (auto simp: cut_fields restrict_map_def)
  then have "wf_slices (cut f t e)"
    unfolding wf_slices_def
    using sl node by (auto simp: wf_slices_def cut_fields restrict_map_def split: if_splits)
  ultimately show ?thesis by (simp add: wf_engine_def)
qed

lemma merged_fields:
  "ss (merged k pb a b e) = (ss e)(root e := None)" "fa (merged k pb a b e) = (fa e)(k := None)"
  "root (merged k pb a b e) = k" "HighestSlice (merged k pb a b e) = HighestSlice e"
  "sons (merged k pb a b e) j = (if j = root e then [] else sons e j)"
  "slices (eheap (merged k pb a b e)) = (slices (eheap e))(pb \<mapsto> b\<lparr>st := st a, base := None\<rparr>)"
  "maps (eheap (merged k pb a b e)) = (maps (eheap e))(st a := maps (eheap e) (st a) ++ maps (eheap e) (st b))"
  "next_ref (eheap (merged k pb a b e)) = next_ref (eheap e)"
  "FinalizeDepth (merged k pb a b e) = FinalizeDepth e"
  by (simp_all add: merged_def sons_def set_slice_def set_map_def)

lemma merged_node:
  assumes wf: "wf_engine e" and "fa e k = Some (root e)" and "ss e k = Some pb"
  shows "node (merged k pb a b e) j =
    (if j = root e then None else if j = k then Some (b\<lparr>st := st a, base := None\<rparr>) else node e j)"
proof -
  have "k \<noteq> root e" using assms(2) wf_treeD(2) [OF wf_engineD(1) [OF wf]] by auto
  moreover have "p \<noteq> pb" if "ss e j = Some p" "j \<noteq> k" for p
    using ss_inj [OF wf that(1), of k] that(2) assms(3) by auto
  ultimately show ?thesis using assms(3) by (cases "ss e j") (auto simp: node_def merged_fields)
qed

lemma merged_wf:
  assumes wf: "wf_engine e" and k: "fa e k = Some (root e)" "sons e (root e) = [k]"
    and a: "node e (root e) = Some a" and b: "ss e k = Some pb" "slices (eheap e) pb = Some b"
  shows "wf_engine (merged k pb a b e)"
proof -
  note t = wf_engineD(1) [OF wf] and sl = wf_engineD(2) [OF wf]
  have only: "j = k" if "fa e j = Some (root e)" for j using that wf_treeD(6) [OF t, of j "root e"] k(2) by simp
  have kr: "k \<noteq> root e" using k(1) wf_treeD(2) [OF t] by auto
  have "j \<in> set (sons (merged k pb a b e) f) \<longleftrightarrow> fa (merged k pb a b e) j = Some f" for f j
    using k by (cases "j = k"; cases "f = root e") (auto simp: merged_fields wf_treeD(6) [OF t] dest: only)
  then have "wf_tree (merged k pb a b e)"
    unfolding wf_tree_def using t b(1) kr only
    by (auto simp: merged_fields wf_tree_def ran_def)
  moreover have node: "node (merged k pb a b e) j =
    (if j = root e then None else if j = k then Some (b\<lparr>st := st a, base := None\<rparr>) else node e j)" for j
    by (rule merged_node [OF wf k(1) b(1)])
  have nk: "node e k = Some b" using b by (simp add: node_Some)
  have "wf_heap (eheap (merged k pb a b e))"
    using wf_slicesD(1) [OF sl] a b by (fastforce simp: wf_heap_def merged_fields node_def bind_eq_Some_conv)
  moreover have "\<exists>s. slices (eheap (merged k pb a b e)) p = Some s
      \<and> base s = Option.bind (fa (merged k pb a b e) j) (ss (merged k pb a b e))"
    if p: "ss (merged k pb a b e) j = Some p" for j p
  proof (cases "j = k")
    case True
    with p b kr show ?thesis by (simp add: merged_fields)
  next
    case False
    from p have p': "ss e j = Some p" "j \<noteq> root e" by (auto simp: merged_fields split: if_splits)
    then have "p \<noteq> pb" using ss_inj [OF wf p'(1), of k] False b by auto
    moreover have "Option.bind (((fa e)(k := None)) j) ((ss e)(root e := None)) = Option.bind (fa e j) (ss e)"
      using False only by (cases "fa e j") auto
    ultimately show ?thesis using wf_slicesD(3) [OF sl p'(1)] by (simp add: merged_fields)
  qed
  moreover have "height s = height u + 1"
    if "fa (merged k pb a b e) j = Some f" "node (merged k pb a b e) j = Some s" "node (merged k pb a b e) f = Some u"
    for j f s u
    using that wf_slicesD(4) [OF sl, of j f] nk by (auto simp: merged_fields node split: if_splits)
  moreover have "j = i"
    if "node (merged k pb a b e) j = Some s" "node (merged k pb a b e) i = Some u" "st s = st u" for j i s u
    using that a wf_slicesD(5) [OF sl] by (fastforce simp: node split: if_splits)
  ultimately show ?thesis
    using wf_slicesD(2) [OF sl] unfolding wf_engine_def wf_slices_def by (auto simp: merged_fields)
qed

lemma merged_view:
  assumes wf: "wf_engine e" and k: "fa e k = Some (root e)" "sons e (root e) = [k]"
    and a: "node e (root e) = Some a" and b: "ss e k = Some pb" "slices (eheap e) pb = Some b"
    and p: "ss (merged k pb a b e) j = Some p"
  shows "slice_view (eheap (merged k pb a b e)) p = slice_view (eheap e) p"
  using p
proof (induction p arbitrary: j rule: less_induct)
  case (less p)
  note t = wf_engineD(1) [OF wf] and sl = wf_engineD(2) [OF wf]
  from less.prems have p: "ss e j = Some p" "j \<noteq> root e" by (auto simp: merged_fields split: if_splits)
  show ?case
  proof (cases "j = k")
    case True
    then have pb: "p = pb" using p b by simp
    obtain pa where pa: "ss e (root e) = Some pa" "slices (eheap e) pa = Some a"
      using a by (auto simp: node_def bind_eq_Some_conv)
    have "base a = None" using wf_slicesD(3) [OF sl pa(1)] pa(2) wf_treeD(2) [OF t] by auto
    moreover have "base b = Some pa" using wf_slicesD(3) [OF sl b(1)] b(2) k(1) pa(1) by auto
    moreover have "slices (eheap (merged k pb a b e)) pb = Some (b\<lparr>st := st a, base := None\<rparr>)"
      by (simp add: merged_fields)
    ultimately show ?thesis
      by (intro ext) (auto simp: pb slice_view_unfold [OF b(2)] slice_view_unfold [OF pa(2)]
        slice_view_unfold [of "eheap (merged k pb a b e)"] merged_fields map_add_def split: option.splits)
  next
    case False
    obtain f where f: "fa e j = Some f" using wf_treeD(3) [OF t, of j] p by blast
    have fr: "f \<noteq> root e" using False f wf_treeD(6) [OF t, of j "root e"] k(2) by auto
    obtain q s where q: "ss e f = Some q" "q < p" "slices (eheap e) p = Some s" "base s = Some q"
      using parent_older [OF wf f p(1)] .
    from q(1) fr have IH: "slice_view (eheap (merged k pb a b e)) q = slice_view (eheap e) q"
      by (intro less.IH [OF q(2), of f]) (simp add: merged_fields)
    have ppb: "p \<noteq> pb" using ss_inj [OF wf p(1), of k] False b by auto
    have "st s \<noteq> st a" using wf_slicesD(5) [OF sl, of j s "root e" a] p q(3) a by (auto simp: node_Some)
    moreover have "slices (eheap (merged k pb a b e)) p = Some s" using q(3) ppb by (simp add: merged_fields)
    ultimately show ?thesis
      using q(4) IH by (intro ext) (auto simp: slice_view_unfold [OF q(3)]
        slice_view_unfold [of "eheap (merged k pb a b e)"] merged_fields split: option.splits)
  qed
qed

lemma finalizing_wf: "finalizing e e' \<Longrightarrow> wf_engine e \<Longrightarrow> wf_engine e'"
  by (induction rule: finalizing.induct) (auto intro: cut_wf merged_wf)

section \<open>Finalizing a slice\<close>

text \<open>The slices from \<open>p\<close> on, in the order of their age, that have not lost their parent keep their place.\<close>

definition narrowed :: "slice_ptr \<Rightarrow> StorageEngine \<Rightarrow> StorageEngine \<Rightarrow> bool" where
  "narrowed p e e' \<longleftrightarrow> ss e' \<subseteq>\<^sub>m ss e \<and> (\<forall>j f q. ss e' f = Some q \<longrightarrow> p \<le> q \<longrightarrow>
     sons e' f = sons e f \<and> (fa e j = Some f \<longrightarrow> fa e' j = Some f))"

inductive thin :: "StorageEngine \<Rightarrow> SliceKeyType \<Rightarrow> bool" for e where
  thin_root: "fa e k = None \<Longrightarrow> thin e k"
| thin_son: "fa e k = Some f \<Longrightarrow> sons e f = [k] \<Longrightarrow> thin e f \<Longrightarrow> thin e k"

lemma narrowedD:
  assumes "narrowed p e e'"
  shows "ss e' k = Some q \<Longrightarrow> ss e k = Some q"
    and "ss e' f = Some q \<Longrightarrow> p \<le> q \<Longrightarrow> sons e' f = sons e f"
    and "ss e' f = Some q \<Longrightarrow> p \<le> q \<Longrightarrow> fa e j = Some f \<Longrightarrow> fa e' j = Some f"
proof -
  show "ss e k = Some q" if "ss e' k = Some q"
    using assms that unfolding narrowed_def map_le_def by (metis domI)
qed (use assms in \<open>simp_all add: narrowed_def\<close>)

lemma narrowed_trans:
  assumes "narrowed q e e1" and "narrowed p e1 e2" and "p \<le> q"
  shows "narrowed q e e2"
  unfolding narrowed_def
proof (intro conjI allI impI)
  show "ss e2 \<subseteq>\<^sub>m ss e" using assms(1,2) map_le_trans by (auto simp: narrowed_def)
  fix j f r assume f: "ss e2 f = Some r" "q \<le> r"
  then have "p \<le> r" using assms(3) by simp
  note 2 = narrowedD [OF assms(2)] and 1 = narrowedD(2,3) [OF assms(1) narrowedD(1) [OF assms(2) f(1)] f(2)]
  show "sons e2 f = sons e f" using 2(2) [OF f(1) \<open>p \<le> r\<close>] 1(1) by simp
  show "fa e2 j = Some f" if "fa e j = Some f" using 2(3) [OF f(1) \<open>p \<le> r\<close> 1(2) [OF that]] .
qed

lemma narrowed_cut:
  assumes wf: "wf_engine e" and f: "fa e t = Some f" and p: "ss e t = Some p"
  shows "narrowed p e (cut f t e)"
  unfolding narrowed_def
proof (intro conjI allI impI)
  obtain q s where q: "ss e f = Some q" "q < p" using parent_older [OF wf f p] .
  show "ss (cut f t e) \<subseteq>\<^sub>m ss e" by (auto simp: map_le_def cut_fields restrict_map_def)
  fix j x r assume x: "ss (cut f t e) x = Some r" "p \<le> r"
  with q have x': "x \<noteq> f" "x \<notin> siblings e f t" by (auto simp: cut_fields restrict_map_def split: if_splits)
  then show "sons (cut f t e) x = sons e x" by (simp add: cut_fields)
  show "fa (cut f t e) j = Some x" if "fa e j = Some x"
    using that siblings_facts(4) [OF wf f that] x' by (auto simp: cut_fields restrict_map_def)
qed

lemma prune_run:
  assumes "wf_engine e" and "ss e t = Some p"
  shows "\<exists>e'. prune t e = Some e' \<and> finalizing\<^sup>*\<^sup>* e e' \<and> wf_engine e' \<and> thin e' t \<and> narrowed p e e'
     \<and> ss e' t = Some p \<and> root e' = root e \<and> eheap e' = eheap e"
  using assms
proof (induction p arbitrary: e t rule: less_induct)
  case (less p)
  note wf = less.prems(1)
  show ?case
  proof (cases "fa e t")
    case None
    with less.prems show ?thesis
      by (subst prune.simps) (auto intro: thin.thin_root simp: narrowed_def)
  next
    case (Some f)
    obtain q s where q: "ss e f = Some q" "q < p" using parent_older [OF wf Some less.prems(2)] .
    note sib = siblings_facts [OF wf Some]
    have run: "discardSubtrees (filter (\<lambda>x. x \<noteq> t) (sons e f)) e = Some (drop_keys (siblings e f t) e)"
      by (simp add: discardSubtrees_run [OF wf] siblings_def)
    have "(drop_keys (siblings e f t) e)\<lparr>son := (son (drop_keys (siblings e f t) e))(f \<mapsto> [t])\<rparr> = cut f t e"
      by (simp add: cut_def drop_keys_def)
    with run Some have step: "prune t e = prune f (cut f t e)" by (subst prune.simps) simp
    have "ss (cut f t e) f = Some q" using q sib(1) by (simp add: cut_fields restrict_map_def)
    from less.IH [OF q(2) cut_wf [OF wf Some] this] obtain e'
      where e': "prune f (cut f t e) = Some e'" "finalizing\<^sup>*\<^sup>* (cut f t e) e'" "wf_engine e'" "thin e' f"
        "narrowed q (cut f t e) e'" "ss e' f = Some q" "root e' = root e" "eheap e' = eheap e"
      by (auto simp: cut_fields)
    have t: "fa e' t = Some f" "sons e' f = [t]"
      using narrowedD(2,3) [OF e'(5,6)] Some sib(2) by (auto simp: cut_fields restrict_map_def)
    from thin.thin_son [OF this e'(4)] have "thin e' t" .
    moreover have "narrowed p e e'"
      using narrowed_trans [OF narrowed_cut [OF wf Some less.prems(2)] e'(5)] q(2) by simp
    moreover have "ss e' t = Some p"
    proof -
      have "t \<in> dom (ss e')" using wf_treeD(4) [OF wf_engineD(1) [OF e'(3)] t(1)] .
      with narrowedD(1) [OF \<open>narrowed p e e'\<close>] less.prems(2) show ?thesis by (metis domD)
    qed
    moreover have "finalizing\<^sup>*\<^sup>* e e'"
      using finalizing.cutting [OF Some] e'(2) by (rule converse_rtranclp_into_rtranclp)
    ultimately show ?thesis using step e' by auto
  qed
qed

text \<open>Merging leaves the slices that remain where they are, and reading as before.\<close>

definition unchanged :: "StorageEngine \<Rightarrow> StorageEngine \<Rightarrow> bool" where
  "unchanged e e' \<longleftrightarrow> ss e' \<subseteq>\<^sub>m ss e \<and>
     (\<forall>j p. ss e' j = Some p \<longrightarrow> slice_view (eheap e') p = slice_view (eheap e) p) \<and>
     (\<forall>p s. slices (eheap e) p = Some s \<longrightarrow> (\<exists>s'. slices (eheap e') p = Some s' \<and> height s' = height s))"

lemma unchanged_refl: "unchanged e e"
  by (auto simp: unchanged_def)

lemma unchanged_trans:
  assumes "unchanged e e1" and "unchanged e1 e2"
  shows "unchanged e e2"
proof -
  have "ss e2 \<subseteq>\<^sub>m ss e" using assms map_le_trans by (auto simp: unchanged_def)
  moreover have "slice_view (eheap e2) p = slice_view (eheap e) p" if "ss e2 j = Some p" for j p
  proof -
    have "ss e1 j = Some p" using assms(2) that by (auto simp: unchanged_def map_le_def dom_def)
    with assms that show ?thesis by (auto simp: unchanged_def)
  qed
  moreover have "\<exists>s'. slices (eheap e2) p = Some s' \<and> height s' = height s" if "slices (eheap e) p = Some s" for p s
    using assms that unfolding unchanged_def by metis
  ultimately show ?thesis by (simp add: unchanged_def)
qed

lemma finalizing_unchanged:
  assumes "finalizing e e'" and wf: "wf_engine e"
  shows "unchanged e e'"
  using assms
proof (induction rule: finalizing.induct)
  case (cutting e t f)
  then show ?case by (auto simp: unchanged_def cut_fields map_le_def restrict_map_def)
next
  case (merging e k a pb b)
  with merged_view [OF merging.prems merging.hyps] show ?case
    by (auto simp: unchanged_def merged_fields map_le_def)
qed

lemma finalizing_star:
  assumes "finalizing\<^sup>*\<^sup>* e e'" and "wf_engine e"
  shows "wf_engine e'" and "unchanged e e'"
proof -
  have "wf_engine e' \<and> unchanged e e'"
    using assms
  proof (induction rule: rtranclp_induct)
    case (step e1 e2)
    then show ?case using finalizing_wf finalizing_unchanged unchanged_trans by blast
  qed (simp add: unchanged_refl)
  then show "wf_engine e'" and "unchanged e e'" by simp_all
qed

text \<open>The sons of slices that remain remain: merging takes away what lies above.\<close>

definition rooted :: "StorageEngine \<Rightarrow> StorageEngine \<Rightarrow> bool" where
  "rooted e e' \<longleftrightarrow> (\<forall>f \<in> dom (ss e'). sons e' f = sons e f \<and> (\<forall>j. fa e j = Some f \<longrightarrow> fa e' j = Some f))"

lemma merge_pair_run:
  assumes "ss e (root e) = Some pa" and "slices (eheap e) pa = Some a" and "ss e k = Some pb" and "slices (eheap e) pb = Some b"
  shows "merge_pair (root e) k e = (Ok (), merged k pb a b e)"
  using assms by (simp add: merge_pair_def on_eheap_def go_run deref_def bindG_def merged_def modifyS_def)

lemma mergeFa_run:
  assumes "thin e k" and "wf_engine e" and "k \<in> dom (ss e)"
  shows "\<exists>e'. mergeFa k e = Some (Ok (), e') \<and> finalizing\<^sup>*\<^sup>* e e' \<and> root e' = k \<and> rooted e e'"
  using assms
proof (induction rule: thin.induct)
  case (thin_root k)
  then have "root e = k" using wf_treeD(3) [OF wf_engineD(1)] by fastforce
  with thin_root show ?case by (subst mergeFa.simps) (auto simp: rooted_def)
next
  case (thin_son k f)
  note t = wf_engineD(1) [OF thin_son.prems(1)]
  from thin_son.IH [OF thin_son.prems(1) wf_treeD(5) [OF t thin_son.hyps(1)]] obtain e1
    where e1: "mergeFa f e = Some (Ok (), e1)" "finalizing\<^sup>*\<^sup>* e e1" "root e1 = f" "rooted e e1" by blast
  note wf1 = finalizing_star(1) [OF e1(2) thin_son.prems(1)]
  note t1 = wf_engineD(1) [OF wf1]
  have "f \<in> dom (ss e1)" using wf_treeD(1) [OF t1] e1(3) by simp
  then have k: "fa e1 k = Some (root e1)" "sons e1 (root e1) = [k]"
    using e1(3,4) thin_son.hyps by (auto simp: rooted_def)
  obtain pa where pa: "ss e1 f = Some pa" using \<open>f \<in> dom (ss e1)\<close> by blast
  then obtain a where a: "slices (eheap e1) pa = Some a" using wf_slicesD(3) [OF wf_engineD(2) [OF wf1]] by blast
  obtain pb where pb: "ss e1 k = Some pb" using wf_treeD(4) [OF t1 k(1)] by blast
  then obtain b where b: "slices (eheap e1) pb = Some b" using wf_slicesD(3) [OF wf_engineD(2) [OF wf1]] by blast
  have fin: "finalizing e1 (merged k pb a b e1)"
    using k pa a pb b e1(3) by (intro finalizing.merging) (auto simp: node_Some)
  have "merge_pair f k e1 = (Ok (), merged k pb a b e1)"
    using merge_pair_run [of e1 pa a k pb b] pa a pb b e1(3) by simp
  moreover have "rooted e (merged k pb a b e1)"
    using e1(3,4) thin_son.hyps(1) by (auto simp: rooted_def merged_fields)
  ultimately show ?case
    using e1 fin thin_son.hyps(1) by (subst mergeFa.simps) (auto simp: merged_fields intro: rtranclp.rtrancl_into_rtrancl)
qed

text \<open>A slice whose ancestor becomes the root survives.\<close>

lemma climb_narrowed:
  assumes wf: "wf_engine e" "wf_engine e'" and n: "narrowed p e e'" and t: "ss e' t = Some p"
    and "climb n (fa e) k = Some t"
  shows "climb n (fa e') k = Some t \<and> (\<exists>q. ss e' k = Some q \<and> p \<le> q)"
  using assms(5)
proof (induction n arbitrary: k)
  case 0
  with t show ?case by simp
next
  case (Suc n)
  then obtain f where f: "fa e k = Some f" "climb n (fa e) f = Some t" by (auto split: option.splits)
  from Suc.IH [OF f(2)] obtain q where q: "climb n (fa e') f = Some t" "ss e' f = Some q" "p \<le> q" by blast
  have f': "fa e' k = Some f" using narrowedD(3) [OF n q(2,3) f(1)] .
  obtain r where r: "ss e' k = Some r" using wf_treeD(4) [OF wf_engineD(1) [OF wf(2)] f'] by blast
  have "q < r" using parent_older [OF wf(2) f' r] q(2) by (metis option.inject)
  with q f' r show ?case by auto
qed

lemma climb_rooted:
  assumes wf: "wf_engine e'" and "rooted e e'" and "climb n (fa e) k = Some (root e')"
  shows "k \<in> dom (ss e')"
  using assms(3)
proof (induction n arbitrary: k)
  case 0
  then show ?case using wf_treeD(1) [OF wf_engineD(1) [OF wf]] by simp
next
  case (Suc n)
  then obtain f where f: "fa e k = Some f" "climb n (fa e) f = Some (root e')" by (auto split: option.splits)
  with Suc.IH [OF f(2)] assms(2) have "fa e' k = Some f" by (auto simp: rooted_def)
  then show ?case by (rule wf_treeD(4) [OF wf_engineD(1) [OF wf]])
qed

lemma climb_dom:
  assumes "wf_engine e" and "k \<in> dom (ss e)" and "climb n (fa e) k = Some t"
  shows "t \<in> dom (ss e)"
  using assms(2,3)
proof (induction n arbitrary: k)
  case (Suc n)
  then obtain f where f: "fa e k = Some f" "climb n (fa e) f = Some t" by (auto split: option.splits)
  from Suc.IH [OF wf_treeD(5) [OF wf_engineD(1) [OF assms(1)] f(1)] f(2)] show ?case .
qed simp

lemma unchanged_ss: "unchanged e e' \<Longrightarrow> j \<in> dom (ss e') \<Longrightarrow> ss e' j = ss e j"
  by (auto simp: unchanged_def map_le_def)

lemma FinalizeSlice_run:
  assumes wf: "wf_engine e" and k: "k \<in> dom (ss e)"
  shows "\<exists>e'. FinalizeSlice busy k e = (Ok (), e') \<and> finalizing\<^sup>*\<^sup>* e e' \<and> ss e' k = ss e k
     \<and> root e' = (if busy then root e
                  else case climb (nat (FinalizeDepth e)) (fa e) k of None \<Rightarrow> root e | Some t \<Rightarrow> t)"
proof (cases "climb (nat (FinalizeDepth e)) (fa e) k")
  case None
  then show ?thesis by (auto simp: FinalizeSlice_def)
next
  case (Some t)
  obtain p where p: "ss e t = Some p" using climb_dom [OF wf k Some] by blast
  obtain e1 where e1: "prune t e = Some e1" "finalizing\<^sup>*\<^sup>* e e1" "wf_engine e1" "thin e1 t" "narrowed p e e1"
    "ss e1 t = Some p" "root e1 = root e"
    using prune_run [OF wf p] by blast
  have k1: "climb (nat (FinalizeDepth e)) (fa e1) k = Some t" "k \<in> dom (ss e1)"
    using climb_narrowed [OF wf e1(3,5,6) Some] by auto
  have s1: "ss e1 k = ss e k" using unchanged_ss [OF finalizing_star(2) [OF e1(2) wf] k1(2)] .
  show ?thesis
  proof (cases busy)
    case True
    with Some e1 s1 show ?thesis by (simp add: FinalizeSlice_def)
  next
    case False
    obtain e2 where e2: "mergeFa t e1 = Some (Ok (), e2)" "finalizing\<^sup>*\<^sup>* e1 e2" "root e2 = t" "rooted e1 e2"
      using mergeFa_run [OF e1(4,3)] e1(6) by blast
    have "k \<in> dom (ss e2)"
      using climb_rooted [OF finalizing_star(1) [OF e2(2) e1(3)] e2(4), of "nat (FinalizeDepth e)" k] k1 e2(3) by simp
    from unchanged_ss [OF finalizing_star(2) [OF e2(2) e1(3)] this] s1 have "ss e2 k = ss e k" by simp
    with False Some e1(1,2) e2 show ?thesis by (auto simp: FinalizeSlice_def)
  qed
qed

section \<open>The highest chain\<close>

definition is_path :: "StorageEngine \<Rightarrow> SliceChain list \<Rightarrow> bool" where
  "is_path e ch \<longleftrightarrow> ch \<noteq> [] \<and> Key (hd ch) = root e \<and> (\<forall>c \<in> set ch. S c = ss e (Key c)) \<and>
     (\<forall>i < length ch - 1. fa e (Key (ch ! Suc i)) = Some (Key (ch ! i)))"

lemma is_path_snoc:
  assumes "is_path e ch" and "fa e k = Some (Key (last ch))"
  shows "is_path e (ch @ [\<lparr>Key = k, S = ss e k\<rparr>])"
proof -
  have "i = length ch - 1" if "i < length ch" "\<not> Suc i < length ch" for i using that by simp
  with assms show ?thesis by (auto simp: is_path_def nth_append last_conv_nth)
qed

lemma chain_from_run:
  assumes wf: "wf_engine e" and "ss e k = Some p"
  shows "\<exists>ch. chain_from e k = Some ch \<and> is_path e ch \<and> Key (last ch) = k"
  using assms(2)
proof (induction p arbitrary: k rule: less_induct)
  case (less p)
  show ?case
  proof (cases "k = root e")
    case True
    then show ?thesis by (subst chain_from.simps) (simp add: is_path_def)
  next
    case False
    with less.prems obtain f where f: "fa e k = Some f" using wf_treeD(3) [OF wf_engineD(1) [OF wf]] by blast
    obtain q s where q: "ss e f = Some q" "q < p" using parent_older [OF wf f less.prems] .
    from less.IH [OF q(2,1)] obtain ch where ch: "chain_from e f = Some ch" "is_path e ch" "Key (last ch) = f" by blast
    with f is_path_snoc [OF ch(2), of k] False show ?thesis by (subst chain_from.simps) simp
  qed
qed

lemma wf_highest:
  "wf_engine e \<Longrightarrow> p \<in> dom (slices (eheap e)) \<Longrightarrow> wf_engine (e\<lparr>HighestSlice := p, HighestChain := ch\<rparr>)"
  by (simp add: wf_engine_def wf_tree_def wf_slices_def node_def sons_def)

text \<open>The height of the highest slice only grows, and a slice that is higher comes with the chain to it.\<close>

lemma maintainHighest_run:
  assumes wf: "wf_engine e" and p: "ss e k = Some p" and s: "slices (eheap e) p = Some s"
    and hs: "slices (eheap e) (HighestSlice e) = Some hs"
  shows "\<exists>q ch. maintainHighest k e = (Ok (), e\<lparr>HighestSlice := q, HighestChain := ch\<rparr>) \<and>
    (if height s \<le> height hs then q = HighestSlice e \<and> ch = HighestChain e
     else q = p \<and> is_path e ch \<and> Key (last ch) = k)"
proof -
  obtain ch where ch: "chain_from e k = Some ch" "is_path e ch" "Key (last ch) = k"
    using chain_from_run [OF wf p] by blast
  have 1: "slice_of k e = (Ok s, e)" using p s by (simp add: slice_of_def on_eheap_def go_run)
  have 2: "on_eheap (Height (HighestSlice e)) e = (Ok (height hs), e)"
    using hs by (simp add: on_eheap_def Height_def go_run)
  show ?thesis
    using ch p by (cases "height s \<le> height hs") (auto simp: maintainHighest_def bindG_def 1 2 ret_run)
qed

section \<open>Adding a slice\<close>

text \<open>
  What the caller of \<^verbatim>\<open>AddFreezedSlice\<close> has to bring: a freezed slice that was forked from the slice of the
  parent and that has a map of its own.
\<close>

definition built_on :: "StorageEngine \<Rightarrow> slice_ptr \<Rightarrow> SliceKeyType \<Rightarrow> bool" where
  "built_on e p f \<longleftrightarrow> (\<exists>s t. slices (eheap e) p = Some s \<and> freezed s \<and> ss e f \<noteq> None \<and> base s = ss e f \<and>
     node e f = Some t \<and> height s = height t + 1 \<and> (\<forall>j u. node e j = Some u \<longrightarrow> st u \<noteq> st s))"

definition added :: "SliceKeyType \<Rightarrow> slice_ptr \<Rightarrow> SliceKeyType \<Rightarrow> bytes \<Rightarrow> StorageEngine \<Rightarrow> StorageEngine" where
  "added k p f d e = e\<lparr>ss := (ss e)(k \<mapsto> p), fa := (fa e)(k \<mapsto> f), slice_data := (slice_data e)(k \<mapsto> d),
                        son := (son e)(f \<mapsto> sons e f @ [k])\<rparr>"

lemma added_fields:
  "ss (added k p f d e) = (ss e)(k \<mapsto> p)" "fa (added k p f d e) = (fa e)(k \<mapsto> f)"
  "root (added k p f d e) = root e" "HighestSlice (added k p f d e) = HighestSlice e"
  "eheap (added k p f d e) = eheap e" "slice_data (added k p f d e) = (slice_data e)(k \<mapsto> d)"
  "sons (added k p f d e) j = (if j = f then sons e f @ [k] else sons e j)"
  "FinalizeDepth (added k p f d e) = FinalizeDepth e"
  by (simp_all add: added_def sons_def)

lemma added_wf:
  assumes wf: "wf_engine e" and p: "built_on e p f" and k: "ss e k = None"
  shows "wf_engine (added k p f d e)"
proof -
  note t = wf_engineD(1) [OF wf] and sl = wf_engineD(2) [OF wf]
  from p obtain s u where s: "slices (eheap e) p = Some s" "base s = ss e f" "ss e f \<noteq> None" "node e f = Some u"
    "height s = height u + 1" "\<And>j u. node e j = Some u \<Longrightarrow> st u \<noteq> st s" by (auto simp: built_on_def)
  have fk: "fa e k = None" and nk: "fa e j \<noteq> Some k" and kf: "k \<noteq> f" for j
    using wf_treeD(4,5) [OF t] k s(3) by fastforce+
  have node: "node (added k p f d e) j = (if j = k then Some s else node e j)" for j
    using s(1) by (simp add: node_def added_fields)
  have "j \<in> set (sons (added k p f d e) i) \<longleftrightarrow> fa (added k p f d e) j = Some i" for i j
    using fk by (auto simp: added_fields wf_treeD(6) [OF t])
  then have "wf_tree (added k p f d e)"
    unfolding wf_tree_def using t s(3) k fk by (auto simp: added_fields wf_tree_def ran_def)
  moreover have "Option.bind (fa (added k p f d e) j) (ss (added k p f d e)) = (if j = k then ss e f else Option.bind (fa e j) (ss e))"
    for j using nk kf by (cases "fa e j") (auto simp: added_fields)
  then have "\<exists>r. slices (eheap (added k p f d e)) q = Some r \<and> base r = Option.bind (fa (added k p f d e) j) (ss (added k p f d e))"
    if "ss (added k p f d e) j = Some q" for j q
    using that s(1,2) wf_slicesD(3) [OF sl] by (auto simp: added_fields split: if_splits)
  moreover have "height x = height y + 1"
    if "fa (added k p f d e) j = Some i" "node (added k p f d e) j = Some x" "node (added k p f d e) i = Some y" for j i x y
    using that s(4,5) kf nk wf_slicesD(4) [OF sl, of j i x y] by (auto simp: added_fields node split: if_splits)
  moreover have "j = i" if "node (added k p f d e) j = Some x" "node (added k p f d e) i = Some y" "st x = st y" for j i x y
    using that s(6) wf_slicesD(5) [OF sl, of j x i y] by (fastforce simp: node split: if_splits)
  ultimately show ?thesis
    using wf_slicesD(1,2) [OF sl] unfolding wf_engine_def wf_slices_def by (auto simp: added_fields)
qed

lemma wf_temp: "wf_engine e \<Longrightarrow> wf_engine (e\<lparr>temp := x, temp_b := y\<rparr>)"
  by (simp add: wf_engine_def wf_tree_def wf_slices_def node_def sons_def)

lemma dump_slice_run:
  "slices (eheap e) p = Some s \<Longrightarrow>
     on_eheap (dump_slice rng p) e = (Ok (DumpFile (height s) (rng (maps (eheap e) (st s)))), e)"
  by (simp add: on_eheap_def dump_slice_def go_run)

lemma on_eheap_deref: "slices (eheap e) p = Some s \<Longrightarrow> on_eheap (deref p) e = (Ok s, e)"
  by (simp add: on_eheap_def go_run)

text \<open>The files of the new slice: its own entries, and its parent and data.\<close>

definition filed :: "SliceKeyType \<Rightarrow> bytes \<Rightarrow> bytes \<Rightarrow> StorageEngine \<Rightarrow> StorageEngine" where
  "filed k x y e = e\<lparr>temp := (temp e)(k \<mapsto> x), temp_b := (temp_b e)(k \<mapsto> y)\<rparr>"

lemma AddFreezedSlice_run:
  assumes wf: "wf_engine e" and p: "built_on e p f" and k: "ss e k = None" and s: "slices (eheap e) p = Some s"
    and hs: "slices (eheap e) (HighestSlice e) = Some hs"
  obtains e1 e2 q ch where
    "e1 = filed k (DumpFile (height s) (rng (maps (eheap e) (st s)))) (f @ d) (added k p f d e)"
    and "wf_engine e1" and "finalizing\<^sup>*\<^sup>* e1 e2" and "wf_engine e2" and "unchanged e1 e2" and "ss e2 k = Some p"
    and "AddFreezedSlice rng busy p k f d e = (Ok (), e2\<lparr>HighestSlice := q, HighestChain := ch\<rparr>)"
    and "root e2 = (if busy then root e
           else case climb (nat (FinalizeDepth e)) ((fa e)(k \<mapsto> f)) k of None \<Rightarrow> root e | Some t \<Rightarrow> t)"
    and "if height s \<le> height hs then q = HighestSlice e2 \<and> ch = HighestChain e2
         else q = p \<and> is_path e2 ch \<and> Key (last ch) = k"
    and "HighestSlice e2 = HighestSlice e"
proof -
  define e1 where "e1 = filed k (DumpFile (height s) (rng (maps (eheap e) (st s)))) (f @ d) (added k p f d e)"
  have f1: "ss e1 = (ss e)(k \<mapsto> p)" "fa e1 = (fa e)(k \<mapsto> f)" "eheap e1 = eheap e" "root e1 = root e"
    "HighestSlice e1 = HighestSlice e" "FinalizeDepth e1 = FinalizeDepth e"
    by (simp_all add: e1_def filed_def added_def)
  have wf1: "wf_engine e1" unfolding e1_def filed_def by (intro wf_temp added_wf wf p k)
  obtain e2 where e2: "FinalizeSlice busy k e1 = (Ok (), e2)" "finalizing\<^sup>*\<^sup>* e1 e2" "ss e2 k = Some p"
    and r: "root e2 = (if busy then root e
           else case climb (nat (FinalizeDepth e)) ((fa e)(k \<mapsto> f)) k of None \<Rightarrow> root e | Some t \<Rightarrow> t)"
    using FinalizeSlice_run [OF wf1, of k busy, unfolded f1] by auto
  note st2 = finalizing_star [OF e2(2) wf1]
  have hi: "HighestSlice e2 = HighestSlice e1"
    using e2(2) by (induction rule: rtranclp_induct) (auto elim!: finalizing.cases simp: cut_fields merged_fields)
  obtain s2 where s2: "slices (eheap e2) p = Some s2" "height s2 = height s"
    using st2(2) s f1(3) unfolding unchanged_def by metis
  obtain h2 where h2: "slices (eheap e2) (HighestSlice e2) = Some h2" "height h2 = height hs"
    using st2(2) hs f1(3,5) hi unfolding unchanged_def by metis
  obtain q ch where m: "maintainHighest k e2 = (Ok (), e2\<lparr>HighestSlice := q, HighestChain := ch\<rparr>)"
    "if height s \<le> height hs then q = HighestSlice e2 \<and> ch = HighestChain e2
     else q = p \<and> is_path e2 ch \<and> Key (last ch) = k"
    using maintainHighest_run [OF st2(1) e2(3) s2(1) h2(1)] s2(2) h2(2) by auto
  have "freezed s" and par: "ss e f \<noteq> None" using p s by (auto simp: built_on_def)
  have d: "slices (eheap (added k p f d e)) p = Some s" using s by (simp add: added_fields)
  have "AddFreezedSlice rng busy p k f d e = bindG (FinalizeSlice busy k) (\<lambda>_. maintainHighest k) e1"
    using \<open>freezed s\<close> par k unfolding AddFreezedSlice_def
    by (auto simp: go_run on_eheap_deref [OF s] added_def [symmetric] dump_slice_run [OF d] filed_def [symmetric]
      added_fields e1_def)
  then have "AddFreezedSlice rng busy p k f d e = (Ok (), e2\<lparr>HighestSlice := q, HighestChain := ch\<rparr>)"
    by (simp add: go_run e2(1) m(1))
  with wf1 e2 st2 m(2) r hi f1(5) show thesis by (intro that [of e1 e2 ch q]) (simp_all add: e1_def)
qed

lemma AddFreezedSlice_rejects:
  assumes s: "slices (eheap e) p = Some s"
  shows "\<not> freezed s \<Longrightarrow> AddFreezedSlice rng busy p k f d e = (Err ErrNotFreezed, e)"
    and "freezed s \<Longrightarrow> k \<in> dom (ss e) \<Longrightarrow> AddFreezedSlice rng busy p k f d e = (Err ErrKeyExists, e)"
    and "freezed s \<Longrightarrow> k \<notin> dom (ss e) \<Longrightarrow> f \<notin> dom (ss e) \<Longrightarrow>
      AddFreezedSlice rng busy p k f d e = (Err ErrParentMissing, e)"
  unfolding AddFreezedSlice_def by (auto simp: go_run on_eheap_deref [OF s])

lemma AddFreezedSlice_total:
  assumes "wf_engine e" and b: "built_on e p f"
  shows "\<exists>e'. AddFreezedSlice rng busy p k f d e = (if k \<in> dom (ss e) then Err ErrKeyExists else Ok (), e')"
proof -
  obtain s hs where s: "slices (eheap e) p = Some s" "freezed s" and hs: "slices (eheap e) (HighestSlice e) = Some hs"
    using b wf_slicesD(2) [OF wf_engineD(2) [OF assms(1)]] by (auto simp: built_on_def)
  show ?thesis
  proof (cases "k \<in> dom (ss e)")
    case True
    then show ?thesis using AddFreezedSlice_rejects(2) [OF s] by simp
  next
    case False
    then have "ss e k = None" by blast
    from AddFreezedSlice_run [OF assms this s(1) hs, of rng d busy] show ?thesis using False by auto
  qed
qed

section \<open>Properties\<close>

text \<open>
  C6: finalizing ends and changes nothing that can still be read. In a well-formed engine it returns
  without an error, the tree is well formed again, the slice it was called for is still there, no slice is
  added or moved, and every slice of the remaining tree reads exactly what it read before, although the
  slices of the path now share one map. Unless the lock is taken, the new root is the ancestor that the
  configured depth says, or the old root where the slice is not that deep.
\<close>

theorem FinalizeSlice_spec:
  assumes "wf_engine e" and "k \<in> dom (ss e)"
  shows "\<exists>e'. FinalizeSlice busy k e = (Ok (), e') \<and> wf_engine e' \<and> ss e' k = ss e k \<and> ss e' \<subseteq>\<^sub>m ss e
     \<and> (\<forall>j p. ss e' j = Some p \<longrightarrow> slice_view (eheap e') p = slice_view (eheap e) p)
     \<and> root e' = (if busy then root e
                  else case climb (nat (FinalizeDepth e)) (fa e) k of None \<Rightarrow> root e | Some t \<Rightarrow> t)"
proof -
  obtain e' where e': "FinalizeSlice busy k e = (Ok (), e')" "finalizing\<^sup>*\<^sup>* e e'" "ss e' k = ss e k"
    "root e' = (if busy then root e else case climb (nat (FinalizeDepth e)) (fa e) k of None \<Rightarrow> root e | Some t \<Rightarrow> t)"
    using FinalizeSlice_run [OF assms] by blast
  from finalizing_star [OF e'(2) assms(1)] have "wf_engine e'" "unchanged e e'" .
  with e' show ?thesis unfolding unchanged_def by blast
qed

definition demo_slice :: "slice_ptr option \<Rightarrow> int \<Rightarrow> nat \<Rightarrow> Slice" where
  "demo_slice b ht m = \<lparr>base = b, height = ht, st = m, freezed = True\<rparr>"

text \<open>A root \<open>[1]\<close> with two sons \<open>[2]\<close> and \<open>[3]\<close>, and a slice that has been built on \<open>[2]\<close>.\<close>

definition demo_engine :: StorageEngine where
  "demo_engine = (new_engine 1 [] [] None Map.empty Map.empty
     \<lparr>slices = [0 \<mapsto> demo_slice None 0 0, 1 \<mapsto> demo_slice (Some 0) 1 1, 2 \<mapsto> demo_slice (Some 0) 1 2,
                3 \<mapsto> demo_slice (Some 1) 2 3],
      maps = (\<lambda>r. if r = 0 then [[7] \<mapsto> [8]] else if r = 1 then [[7] \<mapsto> [9]] else Map.empty), next_ref = 4\<rparr>)
     \<lparr>ss := [[1] \<mapsto> 0, [2] \<mapsto> 1, [3] \<mapsto> 2], fa := [[2] \<mapsto> [1], [3] \<mapsto> [1]], son := [[1] \<mapsto> [[2], [3]]], root := [1]\<rparr>"

lemma wf_demo_engine: "wf_engine demo_engine"
proof -
  have "wf_tree demo_engine"
    by (auto simp: wf_tree_def demo_engine_def new_engine_def sons_def ran_def dom_def split: if_splits)
  moreover have "wf_heap (eheap demo_engine)"
    by (auto simp: wf_heap_def demo_engine_def new_engine_def demo_slice_def split: if_splits)
  moreover have "node demo_engine k =
      (if k = [1] then Some (demo_slice None 0 0) else if k = [2] then Some (demo_slice (Some 0) 1 1)
       else if k = [3] then Some (demo_slice (Some 0) 1 2) else None)" for k
    by (simp add: node_def demo_engine_def new_engine_def)
  then have "wf_slices demo_engine"
    unfolding wf_slices_def using \<open>wf_heap (eheap demo_engine)\<close>
    by (auto simp: demo_engine_def new_engine_def demo_slice_def split: if_splits)
  ultimately show ?thesis by (simp add: wf_engine_def)
qed

lemma built_on_demo: "built_on demo_engine 3 [2]"
  unfolding built_on_def node_def
  by (auto simp: demo_engine_def new_engine_def demo_slice_def split: if_splits)

theorem FinalizeSlice_spec_witness:
  "\<exists>e'. FinalizeSlice False [2] (demo_engine\<lparr>FinalizeDepth := 0\<rparr>) = (Ok (), e') \<and> root e' = [2] \<and> ss e' [2] = Some 1
     \<and> slice_view (eheap e') 1 = slice_view (eheap demo_engine) 1"
proof -
  have "wf_engine (demo_engine\<lparr>FinalizeDepth := 0\<rparr>)"
    using wf_demo_engine by (simp add: wf_engine_def wf_tree_def wf_slices_def node_def sons_def)
  moreover have ss: "ss demo_engine [2] = Some 1" by (simp add: demo_engine_def)
  ultimately show ?thesis
    using FinalizeSlice_spec [of "demo_engine\<lparr>FinalizeDepth := 0\<rparr>" "[2]" False] by auto
qed

text \<open>
  C7: adding a slice. A slice that is not freezed, a key that is known and a parent that is not are
  reported and change nothing. Otherwise, for a slice that was forked from its parent's, adding ends without
  an error and keeps the invariant of the tree; the slice is found under its key, no other slice appears, and
  everything in the tree reads as before. The highest slice gets the greater of both heights, and when it is
  the new slice the chain kept with it is the path of the tree from the root to the new key.
\<close>

theorem AddFreezedSlice_spec:
  assumes wf: "wf_engine e" and s: "slices (eheap e) p = Some s"
    and hs: "slices (eheap e) (HighestSlice e) = Some hs"
  shows "(\<not> freezed s \<longrightarrow> AddFreezedSlice rng busy p k f d e = (Err ErrNotFreezed, e))
     \<and> (freezed s \<longrightarrow> k \<in> dom (ss e) \<longrightarrow> AddFreezedSlice rng busy p k f d e = (Err ErrKeyExists, e))
     \<and> (freezed s \<longrightarrow> k \<notin> dom (ss e) \<longrightarrow> f \<notin> dom (ss e) \<longrightarrow>
          AddFreezedSlice rng busy p k f d e = (Err ErrParentMissing, e))
     \<and> (built_on e p f \<longrightarrow> k \<notin> dom (ss e) \<longrightarrow>
          (\<exists>e' hs'. AddFreezedSlice rng busy p k f d e = (Ok (), e') \<and> wf_engine e' \<and> ss e' k = Some p
            \<and> ss e' \<subseteq>\<^sub>m (ss e)(k \<mapsto> p)
            \<and> (\<forall>j q. ss e' j = Some q \<longrightarrow> slice_view (eheap e') q = slice_view (eheap e) q)
            \<and> slices (eheap e') (HighestSlice e') = Some hs' \<and> height hs' = max (height hs) (height s)
            \<and> (height hs < height s \<longrightarrow> HighestSlice e' = p \<and> is_path e' (HighestChain e')
                 \<and> Key (last (HighestChain e')) = k)))"
proof (intro conjI impI)
  assume b: "built_on e p f" and k: "k \<notin> dom (ss e)"
  then have k': "ss e k = None" by blast
  obtain e1 e2 q ch where
    e1: "e1 = filed k (DumpFile (height s) (rng (maps (eheap e) (st s)))) (f @ d) (added k p f d e)"
    and wf2: "wf_engine e2" and u: "unchanged e1 e2" and k2: "ss e2 k = Some p"
    and run: "AddFreezedSlice rng busy p k f d e = (Ok (), e2\<lparr>HighestSlice := q, HighestChain := ch\<rparr>)"
    and hi: "if height s \<le> height hs then q = HighestSlice e2 \<and> ch = HighestChain e2
         else q = p \<and> is_path e2 ch \<and> Key (last ch) = k" and h2: "HighestSlice e2 = HighestSlice e"
    by (rule AddFreezedSlice_run [OF wf b k' s hs])
  have f1: "ss e1 = (ss e)(k \<mapsto> p)" "eheap e1 = eheap e" by (simp_all add: e1 filed_def added_def)
  obtain hs' where hs': "slices (eheap e2) q = Some hs'" "height hs' = max (height hs) (height s)"
  proof (cases "height s \<le> height hs")
    case True
    then show ?thesis using u hs hi h2 f1 that unfolding unchanged_def by (metis max.absorb1)
  next
    case False
    then show ?thesis using u s hi f1 that unfolding unchanged_def by (metis max.absorb2 nle_le)
  qed
  have "is_path (e2\<lparr>HighestSlice := q, HighestChain := ch\<rparr>) ch \<longleftrightarrow> is_path e2 ch" by (simp add: is_path_def)
  with run hs' hi k2 wf_highest [OF wf2, of q ch] u f1
  show "\<exists>e' hs'. AddFreezedSlice rng busy p k f d e = (Ok (), e') \<and> wf_engine e' \<and> ss e' k = Some p
      \<and> ss e' \<subseteq>\<^sub>m (ss e)(k \<mapsto> p)
      \<and> (\<forall>j q. ss e' j = Some q \<longrightarrow> slice_view (eheap e') q = slice_view (eheap e) q)
      \<and> slices (eheap e') (HighestSlice e') = Some hs' \<and> height hs' = max (height hs) (height s)
      \<and> (height hs < height s \<longrightarrow> HighestSlice e' = p \<and> is_path e' (HighestChain e')
           \<and> Key (last (HighestChain e')) = k)"
    by (intro exI [of _ "e2\<lparr>HighestSlice := q, HighestChain := ch\<rparr>"] exI [of _ hs'])
       (auto simp: unchanged_def dom_def)
qed (use AddFreezedSlice_rejects [OF s] in blast)+

theorem AddFreezedSlice_spec_witness:
  "\<exists>e'. AddFreezedSlice (\<lambda>_. []) False 3 [4] [2] [5] demo_engine = (Ok (), e') \<and> wf_engine e' \<and> ss e' [4] = Some 3
     \<and> HighestSlice e' = 3 \<and> is_path e' (HighestChain e')"
proof -
  have "slices (eheap demo_engine) 3 = Some (demo_slice (Some 1) 2 3)"
    and "slices (eheap demo_engine) (HighestSlice demo_engine) = Some (demo_slice None 0 0)"
    and "[4] \<notin> dom (ss demo_engine)"
    by (simp_all add: demo_engine_def new_engine_def)
  with AddFreezedSlice_spec [OF wf_demo_engine this(1,2), of "\<lambda>_. []" False "[4]" "[2]" "[5]"] built_on_demo
  show ?thesis by (auto simp: demo_slice_def)
qed

end
