(* ===== verification/Storage_History.thy ===== *)
theory Storage_History
  imports Storage_Tree
begin

text \<open>
  The history that the storage engine keeps: the key and the data of every finalized slice, by height. The
  invariant \<open>wf_hist e hs\<close> says where the engine has the history \<open>hs\<close>: a first part in the two files, the
  rest in memory, in the queue of slices to be written and the root.

  The lemmas show that adding slices and storing the root keep the history and only extend it, that what is
  in it is read back whichever way it is kept, that a new engine has the history of its first slice, and
  that an engine that is started again on the files has the root and the history it had.
\<close>

section \<open>The files\<close>

fun pos_entries :: "nat \<Rightarrow> (SliceKeyType \<times> bytes) list \<Rightarrow> bytes" where
  "pos_entries n [] = []"
| "pos_entries n (kd # hs) = pos_entry n (snd kd) (fst kd) @ pos_entries (n + length (snd kd)) hs"

definition data_file :: "(SliceKeyType \<times> bytes) list \<Rightarrow> bytes" where
  "data_file hs = concat (map snd hs)"

definition file_at :: "File \<Rightarrow> bytes \<Rightarrow> bool" where
  "file_at f c \<longleftrightarrow> content f = c \<and> wpos f = length c"

definition on_disk :: "StorageEngine \<Rightarrow> (SliceKeyType \<times> bytes) list \<Rightarrow> bool" where
  "on_disk e hs \<longleftrightarrow> file_at (fDataPos e) (pos_entries 0 hs) \<and> file_at (fData e) (data_file hs)"

definition keys_ok :: "(SliceKeyType \<times> bytes) list \<Rightarrow> bool" where
  "keys_ok hs \<longleftrightarrow> (\<forall>kd \<in> set hs. length (fst kd) = SliceKeyLen)"

lemma file_at_write: "file_at f c \<Longrightarrow> file_at (file_write bs f) (c @ bs)"
  by (simp add: file_at_def file_write_def Let_def)

lemma data_file_append [simp]: "data_file (xs @ ys) = data_file xs @ data_file ys"
  and data_file_Cons [simp]: "data_file (kd # ys) = snd kd @ data_file ys"
  and data_file_Nil [simp]: "data_file [] = []"
  by (simp_all add: data_file_def)

lemma pos_entries_append:
  "pos_entries n (xs @ ys) = pos_entries n xs @ pos_entries (n + length (data_file xs)) ys"
  by (induction xs arbitrary: n) (simp_all add: add.assoc)

lemma length_pos_entry: "length k = SliceKeyLen \<Longrightarrow> length (pos_entry n d k) = SliceDataPosLen"
  by (simp add: pos_entry_def SliceDataPosLen_def)

lemma length_pos_entries: "keys_ok hs \<Longrightarrow> length (pos_entries n hs) = SliceDataPosLen * length hs"
  by (induction hs arbitrary: n) (simp_all add: keys_ok_def length_pos_entry)

lemma pos_entries_at:
  assumes "keys_ok hs" and "i < length hs"
  shows "\<exists>rest. drop (SliceDataPosLen * i) (pos_entries 0 hs)
    = pos_entry (length (data_file (take i hs))) (snd (hs ! i)) (fst (hs ! i)) @ rest"
proof -
  have "hs = take i hs @ hs ! i # drop (Suc i) hs" using assms(2) by (rule id_take_nth_drop)
  moreover have "keys_ok (take i hs)" using assms(1) by (auto simp: keys_ok_def dest: in_set_takeD)
  then have "length (pos_entries 0 (take i hs)) = SliceDataPosLen * i"
    using assms(2) by (simp add: length_pos_entries)
  moreover have "pos_entries 0 (take i hs @ hs ! i # drop (Suc i) hs)
    = pos_entries 0 (take i hs) @ pos_entry (length (data_file (take i hs))) (snd (hs ! i)) (fst (hs ! i))
      @ pos_entries (length (data_file (take i hs)) + length (snd (hs ! i))) (drop (Suc i) hs)"
    by (simp add: pos_entries_append)
  ultimately show ?thesis by (metis append_eq_conv_conj)
qed

lemma read_at_app:
  "length xs = p \<Longrightarrow> length ys = n \<Longrightarrow> read_at (xs @ ys @ zs) (int p) n = Ok ys"
  by (auto simp: read_at_def)

lemma read_at_drop:
  assumes "drop p c = ys @ zs" and "length ys = n" and "p \<le> length c"
  shows "read_at c (int p) n = Ok ys"
proof -
  have "c = take p c @ ys @ zs" using assms(1) by (metis append_take_drop_id)
  with assms show ?thesis using read_at_app [of "take p c" p ys n zs] by simp
qed

lemma int_of_u64_of_nat: "n < 2 ^ 63 \<Longrightarrow> int_of_u64 (of_nat n) = int n"
proof -
  assume "n < 2 ^ 63"
  then have "of_nat n < (2 ^ 63 :: u64)" by (simp add: word_less_nat_alt unat_of_nat_u64)
  then show ?thesis using \<open>n < 2 ^ 63\<close> by (simp add: int_of_u64_small unat_of_nat_u64)
qed

text \<open>What the files hold is what the readers return.\<close>

lemma disk_read:
  assumes disk: "content (fDataPos e) = pos_entries 0 hs" "content (fData e) = data_file hs"
    and ok: "keys_ok hs" and i: "i < length hs" and small: "length (data_file (take (Suc i) hs)) < 2 ^ 63"
  shows "ReadKey (int i) e = Ok (fst (hs ! i))"
    and "ReadOffset (int i) e = Ok (int (length (data_file (take i hs))), int (length (snd (hs ! i))))"
    and "slice_data e k = None \<Longrightarrow> ldata e (int i) = None \<Longrightarrow> ReadData (int i) k e = Ok (snd (hs ! i))"
proof -
  define n where "n = length (data_file (take i hs))"
  define a :: bytes where "a = le_bytes 8 (of_nat n :: u64)"
  define b :: bytes where "b = le_bytes 8 (of_nat (length (snd (hs ! i))) :: u64)"
  have split: "hs = take i hs @ hs ! i # drop (Suc i) hs" using i by (rule id_take_nth_drop)
  have "data_file hs = data_file (take i hs) @ snd (hs ! i) @ data_file (drop (Suc i) hs)"
    by (subst split) simp
  then have df: "data_file hs = data_file (take i hs) @ snd (hs ! i) @ data_file (drop (Suc i) hs)" .
  from small i have sz: "n < 2 ^ 63" "length (snd (hs ! i)) < 2 ^ 63" by (simp_all add: n_def take_Suc_conv_app_nth)
  obtain rest where rest: "drop (SliceDataPosLen * i) (pos_entries 0 hs) = a @ b @ fst (hs ! i) @ rest"
    using pos_entries_at [OF ok i] by (auto simp: pos_entry_def a_def b_def n_def)
  have len: "SliceDataPosLen * i + 16 \<le> length (pos_entries 0 hs)"
    using i length_pos_entries [OF ok, of 0] by (simp add: SliceDataPosLen_def SliceKeyLen_def)
  have l: "length a = 8" "length b = 8" "length (fst (hs ! i)) = SliceKeyLen"
    using ok i by (simp_all add: a_def b_def keys_ok_def)
  have "drop (SliceDataPosLen * i + 16) (pos_entries 0 hs) = drop 16 (drop (SliceDataPosLen * i) (pos_entries 0 hs))"
    by (simp add: add.commute)
  also have "\<dots> = fst (hs ! i) @ rest" unfolding rest using l by simp
  finally show "ReadKey (int i) e = Ok (fst (hs ! i))"
    using read_at_drop [of "SliceDataPosLen * i + 16" "pos_entries 0 hs" "fst (hs ! i)" rest SliceKeyLen] l len
    by (simp add: ReadKey_def disk algebra_simps)
  have "read_at (pos_entries 0 hs) (int (SliceDataPosLen * i)) 16 = Ok (a @ b)"
    using rest l len by (intro read_at_drop [where zs = "fst (hs ! i) @ rest"]) simp_all
  then show off: "ReadOffset (int i) e = Ok (int (length (data_file (take i hs))), int (length (snd (hs ! i))))"
    using l sz unfolding ReadOffset_def disk
    by (simp add: a_def b_def int_of_u64_of_nat n_def)
  show "ReadData (int i) k e = Ok (snd (hs ! i))" if "slice_data e k = None" "ldata e (int i) = None"
  proof -
    have "read_at (data_file hs) (int (length (data_file (take i hs)))) (length (snd (hs ! i))) = Ok (snd (hs ! i))"
      by (subst df) (rule read_at_app, simp_all)
    then show ?thesis using that off by (simp add: ReadData_def disk)
  qed
qed

section \<open>The invariant of the history\<close>

definition stored :: "StorageEngine \<Rightarrow> (SliceKeyType \<times> bytes) list \<Rightarrow> nat" where
  "stored e hs = length hs - length (rq e)"

definition queue_ok :: "StorageEngine \<Rightarrow> (SliceKeyType \<times> bytes) list \<Rightarrow> bool" where
  "queue_ok e hs \<longleftrightarrow> length (rq e) \<le> length hs \<and> (\<forall>i < length (rq e).
     r_height (rq e ! i) = int (stored e hs + i) - 1 \<and>
     (0 < i \<longrightarrow> r_id (rq e ! i) = fst (hs ! (stored e hs + i - 1))
        \<and> ldata e (int (stored e hs + i - 1)) = Some (snd (hs ! (stored e hs + i - 1)))))"

definition root_ok :: "StorageEngine \<Rightarrow> (SliceKeyType \<times> bytes) list \<Rightarrow> bool" where
  "root_ok e hs \<longleftrightarrow> hs \<noteq> [] \<and> fst (last hs) = root e \<and> slice_data e (root e) = Some (snd (last hs)) \<and>
     (\<exists>s. node e (root e) = Some s \<and> height s = int (length hs) - 1)"

definition wf_hist :: "StorageEngine \<Rightarrow> (SliceKeyType \<times> bytes) list \<Rightarrow> bool" where
  "wf_hist e hs \<longleftrightarrow> keys_ok hs \<and> on_disk e (take (stored e hs) hs) \<and> queue_ok e hs \<and> root_ok e hs \<and>
     (\<forall>h d. ldata e h = Some d \<longrightarrow> 0 \<le> h \<and> h < int (length hs) \<and> d = snd (hs ! nat h)) \<and>
     dom (ss e) \<subseteq> dom (slice_data e) \<and> (\<forall>k \<in> dom (ss e). length k = SliceKeyLen)"

lemma wf_histD:
  assumes "wf_hist e hs"
  shows "keys_ok hs" and "on_disk e (take (stored e hs) hs)" and "queue_ok e hs" and "root_ok e hs"
    and "ldata e h = Some d \<Longrightarrow> 0 \<le> h \<and> h < int (length hs) \<and> d = snd (hs ! nat h)"
    and "dom (ss e) \<subseteq> dom (slice_data e)" and "k \<in> dom (ss e) \<Longrightarrow> length k = SliceKeyLen"
  using assms by (simp_all add: wf_hist_def)

text \<open>Every height of the history is read back, from memory or from the files.\<close>

lemma ReadData_run:
  assumes wf: "wf_hist e hs" and i: "i < length hs" and small: "length (data_file (take (Suc i) hs)) < 2 ^ 63"
    and k: "slice_data e k = None \<or> slice_data e k = Some (snd (hs ! i))" and k': "k = fst (hs ! i)"
  shows "ReadData (int i) k e = Ok (snd (hs ! i))"
proof (cases "slice_data e k")
  case None
  show ?thesis
  proof (cases "ldata e (int i)")
    case (Some d)
    with None wf_histD(5) [OF wf Some] show ?thesis by (simp add: ReadData_def)
  next
    case N: None
    have last: "last hs = hs ! (length hs - 1)" using i by (intro last_conv_nth) auto
    have "i \<noteq> length hs - 1" using wf_histD(4) [OF wf] k' None last by (auto simp: root_ok_def)
    moreover have "\<not> stored e hs \<le> i" if "i \<noteq> length hs - 1"
    proof
      assume "stored e hs \<le> i"
      then have "Suc i - stored e hs < length (rq e)" "stored e hs + (Suc i - stored e hs) - 1 = i"
        using i that wf_histD(3) [OF wf] by (auto simp: queue_ok_def stored_def)
      moreover have "0 < Suc i - stored e hs" using \<open>stored e hs \<le> i\<close> by simp
      ultimately show False using N wf_histD(3) [OF wf] unfolding queue_ok_def by (metis option.distinct(1))
    qed
    ultimately have lt: "i < stored e hs" by simp
    define d where "d = take (stored e hs) hs"
    have disk: "content (fDataPos e) = pos_entries 0 d" "content (fData e) = data_file d"
      using wf_histD(2) [OF wf] by (simp_all add: on_disk_def file_at_def d_def)
    have "keys_ok d" using wf_histD(1) [OF wf] by (auto simp: keys_ok_def d_def dest: in_set_takeD)
    moreover have "i < length d" using lt i by (simp add: d_def)
    moreover have "length (data_file (take (Suc i) d)) < 2 ^ 63" using small lt by (simp add: d_def)
    ultimately have "ReadData (int i) k e = Ok (snd (d ! i))"
      using disk_read(3) [OF disk _ _ _ None N] by blast
    then show ?thesis using lt by (simp add: d_def)
  qed
qed (use k in \<open>simp add: ReadData_def\<close>)

section \<open>The steps keep the history\<close>

lemma wf_hist_cong:
  assumes "wf_hist e hs" and "rq e' = rq e" and "ldata e' = ldata e" and "fData e' = fData e" and "fDataPos e' = fDataPos e"
    and "root e' = root e" and "node e' (root e) = node e (root e)"
    and "dom (ss e') \<subseteq> dom (ss e)" and "\<And>k. k \<in> dom (ss e') \<Longrightarrow> slice_data e' k = slice_data e k"
    and "slice_data e' (root e) = slice_data e (root e)"
  shows "wf_hist e' hs"
proof -
  have "on_disk e' d = on_disk e d" and "queue_ok e' hs = queue_ok e hs" and "stored e' hs = stored e hs" for d
    using assms(2-5) by (simp_all add: on_disk_def queue_ok_def stored_def)
  moreover have "root_ok e' hs = root_ok e hs" using assms(6,7,10) by (simp add: root_ok_def)
  moreover have "dom (ss e') \<subseteq> dom (slice_data e')"
  proof
    fix k assume k: "k \<in> dom (ss e')"
    then have "k \<in> dom (slice_data e)" using assms(8) wf_histD(6) [OF assms(1)] by blast
    then show "k \<in> dom (slice_data e')" using assms(9) [OF k] by (simp add: dom_def)
  qed
  moreover have "\<forall>k \<in> dom (ss e'). length k = SliceKeyLen" using assms(8) wf_histD(7) [OF assms(1)] by blast
  moreover have "\<forall>h d. ldata e' h = Some d \<longrightarrow> 0 \<le> h \<and> h < int (length hs) \<and> d = snd (hs ! nat h)"
    unfolding assms(3) using wf_histD(5) [OF assms(1)] by blast
  ultimately show ?thesis
    using wf_histD(1-4) [OF assms(1)] unfolding wf_hist_def by simp
qed

lemma cut_hist:
  assumes wf: "wf_engine e" and h: "wf_hist e hs" and f: "fa e t = Some f"
  shows "wf_hist (cut f t e) hs"
  using h
proof (rule wf_hist_cong)
  have r: "root e \<notin> siblings e f t" by (rule siblings_facts(6) [OF wf f])
  then show "node (cut f t e) (root e) = node e (root e)" by (simp add: node_def cut_fields restrict_map_def)
  show "slice_data (cut f t e) (root e) = slice_data e (root e)" using r by (simp add: cut_fields restrict_map_def)
qed (auto simp: cut_fields restrict_map_def split: if_splits)

lemma merged_hist:
  assumes wf: "wf_engine e" and h: "wf_hist e hs" and k: "fa e k = Some (root e)"
    and a: "node e (root e) = Some a" and b: "ss e k = Some pb" "slices (eheap e) pb = Some b"
  shows "wf_hist (merged k pb a b e) (hs @ [(k, data_of e k)])"
proof -
  let ?e = "merged k pb a b e" and ?hs = "hs @ [(k, data_of e k)]"
  have f: "rq ?e = rq e @ [\<lparr>r_height = height a, r_id = root e\<rparr>]" "ldata ?e = (ldata e)(height a \<mapsto> data_of e (root e))"
    "slice_data ?e = (slice_data e)(root e := None)" "fData ?e = fData e" "fDataPos ?e = fDataPos e"
    by (simp_all add: merged_def)
  have kr: "k \<noteq> root e" using k wf_treeD(2) [OF wf_engineD(1) [OF wf]] by auto
  have rt: "hs \<noteq> []" "fst (last hs) = root e" "slice_data e (root e) = Some (snd (last hs))" "height a = int (length hs) - 1"
    using wf_histD(4) [OF h] a by (auto simp: root_ok_def)
  have last: "last hs = hs ! (length hs - 1)" using rt(1) by (rule last_conv_nth)
  have le: "length (rq e) \<le> length hs" using wf_histD(3) [OF h] by (simp add: queue_ok_def)
  have st: "stored ?e ?hs = stored e hs" by (simp add: stored_def f(1))
  have d: "data_of e (root e) = snd (last hs)" "slice_data e k = Some (data_of e k)"
    using rt(3) wf_histD(6) [OF h] b(1) by (auto simp: data_of_def split: option.splits)
  have "height b = int (length hs)"
    using wf_slicesD(4) [OF wf_engineD(2) [OF wf] k _ a, of b] b rt(4) by (simp add: node_Some)
  then have "root_ok ?e ?hs"
    using kr d(2) by (auto simp: root_ok_def f merged_fields merged_node [OF wf k b(1)])
  moreover have "queue_ok ?e ?hs"
    unfolding queue_ok_def st
  proof (intro conjI allI impI)
    show "length (rq ?e) \<le> length ?hs" using le by (simp add: f)
    fix i assume i: "i < length (rq ?e)"
    have *: "i < length (rq e) \<or> i = length (rq e)" using i by (auto simp: f)
    have sum: "stored e hs + length (rq e) = length hs" using le by (simp add: stored_def)
    show "r_height (rq ?e ! i) = int (stored e hs + i) - 1"
      using * wf_histD(3) [OF h] rt(4) sum by (auto simp: f nth_append queue_ok_def)
    assume i0: "0 < i"
    have lt: "stored e hs + i - 1 < length hs" using * sum i0 rt(1) by auto
    show "r_id (rq ?e ! i) = fst (?hs ! (stored e hs + i - 1))"
      using * lt i0 wf_histD(3) [OF h] rt(2) last sum by (auto simp: f nth_append queue_ok_def)
    show "ldata ?e (int (stored e hs + i - 1)) = Some (snd (?hs ! (stored e hs + i - 1)))"
    proof (cases "i = length (rq e)")
      case True
      with sum have "stored e hs + i - 1 = length hs - 1" by simp
      moreover have "int (length hs - 1) = height a" using rt(1,4) by (cases hs) simp_all
      ultimately show ?thesis using lt d(1) last by (simp add: f nth_append)
    next
      case False
      with * sum have "int (stored e hs + i - 1) \<noteq> height a" using rt(4) i0 by auto
      with False * i0 lt wf_histD(3) [OF h] show ?thesis by (auto simp: f nth_append queue_ok_def)
    qed
  qed
  moreover have "on_disk ?e (take (stored e hs) ?hs)"
    using wf_histD(2) [OF h] by (simp add: on_disk_def f stored_def)
  moreover have "0 \<le> j \<and> j < int (length ?hs) \<and> x = snd (?hs ! nat j)" if "ldata ?e j = Some x" for j x
  proof (cases "j = height a")
    case True
    moreover have "nat (height a) = length hs - 1" "0 \<le> height a" "length hs - 1 < length hs"
      using rt(1,4) by (cases hs; simp)+
    ultimately show ?thesis using that d(1) last rt(4) by (simp add: f nth_append)
  next
    case False
    with that wf_histD(5) [OF h, of j x] show ?thesis by (auto simp: f nth_append)
  qed
  moreover have "keys_ok ?hs" using wf_histD(1) [OF h] wf_histD(7) [OF h, of k] b(1) by (auto simp: keys_ok_def)
  ultimately show ?thesis
    unfolding wf_hist_def st using wf_histD(6,7) [OF h] by (auto simp: f merged_fields)
qed

lemma finalizing_hist:
  assumes "finalizing\<^sup>*\<^sup>* e e'" and "wf_engine e" and "wf_hist e hs"
  shows "\<exists>hs'. wf_hist e' (hs @ hs')"
  using assms
proof (induction rule: rtranclp_induct)
  case base
  then show ?case by (intro exI [of _ "[]"]) simp
next
  case (step e1 e2)
  then obtain hs1 where h1: "wf_hist e1 (hs @ hs1)" by blast
  have wf1: "wf_engine e1" using finalizing_star(1) [OF step.hyps(1) step.prems(1)] .
  from step.hyps(2) show ?case
  proof (cases rule: finalizing.cases)
    case (cutting t f)
    with cut_hist [OF wf1 h1 cutting(2)] show ?thesis by blast
  next
    case (merging k a pb b)
    with merged_hist [OF wf1 h1 merging(2,4,5,6)] show ?thesis by fastforce
  qed
qed

lemma added_hist:
  assumes h: "wf_hist e hs" and k: "ss e k = None" and r: "root e \<in> dom (ss e)" and len: "length k = SliceKeyLen"
  shows "wf_hist (filed k x y (added k p f d e)) hs"
proof -
  let ?e = "filed k x y (added k p f d e)"
  have kr: "k \<noteq> root e" using k r by auto
  have f: "rq ?e = rq e" "ldata ?e = ldata e" "fData ?e = fData e" "fDataPos ?e = fDataPos e" "root ?e = root e"
    "ss ?e = (ss e)(k \<mapsto> p)" "slice_data ?e = (slice_data e)(k \<mapsto> d)" "eheap ?e = eheap e"
    by (simp_all add: filed_def added_def)
  have "on_disk ?e c = on_disk e c" and "queue_ok ?e hs = queue_ok e hs" and "stored ?e hs = stored e hs" for c
    by (simp_all add: on_disk_def queue_ok_def stored_def f)
  moreover have "root_ok ?e hs = root_ok e hs" using kr by (simp add: root_ok_def f node_def)
  ultimately show ?thesis
    using h len unfolding wf_hist_def by (auto simp: f)
qed

lemma highest_hist: "wf_hist e hs \<Longrightarrow> wf_hist (e\<lparr>HighestSlice := q, HighestChain := ch\<rparr>) hs"
  by (erule wf_hist_cong) (auto simp: node_def)

lemma AddFreezedSlice_hist:
  assumes wf: "wf_engine e" and h: "wf_hist e hs" and b: "built_on e p f" and k: "ss e k = None"
    and len: "length k = SliceKeyLen"
  shows "\<exists>e' hs'. AddFreezedSlice rng busy p k f d e = (Ok (), e') \<and> wf_engine e' \<and> wf_hist e' (hs @ hs')"
proof -
  note t = wf_engineD(1) [OF wf] and sl = wf_engineD(2) [OF wf]
  obtain s where s: "slices (eheap e) p = Some s" using b by (auto simp: built_on_def)
  obtain g where g: "slices (eheap e) (HighestSlice e) = Some g" using wf_slicesD(2) [OF sl] by blast
  obtain e1 e2 q ch where
    e1: "e1 = filed k (DumpFile (height s) (rng (maps (eheap e) (st s)))) (f @ d) (added k p f d e)"
    and wf1: "wf_engine e1" and fin: "finalizing\<^sup>*\<^sup>* e1 e2" and wf2: "wf_engine e2" and u: "unchanged e1 e2"
    and run: "AddFreezedSlice rng busy p k f d e = (Ok (), e2\<lparr>HighestSlice := q, HighestChain := ch\<rparr>)"
    and hi: "if height s \<le> height g then q = HighestSlice e2 \<and> ch = HighestChain e2
         else q = p \<and> is_path e2 ch \<and> Key (last ch) = k"
    by (rule AddFreezedSlice_run [OF wf b k s g])
  have "eheap e1 = eheap e" by (simp add: e1 filed_def added_def)
  with u s have "p \<in> dom (slices (eheap e2))" unfolding unchanged_def by (metis domI)
  then have "q \<in> dom (slices (eheap e2))"
    using hi wf_slicesD(2) [OF wf_engineD(2) [OF wf2]] by (auto split: if_splits)
  then have "wf_engine (e2\<lparr>HighestSlice := q, HighestChain := ch\<rparr>)" by (rule wf_highest [OF wf2])
  moreover have "wf_hist e1 hs" unfolding e1 by (rule added_hist [OF h k wf_treeD(1) [OF t] len])
  then obtain hs' where "wf_hist e2 (hs @ hs')" using finalizing_hist [OF fin wf1] by blast
  then have "wf_hist (e2\<lparr>HighestSlice := q, HighestChain := ch\<rparr>) (hs @ hs')" by (rule highest_hist)
  ultimately show ?thesis using run by blast
qed

section \<open>Storing the root\<close>

lemma store_entries_run:
  assumes "on_disk e hs" and "\<And>i. i < length es \<Longrightarrow> fst (es ! i) = curh + int i"
  shows "\<exists>x y. store_entries es curh e = (Ok (), e\<lparr>fDataPos := x, fData := y\<rparr>)
     \<and> on_disk (e\<lparr>fDataPos := x, fData := y\<rparr>) (hs @ map (\<lambda>(h, d, k). (k, d)) es)"
  using assms
proof (induction es arbitrary: e hs curh)
  case Nil
  then show ?case by (intro exI [of _ "fDataPos e"] exI [of _ "fData e"]) (simp add: ret_run)
next
  case (Cons en es)
  obtain h d k where en: "en = (h, d, k)" by (cases en)
  have h: "h = curh" using Cons.prems(2) [of 0] by (simp add: en)
  define e1 where "e1 = e\<lparr>fDataPos := file_write (pos_entry (wpos (fData e)) d k) (fDataPos e), fData := file_write d (fData e)\<rparr>"
  have w: "wpos (fData e) = length (data_file hs)" using Cons.prems(1) by (simp add: on_disk_def file_at_def)
  have "on_disk e1 (hs @ [(k, d)])"
    using Cons.prems(1) file_at_write unfolding on_disk_def e1_def w by (simp add: pos_entries_append)
  moreover have "fst (es ! i) = (curh + 1) + int i" if "i < length es" for i
    using Cons.prems(2) [of "Suc i"] that by simp
  ultimately obtain x y where "store_entries es (curh + 1) e1 = (Ok (), e1\<lparr>fDataPos := x, fData := y\<rparr>)"
    "on_disk (e1\<lparr>fDataPos := x, fData := y\<rparr>) ((hs @ [(k, d)]) @ map (\<lambda>(h, d, k). (k, d)) es)"
    using Cons.IH by blast
  moreover have "store_entries (en # es) curh e = store_entries es (curh + 1) e1"
    by (simp add: en h go_run e1_def)
  moreover have "e1\<lparr>fDataPos := x, fData := y\<rparr> = e\<lparr>fDataPos := x, fData := y\<rparr>" by (simp add: e1_def)
  ultimately show ?case by (auto simp: en)
qed

lemma queue_entries_eq:
  assumes h: "wf_hist e hs" and s: "node e (root e) = Some s" and ne: "rq e \<noteq> []"
  shows "queue_entries s e = map (\<lambda>i. (int i, snd (hs ! i), fst (hs ! i))) [stored e hs ..< length hs]"
proof (rule nth_equalityI)
  have le: "length (rq e) \<le> length hs" using wf_histD(3) [OF h] by (simp add: queue_ok_def)
  then have sum: "stored e hs + length (rq e) = length hs" by (simp add: stored_def)
  have len: "length (queue_entries s e) = length (rq e)" using ne by (simp add: queue_entries_def)
  then show "length (queue_entries s e) = length (map (\<lambda>i. (int i, snd (hs ! i), fst (hs ! i))) [stored e hs ..< length hs])"
    using sum by simp
  fix i assume "i < length (queue_entries s e)"
  then have i: "i < length (rq e)" using len by simp
  have rt: "hs \<noteq> []" "fst (last hs) = root e" "slice_data e (root e) = Some (snd (last hs))" "height s = int (length hs) - 1"
    using wf_histD(4) [OF h] s by (auto simp: root_ok_def)
  have last: "last hs = hs ! (length hs - 1)" using rt(1) by (rule last_conv_nth)
  have rhs: "map (\<lambda>i. (int i, snd (hs ! i), fst (hs ! i))) [stored e hs ..< length hs] ! i
      = (int (stored e hs + i), snd (hs ! (stored e hs + i)), fst (hs ! (stored e hs + i)))"
    using i sum by (simp add: nth_append) (subst nth_upt, simp_all)
  show "queue_entries s e ! i = map (\<lambda>i. (int i, snd (hs ! i), fst (hs ! i))) [stored e hs ..< length hs] ! i"
  proof (cases "Suc i < length (rq e)")
    case True
    then have q: "r_height (rq e ! Suc i) = int (stored e hs + i)" "r_id (rq e ! Suc i) = fst (hs ! (stored e hs + i))"
      "ldata e (int (stored e hs + i)) = Some (snd (hs ! (stored e hs + i)))"
      using wf_histD(3) [OF h] unfolding queue_ok_def by fastforce+
    have "queue_entries s e ! i = (r_height (rq e ! Suc i),
        case ldata e (r_height (rq e ! Suc i)) of None \<Rightarrow> [] | Some d \<Rightarrow> d, r_id (rq e ! Suc i))"
      using True less_diff_conv [of i "length (rq e)" 1] by (simp add: queue_entries_def nth_append nth_tl)
    with q show ?thesis unfolding rhs by simp
  next
    case False
    with i sum rt(1) have "stored e hs + i = length hs - 1" "length (rq e) - 1 = i" by auto
    moreover have "int (length hs - 1) = height s" using rt(1,4) by (cases hs) simp_all
    ultimately show ?thesis
      unfolding rhs using rt last by (simp add: queue_entries_def nth_append data_of_def)
  qed
qed

definition root_dump :: "((KeyType \<rightharpoonup> DataType) \<Rightarrow> (KeyType \<times> DataType) list) \<Rightarrow> StorageEngine \<Rightarrow> bytes" where
  "root_dump rng e =
     (case node e (root e) of None \<Rightarrow> [] | Some s \<Rightarrow> DumpFile (height s) (rng (maps (eheap e) (st s))))"

lemma store_queue_run:
  assumes h: "wf_hist e hs"
  shows "\<exists>x y. store_queue e = (Ok (), e\<lparr>fDataPos := x, fData := y\<rparr>) \<and> on_disk (e\<lparr>fDataPos := x, fData := y\<rparr>) hs"
proof (cases "rq e")
  case Nil
  then have "on_disk e hs" using wf_histD(2) [OF h] by (simp add: stored_def)
  with Nil show ?thesis
    by (intro exI [of _ "fDataPos e"] exI [of _ "fData e"]) (simp add: store_queue_def)
next
  case (Cons q qs)
  obtain s where s: "node e (root e) = Some s" using wf_histD(4) [OF h] by (auto simp: root_ok_def)
  then have rs: "slice_of (root e) e = (Ok s, e)"
    by (auto simp: slice_of_def node_def bind_eq_Some_conv on_eheap_deref)
  have ok: "keys_ok (take (stored e hs) hs)" using wf_histD(1) [OF h] by (auto simp: keys_ok_def dest: in_set_takeD)
  have "0 < length (rq e)" using Cons by simp
  then have "r_height (rq e ! 0) = int (stored e hs) - 1" using wf_histD(3) [OF h] unfolding queue_ok_def by force
  then have q: "r_height q + 1 = int (stored e hs)" using Cons by simp
  have "wpos (fDataPos e) = SliceDataPosLen * stored e hs"
    using wf_histD(2) [OF h] length_pos_entries [OF ok] by (simp add: on_disk_def file_at_def stored_def)
  then have pos: "int (wpos (fDataPos e)) = (r_height q + 1) * int SliceDataPosLen" by (simp add: q)
  note es = queue_entries_eq [OF h s]
  have "fst (queue_entries s e ! i) = int (stored e hs) + int i" if "i < length (queue_entries s e)" for i
    using that Cons by (simp add: es)
  from store_entries_run [OF wf_histD(2) [OF h] this] obtain x y
    where x: "store_entries (queue_entries s e) (int (stored e hs)) e = (Ok (), e\<lparr>fDataPos := x, fData := y\<rparr>)"
      and d: "on_disk (e\<lparr>fDataPos := x, fData := y\<rparr>) (take (stored e hs) hs @ map (\<lambda>(h, d, k). (k, d)) (queue_entries s e))"
    by blast
  have "map (\<lambda>(h, d, k). (k, d)) (queue_entries s e) = drop (stored e hs) hs"
    using Cons by (simp add: es comp_def drop_map [symmetric] map_nth drop_upt [symmetric] del: drop_upt) (metis drop_map drop_upt map_nth add_0)
  with d x pos q Cons rs show ?thesis by (auto simp: store_queue_def go_run)
qed

lemma storeRoot_run:
  assumes h: "wf_hist e hs"
  obtains e' where "storeRoot rng e = (Ok (), e')" and "wf_engine e \<Longrightarrow> wf_engine e'" and "wf_hist e' hs" and "rq e' = []"
    and "perm_ss e' = Some (root_dump rng e)" and "eheap e' = eheap e" and "ss e' = ss e" and "root e' = root e"
    and "fa e' = fa e" and "son e' = son e" and "slice_data e' = slice_data e"
    and "temp e = Map.empty \<Longrightarrow> temp e' = Map.empty"
proof -
  obtain x y where q: "store_queue e = (Ok (), e\<lparr>fDataPos := x, fData := y\<rparr>)" "on_disk (e\<lparr>fDataPos := x, fData := y\<rparr>) hs"
    using store_queue_run [OF h] by blast
  obtain p s where p: "ss e (root e) = Some p" "slices (eheap e) p = Some s"
    using wf_histD(4) [OF h] by (auto simp: root_ok_def node_def bind_eq_Some_conv)
  define e' where "e' = e\<lparr>fDataPos := x, fData := y, perm_ss := Some (root_dump rng e),
    ldata := (ldata e) |` (- set (map r_height (rq e))), temp := (temp e) |` (- set (map r_id (rq e))),
    temp_b := (temp_b e) |` (- set (map r_id (rq e))), rq := []\<rparr>"
  have dump: "on_eheap (dump_slice rng p) (e\<lparr>fDataPos := x, fData := y\<rparr>) = (Ok (root_dump rng e), e\<lparr>fDataPos := x, fData := y\<rparr>)"
    using p by (simp add: dump_slice_run root_dump_def node_Some)
  have "storeRoot rng e = (Ok (), e')"
    unfolding storeRoot_def rewinding_def using q(1) p(1) dump by (simp add: bindG_def getS_def modifyS_def e'_def)
  moreover have "wf_engine e'" if "wf_engine e"
    using that by (simp add: e'_def wf_engine_def wf_tree_def wf_slices_def node_def sons_def)
  moreover have "wf_hist e' hs"
  proof -
    have "on_disk e' hs" using q(2) by (simp add: on_disk_def e'_def)
    moreover have "root_ok e' hs" using wf_histD(4) [OF h] by (simp add: root_ok_def e'_def node_def)
    ultimately show ?thesis
      using wf_histD [OF h] unfolding wf_hist_def
      by (auto simp: e'_def stored_def queue_ok_def restrict_map_def split: if_splits)
  qed
  ultimately show thesis by (intro that [of e']) (simp_all add: e'_def)
qed

section \<open>Runs of the engine\<close>

text \<open>
  The steps of a running engine: a slice that was forked from one of the tree is added, the background loop
  takes a turn, or someone else works on slices and leaves those of the tree as they are.
\<close>

definition tree_kept :: "StorageEngine \<Rightarrow> SliceHeap \<Rightarrow> bool" where
  "tree_kept e h \<longleftrightarrow> wf_heap h \<and> HighestSlice e \<in> dom (slices h) \<and>
     (\<forall>k p. ss e k = Some p \<longrightarrow> slices h p = slices (eheap e) p)"

inductive engine_step :: "StorageEngine \<Rightarrow> StorageEngine \<Rightarrow> bool" where
  step_add: "built_on e p f \<Longrightarrow> k \<notin> dom (ss e) \<Longrightarrow> length k = SliceKeyLen \<Longrightarrow>
    AddFreezedSlice rng busy p k f d e = (r, e') \<Longrightarrow> engine_step e e'"
| step_turn: "StoreFinalizedSlices_turn rng busy ev lastRoot e = (r, e') \<Longrightarrow> engine_step e e'"
| step_slices: "tree_kept e h \<Longrightarrow> engine_step e (e\<lparr>eheap := h\<rparr>)"

lemma tree_kept_node: "tree_kept e h \<Longrightarrow> node (e\<lparr>eheap := h\<rparr>) k = node e k"
  by (cases "ss e k") (auto simp: node_def tree_kept_def)

lemma tree_kept_wf: "tree_kept e h \<Longrightarrow> wf_engine e \<Longrightarrow> wf_engine (e\<lparr>eheap := h\<rparr>)"
  unfolding wf_engine_def wf_slices_def tree_kept_node
  by (auto simp: tree_kept_def wf_tree_def sons_def)

lemma tree_kept_hist: "tree_kept e h \<Longrightarrow> wf_hist e hs \<Longrightarrow> wf_hist (e\<lparr>eheap := h\<rparr>) hs"
  by (erule wf_hist_cong) (auto simp: tree_kept_node)

lemma turn_hist:
  assumes "StoreFinalizedSlices_turn rng busy ev lastRoot e = (r, e')" and "wf_engine e" and "wf_hist e hs"
  shows "wf_engine e' \<and> wf_hist e' hs"
proof -
  obtain t where t: "storeRoot rng e = (Ok (), t)" "wf_engine t" "wf_hist t hs"
    by (rule storeRoot_run [OF assms(3), of rng]) (use assms(2) in blast)
  from assms t show ?thesis
    by (cases ev) (auto simp: StoreFinalizedSlices_turn_def split: if_splits)
qed

lemma engine_step_hist:
  assumes "engine_step e e'" and "wf_engine e" and "wf_hist e hs"
  shows "wf_engine e' \<and> (\<exists>hs'. wf_hist e' (hs @ hs'))"
  using assms
proof (induction rule: engine_step.induct)
  case (step_add e p f k rng busy d r e')
  then show ?case using AddFreezedSlice_hist [of e hs p f k rng busy d] by fastforce
next
  case (step_turn rng busy ev lastRoot e r e')
  then show ?case using turn_hist append_Nil2 by metis
next
  case (step_slices e h)
  then show ?case using tree_kept_wf tree_kept_hist append_Nil2 by metis
qed

lemma engine_run_hist:
  assumes "engine_step\<^sup>*\<^sup>* e e'" and "wf_engine e" and "wf_hist e hs"
  shows "wf_engine e' \<and> (\<exists>hs'. wf_hist e' (hs @ hs'))"
  using assms
proof (induction rule: rtranclp_induct)
  case base
  then show ?case by (metis append_Nil2)
next
  case (step e1 e2)
  then obtain hs1 where "wf_engine e1" "wf_hist e1 (hs @ hs1)" by blast
  from engine_step_hist [OF step.hyps(2) this] show ?case by (metis append_assoc)
qed

section \<open>A new engine\<close>

lemma fresh_hist:
  assumes e: "rq e = [\<lparr>r_height = -1, r_id = zero_key\<rparr>]" "ldata e = [0 \<mapsto> d]" "root e = k" "ss e = [k \<mapsto> p]"
    "slice_data e = [k \<mapsto> d]" "file_at (fData e) []" "file_at (fDataPos e) []"
    and s: "slices (eheap e) p = Some s" "height s = 0" and k: "length k = SliceKeyLen"
  shows "wf_hist e [(k, d)]"
  using k s unfolding wf_hist_def queue_ok_def root_ok_def
  by (auto simp: e stored_def keys_ok_def on_disk_def node_def split: if_splits)

lemma load_candidates_none: "temp e = Map.empty \<Longrightarrow> load_candidates ks e = (Ok [], e)"
  by (induction ks) (simp_all add: ret_run)

lemma maintain_all_low:
  assumes "wf_engine e" and "set ks \<subseteq> dom (ss e)"
    and "\<And>k p s. ss e k = Some p \<Longrightarrow> slices (eheap e) p = Some s \<Longrightarrow> height s \<le> height t"
    and "slices (eheap e) (HighestSlice e) = Some t"
  shows "maintain_all ks e = (Ok (), e)"
  using assms(2)
proof (induction ks)
  case (Cons k ks)
  then obtain p where p: "ss e k = Some p" by auto
  then obtain s where s: "slices (eheap e) p = Some s" using wf_slicesD(3) [OF wf_engineD(2) [OF assms(1)]] by blast
  from maintainHighest_run [OF assms(1) p s assms(4)] assms(3) [OF p s] have "maintainHighest k e = (Ok (), e)" by auto
  with Cons show ?case by (simp add: go_run)
qed (simp add: ret_run)

lemma single_wf:
  assumes "ss e = [k \<mapsto> p]" "fa e = Map.empty" "son e = Map.empty" "root e = k" "slices (eheap e) p = Some s"
    "base s = None" "wf_heap (eheap e)" "HighestSlice e \<in> dom (slices (eheap e))"
  shows "wf_engine e"
  using assms unfolding wf_engine_def wf_tree_def wf_slices_def node_def sons_def
  by (auto split: if_splits)

lemma maintain_all_single:
  assumes wf: "wf_engine e" and ks: "set ks = {k}" and e: "ss e = [k \<mapsto> p]"
    and s: "slices (eheap e) p = Some s" and t: "slices (eheap e) (HighestSlice e) = Some t" "height t < height s"
  shows "\<exists>ch. maintain_all ks e = (Ok (), e\<lparr>HighestSlice := p, HighestChain := ch\<rparr>) \<and> is_path e ch \<and> Key (last ch) = k"
proof -
  obtain ks' where ks': "ks = k # ks'" "set ks' \<subseteq> {k}" using ks by (cases ks) auto
  have ssk: "ss e k = Some p" using e by simp
  obtain ch where m: "maintainHighest k e = (Ok (), e\<lparr>HighestSlice := p, HighestChain := ch\<rparr>)"
    "is_path e ch" "Key (last ch) = k"
    using maintainHighest_run [OF wf ssk s t(1)] t(2) by auto
  have "maintain_all ks' (e\<lparr>HighestSlice := p, HighestChain := ch\<rparr>) = (Ok (), e\<lparr>HighestSlice := p, HighestChain := ch\<rparr>)"
    by (rule maintain_all_low [where t = s]) (use wf_highest [OF wf] s e ks' in \<open>auto split: if_splits\<close>)
  with m ks' show ?thesis by (auto simp: go_run)
qed

section \<open>Starting again\<close>

lemma load_slice_run:
  assumes h: "wf_heap h" and kvs: "is_range kvs m" "\<forall>(k, v) \<in> set kvs. length k = KeyLen \<and> length v = DataLen"
    and bounds: "length kvs < 2 ^ 63" "- (2 ^ 63) \<le> ht" "ht < 2 ^ 63"
  obtains p h' s where "load_slice (DumpFile ht kvs) h = (Ok p, h')" and "slices h' p = Some s" and "height s = ht"
    and "slice_view h' p = (\<lambda>k. case m k of None \<Rightarrow> zero_data | Some v \<Rightarrow> v)"
proof -
  define h1 where "h1 = snd (EmptySlice h)"
  define s where "s = \<lparr>base = None, height = 0, st = next_ref h, freezed = False\<rparr>"
  have e: "EmptySlice h = (Ok (next_ref h), h1)" "slices h1 (next_ref h) = Some s" "maps h1 (next_ref h) = Map.empty"
    by (simp_all add: h1_def EmptySlice_def alloc_slice_def s_def Let_def)
  define h' where "h' = set_map (next_ref h) m (set_slice (next_ref h) (s\<lparr>freezed := True, height := ht\<rparr>) h1)"
  have l: "LoadFile (next_ref h) (h1, DumpFile ht kvs) = (Ok (), (h', []))"
    using LoadFile_run [of h1 "next_ref h" s kvs m ht "[]"] e kvs bounds by (simp add: s_def h'_def)
  have s': "slices h' (next_ref h) = Some (s\<lparr>freezed := True, height := ht\<rparr>)"
    by (simp add: h'_def set_map_def set_slice_def)
  moreover have "slice_view h' (next_ref h) = (\<lambda>k. case m k of None \<Rightarrow> zero_data | Some v \<Rightarrow> v)"
    by (intro ext, subst slice_view_unfold [OF s']) (auto simp: h'_def set_map_def s_def split: option.splits)
  moreover have "load_slice (DumpFile ht kvs) h = (Ok (next_ref h), h')"
    using e(1) l by (simp add: load_slice_def go_run)
  ultimately show thesis by (intro that [of "next_ref h" h' "s\<lparr>freezed := True, height := ht\<rparr>"]) simp_all
qed

text \<open>The start on files that hold a history whose last key is the root's.\<close>

lemma load_engine_run:
  assumes e: "content (fDataPos e) = pos_entries 0 hs" "content (fData e) = data_file hs" "slice_data e = Map.empty"
    "ldata e = Map.empty"
    and hs: "hs \<noteq> []" "keys_ok hs" "length (data_file hs) < 2 ^ 63"
    and ld: "load_slice bs (eheap e) = (Ok p, h')" "slices h' p = Some s" "height s = int (length hs) - 1"
  obtains e' where "load_engine bs e = (Ok (), e')" and "root e' = fst (last hs)" and "ss e' = [fst (last hs) \<mapsto> p]"
    and "eheap e' = h'" and "\<And>i. i < length hs \<Longrightarrow> ReadData (int i) (fst (hs ! i)) e' = Ok (snd (hs ! i))"
proof -
  define n where "n = length hs - 1"
  have n: "height s = int n" "n < length hs" "hs ! n = last hs"
    using hs(1) ld(3) by (cases hs; simp add: n_def last_conv_nth)+
  have small: "length (data_file (take (Suc i) hs)) < 2 ^ 63" for i
    using hs(3) by (metis append_take_drop_id data_file_append le_add1 le_less_trans length_append)
  define e1 where "e1 = e\<lparr>fData := (fData e)\<lparr>append_mode := True\<rparr>, fDataPos := (fDataPos e)\<lparr>append_mode := True\<rparr>, eheap := h'\<rparr>"
  have c1: "content (fDataPos e1) = pos_entries 0 hs" "content (fData e1) = data_file hs" using e by (simp_all add: e1_def)
  note r = disk_read [OF c1 hs(2) n(2) small]
  define e' where "e' = e1\<lparr>fDataPos := (fDataPos e1)\<lparr>wpos := nat ((int n + 1) * int SliceDataPosLen)\<rparr>,
    fData := (fData e1)\<lparr>wpos := nat (int (length (data_file (take n hs))) + int (length (snd (hs ! n))))\<rparr>,
    ss := [fst (last hs) \<mapsto> p], root := fst (last hs)\<rparr>"
  have "on_eheap (load_slice bs) (e\<lparr>fData := (fData e)\<lparr>append_mode := True\<rparr>, fDataPos := (fDataPos e)\<lparr>append_mode := True\<rparr>\<rparr>) = (Ok p, e1)"
    using ld(1) by (simp add: on_eheap_def e1_def)
  moreover have "on_eheap (deref p) e1 = (Ok s, e1)" using ld(2) by (intro on_eheap_deref) (simp add: e1_def)
  ultimately have "load_engine bs e = (Ok (), e')"
    using r(1,2) n by (simp add: load_engine_def go_run wrap_err_def e'_def)
  moreover have "ReadData (int i) (fst (hs ! i)) e' = Ok (snd (hs ! i))" if "i < length hs" for i
    by (rule disk_read(3) [OF _ _ hs(2) that small]) (use e in \<open>simp_all add: e'_def e1_def\<close>)
  ultimately show thesis by (intro that [of e']) (simp_all add: e'_def e1_def)
qed

text \<open>
  An engine that was started on its files has no data for the root in memory. The first merge nevertheless
  enters the data of the old root, nothing, into the memory for the heights, which hides what the file has:
  until the root is stored the next time, reading that height returns no data.
\<close>

lemma merge_after_restart:
  assumes wf: "wf_engine e" and k: "fa e k = Some (root e)" and d: "slice_data e (root e) = None"
    and a: "node e (root e) = Some a"
  shows "\<exists>e'. mergeFa k e = Some (Ok (), e') \<and> ReadData (height a) (root e) e' = Ok []"
proof -
  note t = wf_engineD(1) [OF wf] and sl = wf_engineD(2) [OF wf]
  obtain pa where pa: "ss e (root e) = Some pa" "slices (eheap e) pa = Some a"
    using a by (auto simp: node_def bind_eq_Some_conv)
  obtain pb where pb: "ss e k = Some pb" using wf_treeD(4) [OF t k] by blast
  then obtain b where b: "slices (eheap e) pb = Some b" using wf_slicesD(3) [OF sl] by blast
  have "mergeFa (root e) e = Some (Ok (), e)" using wf_treeD(2) [OF t] by (subst mergeFa.simps) simp
  then have "mergeFa k e = Some (Ok (), merged k pb a b e)"
    using k merge_pair_run [OF pa pb b] by (subst mergeFa.simps) simp
  moreover have "ReadData (height a) (root e) (merged k pb a b e) = Ok []"
    using d by (simp add: ReadData_def merged_def data_of_def)
  ultimately show ?thesis by blast
qed

lemma history_read:
  assumes "wf_engine e" and "wf_hist e hs" and "engine_step\<^sup>*\<^sup>* e e'"
    and "i < length hs" and "hs ! i = (k, d)" and "length (data_file hs) < 2 ^ 63"
    and "slice_data e' k = None \<or> slice_data e' k = Some d"
  shows "ReadData (int i) k e' = Ok d"
proof -
  obtain hs' where h: "wf_hist e' (hs @ hs')" using engine_run_hist [OF assms(3,1,2)] by blast
  have "length (data_file (take (Suc i) hs)) \<le> length (data_file hs)"
    by (metis append_take_drop_id data_file_append le_add1 length_append)
  moreover have "take (Suc i) (hs @ hs') = take (Suc i) hs" using assms(4) by simp
  ultimately have small: "length (data_file (take (Suc i) (hs @ hs'))) < 2 ^ 63"
    using assms(6) by (metis le_less_trans)
  have at: "(hs @ hs') ! i = (k, d)" using assms(4,5) by (simp add: nth_append)
  from ReadData_run [OF h _ small, of k, unfolded at] assms(4,7) show ?thesis by simp
qed

section \<open>Properties\<close>

text \<open>
  A new engine. On an empty directory, starting fails when the first slice is not of height 0, and
  otherwise succeeds: the tree is that slice alone and it is the highest, the invariants hold, the history
  consists of its key and data, and its file has been written.
\<close>

lemma NewStorageEngine_fresh:
  assumes h: "wf_heap h" and s: "slices h p = Some s" "base s = None" and k: "length k = SliceKeyLen"
    and ord: "set (ord [k \<mapsto> p]) = {k}" and srt: "\<And>g. srt g [] = []"
  shows "if height s \<noteq> 0
     then NewStorageEngine rng srt names ord p k d (new_engine depth [] [] None Map.empty Map.empty h)
        = (Err ErrInitHeight, new_engine depth [] [] None Map.empty Map.empty h)
     else \<exists>e. NewStorageEngine rng srt names ord p k d (new_engine depth [] [] None Map.empty Map.empty h) = (Ok (), e)
        \<and> wf_engine e \<and> wf_hist e [(k, d)] \<and> ss e = [k \<mapsto> p] \<and> root e = k \<and> HighestSlice e = p
        \<and> is_path e (HighestChain e) \<and> rq e = [] \<and> perm_ss e = Some (DumpFile 0 (rng (maps h (st s))))
        \<and> slice_view (eheap e) p = slice_view h p"
proof (cases "height s = 0")
  case False
  then show ?thesis
    using s by (simp add: NewStorageEngine_def new_engine_def bindG_def on_eheap_def go_run)
next
  case True
  define e0 where "e0 = new_engine depth [] [] None Map.empty Map.empty h"
  define e1 where "e1 = e0\<lparr>ss := [k \<mapsto> p], slice_data := [k \<mapsto> d], root := k,
    rq := [\<lparr>r_height = -1, r_id = zero_key\<rparr>], ldata := [0 \<mapsto> d]\<rparr>"
  have e0: "eheap e0 = h" "perm_ss e0 = None" by (simp_all add: e0_def new_engine_def)
  have h1: "wf_hist e1 [(k, d)]"
    by (rule fresh_hist [where p = p and s = s]) (use s k True in \<open>simp_all add: e1_def e0_def new_engine_def file_at_def\<close>)
  obtain e2 where e2: "storeRoot rng e1 = (Ok (), e2)" "wf_hist e2 [(k, d)]" "rq e2 = []"
    "perm_ss e2 = Some (root_dump rng e1)" "eheap e2 = eheap e1" "ss e2 = ss e1" "root e2 = root e1"
    "fa e2 = fa e1" "son e2 = son e1" "temp e2 = Map.empty"
    by (rule storeRoot_run [OF h1, of rng]) (simp add: e1_def e0_def new_engine_def)
  have f2: "ss e2 = [k \<mapsto> p]" "root e2 = k" "fa e2 = Map.empty" "son e2 = Map.empty" "eheap e2 = h"
    "perm_ss e2 = Some (DumpFile 0 (rng (maps h (st s))))"
    using e2 s True by (simp_all add: e1_def e0_def new_engine_def root_dump_def node_def)
  obtain ts h' where al: "alloc_slice None (-1) h = (Ok ts, h')" "ts = next_ref h" "frame h p h'" "writable h' ts"
    and v: "\<And>r. live h r \<Longrightarrow> slice_view h' r = slice_view h r"
    and ts: "slices h' ts = Some \<lparr>base = None, height = -1, st = ts, freezed = False\<rparr>"
    by (rule alloc_run [OF h, of None "-1" p]) (simp, blast)
  have live: "live h p" using h s by (auto simp: live_def)
  have s': "slices h' p = Some s" using frame_slice [OF al(3) live] s by simp
  define e3 where "e3 = e2\<lparr>eheap := h', HighestSlice := ts\<rparr>"
  have f3: "ss e3 = [k \<mapsto> p]" "eheap e3 = h'" "HighestSlice e3 = ts" "root e3 = k" by (simp_all add: e3_def f2)
  have wf3: "wf_engine e3"
    by (rule single_wf [where p = p and s = s]) (use f2 s s' ts al(3) in \<open>auto simp: e3_def frame_def\<close>)
  have h3: "wf_hist e3 [(k, d)]"
    using e2(2) by (rule wf_hist_cong) (use f2 s s' in \<open>simp_all add: e3_def node_def\<close>)
  obtain ch where m: "maintain_all (ord [k \<mapsto> p]) e3 = (Ok (), e3\<lparr>HighestSlice := p, HighestChain := ch\<rparr>)"
    "is_path e3 ch" "Key (last ch) = k"
    using maintain_all_single [OF wf3 _ f3(1), of "ord [k \<mapsto> p]" s] ord s' ts True f3 by auto
  have c: "create_engine rng p k d e0 = (Ok (), e2)"
    using e2(1) by (simp add: create_engine_def go_run e1_def)
  have l: "loadSubtrees names srt e2 = (Ok (), e2)"
    using load_candidates_none [OF e2(10), of names] srt by (simp add: loadSubtrees_def go_run)
  have a: "on_eheap (alloc_slice None (-1)) e2 = (Ok ts, e2\<lparr>eheap := h'\<rparr>)" using al(1) f2 by (simp add: on_eheap_def)
  have d0: "on_eheap (deref p) e0 = (Ok s, e0)" using s e0 by (simp add: on_eheap_deref)
  have "NewStorageEngine rng srt names ord p k d e0 = (Ok (), e3\<lparr>HighestSlice := p, HighestChain := ch\<rparr>)"
    using True m(1) f3(1) e0(2) by (simp add: NewStorageEngine_def go_run d0 c l a e3_def)
  moreover have "wf_engine (e3\<lparr>HighestSlice := p, HighestChain := ch\<rparr>)" using wf_highest [OF wf3] s' f3 by blast
  moreover have "is_path (e3\<lparr>HighestSlice := p, HighestChain := ch\<rparr>) ch" using m(2) by (simp add: is_path_def)
  ultimately show ?thesis
    using True highest_hist [OF h3] v [OF live] e2(3) f2 f3 unfolding e0_def by (auto simp: e3_def)
qed

definition demo_key :: SliceKeyType where
  "demo_key = replicate 32 1"

lemma demo_heap_facts:
  "wf_heap demo_heap" "slices demo_heap 0 = Some \<lparr>base = None, height = 0, st = 0, freezed = False\<rparr>"
  by (simp_all add: demo_heap_def wf_heap_def EmptySlice_def alloc_slice_def empty_heap_def)

lemma NewStorageEngine_fresh_witness:
  "\<exists>e. NewStorageEngine (\<lambda>_. []) (\<lambda>_ xs. xs) [] (\<lambda>_. [demo_key]) 0 demo_key [5]
       (new_engine 3 [] [] None Map.empty Map.empty demo_heap) = (Ok (), e) \<and> wf_engine e \<and> wf_hist e [(demo_key, [5])]"
  using NewStorageEngine_fresh [OF demo_heap_facts, of demo_key "\<lambda>_. [demo_key]" "\<lambda>_ xs. xs" "\<lambda>_. []" "[]" "[5]" 3]
  by (auto simp: demo_key_def SliceKeyLen_def)

text \<open>
  C8: what is finalized stays. Whatever a running engine does from a state with the history \<open>hs\<close> (slices are
  added and the tree is pruned and merged, the loop stores the root or is told to flush or stop, others work
  on their slices), the data of every height of \<open>hs\<close> is read back from the resulting state, whether it still
  is in memory or has gone to the files by then, as long as the tree has no other slice with that key.
\<close>

theorem history_kept:
  assumes "wf_engine e" and "wf_hist e hs" and "engine_step\<^sup>*\<^sup>* e e'"
    and "i < length hs" and "hs ! i = (k, d)" and "length (data_file hs) < 2 ^ 63"
    and "slice_data e' k = None \<or> slice_data e' k = Some d"
  shows "ReadData (int i) k e' = Ok d"
  using history_read [OF assms] .

text \<open>An engine with the root and one more slice, built on it.\<close>

definition demo_store :: StorageEngine where
  "demo_store = (new_engine 0 [5] (pos_entry 0 [5] demo_key) None Map.empty Map.empty
     \<lparr>slices = [0 \<mapsto> demo_slice None 0 0, 1 \<mapsto> demo_slice (Some 0) 1 1], maps = (\<lambda>_. Map.empty), next_ref = 2\<rparr>)
     \<lparr>ss := [demo_key \<mapsto> 0], slice_data := [demo_key \<mapsto> [5]], root := demo_key,
      fData := \<lparr>content = [5], wpos = 1, append_mode = False\<rparr>,
      fDataPos := \<lparr>content = pos_entry 0 [5] demo_key, wpos = 48, append_mode = False\<rparr>\<rparr>"

lemma demo_store_fields:
  "ss demo_store = [demo_key \<mapsto> 0]" "fa demo_store = Map.empty" "son demo_store = Map.empty" "root demo_store = demo_key"
  "slice_data demo_store = [demo_key \<mapsto> [5]]" "rq demo_store = []" "ldata demo_store = Map.empty"
  "HighestSlice demo_store = 0" "slices (eheap demo_store) 0 = Some (demo_slice None 0 0)"
  "slices (eheap demo_store) (Suc 0) = Some (demo_slice (Some 0) 1 1)"
  "content (fData demo_store) = [5]" "wpos (fData demo_store) = 1"
  "content (fDataPos demo_store) = pos_entry 0 [5] demo_key" "wpos (fDataPos demo_store) = 48"
  by (simp_all add: demo_store_def new_engine_def)

lemma wf_demo_store: "wf_engine demo_store"
proof (rule single_wf)
  show "wf_heap (eheap demo_store)"
    by (auto simp: wf_heap_def demo_store_def new_engine_def demo_slice_def split: if_splits)
qed (auto simp: demo_store_fields demo_slice_def)

lemma hist_demo_store: "wf_hist demo_store [(demo_key, [5])]"
proof -
  have "length demo_key = SliceKeyLen" by (simp add: demo_key_def SliceKeyLen_def)
  moreover from this have "length (pos_entry 0 [5] demo_key) = 48"
    by (simp add: length_pos_entry SliceDataPosLen_def SliceKeyLen_def)
  ultimately show ?thesis
    unfolding wf_hist_def queue_ok_def root_ok_def
    by (auto simp: demo_store_fields stored_def keys_ok_def on_disk_def node_def demo_slice_def file_at_def)
qed

lemma finalizing_data: "finalizing\<^sup>*\<^sup>* e e' \<Longrightarrow> slice_data e' \<subseteq>\<^sub>m slice_data e"
proof (induction rule: rtranclp_induct)
  case (step e1 e2)
  from step.hyps(2) have "slice_data e2 \<subseteq>\<^sub>m slice_data e1"
    by (cases rule: finalizing.cases) (auto simp: cut_fields merged_def map_le_def restrict_map_def)
  with step.IH show ?case by (rule map_le_trans [rotated])
qed simp

theorem history_kept_witness:
  "\<exists>e'. AddFreezedSlice (\<lambda>_. []) False 1 (replicate 32 2) demo_key [6] demo_store = (Ok (), e')
     \<and> ReadData 0 demo_key e' = Ok [5]"
proof -
  have b: "built_on demo_store 1 demo_key"
    by (auto simp: built_on_def node_def demo_store_fields demo_slice_def split: if_splits)
  have k: "replicate 32 2 \<notin> dom (ss demo_store)" "length (replicate 32 (2 :: u8)) = SliceKeyLen"
    by (simp_all add: demo_store_fields demo_key_def SliceKeyLen_def)
  obtain e1 e2 q ch where fin: "e1 = filed (replicate 32 2) (DumpFile 1 []) (demo_key @ [6])
      (added (replicate 32 2) 1 demo_key [6] demo_store)" "finalizing\<^sup>*\<^sup>* e1 e2"
    and run: "AddFreezedSlice (\<lambda>_. []) False 1 (replicate 32 2) demo_key [6] demo_store
      = (Ok (), e2\<lparr>HighestSlice := q, HighestChain := ch\<rparr>)"
    by (rule AddFreezedSlice_run [OF wf_demo_store b, of "replicate 32 2" "demo_slice (Some 0) 1 1" "demo_slice None 0 0" "\<lambda>_. []" "[6]" False])
       (use k in \<open>auto simp: demo_store_fields demo_slice_def\<close>)
  have "slice_data e1 demo_key = Some [5]"
    by (simp add: fin(1) filed_def added_def demo_store_fields demo_key_def)
  with finalizing_data [OF fin(2)] have "slice_data e2 demo_key = None \<or> slice_data e2 demo_key = Some [5]"
    by (auto simp: map_le_def dom_def)
  moreover have "engine_step\<^sup>*\<^sup>* demo_store (e2\<lparr>HighestSlice := q, HighestChain := ch\<rparr>)"
    using engine_step.step_add [OF b k run] by blast
  ultimately show ?thesis
    using history_kept [OF wf_demo_store hist_demo_store, of _ 0 demo_key "[5]"] run by auto
qed

text \<open>
  C9: what has been stored survives a stop. From every state that the invariants allow, storing the root
  succeeds, and an engine that is started on the files it leaves has the same root, a slice that reads exactly
  what the root read, and the whole history up to it.
\<close>

theorem restart_restores:
  assumes wf: "wf_engine e" and h: "wf_hist e hs" and small: "length (data_file hs) < 2 ^ 63" "length hs < 2 ^ 62"
    and q: "ss e (root e) = Some q" "slices (eheap e) q = Some s"
    and rng: "is_range (rng (maps (eheap e) (st s))) (maps (eheap e) (st s))" "length (rng (maps (eheap e) (st s))) < 2 ^ 63"
      "\<forall>(k, v) \<in> set (rng (maps (eheap e) (st s))). length k = KeyLen \<and> length v = DataLen"
    and h0: "wf_heap h0"
  shows "\<exists>e1 bs e' p. storeRoot rng e = (Ok (), e1) \<and> perm_ss e1 = Some bs
     \<and> load_engine bs (new_engine depth (content (fData e1)) (content (fDataPos e1)) (Some bs) (temp e1) (temp_b e1) h0) = (Ok (), e')
     \<and> root e' = root e \<and> ss e' = [root e \<mapsto> p] \<and> slice_view (eheap e') p = slice_view (eheap e) q
     \<and> (\<forall>i < length hs. ReadData (int i) (fst (hs ! i)) e' = Ok (snd (hs ! i)))"
proof -
  obtain e1 where e1: "storeRoot rng e = (Ok (), e1)" "wf_hist e1 hs" "rq e1 = []" "perm_ss e1 = Some (root_dump rng e)"
    by (rule storeRoot_run [OF h, of rng])
  have rt: "hs \<noteq> []" "fst (last hs) = root e" "height s = int (length hs) - 1"
    using wf_histD(4) [OF h] q by (auto simp: root_ok_def node_def)
  have disk: "content (fDataPos e1) = pos_entries 0 hs" "content (fData e1) = data_file hs"
    using wf_histD(2) [OF e1(2)] e1(3) by (simp_all add: stored_def on_disk_def file_at_def)
  have b: "- (2 ^ 63) \<le> height s" "height s < 2 ^ 63" using rt(3) small(2) by simp_all
  obtain p h' t where l: "load_slice (DumpFile (height s) (rng (maps (eheap e) (st s)))) h0 = (Ok p, h')"
    "slices h' p = Some t" "height t = height s"
    and v: "slice_view h' p = (\<lambda>k. case maps (eheap e) (st s) k of None \<Rightarrow> zero_data | Some v \<Rightarrow> v)"
    by (rule load_slice_run [OF h0 rng(1,3,2) b])
  have bs: "root_dump rng e = DumpFile (height s) (rng (maps (eheap e) (st s)))" using q by (simp add: root_dump_def node_def)
  have "base s = None"
    using wf_slicesD(3) [OF wf_engineD(2) [OF wf] q(1)] q(2) wf_treeD(2) [OF wf_engineD(1) [OF wf]] by auto
  then have v': "slice_view h' p = slice_view (eheap e) q"
    unfolding v by (intro ext) (auto simp: slice_view_unfold [OF q(2)] split: option.splits)
  let ?e0 = "new_engine depth (content (fData e1)) (content (fDataPos e1)) (Some (root_dump rng e)) (temp e1) (temp_b e1) h0"
  have f0: "content (fDataPos ?e0) = pos_entries 0 hs" "content (fData ?e0) = data_file hs" "slice_data ?e0 = Map.empty"
    "ldata ?e0 = Map.empty" "eheap ?e0 = h0"
    using disk by (simp_all add: new_engine_def)
  have l1: "load_slice (root_dump rng e) (eheap ?e0) = (Ok p, h')" and ht: "height t = int (length hs) - 1"
    using l(1,3) rt(3) unfolding bs by (simp_all add: new_engine_def)
  obtain e' where "load_engine (root_dump rng e) ?e0 = (Ok (), e')" "root e' = fst (last hs)" "ss e' = [fst (last hs) \<mapsto> p]"
    "eheap e' = h'" "\<And>i. i < length hs \<Longrightarrow> ReadData (int i) (fst (hs ! i)) e' = Ok (snd (hs ! i))"
    by (rule load_engine_run [OF f0(1-4) rt(1) wf_histD(1) [OF h] small(1) l1 l(2) ht]) blast
  with e1 rt(2) v' show ?thesis by auto
qed

theorem restart_restores_witness:
  "\<exists>e1 bs e' p. storeRoot (\<lambda>_. []) demo_store = (Ok (), e1) \<and> perm_ss e1 = Some bs
     \<and> load_engine bs (new_engine 0 (content (fData e1)) (content (fDataPos e1)) (Some bs) (temp e1) (temp_b e1) empty_heap) = (Ok (), e')
     \<and> root e' = demo_key \<and> ReadData 0 demo_key e' = Ok [5]"
proof -
  have "maps (eheap demo_store) 0 = Map.empty" by (simp add: demo_store_def new_engine_def)
  then show ?thesis
    using restart_restores [OF wf_demo_store hist_demo_store, of 0 "demo_slice None 0 0" "\<lambda>_. []" empty_heap 0] wf_empty_heap
    by (auto simp: demo_store_fields demo_slice_def is_range_def)
qed

end
