(* ===== verification/Chain.thy ===== *)
theory Chain
  imports Consensus Execution Packets Address Storage_History
begin

text \<open>
  The chain node of \<^verbatim>\<open>core/core.go\<close>: its caches, the handlers of the three messages, the check of unresolved
  blocks that adds blocks to the storage engine, the loops that talk to the neighbours, and the interface for
  miners and wallets.

  The caches are those of the package \<^verbatim>\<open>go-cache\<close>, which is not part of the program: its operations are the
  argument \<open>cache_pkg\<close>, on an arbitrary type of caches. The node of the model holds the storage engine, the
  caches, and what it has sent: packets (\<open>outbox\<close>), signals to its own loops and transactions to be relayed.
  Each turn of a loop is one operation; locks, and the blocking of a full channel, are not modelled. The time,
  the outcomes of the random generator, the order in which Go ranges over a map and whether the engine's
  lock is taken are arguments.
\<close>

section \<open>State\<close>

datatype item = ItHeader BlockHeader | ItBlock Block | ItState ConsensusState | ItTx Transaction | ItHeight int | ItHash HashType

record 'c cache_pkg =
  cache_New :: 'c
  cache_Get :: "bytes \<Rightarrow> 'c \<Rightarrow> item option"
  cache_Set :: "bytes \<Rightarrow> item \<Rightarrow> 'c \<Rightarrow> 'c"
  cache_Delete :: "bytes \<Rightarrow> 'c \<Rightarrow> 'c"
  cache_Add :: "bytes \<Rightarrow> item \<Rightarrow> 'c \<Rightarrow> bool \<times> 'c"
  cache_Items :: "'c \<Rightarrow> (bytes \<times> item) list"

datatype net_action = WriteTo int bytes | Broadcast bytes int | DiscardPeer int

record ChainNodeConfig =
  StorageFinalizeDepth :: int
  MaxConnections :: int

record ChainGlobalConfig =
  ChainId :: u16
  GenesisBlock :: Block
  GenesisConsensusState :: ConsensusState
  GenesisBlockReward :: u64
  BlockReward :: u64
  Tip1EnableHeight :: int

record 'c ChainNode =
  se :: StorageEngine
  unresolvedBlocks :: 'c
  blockCache :: 'c
  blockConsensusState :: 'c
  txPool :: 'c
  neighborHeight :: 'c
  possibleNext :: 'c
  config :: ChainNodeConfig
  gConfig :: ChainGlobalConfig
  execCallback :: "ExecutionCallback option"
  txChan :: "Transaction option list"
  checkUnBlocks :: nat
  broadcastBlocks :: nat
  outbox :: "net_action list"

definition on_se :: "(StorageEngine, 'a) go \<Rightarrow> ('c ChainNode, 'a) go" where
  "on_se m n = (case m (se n) of (r, e) \<Rightarrow> (r, n\<lparr>se := e\<rparr>))"

definition on_slices :: "(SliceHeap, 'a) go \<Rightarrow> ('c ChainNode, 'a) go" where
  "on_slices m = on_se (on_eheap m)"

definition send :: "net_action \<Rightarrow> ('c ChainNode, unit) go" where
  "send a = modifyS (\<lambda>n. n\<lparr>outbox := outbox n @ [a]\<rparr>)"

text \<open>A nil pointer in the chain of slices, and an index outside of a list, panic.\<close>

definition chain_height :: "SliceChain \<Rightarrow> ('c ChainNode, int) go" where
  "chain_height c = (case S c of None \<Rightarrow> panic | Some p \<Rightarrow> on_slices (Height p))"

definition nth_at :: "'a list \<Rightarrow> int \<Rightarrow> ('s, 'a) go" where
  "nth_at xs i = (if 0 \<le> i \<and> nat i < length xs then ret (xs ! nat i) else panic)"

definition last_at :: "'a list \<Rightarrow> ('s, 'a) go" where
  "last_at xs = nth_at xs (int (length xs) - 1)"

section \<open>Blocks of the chain\<close>

definition loadBlock :: "'c cache_pkg \<Rightarrow> crypto \<Rightarrow> int \<Rightarrow> HashType \<Rightarrow> ('c ChainNode, Block \<times> ConsensusState) go" where
  "loadBlock K C ht hash =
     bindG (\<lambda>n. (ReadData ht hash (se n), n)) (\<lambda>s.
     bindG (liftR (fst (bindG DecodeConsensus (\<lambda>cs. bindG (DecodeBlock C) (\<lambda>b. ret (cs, b))) s))) (\<lambda>(cs, b).
     if hash \<noteq> zero32 \<and> Hash (Header b) \<noteq> hash then throw ErrBlockHashMismatch
     else
       let h = (if hash = zero32 then Hash (Header b) else hash) in
       bindG (modifyS (\<lambda>n. n\<lparr>blockConsensusState := cache_Set K h (ItState cs) (blockConsensusState n),
                             blockCache := cache_Set K h (ItBlock b) (blockCache n)\<rparr>)) (\<lambda>_.
       ret (b, cs))))"

definition getBlock :: "'c cache_pkg \<Rightarrow> crypto \<Rightarrow> int \<Rightarrow> HashType \<Rightarrow> ('c ChainNode, Block) go" where
  "getBlock K C ht hash =
     bindG (getS (\<lambda>n. cache_Get K hash (blockCache n))) (\<lambda>t.
     case t of
       Some (ItBlock b) \<Rightarrow> ret b
     | Some _ \<Rightarrow> panic
     | None \<Rightarrow> bindG (loadBlock K C ht hash) (\<lambda>(b, _). ret b))"

definition getConsensusState :: "'c cache_pkg \<Rightarrow> crypto \<Rightarrow> int \<Rightarrow> HashType \<Rightarrow> ('c ChainNode, ConsensusState) go" where
  "getConsensusState K C ht hash =
     bindG (getS (\<lambda>n. cache_Get K hash (blockConsensusState n))) (\<lambda>t.
     case t of
       Some (ItState cs) \<Rightarrow> ret cs
     | Some _ \<Rightarrow> panic
     | None \<Rightarrow> bindG (loadBlock K C ht hash) (\<lambda>(_, cs). ret cs))"

section \<open>Answering requests\<close>

text \<open>
  The blocks from \<open>i\<close> on, at most \<open>m\<close> more. The hash of the first is the one asked for; above the root the
  chain names the hashes, and below it the storage engine finds the block by its height.
\<close>

fun reply_blocks ::
  "'c cache_pkg \<Rightarrow> crypto \<Rightarrow> PacketBlockRequest \<Rightarrow> SliceChain list \<Rightarrow> int \<Rightarrow> nat \<Rightarrow> nat \<Rightarrow> PacketBlocks \<Rightarrow> ('c ChainNode, PacketBlocks) go" where
  "reply_blocks K C p hc mh i 0 rp = ret rp"
| "reply_blocks K C p hc mh i (Suc m) rp =
     (let id = i64 (MinId_req p + int i) in
      if (i \<noteq> 0 \<or> Hash_req p = zero32) \<and> int (length hc) \<le> i64 (id - mh) then ret rp
      else
        bindG (if i = 0 \<and> Hash_req p \<noteq> zero32 then ret (Hash_req p)
               else if mh \<le> id then bindG (nth_at hc (i64 (id - mh))) (\<lambda>c. ret (Key c))
               else ret zero32) (\<lambda>h.
        bindG (wrap_err ErrGetBlock (getBlock K C id h)) (\<lambda>b.
        bindG (liftR (Add (FullBlock b) True rp)) (\<lambda>rp'.
        reply_blocks K C p hc mh (Suc i) m rp'))))"

definition reply ::
  "'c cache_pkg \<Rightarrow> crypto \<Rightarrow> PacketBlockRequest \<Rightarrow> slice_ptr \<Rightarrow> SliceChain list \<Rightarrow> nat \<Rightarrow> ('c ChainNode, PacketBlocks) go" where
  "reply K C p hs hc maxReturn =
     (if MinId_req p = -1 then
        bindG (getBlock K C (MinId_req p) (Hash_req p)) (\<lambda>b.
        bindG (getConsensusState K C (MinId_req p) (Hash_req p)) (\<lambda>cs.
        liftR (Add (FullBlock b) True (NewPacketBlocks (Height_cs cs)))))
      else
        bindG (on_slices (Height hs)) (\<lambda>hh.
        if hh < MinId_req p then throw ErrTooHigh
        else
          bindG (nth_at hc 0) (\<lambda>c0.
          bindG (chain_height c0) (\<lambda>mh.
          bindG (if mh \<le> MinId_req p then bindG (nth_at hc (i64 (MinId_req p - mh))) (\<lambda>c. ret (Some c)) else ret None) (\<lambda>at.
          case at of
            Some c \<Rightarrow>
              if Key c \<noteq> Hash_req p \<and> Hash_req p \<noteq> zero32
              then throw (ErrInvalidChain (MinId_req p) mh (Hash_req p) (Key c))
              else reply_blocks K C p hc mh 0 maxReturn (NewPacketBlocks (MinId_req p))
          | None \<Rightarrow> reply_blocks K C p hc mh 0 maxReturn (NewPacketBlocks (MinId_req p)))))))"

text \<open>
  The packet with the highest header. The header is added when the block was not found, through a nil
  pointer; when it was found, the packet stays empty.
\<close>

definition highest_packet :: "'c cache_pkg \<Rightarrow> crypto \<Rightarrow> slice_ptr \<Rightarrow> SliceChain list \<Rightarrow> ('c ChainNode, PacketBlocks) go" where
  "highest_packet K C hs hc =
     bindG (on_slices (Height hs)) (\<lambda>hh.
     bindG (last_at hc) (\<lambda>c. \<lambda>n.
     case getBlock K C hh (Key c) n of
       (Ok b, n1) \<Rightarrow> (Ok (NewPacketBlocks hh), n1)
     | (Err x, n1) \<Rightarrow> (Panic, n1)
     | (Panic, n1) \<Rightarrow> (Panic, n1) | (Diverge, n1) \<Rightarrow> (Diverge, n1)))"

definition blocks_message :: "PacketBlocks \<Rightarrow> ('c ChainNode, bytes) go" where
  "blocks_message rp = bindG (liftR (EncodeBlocks rp)) (\<lambda>bs. ret (PktBlocks # bs))"

definition handleBlockRequest :: "'c cache_pkg \<Rightarrow> crypto \<Rightarrow> PacketBlockRequest \<Rightarrow> int \<Rightarrow> nat \<Rightarrow> ('c ChainNode, unit) go" where
  "handleBlockRequest K C p peerId maxReturn n0 =
     (let hs = HighestSlice (se n0); hc = HighestChain (se n0) in
      bindG (\<lambda>n. case reply K C p hs hc maxReturn n of (Err x, n1) \<Rightarrow> highest_packet K C hs hc n1 | r \<Rightarrow> r) (\<lambda>rp.
      bindG (blocks_message rp) (\<lambda>m.
      send (WriteTo peerId m))) n0)"

definition sendHighest :: "'c cache_pkg \<Rightarrow> crypto \<Rightarrow> int \<Rightarrow> slice_ptr \<Rightarrow> SliceChain list \<Rightarrow> bool \<Rightarrow> ('c ChainNode, unit) go" where
  "sendHighest K C peerId hs hc broadcast =
     bindG (highest_packet K C hs hc) (\<lambda>rp.
     bindG (blocks_message rp) (\<lambda>m. \<lambda>n.
     send (if broadcast then Broadcast m (MaxConnections (config n)) else WriteTo peerId m) n))"

definition sendMyHighest_turn :: "'c cache_pkg \<Rightarrow> crypto \<Rightarrow> ('c ChainNode, unit) go" where
  "sendMyHighest_turn K C n = sendHighest K C 0 (HighestSlice (se n)) (HighestChain (se n)) True n"

section \<open>Adding blocks\<close>

text \<open>An error that the caller ignores.\<close>

definition attempt :: "('s, 'a) go \<Rightarrow> ('s, 'a option) go" where
  "attempt m s = (case m s of (Ok x, t) \<Rightarrow> (Ok (Some x), t) | (Err e, t) \<Rightarrow> (Ok None, t)
     | (Panic, t) \<Rightarrow> (Panic, t) | (Diverge, t) \<Rightarrow> (Diverge, t))"

definition exec_context :: "ChainGlobalConfig \<Rightarrow> int \<Rightarrow> u64 \<Rightarrow> AddressType \<Rightarrow> HashType \<Rightarrow> ExecutionContext" where
  "exec_context g ht tm miner d =
     \<lparr>Height_ctx = ht, Time_ctx = tm, Miner_ctx = miner, Difficulty_ctx = d, ChainId_ctx = ChainId g,
      Tip1Enabled = (Tip1EnableHeight g \<le> ht)\<rparr>"

text \<open>
  A block whose parent is in the storage engine is executed on a fork of the parent's slice. When that
  succeeds, the fork is freezed and added; the outcome of adding it is ignored.
\<close>

definition add_block ::
  "'c cache_pkg \<Rightarrow> crypto \<Rightarrow> ((KeyType \<rightharpoonup> DataType) \<Rightarrow> (KeyType \<times> DataType) list) \<Rightarrow> bool \<Rightarrow> HashType \<Rightarrow> HashType
     \<Rightarrow> Block \<Rightarrow> ConsensusState \<Rightarrow> ConsensusState \<Rightarrow> ('c ChainNode, bool) go" where
  "add_block K C rng busy k parent b oldCs cs =
     bindG (getS (\<lambda>n. GetSlice parent (se n))) (\<lambda>sl.
     case sl of
       None \<Rightarrow> ret False
     | Some sl \<Rightarrow>
         bindG (on_slices (ForkSlice sl)) (\<lambda>sln.
         bindG (\<lambda>n. attempt (on_slices (ExecuteBlock C (execCallback n)
                  (exec_context (gConfig n) (Height_cs cs) (Time b) (Miner b) (Difficulty oldCs)) b (BlockReward (gConfig n)) sln)) n) (\<lambda>r.
         if r = None then ret False
         else
           bindG (on_slices (Freeze sln)) (\<lambda>_.
           bindG (attempt (on_se (AddFreezedSlice rng busy sln k parent (EncodeConsensus cs @ EncodeBlock b)))) (\<lambda>_.
           bindG (modifyS (\<lambda>n. n\<lparr>unresolvedBlocks := cache_Delete K k (unresolvedBlocks n)\<rparr>)) (\<lambda>_.
           ret True))))))"

record 'c mark_state =
  mnode :: "'c ChainNode"
  vis :: "HashType set"
  ask :: "HashType list"
  any_added :: bool

definition on_node :: "('c ChainNode, 'a) go \<Rightarrow> ('c mark_state, 'a) go" where
  "on_node m s = (case m (mnode s) of (r, n) \<Rightarrow> (r, s\<lparr>mnode := n\<rparr>))"

definition drop_unresolved :: "'c cache_pkg \<Rightarrow> HashType \<Rightarrow> ('c ChainNode, unit) go" where
  "drop_unresolved K k = modifyS (\<lambda>n. n\<lparr>unresolvedBlocks := cache_Delete K k (unresolvedBlocks n)\<rparr>)"

definition too_early :: "int \<Rightarrow> Block \<Rightarrow> bool" where
  "too_early now b \<longleftrightarrow> 2 ^ 63 \<le> unat (Time b) \<or> now + 60 * 10 ^ 9 < int (unat (Time b))"

text \<open>A header whose parent has been dealt with: the block is checked and added.\<close>

definition resolve ::
  "'c cache_pkg \<Rightarrow> crypto \<Rightarrow> ((KeyType \<rightharpoonup> DataType) \<Rightarrow> (KeyType \<times> DataType) list) \<Rightarrow> bool \<Rightarrow> int \<Rightarrow> HashType \<Rightarrow> HashType
     \<Rightarrow> ('c ChainNode, bool) go" where
  "resolve K C rng busy now k parent =
     bindG (getS (\<lambda>n. cache_Get K k (blockCache n))) (\<lambda>bt.
     case bt of
       None \<Rightarrow> ret False
     | Some (ItBlock b) \<Rightarrow>
         if too_early now b then bindG (drop_unresolved K k) (\<lambda>_. ret False)
         else
           bindG (attempt (getConsensusState K C 0 parent)) (\<lambda>oldCs.
           case oldCs of
             None \<Rightarrow> ret False
           | Some oldCs \<Rightarrow>
               (case CheckAndUpdate b oldCs of
                  (False, _) \<Rightarrow> ret False
                | (True, cs) \<Rightarrow> add_block K C rng busy k parent b oldCs cs))
     | Some _ \<Rightarrow> panic)"

text \<open>
  \<open>mark\<close> follows the parents of an unresolved header down to a known slice. The counter is the number of
  levels that \<^verbatim>\<open>dep\<close> leaves; \<open>ti\<close> is the snapshot of the unresolved headers.
\<close>

fun mark ::
  "'c cache_pkg \<Rightarrow> crypto \<Rightarrow> ((KeyType \<rightharpoonup> DataType) \<Rightarrow> (KeyType \<times> DataType) list) \<Rightarrow> (HashType \<Rightarrow> bool) \<Rightarrow> int
     \<Rightarrow> (bytes \<rightharpoonup> item) \<Rightarrow> nat \<Rightarrow> HashType \<Rightarrow> ('c mark_state, unit) go" where
  "mark K C rng busy now ti 0 k = ret ()"
| "mark K C rng busy now ti (Suc r) k =
     bindG (getS vis) (\<lambda>v.
     if k \<in> v then ret ()
     else
       bindG (modifyS (\<lambda>s. s\<lparr>vis := insert k v\<rparr>)) (\<lambda>_.
       bindG (getS (\<lambda>s. GetSlice k (se (mnode s)))) (\<lambda>sl.
       if sl \<noteq> None then on_node (drop_unresolved K k)
       else
         case ti k of
           None \<Rightarrow> modifyS (\<lambda>s. s\<lparr>ask := ask s @ [k]\<rparr>)
         | Some (ItHeader bh) \<Rightarrow>
             bindG (mark K C rng busy now ti r (ParentHash bh)) (\<lambda>_.
             bindG (on_node (resolve K C rng (busy k) now k (ParentHash bh))) (\<lambda>added.
             modifyS (\<lambda>s. s\<lparr>any_added := (any_added s \<or> added)\<rparr>)))
         | Some _ \<Rightarrow> panic)))"

fun mark_all ::
  "'c cache_pkg \<Rightarrow> crypto \<Rightarrow> ((KeyType \<rightharpoonup> DataType) \<Rightarrow> (KeyType \<times> DataType) list) \<Rightarrow> (HashType \<Rightarrow> bool) \<Rightarrow> int
     \<Rightarrow> (bytes \<rightharpoonup> item) \<Rightarrow> nat \<Rightarrow> HashType list \<Rightarrow> ('c mark_state, unit) go" where
  "mark_all K C rng busy now ti r [] = ret ()"
| "mark_all K C rng busy now ti r (k # ks) =
     bindG (mark K C rng busy now ti r k) (\<lambda>_. mark_all K C rng busy now ti r ks)"

definition ask_for :: "HashType \<Rightarrow> ('c ChainNode, unit) go" where
  "ask_for k = send (Broadcast (PktBlockRequest # EncodeBlockRequest \<lparr>MinId_req = -1, Hash_req = k\<rparr>) 3)"

fun ask_all :: "HashType list \<Rightarrow> ('c ChainNode, unit) go" where
  "ask_all [] = ret ()"
| "ask_all (k # ks) = bindG (ask_for k) (\<lambda>_. ask_all ks)"

definition checkUnresolvedBlocks_turn ::
  "'c cache_pkg \<Rightarrow> crypto \<Rightarrow> ((KeyType \<rightharpoonup> DataType) \<Rightarrow> (KeyType \<times> DataType) list) \<Rightarrow> (HashType \<Rightarrow> bool) \<Rightarrow> int
     \<Rightarrow> ('c ChainNode, unit) go" where
  "checkUnresolvedBlocks_turn K C rng busy now n =
     (let items = cache_Items K (unresolvedBlocks n) in
      case mark_all K C rng busy now (map_of items) (nat (StorageFinalizeDepth (config n) + 4)) (map fst items)
             \<lparr>mnode = n, vis = {}, ask = [], any_added = False\<rparr> of
        (Ok _, s) \<Rightarrow>
          bindG (if any_added s then modifyS (\<lambda>n. n\<lparr>broadcastBlocks := broadcastBlocks n + 1\<rparr>) else ret ()) (\<lambda>_.
          ask_all (ask s)) (mnode s)
      | (Err x, s) \<Rightarrow> (Err x, mnode s) | (Panic, s) \<Rightarrow> (Panic, mnode s) | (Diverge, s) \<Rightarrow> (Diverge, mnode s))"

section \<open>Incoming messages\<close>

definition forget_txs :: "'c cache_pkg \<Rightarrow> crypto \<Rightarrow> Transaction list \<Rightarrow> 'c \<Rightarrow> 'c" where
  "forget_txs K C txs c = foldl (\<lambda>c tx. cache_Delete K (Tx_Hash C tx) c) c txs"

definition note_block :: "'c cache_pkg \<Rightarrow> crypto \<Rightarrow> Block \<Rightarrow> ('c ChainNode, unit) go" where
  "note_block K C b =
     modifyS (\<lambda>n. if cache_Get K (Hash (Header b)) (blockCache n) \<noteq> None then n
       else n\<lparr>blockCache := cache_Set K (Hash (Header b)) (ItBlock b) (blockCache n),
              txPool := forget_txs K C (Txs b) (txPool n)\<rparr>)"

text \<open>The result says whether the header is new.\<close>

definition note_header :: "'c cache_pkg \<Rightarrow> int \<Rightarrow> int \<Rightarrow> int \<Rightarrow> nat \<Rightarrow> BlockHeader \<Rightarrow> ('c ChainNode, bool) go" where
  "note_header K minId rejectLow rejectHigh i bh =
     (if minId \<noteq> -1 \<and> i64 (minId + int i) \<le> rejectLow then
        bindG (drop_unresolved K (Hash bh)) (\<lambda>_.
        bindG (getS (\<lambda>n. cache_Get K (Hash bh) (possibleNext n))) (\<lambda>nh.
        case nh of
          None \<Rightarrow> ret False
        | Some (ItHash nh) \<Rightarrow> bindG (drop_unresolved K nh) (\<lambda>_. ret False)
        | Some _ \<Rightarrow> panic))
      else if minId \<noteq> -1 \<and> rejectHigh \<le> i64 (minId + int i) then
        bindG (drop_unresolved K (Hash bh)) (\<lambda>_. ret False)
      else
        bindG (getS (\<lambda>n. cache_Get K (Hash bh) (unresolvedBlocks n))) (\<lambda>old.
        if old \<noteq> None then ret False
        else
          bindG (modifyS (\<lambda>n. n\<lparr>unresolvedBlocks := cache_Set K (Hash bh) (ItHeader bh) (unresolvedBlocks n),
                                possibleNext := cache_Set K (ParentHash bh) (ItHash (Hash bh)) (possibleNext n)\<rparr>)) (\<lambda>_.
          ret True)))"

fun handle_body :: "'c cache_pkg \<Rightarrow> crypto \<Rightarrow> PacketBlocks \<Rightarrow> int \<Rightarrow> int \<Rightarrow> nat \<Rightarrow> body_item list \<Rightarrow> ('c ChainNode, bool) go" where
  "handle_body K C p lo hi i [] = ret False"
| "handle_body K C p lo hi i (bt # bts) =
     bindG (liftR (IsFull (isFull p) i)) (\<lambda>full.
     bindG (case (full, bt) of
              (True, FullBlock b) \<Rightarrow> bindG (note_block K C b) (\<lambda>_. ret (Header b))
            | (False, BareHeader bh) \<Rightarrow> ret bh
            | _ \<Rightarrow> panic) (\<lambda>bh.
     bindG (note_header K (MinId p) lo hi i bh) (\<lambda>a.
     bindG (handle_body K C p lo hi (Suc i) bts) (\<lambda>a'.
     ret (a \<or> a')))))"

definition handleBlocks :: "'c cache_pkg \<Rightarrow> crypto \<Rightarrow> PacketBlocks \<Rightarrow> ('c ChainNode, unit) go" where
  "handleBlocks K C p =
     bindG (\<lambda>n. on_slices (ForkSlice (HighestSlice (se n))) n) (\<lambda>s.
     bindG (on_slices (Height s)) (\<lambda>sh.
     bindG (getS (\<lambda>n. i64 (sh - StorageFinalizeDepth (config n) - 5))) (\<lambda>lo.
     bindG (handle_body K C p lo (i64 (sh + 500)) 0 (Body p)) (\<lambda>new.
     if new then modifyS (\<lambda>n. n\<lparr>checkUnBlocks := checkUnBlocks n + 1\<rparr>) else ret ()))))"

fun pool_txs :: "'c cache_pkg \<Rightarrow> crypto \<Rightarrow> Transaction list \<Rightarrow> 'c ChainNode \<Rightarrow> 'c ChainNode" where
  "pool_txs K C [] n = n"
| "pool_txs K C (tx # txs) n =
     (case cache_Add K (Tx_Hash C tx) (ItTx tx) (txPool n) of
        (ok, c) \<Rightarrow> pool_txs K C txs (n\<lparr>txPool := c, txChan := (if ok then txChan n @ [Some tx] else txChan n)\<rparr>))"

definition handleTransactions :: "'c cache_pkg \<Rightarrow> crypto \<Rightarrow> Transaction list \<Rightarrow> ('c ChainNode, unit) go" where
  "handleTransactions K C txs = modifyS (\<lambda>n. let n1 = pool_txs K C txs n in n1\<lparr>txChan := txChan n1 @ [None]\<rparr>)"

text \<open>The relaying loop collects transactions up to the next nil and sends them in one packet.\<close>

definition broadcastTxsLoop_turn :: "('c ChainNode, unit) go" where
  "broadcastTxsLoop_turn =
     bindG (getS txChan) (\<lambda>q.
     if None \<notin> set q then ret ()
     else
       let txs = List.map_filter id (takeWhile (\<lambda>t. t \<noteq> None) q) in
       bindG (modifyS (\<lambda>n. n\<lparr>txChan := drop (length txs + 1) q\<rparr>)) (\<lambda>_.
       if txs = [] then ret () else send (Broadcast (PktTransactions # EncodeTransactions txs) 3)))"

text \<open>The height that a neighbour is known to have only grows, as long as the cache remembers it.\<close>

definition peer_key :: "int \<Rightarrow> bytes" where
  "peer_key peer = le_bytes 8 (u64_of_int peer)"

definition note_neighbor :: "'c cache_pkg \<Rightarrow> int \<Rightarrow> PacketBlocks \<Rightarrow> ('c ChainNode, unit) go" where
  "note_neighbor K peer p =
     (if MinId p = -1 then ret ()
      else
        bindG (getS (\<lambda>n. cache_Get K (peer_key peer) (neighborHeight n))) (\<lambda>t.
        let np = i64 (MinId p + int (length (Body p)) - 1) in
        case t of
          None \<Rightarrow> modifyS (\<lambda>n. n\<lparr>neighborHeight := cache_Set K (peer_key peer) (ItHeight np) (neighborHeight n)\<rparr>)
        | Some (ItHeight h) \<Rightarrow> modifyS (\<lambda>n. n\<lparr>neighborHeight := cache_Set K (peer_key peer) (ItHeight (max np h)) (neighborHeight n)\<rparr>)
        | Some _ \<Rightarrow> panic))"

definition handlePacket :: "'c cache_pkg \<Rightarrow> crypto \<Rightarrow> int \<Rightarrow> bytes \<Rightarrow> ('c ChainNode, unit) go" where
  "handlePacket K C peer msg =
     (case msg of
        [] \<Rightarrow> panic
      | opcode # buf \<Rightarrow>
          if opcode = PktBlockRequest then
            bindG (liftR (fst (DecodeBlockRequest buf))) (\<lambda>p. handleBlockRequest K C p peer 100)
          else if opcode = PktBlocks then
            bindG (liftR (fst (DecodeBlocks C buf))) (\<lambda>p.
            bindG (note_neighbor K peer p) (\<lambda>_.
            handleBlocks K C p))
          else if opcode = PktTransactions then
            bindG (liftR (fst (DecodeTransactions buf))) (\<lambda>txs. handleTransactions K C txs)
          else ret ())"

definition readLoop_turn :: "'c cache_pkg \<Rightarrow> crypto \<Rightarrow> int \<Rightarrow> bytes \<Rightarrow> ('c ChainNode, unit) go" where
  "readLoop_turn K C peer msg =
     bindG (attempt (handlePacket K C peer msg)) (\<lambda>r.
     if r = None then send (DiscardPeer peer) else ret ())"

section \<open>Keeping up with the neighbours\<close>

definition request_next :: "'c cache_pkg \<Rightarrow> int \<Rightarrow> SliceChain list \<Rightarrow> int \<Rightarrow> ('c ChainNode, unit) go" where
  "request_next K peer hc mh =
     bindG (last_at hc) (\<lambda>c.
     bindG (getS (\<lambda>n. cache_Get K (Key c) (possibleNext n))) (\<lambda>t.
     bindG (case t of None \<Rightarrow> ret zero32 | Some (ItHash h) \<Rightarrow> ret h | Some _ \<Rightarrow> panic) (\<lambda>hs.
     send (WriteTo peer (PktBlockRequest # EncodeBlockRequest \<lparr>MinId_req = i64 (mh + 1), Hash_req = hs\<rparr>)))))"

text \<open>
  One neighbour of a turn, whose known height is \<open>h\<close>. The two coins are the outcomes of the random generator;
  \<open>req\<close> says whether a request may still be sent in this turn, and the result whether that still holds.
\<close>

definition sync_peer ::
  "'c cache_pkg \<Rightarrow> crypto \<Rightarrow> slice_ptr \<Rightarrow> SliceChain list \<Rightarrow> int \<Rightarrow> bool \<times> bool \<Rightarrow> int \<Rightarrow> int \<Rightarrow> bool \<Rightarrow> ('c ChainNode, bool) go" where
  "sync_peer K C hs hc mh coins peer h req =
     (if h < i64 (mh - 3) then bindG (attempt (sendHighest K C peer hs hc False)) (\<lambda>_. ret req)
      else if h < mh then
        if \<not> fst coins then ret req
        else
          bindG (nth_at hc 0) (\<lambda>c0.
          bindG (chain_height c0) (\<lambda>h0.
          bindG (if h0 < h then bindG (nth_at hc (i64 (h + 1 - h0))) (\<lambda>c. ret (Key c)) else ret zero32) (\<lambda>hash.
          bindG (attempt (handleBlockRequest K C \<lparr>MinId_req = i64 (h + 1), Hash_req = hash\<rparr> peer 5)) (\<lambda>_.
          ret req))))
      else if mh < h then
        bindG (if snd coins then bindG (attempt (sendHighest K C peer hs hc False)) (\<lambda>_. ret ()) else ret ()) (\<lambda>_.
        if req then bindG (request_next K peer hc mh) (\<lambda>_. ret False) else ret req)
      else ret req)"

fun sync_peers ::
  "'c cache_pkg \<Rightarrow> crypto \<Rightarrow> slice_ptr \<Rightarrow> SliceChain list \<Rightarrow> int \<Rightarrow> (nat \<Rightarrow> bool \<times> bool) \<Rightarrow> nat \<Rightarrow> (bytes \<times> item) list \<Rightarrow> bool
     \<Rightarrow> ('c ChainNode, unit) go" where
  "sync_peers K C hs hc mh coins i [] req = ret ()"
| "sync_peers K C hs hc mh coins i (kv # kvs) req =
     (case snd kv of
        ItHeight h \<Rightarrow>
          bindG (sync_peer K C hs hc mh (coins i) (int_of_u64 (le_word (fst kv))) h req) (\<lambda>req'.
          sync_peers K C hs hc mh coins (Suc i) kvs req')
      | _ \<Rightarrow> panic)"

text \<open>\<open>perm\<close> is the random order of the neighbours.\<close>

definition syncLoop_turn ::
  "'c cache_pkg \<Rightarrow> crypto \<Rightarrow> ((bytes \<times> item) list \<Rightarrow> (bytes \<times> item) list) \<Rightarrow> (nat \<Rightarrow> bool \<times> bool) \<Rightarrow> ('c ChainNode, unit) go" where
  "syncLoop_turn K C perm coins n =
     (let hs = HighestSlice (se n); hc = HighestChain (se n) in
      bindG (last_at hc) (\<lambda>c.
      bindG (chain_height c) (\<lambda>mh.
      bindG (getS (\<lambda>n. perm (cache_Items K (neighborHeight n)))) (\<lambda>kvs.
      sync_peers K C hs hc mh coins 0 kvs True))) n)"

section \<open>The interface for miners and wallets\<close>

text \<open>
  The transactions of the pool that execute one after the other on a fork of the highest slice. A missing
  consensus state is a nil pointer, which is only followed when there is a transaction.
\<close>

fun pick_txs ::
  "crypto \<Rightarrow> ExecutionCallback option \<Rightarrow> ChainGlobalConfig \<Rightarrow> int \<Rightarrow> u64 \<Rightarrow> AddressType \<Rightarrow> ConsensusState option \<Rightarrow> slice_ptr
     \<Rightarrow> (bytes \<times> item) list \<Rightarrow> (SliceHeap, Transaction list) go" where
  "pick_txs C cb g ht tm miner cs sl [] = ret []"
| "pick_txs C cb g ht tm miner cs sl (v # vs) =
     (case snd v of
        ItTx tx \<Rightarrow>
          bindG (ForkSlice sl) (\<lambda>sl2.
          case cs of
            None \<Rightarrow> panic
          | Some c \<Rightarrow>
              bindG (attempt (ExecuteTx C cb (exec_context g ht tm miner (Difficulty c)) tx sl2)) (\<lambda>r.
              if r = None then pick_txs C cb g ht tm miner cs sl vs
              else
                bindG (Merge sl2) (\<lambda>_.
                bindG (pick_txs C cb g ht tm miner cs sl vs) (\<lambda>txs. ret (tx # txs)))))
      | _ \<Rightarrow> panic)"

definition GetBlockCandidate :: "'c cache_pkg \<Rightarrow> crypto \<Rightarrow> u64 \<Rightarrow> AddressType \<Rightarrow> ('c ChainNode, Block) go" where
  "GetBlockCandidate K C now miner =
     bindG (getS (\<lambda>n. cache_Items K (txPool n))) (\<lambda>pool.
     bindG (\<lambda>n. on_slices (ForkSlice (HighestSlice (se n))) n) (\<lambda>sl.
     bindG (\<lambda>n. last_at (HighestChain (se n)) n) (\<lambda>ls.
     bindG (on_slices (Height sl)) (\<lambda>h.
     bindG (chain_height ls) (\<lambda>lh.
     bindG (attempt (getConsensusState K C lh (Key ls))) (\<lambda>cs.
     bindG (\<lambda>n. on_slices (pick_txs C (execCallback n) (gConfig n) h now miner cs sl pool) n) (\<lambda>txs.
     ret (FillHash C \<lparr>Header = \<lparr>Hash = zero32, ParentHash = Key ls, BodyHash = zero32, ExtraData = zero32\<rparr>,
                       Miner = miner, Time = now, Txs = txs\<rparr>))))))))"

definition SubmitBlock :: "'c cache_pkg \<Rightarrow> crypto \<Rightarrow> Block \<Rightarrow> ('c ChainNode, unit) go" where
  "SubmitBlock K C b =
     bindG (modifyS (\<lambda>n. n\<lparr>blockCache := cache_Set K (Hash (Header b)) (ItBlock b) (blockCache n),
                           unresolvedBlocks := cache_Set K (Hash (Header b)) (ItHeader (Header b)) (unresolvedBlocks n),
                           checkUnBlocks := checkUnBlocks n + 1\<rparr>)) (\<lambda>_.
     bindG (attempt (getConsensusState K C (-1) (ParentHash (Header b)))) (\<lambda>cs.
     bindG (liftR (Add (FullBlock b) True (NewPacketBlocks (case cs of None \<Rightarrow> -1 | Some c \<Rightarrow> i64 (Height_cs c + 1))))) (\<lambda>p.
     bindG (blocks_message p) (\<lambda>m.
     send (Broadcast m 7)))))"

definition GetHighest :: "'c cache_pkg \<Rightarrow> crypto \<Rightarrow> ('c ChainNode, Block \<times> ConsensusState) go" where
  "GetHighest K C =
     bindG (\<lambda>n. last_at (HighestChain (se n)) n) (\<lambda>uh.
     bindG (chain_height uh) (\<lambda>ht.
     bindG (getBlock K C ht (Key uh)) (\<lambda>b.
     bindG (chain_height uh) (\<lambda>ht.
     bindG (getConsensusState K C ht (Key uh)) (\<lambda>c.
     ret (b, c))))))"

definition Node_GetAccountInfo :: "AddressType \<Rightarrow> ('c ChainNode, AccountInfo) go" where
  "Node_GetAccountInfo a n = on_slices (GetAccountInfo (HighestSlice (se n)) a) n"

definition SubmitTx :: "'c cache_pkg \<Rightarrow> crypto \<Rightarrow> Transaction \<Rightarrow> ('c ChainNode, unit) go" where
  "SubmitTx K C tx = handleTransactions K C [tx]"

text \<open>The hash that the highest chain has at a height; the zero hash outside of it.\<close>

definition hash_at :: "int \<Rightarrow> ('c ChainNode, HashType) go" where
  "hash_at ht n0 =
     (let hc = HighestChain (se n0) in
      bindG (last_at hc) (\<lambda>cl.
      bindG (chain_height cl) (\<lambda>mh.
      bindG (nth_at hc 0) (\<lambda>c0.
      bindG (chain_height c0) (\<lambda>h0.
      if h0 \<le> ht \<and> ht \<le> mh then bindG (nth_at hc (i64 (ht - h0))) (\<lambda>c. ret (Key c)) else ret zero32)))) n0)"

definition Node_GetBlock :: "'c cache_pkg \<Rightarrow> crypto \<Rightarrow> int \<Rightarrow> ('c ChainNode, Block \<times> ConsensusState) go" where
  "Node_GetBlock K C ht =
     bindG (hash_at ht) (\<lambda>hash.
     bindG (getBlock K C ht hash) (\<lambda>b.
     bindG (getConsensusState K C ht hash) (\<lambda>c.
     ret (b, c))))"

definition GetStorageAt :: "AddressType \<Rightarrow> HashType \<Rightarrow> ('c ChainNode, DataType) go" where
  "GetStorageAt a pos n = on_slices (Read (HighestSlice (se n)) (storage_key a pos)) n"

definition GetContractElf :: "AddressType \<Rightarrow> ('c ChainNode, bytes) go" where
  "GetContractElf a n = on_slices (LoadContractCode (HighestSlice (se n)) a) n"

definition view_gasLimit :: u64 where "view_gasLimit = 100000000"

text \<open>Both run on a fork that is dropped. The miner they see is the address that starts with 1.\<close>

definition dry_run :: "'c cache_pkg \<Rightarrow> crypto \<Rightarrow> u64 \<Rightarrow> AddressType \<Rightarrow> (vm_info \<Rightarrow> slice_ptr \<Rightarrow> (SliceHeap, 'a) go) \<Rightarrow> ('c ChainNode, 'a) go" where
  "dry_run K C now org run =
     bindG (\<lambda>n. on_slices (ForkSlice (HighestSlice (se n))) n) (\<lambda>sl.
     bindG (\<lambda>n. last_at (HighestChain (se n)) n) (\<lambda>ls.
     bindG (on_slices (Height sl)) (\<lambda>h.
     bindG (chain_height ls) (\<lambda>lh.
     bindG (attempt (getConsensusState K C lh (Key ls))) (\<lambda>cs.
     case cs of
       None \<Rightarrow> panic
     | Some c \<Rightarrow> (\<lambda>n.
         on_slices (run \<lparr>ctx_of = exec_context (gConfig n) h now (1 # replicate 31 0) (Difficulty c),
                         callback_of = execCallback n, origin = org, tx_of = None, crypto_of = C\<rparr> sl) n))))))"

definition EstimateGas :: "'c cache_pkg \<Rightarrow> crypto \<Rightarrow> u64 \<Rightarrow> AddressType \<Rightarrow> bytes \<Rightarrow> ('c ChainNode, int \<times> error option) go" where
  "EstimateGas K C now org code =
     bindG (dry_run K C now org (\<lambda>info sl. ExecVmTxRawCode info view_gasLimit code sl)) (\<lambda>(rem, err).
     ret (int_of_u64 (view_gasLimit - rem), err))"

definition RunViewRawCode :: "'c cache_pkg \<Rightarrow> crypto \<Rightarrow> u64 \<Rightarrow> AddressType \<Rightarrow> bytes \<Rightarrow> ('c ChainNode, bytes) go" where
  "RunViewRawCode K C now org code = dry_run K C now org (\<lambda>info sl. ExecVmViewRawCode info view_gasLimit code sl)"

section \<open>Explorer queries\<close>

record ExplorerTransaction =
  From :: bytes
  To :: bytes
  TxHash :: string
  TxValue :: u64
  BlockId :: int
  TxTime :: int

definition explorer_tx :: "base58 \<Rightarrow> DataType \<Rightarrow> DataType \<Rightarrow> DataType \<Rightarrow> DataType \<Rightarrow> ExplorerTransaction" where
  "explorer_tx B f t h v =
     \<lparr>From = EncodeAddr B f, To = EncodeAddr B t, TxHash = hex_bytes h, TxValue = le_word (take 8 v),
      BlockId = int_of_u64 (le_word (sub_bytes 16 24 v)), TxTime = int_of_u64 (le_word (sub_bytes 8 16 v))\<rparr>"

text \<open>The four lists are indexed by the length of the first; a shorter one panics.\<close>

definition ExplorerGetAccountTransactions ::
  "base58 \<Rightarrow> AddressType \<Rightarrow> int \<Rightarrow> int \<Rightarrow> ('c ChainNode, ExplorerTransaction list \<times> int) go" where
  "ExplorerGetAccountTransactions B a l r n0 =
     (let s = HighestSlice (se n0) in
      bindG (on_slices (explorerReadListAddr s a 101 l r)) (\<lambda>(froms, n).
      bindG (on_slices (explorerReadListAddr s a 102 l r)) (\<lambda>(tos, _).
      bindG (on_slices (explorerReadListAddr s a 103 l r)) (\<lambda>(txh, _).
      bindG (on_slices (explorerReadListAddr s a 104 l r)) (\<lambda>(vs, _).
      if length tos < length froms \<or> length txh < length froms \<or> length vs < length froms then panic
      else ret (map (\<lambda>i. explorer_tx B (froms ! i) (tos ! i) (txh ! i) (vs ! i)) [0 ..< length froms], n))))) n0)"

definition ExplorerGetTransaction :: "'c cache_pkg \<Rightarrow> crypto \<Rightarrow> HashType \<Rightarrow> ('c ChainNode, Transaction \<times> int) go" where
  "ExplorerGetTransaction K C txh =
     bindG (\<lambda>n. on_slices (Read (HighestSlice (se n)) (hash_key txh 0)) n) (\<lambda>v.
     let ht = i64 (int_of_u64 (le_word (take 8 v)) - 1) in
     if ht < 0 then throw ErrTxNotFound
     else
       bindG (hash_at ht) (\<lambda>hash.
       bindG (getBlock K C ht hash) (\<lambda>b.
       case List.find (\<lambda>tx. Tx_Hash C tx = txh) (Txs b) of
         None \<Rightarrow> throw ErrTxNotFound
       | Some tx \<Rightarrow> ret (tx, ht))))"

definition ExplorerGetBlockByHash :: "'c cache_pkg \<Rightarrow> crypto \<Rightarrow> HashType \<Rightarrow> ('c ChainNode, Block \<times> ConsensusState) go" where
  "ExplorerGetBlockByHash K C hash =
     bindG (\<lambda>n. on_slices (Read (HighestSlice (se n)) (hash_key hash 1)) n) (\<lambda>v.
     let ht = i64 (int_of_u64 (le_word (take 8 v)) - 1) in
     if ht < 0 then throw ErrBlockNotFound
     else
       bindG (Node_GetBlock K C ht) (\<lambda>(b, cs).
       if Hash (Header b) \<noteq> hash then throw ErrBlockReorged else ret (b, cs)))"

section \<open>Starting the node\<close>

text \<open>
  \<open>net\<close> is what opening the network client returns. The checks of the genesis block come first, then the first
  slice, the consensus state and the storage engine.
\<close>

definition genesis_data :: "crypto \<Rightarrow> ExecutionCallback option \<Rightarrow> ChainGlobalConfig \<Rightarrow> (SliceHeap, slice_ptr \<times> bytes) go" where
  "genesis_data C cb g =
     (let b = GenesisBlock g; c = GenesisConsensusState g in
      if Header_ComputeHash C (Header b) \<noteq> Hash (Header b) then throw ErrGenesisHash
      else if Block_ComputeHash C b \<noteq> BodyHash (Header b) then throw ErrGenesisHash
      else
        bindG EmptySlice (\<lambda>sl.
        bindG (ExecuteBlock C cb (exec_context g 0 (Time b) (Miner b) (Difficulty c)) b (GenesisBlockReward g) sl) (\<lambda>_.
        case CheckAndUpdate b c of
          (False, _) \<Rightarrow> throw ErrConsensusRejected
        | (True, cs) \<Rightarrow> ret (sl, EncodeConsensus cs @ EncodeBlock b))))"

definition NewChainNode ::
  "'c cache_pkg \<Rightarrow> crypto \<Rightarrow> ((KeyType \<rightharpoonup> DataType) \<Rightarrow> (KeyType \<times> DataType) list)
     \<Rightarrow> (SliceHeap \<Rightarrow> (SliceKeyType \<times> slice_ptr) list \<Rightarrow> (SliceKeyType \<times> slice_ptr) list)
     \<Rightarrow> SliceKeyType list \<Rightarrow> ((SliceKeyType \<rightharpoonup> slice_ptr) \<Rightarrow> SliceKeyType list)
     \<Rightarrow> ChainNodeConfig \<Rightarrow> ChainGlobalConfig \<Rightarrow> ExecutionCallback option \<Rightarrow> unit res \<Rightarrow> StorageEngine \<Rightarrow> 'c ChainNode res" where
  "NewChainNode K C rng srt names ord cfg g cb net e0 =
     (case wrap_err ErrInitNode (
             bindG (on_eheap (genesis_data C cb g)) (\<lambda>(sl, dat).
             bindG (NewStorageEngine rng srt names ord sl (Hash (Header (GenesisBlock g))) dat) (\<lambda>_.
             liftR net))) e0 of
        (Ok _, e) \<Rightarrow>
          Ok \<lparr>se = e, unresolvedBlocks = cache_New K, blockCache = cache_New K, blockConsensusState = cache_New K,
              txPool = cache_New K, neighborHeight = cache_New K, possibleNext = cache_New K, config = cfg,
              gConfig = g, execCallback = cb, txChan = [], checkUnBlocks = 0, broadcastBlocks = 0, outbox = []\<rparr>
      | (Err x, _) \<Rightarrow> Err x | (Panic, _) \<Rightarrow> Panic | (Diverge, _) \<Rightarrow> Diverge)"

end
