(* ===== verification/Strconv.thy ===== *)
theory Strconv
  imports Error_Text
begin

text \<open>
  Numbers and hexadecimal text as the standard library parses them (\<^verbatim>\<open>strconv.Atoi\<close>, \<^verbatim>\<open>hex.DecodeString\<close>), used by the
  HTTP interface, the assembler and the wallet. The lemmas show that what was printed is parsed back.
\<close>

section \<open>Numbers and hexadecimal text\<close>

datatype parse_error = SyntaxError | RangeError | OddLength | InvalidByte u8

fun atoi_digits :: "nat \<Rightarrow> bytes \<Rightarrow> parse_error + nat" where
  "atoi_digits n [] = Inr n"
| "atoi_digits n (c # cs) =
     (if c < 48 \<or> 57 < c then Inl SyntaxError
      else if 2 ^ 64 \<le> n * 10 + (unat c - 48) then Inl RangeError
      else atoi_digits (n * 10 + (unat c - 48)) cs)"

definition Atoi :: "bytes \<Rightarrow> parse_error + int" where
  "Atoi s =
     (let neg = (s \<noteq> [] \<and> hd s = 45); ds = (if s \<noteq> [] \<and> (hd s = 45 \<or> hd s = 43) then tl s else s) in
      if ds = [] then Inl SyntaxError
      else case atoi_digits 0 ds of
          Inl e \<Rightarrow> Inl e
        | Inr n \<Rightarrow>
            if \<not> neg \<and> 2 ^ 63 \<le> n \<or> neg \<and> 2 ^ 63 < n then Inl RangeError
            else Inr (if neg then - int n else int n))"

definition hex_value :: "u8 \<Rightarrow> u8 option" where
  "hex_value c =
     (if 48 \<le> c \<and> c \<le> 57 then Some (c - 48)
      else if 97 \<le> c \<and> c \<le> 102 then Some (c - 87)
      else if 65 \<le> c \<and> c \<le> 70 then Some (c - 55)
      else None)"

fun hex_decode :: "bytes \<Rightarrow> parse_error + bytes" where
  "hex_decode [] = Inr []"
| "hex_decode [c] = Inl (if hex_value c = None then InvalidByte c else OddLength)"
| "hex_decode (a # b # cs) =
     (case hex_value a of
        None \<Rightarrow> Inl (InvalidByte a)
      | Some x \<Rightarrow>
          (case hex_value b of
             None \<Rightarrow> Inl (InvalidByte b)
           | Some y \<Rightarrow>
               (case hex_decode cs of Inl e \<Rightarrow> Inl e | Inr bs \<Rightarrow> Inr ((16 * x + y) # bs))))"

section \<open>What is printed is parsed back\<close>

lemma of_char_char_of: "n < 256 \<Longrightarrow> (of_char (char_of n) :: u8) = of_nat n"
  using of_nat_of_char [of "char_of n", where 'a = u8] by (simp add: of_char_of)

lemma unat_char: "n < 256 \<Longrightarrow> unat (of_char (char_of n) :: u8) = n"
  by (simp add: of_char_char_of unat_of_nat)

lemma hex_value_digit:
  assumes "d < 16"
  shows "hex_value (of_char (hex_digit d)) = Some (of_nat d)"
proof (cases "d < 10")
  case True
  then have "unat (of_char (hex_digit d) :: u8) = 48 + d" and "(of_char (hex_digit d) :: u8) = 48 + of_nat d"
    by (simp add: hex_digit_def unat_char, simp add: hex_digit_def of_char_char_of)
  with True show ?thesis by (simp add: hex_value_def word_le_nat_alt)
next
  case False
  then have "unat (of_char (hex_digit d) :: u8) = 87 + d" and "(of_char (hex_digit d) :: u8) = 87 + of_nat d"
    using assms by (simp add: hex_digit_def unat_char, simp add: hex_digit_def of_char_char_of)
  with False assms show ?thesis by (simp add: hex_value_def word_le_nat_alt)
qed

lemma hex_decode_hex_bytes: "hex_decode (string_bytes (hex_bytes bs)) = Inr bs"
proof (induction bs)
  case (Cons b bs)
  have "16 * (of_nat (unat b div 16) :: u8) + of_nat (unat b mod 16) = of_nat (16 * (unat b div 16) + unat b mod 16)"
    by (simp only: of_nat_add of_nat_mult of_nat_numeral)
  also have "\<dots> = b" by simp
  finally have "16 * (of_nat (unat b div 16) :: u8) + of_nat (unat b mod 16) = b" .
  moreover have "unat b < 2 ^ LENGTH(8)" by (rule unsigned_less)
  then have "unat b div 16 < 16" by simp
  ultimately show ?case
    using Cons.IH by (simp add: hex_bytes_def string_bytes_def hex_value_digit)
qed (simp add: hex_bytes_def string_bytes_def)

lemma atoi_digits_append:
  "atoi_digits n (xs @ ys) = (case atoi_digits n xs of Inl e \<Rightarrow> Inl e | Inr m \<Rightarrow> atoi_digits m ys)"
  by (induction xs arbitrary: n) auto

lemma atoi_digits_dec: "n < 2 ^ 64 \<Longrightarrow> atoi_digits 0 (string_bytes (dec_digits n)) = Inr n"
proof (induction n rule: less_induct)
  case (less n)
  have "n mod 10 < 10" by simp
  then have u: "unat (of_char (char_of (48 + n mod 10)) :: u8) = 48 + n mod 10"
    by (intro unat_char) linarith
  show ?case
  proof (cases "n < 10")
    case True
    with u show ?thesis
      by (subst dec_digits.simps) (simp add: string_bytes_def word_less_nat_alt)
  next
    case False
    with less have "atoi_digits 0 (string_bytes (dec_digits (n div 10))) = Inr (n div 10)" by simp
    with False u less.prems show ?thesis
      by (subst dec_digits.simps) (simp add: string_bytes_def atoi_digits_append word_less_nat_alt)
  qed
qed

lemma dec_digits_nonempty [simp]: "dec_digits n \<noteq> []"
  by (subst dec_digits.simps) simp

lemma set_dec_digits: "c \<in> set (dec_digits n) \<Longrightarrow> \<exists>d::nat. d < 10 \<and> c = char_of (48 + d)"
proof (induction n rule: less_induct)
  case (less n)
  have "c = char_of (48 + n mod 10) \<or> (\<not> n < 10 \<and> c \<in> set (dec_digits (n div 10)))"
    using less.prems by (subst (asm) dec_digits.simps) (auto split: if_splits)
  moreover have "n mod 10 < 10" by simp
  ultimately show ?case using less.IH [of "n div 10"] by fastforce
qed

lemma dec_digits_char: "c \<in> set (dec_digits n) \<Longrightarrow> (48 :: nat) \<le> of_char c \<and> of_char c \<le> (57 :: nat)"
  by (drule set_dec_digits) (auto simp: of_char_of)

lemma Atoi_dec: "n < 2 ^ 63 \<Longrightarrow> Atoi (string_bytes (dec_digits n)) = Inr (int n)"
proof -
  assume n: "n < 2 ^ 63"
  obtain c cs where d: "dec_digits n = c # cs" by (cases "dec_digits n") auto
  obtain k :: nat where k: "k < 10" "c = char_of (48 + k)" using set_dec_digits [of c n] d by auto
  then have "unat (of_char c :: u8) = 48 + k" by (simp add: unat_char)
  then have "(of_char c :: u8) \<noteq> 45" "(of_char c :: u8) \<noteq> 43" by auto
  moreover have "string_bytes (dec_digits n) = of_char c # string_bytes cs" by (simp add: d string_bytes_def)
  moreover have "atoi_digits 0 (string_bytes (dec_digits n)) = Inr n" by (rule atoi_digits_dec) (use n in simp)
  ultimately show ?thesis using n by (simp add: Atoi_def)
qed

lemma Atoi_dec_int:
  assumes "- (2 ^ 63) \<le> i" "i < 2 ^ 63"
  shows "Atoi (string_bytes (dec_int i)) = Inr i"
proof (cases "i < 0")
  case True
  have "atoi_digits 0 (string_bytes (dec_digits (nat (- i)))) = Inr (nat (- i))" by (rule atoi_digits_dec) (use assms in simp)
  moreover have "string_bytes (dec_int i) = 45 # string_bytes (dec_digits (nat (- i)))" using True by (simp add: dec_int_def string_bytes_def)
  moreover have "string_bytes (dec_digits (nat (- i))) \<noteq> []" by (simp add: string_bytes_def)
  ultimately show ?thesis using True assms by (simp add: Atoi_def)
next
  case False
  then show ?thesis using assms Atoi_dec [of "nat i"] by (simp add: dec_int_def)
qed

end
