(* ===== verification/Corerpc.thy ===== *)
theory Corerpc
  imports Chain Strconv
begin

text \<open>
  The HTTP interface of the node, \<^verbatim>\<open>utils/corerpc/corerpc.go\<close>. A request is its route with the parameters that
  the web framework has taken from the path and the body (absent ones are empty), and the response is the one
  object that the handler hands to \<^verbatim>\<open>c.JSON\<close>.
\<close>

section \<open>Requests and responses\<close>

datatype request =
    ReqBlockCandidate bytes
  | ReqSubmitBlock bytes
  | ReqHighest
  | ReqAccountInfo bytes bytes
  | ReqSubmitTx bytes
  | ReqBlock bytes
  | ReqStorageAt bytes bytes
  | ReqContractElf bytes
  | ReqEstimateGas bytes bytes
  | ReqRunView bytes bytes
  | ReqAccountTransactions bytes bytes
  | ReqTransaction bytes
  | ReqBlockByHash bytes

text \<open>A failure has a message: the text of an error, or one of the texts of the handlers.\<close>

datatype failure = ErrorText error | ParseText parse_error | Text string

datatype response =
    Failed failure
  | Submitted
  | CandidateReply bytes string
  | BlockReply bytes bytes int
  | AccountReply AccountInfo
  | StorageReply string
  | ElfReply "bytes option" "error option"
  | GasReply int "error option"
  | ViewReply "bytes option" "error option"
  | TransactionsReply "ExplorerTransaction list" int
  | TxReply bytes int

section \<open>Handlers\<close>

text \<open>\<open>answer m f\<close> is \<open>f\<close> on the result of \<open>m\<close>; an error of \<open>m\<close> is the response.\<close>

definition answer :: "('s, 'a) go \<Rightarrow> ('a \<Rightarrow> ('s, response) go) \<Rightarrow> ('s, response) go" where
  "answer m f s =
     (case m s of
        (Ok x, t) \<Rightarrow> f x t
      | (Err e, t) \<Rightarrow> (Ok (Failed (ErrorText e)), t)
      | (Panic, t) \<Rightarrow> (Panic, t)
      | (Diverge, t) \<Rightarrow> (Diverge, t))"

text \<open>An error that is reported beside the result, which is nil then.\<close>

definition result_or_error :: "('s, 'a) go \<Rightarrow> ('s, 'a option \<times> error option) go" where
  "result_or_error m s =
     (case m s of
        (Ok x, t) \<Rightarrow> (Ok (Some x, None), t)
      | (Err e, t) \<Rightarrow> (Ok (None, Some e), t)
      | (Panic, t) \<Rightarrow> (Panic, t)
      | (Diverge, t) \<Rightarrow> (Diverge, t))"

definition rpc_getBlockCandidate :: "'c cache_pkg \<Rightarrow> crypto \<Rightarrow> base58 \<Rightarrow> u64 \<Rightarrow> bytes \<Rightarrow> ('c ChainNode, response) go" where
  "rpc_getBlockCandidate K C B now a =
     answer (liftR (ParseAddr B a)) (\<lambda>addr.
     answer (GetHighest K C) (\<lambda>(_, cs).
     bindG (GetBlockCandidate K C now addr) (\<lambda>b.
     ret (CandidateReply (EncodeBlock b) (hex_bytes (Difficulty cs))))))"

definition rpc_submitBlock :: "'c cache_pkg \<Rightarrow> crypto \<Rightarrow> bytes \<Rightarrow> ('c ChainNode, response) go" where
  "rpc_submitBlock K C body =
     answer (liftR (fst (DecodeBlock C body))) (\<lambda>b.
     answer (SubmitBlock K C b) (\<lambda>_.
     ret Submitted))"

definition block_reply :: "Block \<Rightarrow> ConsensusState \<Rightarrow> ('s, response) go" where
  "block_reply b cs = ret (BlockReply (EncodeBlock b) (EncodeConsensus cs) (Height_cs cs))"

definition rpc_getHighest :: "'c cache_pkg \<Rightarrow> crypto \<Rightarrow> ('c ChainNode, response) go" where
  "rpc_getHighest K C = answer (GetHighest K C) (\<lambda>(b, cs). block_reply b cs)"

definition rpc_getAccountInfo :: "base58 \<Rightarrow> bytes \<Rightarrow> bytes \<Rightarrow> ('c ChainNode, response) go" where
  "rpc_getAccountInfo B param body =
     answer (liftR (ParseAddr B (if param = [] then body else param))) (\<lambda>addr.
     bindG (Node_GetAccountInfo addr) (\<lambda>ai.
     ret (AccountReply ai)))"

definition rpc_submitTx :: "'c cache_pkg \<Rightarrow> crypto \<Rightarrow> bytes \<Rightarrow> ('c ChainNode, response) go" where
  "rpc_submitTx K C body =
     answer (liftR (fst (DecodeTx body))) (\<lambda>tx.
     answer (SubmitTx K C tx) (\<lambda>_.
     ret Submitted))"

definition rpc_getBlock :: "'c cache_pkg \<Rightarrow> crypto \<Rightarrow> bytes \<Rightarrow> ('c ChainNode, response) go" where
  "rpc_getBlock K C blockid =
     (case Atoi blockid of
        Inl e \<Rightarrow> ret (Failed (ParseText e))
      | Inr i \<Rightarrow> answer (Node_GetBlock K C i) (\<lambda>(b, cs). block_reply b cs))"

text \<open>A parameter that is a hash: hexadecimal text of 32 bytes.\<close>

definition with_hash :: "string \<Rightarrow> bytes \<Rightarrow> (HashType \<Rightarrow> ('s, response) go) \<Rightarrow> ('s, response) go" where
  "with_hash msg txt f =
     (case hex_decode txt of
        Inl e \<Rightarrow> ret (Failed (ParseText e))
      | Inr h \<Rightarrow> if length h \<noteq> HashLen then ret (Failed (Text msg)) else f h)"

definition rpc_getStorageAt :: "base58 \<Rightarrow> bytes \<Rightarrow> bytes \<Rightarrow> ('c ChainNode, response) go" where
  "rpc_getStorageAt B a pos =
     answer (liftR (ParseAddr B a)) (\<lambda>addr.
     with_hash ''pos length invalid'' pos (\<lambda>p.
     bindG (GetStorageAt addr p) (\<lambda>v.
     ret (StorageReply (hex_bytes v)))))"

definition rpc_getContractElf :: "base58 \<Rightarrow> bytes \<Rightarrow> ('c ChainNode, response) go" where
  "rpc_getContractElf B a =
     answer (liftR (ParseAddr B a)) (\<lambda>addr.
     bindG (result_or_error (GetContractElf addr)) (\<lambda>(elf, err).
     ret (ElfReply elf err)))"

definition rpc_estimateGas :: "'c cache_pkg \<Rightarrow> crypto \<Rightarrow> base58 \<Rightarrow> u64 \<Rightarrow> bytes \<Rightarrow> bytes \<Rightarrow> ('c ChainNode, response) go" where
  "rpc_estimateGas K C B now org code =
     answer (liftR (ParseAddr B org)) (\<lambda>addr.
     if code = [] then ret (Failed (Text ''invalid code''))
     else bindG (EstimateGas K C now addr code) (\<lambda>(g, err). ret (GasReply g err)))"

definition rpc_runViewRawCode :: "'c cache_pkg \<Rightarrow> crypto \<Rightarrow> base58 \<Rightarrow> u64 \<Rightarrow> bytes \<Rightarrow> bytes \<Rightarrow> ('c ChainNode, response) go" where
  "rpc_runViewRawCode K C B now org code =
     answer (liftR (ParseAddr B org)) (\<lambda>addr.
     if code = [] then ret (Failed (Text ''invalid code''))
     else bindG (result_or_error (RunViewRawCode K C now addr code)) (\<lambda>(d, err). ret (ViewReply d err)))"

definition rpc_explorerGetAccountTransactions :: "base58 \<Rightarrow> bytes \<Rightarrow> bytes \<Rightarrow> ('c ChainNode, response) go" where
  "rpc_explorerGetAccountTransactions B a pagetxt =
     (case Atoi pagetxt of
        Inl e \<Rightarrow> ret (Failed (ParseText e))
      | Inr page \<Rightarrow>
          if page \<le> 0 \<or> 10000000 < page then ret (Failed (Text ''page too large''))
          else
            answer (liftR (ParseAddr B a)) (\<lambda>addr.
            bindG (ExplorerGetAccountTransactions B addr (page * 100 - 99) (page * 100)) (\<lambda>(txs, n).
            ret (TransactionsReply txs n))))"

definition rpc_explorerGetTransaction :: "'c cache_pkg \<Rightarrow> crypto \<Rightarrow> bytes \<Rightarrow> ('c ChainNode, response) go" where
  "rpc_explorerGetTransaction K C txh =
     with_hash ''hash length invalid'' txh (\<lambda>h.
     answer (ExplorerGetTransaction K C h) (\<lambda>(tx, ht).
     ret (TxReply (EncodeTx tx) ht)))"

definition rpc_explorerGetBlockByHash :: "'c cache_pkg \<Rightarrow> crypto \<Rightarrow> bytes \<Rightarrow> ('c ChainNode, response) go" where
  "rpc_explorerGetBlockByHash K C hash =
     with_hash ''hash length invalid'' hash (\<lambda>h.
     answer (ExplorerGetBlockByHash K C h) (\<lambda>(b, cs). block_reply b cs))"

text \<open>The routes; \<open>now\<close> is the time that a handler sees.\<close>

fun serve :: "'c cache_pkg \<Rightarrow> crypto \<Rightarrow> base58 \<Rightarrow> u64 \<Rightarrow> request \<Rightarrow> ('c ChainNode, response) go" where
  "serve K C B now (ReqBlockCandidate a) = rpc_getBlockCandidate K C B now a"
| "serve K C B now (ReqSubmitBlock body) = rpc_submitBlock K C body"
| "serve K C B now ReqHighest = rpc_getHighest K C"
| "serve K C B now (ReqAccountInfo param body) = rpc_getAccountInfo B param body"
| "serve K C B now (ReqSubmitTx body) = rpc_submitTx K C body"
| "serve K C B now (ReqBlock blockid) = rpc_getBlock K C blockid"
| "serve K C B now (ReqStorageAt a pos) = rpc_getStorageAt B a pos"
| "serve K C B now (ReqContractElf a) = rpc_getContractElf B a"
| "serve K C B now (ReqEstimateGas org code) = rpc_estimateGas K C B now org code"
| "serve K C B now (ReqRunView org code) = rpc_runViewRawCode K C B now org code"
| "serve K C B now (ReqAccountTransactions a page) = rpc_explorerGetAccountTransactions B a page"
| "serve K C B now (ReqTransaction txh) = rpc_explorerGetTransaction K C txh"
| "serve K C B now (ReqBlockByHash hash) = rpc_explorerGetBlockByHash K C hash"

end
