(* ===== verification/Chain_Run.thy ===== *)
theory Chain_Run
  imports Chain_Safety Corerpc "HOL-Library.AList"
begin

text \<open>
  Runs of the chain node. The first part shows of the remaining operations (the check of unresolved blocks,
  the loops, the interface for miners and wallets and the explorer's queries) that they keep the invariants
  of theory \<open>Chain_Safety\<close>; the second part puts all operations together as the steps of a node and states the
  properties of its runs.
\<close>

section \<open>The check of unresolved blocks\<close>

interpretation marking: guarded_steps "\<lambda>s. wf_caches K C (mnode s)" "\<lambda>s t. advances K C (mnode s) (mnode t)" for K C
  by unfold_locales (auto intro: nodes.mv_refl nodes.mv_trans nodes.mv_ok)

abbreviation marks :: "'c cache_pkg \<Rightarrow> crypto \<Rightarrow> ('c mark_state, 'a) go \<Rightarrow> bool" where
  "marks K C \<equiv> goes (\<lambda>s. wf_caches K C (mnode s)) (\<lambda>s t. advances K C (mnode s) (mnode t))"

lemma marks_on_node: "advancing K C m \<Longrightarrow> marks K C (on_node m)"
  by (rule goesI) (auto simp: on_node_def split: prod.splits dest: goesD)

lemma marks_modifyS: "(\<And>s. mnode (f s) = mnode s) \<Longrightarrow> marks K C (modifyS f)"
  by (rule marking.goes_modifyS) (simp add: nodes.mv_refl)

text \<open>Hashes are 32 bytes long all the way down, since every header that is followed is a decoded one.\<close>

lemma marks_mark:
  assumes K: "cache_laws K" and ti: "\<And>k v. ti k = Some v \<Longrightarrow> is_header C k v"
  shows "length k = HashLen \<Longrightarrow> marks K C (mark K C rng busy now ti r k)"
proof (induction r arbitrary: k)
  case (Suc r)
  note rules = marking.goes_bindG marking.goes_if marking.goes_basic marks_on_node marks_modifyS
  have "marks K C (case ti k of None \<Rightarrow> modifyS (\<lambda>s. s\<lparr>ask := ask s @ [k]\<rparr>)
     | Some (ItHeader bh) \<Rightarrow> bindG (mark K C rng busy now ti r (ParentHash bh)) (\<lambda>_.
         bindG (on_node (resolve K C rng (busy k) now k (ParentHash bh))) (\<lambda>added.
         modifyS (\<lambda>s. s\<lparr>any_added := (any_added s \<or> added)\<rparr>)))
     | Some _ \<Rightarrow> panic)"
  proof (cases "ti k")
    case (Some v)
    then obtain bh where bh: "v = ItHeader bh" "valid_header C bh" using ti by (auto simp: is_header_def)
    then have "length (ParentHash bh) = HashLen" by (simp add: valid_header_def wf_header_def)
    from Suc.IH [OF this] show ?thesis
      unfolding Some bh(1) option.case item.case by (intro rules adv_resolve K Suc.prems) simp_all
  qed (simp add: marks_modifyS)
  then show ?case
    unfolding mark.simps by (intro rules adv_drop K) simp_all
qed (simp add: marking.goes_basic)

lemma marks_mark_all:
  assumes K: "cache_laws K" and ti: "\<And>k v. ti k = Some v \<Longrightarrow> is_header C k v"
  shows "\<forall>k \<in> set ks. length k = HashLen \<Longrightarrow> marks K C (mark_all K C rng busy now ti r ks)"
  by (induction ks) (auto intro!: marking.goes_bindG marking.goes_basic marks_mark K ti)

lemma adv_ask_all [node_intro]: "advancing K C (ask_all ks)"
  by (induction ks) (auto simp: ask_for_def intro!: node_intro)

lemma adv_checkUnresolvedBlocks:
  assumes K: "cache_laws K"
  shows "advancing K C (checkUnresolvedBlocks_turn K C rng busy now)"
proof (rule goesI)
  fix n r t assume n: "wf_caches K C n" and run: "checkUnresolvedBlocks_turn K C rng busy now n = (r, t)"
  let ?items = "cache_Items K (unresolvedBlocks n)"
  let ?s = "\<lparr>mnode = n, vis = {}, ask = [], any_added = False\<rparr>"
  have hd: "is_header C k v" if "(k, v) \<in> set ?items" for k v
    using n holds_ops(5) [OF K] that by (auto simp: wf_caches_def)
  then have "\<forall>k \<in> set (map fst ?items). length k = HashLen"
    by (fastforce simp: is_header_def valid_header_def wf_header_def)
  moreover have "is_header C k v" if "map_of ?items k = Some v" for k v
    using hd map_of_SomeD [OF that] .
  ultimately have m: "marks K C (mark_all K C rng busy now (map_of ?items) (nat (StorageFinalizeDepth (config n) + 4)) (map fst ?items))"
    by (intro marks_mark_all K)
  obtain r1 s1 where 1: "mark_all K C rng busy now (map_of ?items) (nat (StorageFinalizeDepth (config n) + 4)) (map fst ?items) ?s = (r1, s1)"
    by fastforce
  have a1: "advances K C n (mnode s1)" using goesD [OF m _ 1] n by simp
  have tail: "advancing K C (bindG (if any_added s1 then modifyS (\<lambda>n. n\<lparr>broadcastBlocks := broadcastBlocks n + 1\<rparr>) else ret ()) (\<lambda>_.
          ask_all (ask s1)))"
    by (intro node_intro adv_modifyS) (simp_all add: wf_caches_cong)
  show "advances K C n t"
  proof (cases r1)
    case (Ok u)
    with run 1 goesD [OF tail nodes.mv_ok [OF n a1]] show ?thesis
      unfolding checkUnresolvedBlocks_turn_def Let_def by (auto intro: nodes.mv_trans [OF a1])
  qed (use run 1 a1 in \<open>auto simp: checkUnresolvedBlocks_turn_def Let_def\<close>)
qed

section \<open>The loops\<close>

lemma adv_broadcastTxs: "advancing K C broadcastTxsLoop_turn"
  unfolding broadcastTxsLoop_turn_def Let_def by (intro node_intro adv_modifyS) (simp_all add: wf_caches_cong)

lemma adv_request_next [node_intro]: "advancing K C (request_next K peer hc mh)"
  unfolding request_next_def by (intro node_intro adv_item)

lemma adv_sync_peer [node_intro]: "cache_laws K \<Longrightarrow> advancing K C (sync_peer K C hs hc mh coins peer h req)"
  unfolding sync_peer_def by (intro node_intro)

lemma adv_sync_peers [node_intro]: "cache_laws K \<Longrightarrow> advancing K C (sync_peers K C hs hc mh coins i kvs req)"
  by (induction kvs arbitrary: i req) (auto intro!: node_intro adv_item)

lemma adv_syncLoop: "cache_laws K \<Longrightarrow> advancing K C (syncLoop_turn K C perm coins)"
  unfolding syncLoop_turn_def Let_def by (rule nodes.goes_self) (intro node_intro)

lemma adv_SubmitBlock:
  assumes K: "cache_laws K" and "valid_block C b"
  shows "advancing K C (SubmitBlock K C b)"
  unfolding SubmitBlock_def
  by (intro node_intro adv_modifyS K)
     (use assms(2) in \<open>auto simp: wf_caches_def item_kinds valid_block_def intro!: holds_ops(2) [OF K]\<close>)

lemma adv_SubmitTx: "cache_laws K \<Longrightarrow> advancing K C (SubmitTx K C tx)"
  unfolding SubmitTx_def by (rule adv_handleTransactions)

section \<open>Queries\<close>

lemma adv_GetHighest: "cache_laws K \<Longrightarrow> advancing K C (GetHighest K C)"
  unfolding GetHighest_def by (intro node_intro)

lemma adv_hash_at [node_intro]: "advancing K C (hash_at ht)"
  unfolding hash_at_def Let_def by (rule nodes.goes_self) (intro node_intro)

lemma adv_Node_GetBlock [node_intro]: "cache_laws K \<Longrightarrow> advancing K C (Node_GetBlock K C ht)"
  unfolding Node_GetBlock_def by (intro node_intro)

text \<open>Operations that only look at the slices.\<close>

interpretation looks: guarded_steps "\<lambda>_. True" "(=)"
  by unfold_locales auto

abbreviation only_looks :: "('s, 'a) go \<Rightarrow> bool" where
  "only_looks \<equiv> goes (\<lambda>_. True) (=)"

lemma adv_only_looks: "only_looks m \<Longrightarrow> advancing K C (on_slices m)"
  by (rule adv_look) (simp add: goes_def)

lemma looks_Read: "only_looks (Read p k)"
  by (simp add: goes_def Read_def split: option.splits)

lemma looks_GetAccountInfo: "only_looks (GetAccountInfo p a)"
  unfolding GetAccountInfo_def by (intro looks.goes_rules looks_Read)

lemma looks_explorerReadListAddr: "only_looks (explorerReadListAddr s a i l r)"
proof -
  have "only_looks (read_down s k j n)" for k j n
    by (induction n arbitrary: j) (auto intro!: looks.goes_rules looks_Read)
  then show ?thesis
    unfolding explorerReadListAddr_def explorerReadList_def Let_def by (intro looks.goes_rules looks_Read)
qed

interpretation same_heap: guarded_steps "\<lambda>_. True" "\<lambda>x y. heap x = heap y"
  by unfold_locales auto

lemma loadContractCode_same_heap: "goes (\<lambda>_. True) (\<lambda>x y. heap x = heap y) (loadContractCode call a)"
proof -
  have b: "only_looks (read_blocks s a i n)" for s i n
    by (induction n arbitrary: i) (auto intro!: looks.goes_rules looks_Read)
  have h: "goes (\<lambda>_. True) (\<lambda>x y. heap x = heap y) (on_heap m)" if "only_looks m" for m :: "(SliceHeap, bytes) go"
    by (rule goesI) (use that in \<open>auto simp: goes_def on_heap_def split: prod.splits\<close>, metis snd_conv)
  have g: "goes (\<lambda>_. True) (\<lambda>x y. heap x = heap y) (charge_gas c)" for c
    by (rule goesI) (auto simp: charge_gas_def bindG_def getS_def modifyS_def throw_def split: if_splits)
  show ?thesis
    unfolding loadContractCode_def Let_def
    by (intro same_heap.goes_rules same_heap.goes_modifyS g h b looks_Read) simp
qed

lemma looks_LoadContractCode: "only_looks (LoadContractCode s a)"
proof (rule goesI)
  fix h r h'
  let ?call = "\<lparr>call_s = s, call_pc = 0, call_prog = 0, callValue = 0, call_args = [], caller = 0, callType = CallExternal\<rparr>"
  assume run: "LoadContractCode s a h = (r, h')"
  obtain x t where 1: "loadContractCode ?call a (newVmCtx 1000000000 h) = (x, t)" by fastforce
  from goesD [OF loadContractCode_same_heap TrueI 1] run 1 show "h = h'"
    by (simp add: LoadContractCode_def newVmCtx_def)
qed

lemma adv_GetContractElf: "advancing K C (GetContractElf a)"
  unfolding GetContractElf_def by (rule nodes.goes_self) (rule adv_only_looks, rule looks_LoadContractCode)

lemma adv_Read [node_intro]: "advancing K C (\<lambda>n. on_slices (Read (p n) k) n)"
  by (rule nodes.goes_self) (rule adv_only_looks, rule looks_Read)

lemma adv_Node_GetAccountInfo: "advancing K C (Node_GetAccountInfo a)"
  unfolding Node_GetAccountInfo_def by (rule nodes.goes_self) (rule adv_only_looks, rule looks_GetAccountInfo)

lemma adv_GetStorageAt: "advancing K C (GetStorageAt a pos)"
  unfolding GetStorageAt_def by (rule adv_Read)

lemma adv_ExplorerGetAccountTransactions: "advancing K C (ExplorerGetAccountTransactions B a l r)"
  unfolding ExplorerGetAccountTransactions_def Let_def
  by (rule nodes.goes_self) (intro node_intro adv_only_looks looks_explorerReadListAddr)

lemma adv_ExplorerGetTransaction: "cache_laws K \<Longrightarrow> advancing K C (ExplorerGetTransaction K C txh)"
  unfolding ExplorerGetTransaction_def Let_def by (intro node_intro)

lemma adv_ExplorerGetBlockByHash: "cache_laws K \<Longrightarrow> advancing K C (ExplorerGetBlockByHash K C hash)"
  unfolding ExplorerGetBlockByHash_def Let_def by (intro node_intro)

section \<open>Work on a fork of the highest slice\<close>

text \<open>
  Such work starts by forking the highest slice and then writes the fork alone; the fork is dropped or its
  transactions are collected, but it is never added.
\<close>

definition fork_work :: "slice_ptr \<Rightarrow> StorageEngine \<Rightarrow> StorageEngine \<Rightarrow> bool" where
  "fork_work sl e e' \<longleftrightarrow> (\<exists>h. e' = e\<lparr>eheap := h\<rparr> \<and> frame (eheap e) sl h)"

lemma fork_work_refl: "writable (eheap e) sl \<Longrightarrow> fork_work sl e e"
  unfolding fork_work_def by (rule exI [of _ "eheap e"]) (simp add: slice_kv.frm_refl)

lemma fork_work_writable: "fork_work sl e e' \<Longrightarrow> writable (eheap e) sl \<Longrightarrow> writable (eheap e') sl"
  by (auto simp: fork_work_def dest: frame_writable)

lemma fork_work_trans: "writable (eheap e) sl \<Longrightarrow> fork_work sl e e1 \<Longrightarrow> fork_work sl e1 e2 \<Longrightarrow> fork_work sl e e2"
  by (auto simp: fork_work_def) (metis slice_kv.frm_trans)

definition on_fork :: "'c cache_pkg \<Rightarrow> crypto \<Rightarrow> slice_ptr \<Rightarrow> 'c ChainNode \<Rightarrow> 'c ChainNode \<Rightarrow> bool" where
  "on_fork K C sl n t \<longleftrightarrow> wf_caches K C t \<and> execCallback t = execCallback n \<and>
     (safe_callback (execCallback n) \<longrightarrow> writable (eheap (se n)) sl \<longrightarrow> fork_work sl (se n) (se t))"

interpretation forks: guarded_steps "wf_caches K C" "on_fork K C sl" for K C sl
proof unfold_locales
  show "on_fork K C sl s u" if "on_fork K C sl s t" "on_fork K C sl t u" for s t u
    using that fork_work_trans [of "se s" sl "se t" "se u"] fork_work_writable [of sl "se s" "se t"] by (simp add: on_fork_def)
qed (simp_all add: on_fork_def fork_work_refl)

abbreviation forking :: "'c cache_pkg \<Rightarrow> crypto \<Rightarrow> slice_ptr \<Rightarrow> ('c ChainNode, 'a) go \<Rightarrow> bool" where
  "forking K C sl \<equiv> goes (wf_caches K C) (on_fork K C sl)"

text \<open>Reading blocks fills caches and nothing else.\<close>

lemma forking_caches:
  assumes "advancing K C m" and "\<And>n r t. m n = (r, t) \<Longrightarrow> se t = se n \<and> execCallback t = execCallback n"
  shows "forking K C sl m"
proof (rule goesI)
  fix n r t assume n: "wf_caches K C n" and run: "m n = (r, t)"
  have "wf_caches K C t" using goesD [OF assms(1) n run] by (simp add: advances_def)
  with assms(2) [OF run] forks.mv_refl [of K C n sl] n show "on_fork K C sl n t" by (simp add: on_fork_def)
qed

interpretation only_caches: guarded_steps "\<lambda>_. True" "\<lambda>n t. se t = se n \<and> execCallback t = execCallback n \<and> gConfig t = gConfig n"
  by unfold_locales auto

lemma getConsensusState_se: "goes (\<lambda>_. True) (\<lambda>n t. se t = se n \<and> execCallback t = execCallback n \<and> gConfig t = gConfig n) (getConsensusState K C ht k)"
proof -
  have "goes (\<lambda>_. True) (\<lambda>n t. se t = se n \<and> execCallback t = execCallback n \<and> gConfig t = gConfig n) (loadBlock K C ht k)"
    unfolding loadBlock_def Let_def
    by (intro only_caches.goes_rules only_caches.goes_modifyS only_caches.goes_const) simp_all
  then show ?thesis
    unfolding getConsensusState_def by (intro only_caches.goes_rules) (auto split: item.splits intro!: only_caches.goes_rules)
qed

lemma forking_look: "only_looks m \<Longrightarrow> forking K C sl m"
  by (rule forks.goes_const) (simp add: goes_def)

lemma looks_Height: "only_looks (on_slices (Height p))"
  by (simp add: goes_def on_slices_same [OF Height_same])

lemma looks_chain_height: "only_looks (chain_height c)"
  unfolding chain_height_def by (intro looks.goes_option looks.goes_basic looks_Height)

lemma adv_forked:
  assumes rest: "\<And>sl. forking K C sl (rest sl)"
  shows "advancing K C (bindG (\<lambda>n. on_slices (ForkSlice (HighestSlice (se n))) n) rest)"
proof (rule goesI)
  fix n r t assume n: "wf_caches K C n" and run: "bindG (\<lambda>n. on_slices (ForkSlice (HighestSlice (se n))) n) rest n = (r, t)"
  obtain r1 h1 where fk: "ForkSlice (HighestSlice (se n)) (eheap (se n)) = (r1, h1)" by fastforce
  let ?n1 = "n\<lparr>se := (se n)\<lparr>eheap := h1\<rparr>\<rparr>"
  have n1: "on_slices (ForkSlice (HighestSlice (se n))) n = (r1, ?n1)" using fk by (simp add: on_slices_def on_se_def on_eheap_def)
  have w1: "wf_caches K C ?n1" using n by (simp add: wf_caches_cong)
  show "advances K C n t"
  proof (cases r1)
    case (Ok sl)
    then have run1: "rest sl ?n1 = (r, t)" using run n1 by (simp add: bindG_def)
    have f: "on_fork K C sl ?n1 t" using goesD [OF rest w1 run1] .
    have work: "\<exists>h. se t = (se n)\<lparr>eheap := h\<rparr> \<and> wf_heap h \<and> next_ref (eheap (se n)) \<le> next_ref h \<and>
        (\<forall>p < next_ref (eheap (se n)). slices h p = slices (eheap (se n)) p)" if "steady n"
    proof -
      have wf: "wf_heap (eheap (se n))" and cb: "safe_callback (execCallback n)" using that by (simp_all add: steady_def)
      note f1 = ForkSlice_frame [OF wf fk]
      have "fork_work sl (se ?n1) (se t)" using f cb f1(2) [OF Ok] by (simp add: on_fork_def)
      then obtain h where "se t = (se n)\<lparr>eheap := h\<rparr>" "frame h1 sl h" by (auto simp: fork_work_def)
      with f1(1) show ?thesis by (intro exI [of _ h]) (auto simp: frame_def)
    qed
    have cb: "execCallback t = execCallback n" using f by (simp add: on_fork_def)
    have "moves n t" if s: "sound n"
    proof -
      obtain h where h: "se t = (se n)\<lparr>eheap := h\<rparr>" "wf_heap h" "\<forall>p < next_ref (eheap (se n)). slices h p = slices (eheap (se n)) p"
        using work [OF sound_steady [OF s]] by blast
      have "tree_kept (se n) h" using s h by (intro old_slices_kept) (simp_all add: sound_def)
      from moves_slices [OF s this] show ?thesis
        using moves_se [of "n\<lparr>se := (se n)\<lparr>eheap := h\<rparr>\<rparr>" t] h(1) cb moves_trans by (simp add: moves_def sound_def)
    qed
    moreover have "grown n t" if "steady n" using work [OF that] cb that by (auto simp: grown_def steady_def)
    ultimately show ?thesis using f by (simp add: advances_def on_fork_def)
  qed (use run n1 goesD [OF adv_ForkSlice n n1] in \<open>auto simp: bindG_def\<close>)
qed

lemma pick_txs_frame:
  assumes cb: "safe_callback cb" and "writable h sl" and "pick_txs C cb g ht tm miner cs sl vs h = (r, h')"
  shows "frame h sl h'"
  using assms(2,3)
proof (induction vs arbitrary: h r)
  case Nil
  then show ?case by (auto simp: ret_run intro: slice_kv.frm_refl)
next
  case (Cons v vs)
  obtain q h1 where f: "ForkSlice sl h = (Ok q, h1)" "forked h sl h1 q" "writable h1 q"
    using slice_fork.fk_run [OF Cons.prems(1)] by blast
  show ?case
  proof (cases "\<exists>tx c. snd v = ItTx tx \<and> cs = Some c")
    case True
    then obtain tx c where tx: "snd v = ItTx tx" "cs = Some c" by blast
    obtain r2 h2 where x: "ExecuteTx C cb (exec_context g ht tm miner (Difficulty c)) tx q h1 = (r2, h2)" by fastforce
    have fd: "forked h sl h2 q" using slice_fork.fkd_frm [OF f(2)] ExecuteTx_frame(1) [OF cb f(3) x] .
    have fr2: "frame h sl h2" using slice_fork.fkd_frame [OF fd] by blast
    obtain h3 where m: "Merge q h2 = (Ok (), h3)" "frame h sl h3" using slice_fork.mrg_run [OF fd] by blast
    have IH: "frame h sl h'" if "frame h sl g'" "pick_txs C cb g ht tm miner cs sl vs g' = (r', h')" for g' r'
      using Cons.IH [OF frame_writable [OF that(1) Cons.prems(1)] that(2)] slice_kv.frm_trans [OF Cons.prems(1) that(1)] by blast
    obtain r4 h4 where 4: "pick_txs C cb g ht tm miner cs sl vs h3 = (r4, h4)" by fastforce
    from Cons.prems(2) tx f(1) x m(1) 4 fr2 IH [OF fr2] IH [OF m(2)] show ?thesis
      by (cases r2; cases r4) (auto simp: bindG_def attempt_def ret_def)
  next
    case False
    have "frame h sl h1" using slice_fork.fkd_frame [OF f(2)] by blast
    with False Cons.prems f(1) show ?thesis
      by (cases "snd v"; cases cs) (auto simp: bindG_def panic_def intro: slice_kv.frm_refl)
  qed
qed

lemma forking_slices:
  assumes "\<And>n r h. safe_callback (execCallback n) \<Longrightarrow> writable (eheap (se n)) sl \<Longrightarrow> m n (eheap (se n)) = (r, h) \<Longrightarrow>
    frame (eheap (se n)) sl h"
  shows "forking K C sl (\<lambda>n. on_slices (m n) n)"
proof (rule goesI)
  fix n r t assume n: "wf_caches K C n" and run: "on_slices (m n) n = (r, t)"
  obtain r1 h where 1: "m n (eheap (se n)) = (r1, h)" by fastforce
  then have t: "t = n\<lparr>se := (se n)\<lparr>eheap := h\<rparr>\<rparr>" using run by (simp add: on_slices_def on_se_def on_eheap_def)
  show "on_fork K C sl n t"
    using n assms [OF _ _ 1] unfolding t on_fork_def fork_work_def by (auto simp: wf_caches_cong)
qed

lemma forking_getConsensusState: "cache_laws K \<Longrightarrow> forking K C sl (getConsensusState K C ht k)"
  by (rule forking_caches [OF adv_getConsensusState], assumption) (use goesD [OF getConsensusState_se TrueI] in blast)

lemma looks_last_at: "only_looks (\<lambda>n. last_at (l n) n)"
  by (rule looks.goes_self) (simp add: last_at_def nth_at_def looks.goes_basic)

lemmas forking_intro = forks.goes_rules forking_getConsensusState
  forking_look [OF looks_last_at] forking_look [OF looks_Height] forking_look [OF looks_chain_height]

lemma adv_GetBlockCandidate: "cache_laws K \<Longrightarrow> advancing K C (GetBlockCandidate K C now miner)"
  unfolding GetBlockCandidate_def
  by (rule nodes.goes_bindG, rule nodes.goes_basic)
     (intro adv_forked forking_intro forking_slices, (assumption | rule pick_txs_frame)+)

lemma read_result_runs: "good m p Q (read_result a)"
  unfolding read_result_def Let_def by (intro runs_intro runs_on_mem ReadBytes_lowers)

lemma heap_runs_ExecVmViewRawCode:
  assumes "safe_callback (callback_of info)"
  shows "heap_runs q (\<lambda>_. True) (ExecVmViewRawCode info gasLimit code q)"
  unfolding heap_runs_def
proof (intro allI impI)
  fix h assume w: "writable h q \<and> True"
  let ?m = "bindG (run_raw info (unat gasLimit + 1) code q CallView) read_result"
  obtain r t where run: "?m (newVmCtx gasLimit h) = (r, t)" by fastforce
  have "good (unat gasLimit + 1) q (\<lambda>_. True) ?m"
    by (rule runs_bindG) (rule run_raw_runs [OF assms], rule read_result_runs)
  from goodD [OF this run] w run show "kept q h (snd (ExecVmViewRawCode info gasLimit code q h))
      \<and> fst (ExecVmViewRawCode info gasLimit code q h) \<noteq> Diverge"
    by (simp add: ExecVmViewRawCode_def newVmCtx_def)
qed

lemma adv_dry_run:
  assumes K: "cache_laws K"
    and run: "\<And>info sl. safe_callback (callback_of info) \<Longrightarrow> heap_runs sl (\<lambda>_. True) (run info sl)"
  shows "advancing K C (dry_run K C now org run)"
proof -
  have "forking K C sl (\<lambda>n. on_slices (run \<lparr>ctx_of = exec_context (gConfig n) h now (1 # replicate 31 0) (Difficulty c),
       callback_of = execCallback n, origin = org, tx_of = None, crypto_of = C\<rparr> sl) n)" for sl h c
    by (rule forking_slices) (metis heap_runsD(1) [OF run] kept_def vm_info.select_convs(2))
  then show ?thesis
    unfolding dry_run_def by (intro adv_forked forking_intro K)
qed

lemma adv_EstimateGas: "cache_laws K \<Longrightarrow> advancing K C (EstimateGas K C now org code)"
  unfolding EstimateGas_def by (intro node_intro adv_dry_run heap_runs_ExecVmTxRawCode)

lemma adv_RunViewRawCode: "cache_laws K \<Longrightarrow> advancing K C (RunViewRawCode K C now org code)"
  unfolding RunViewRawCode_def by (intro adv_dry_run heap_runs_ExecVmViewRawCode)

section \<open>Requests\<close>

lemma answer_liftR:
  "answer (liftR v) f = (case v of Ok x \<Rightarrow> f x | Err e \<Rightarrow> ret (Failed (ErrorText e)) | Panic \<Rightarrow> panic | Diverge \<Rightarrow> diverge)"
  by (rule ext) (auto simp: answer_def liftR_run ret_run panic_run diverge_run split: res.splits)

lemma adv_result_or_error [node_intro]: "advancing K C m \<Longrightarrow> advancing K C (result_or_error m)"
  by (erule nodes.goes_outcome) (auto simp: result_or_error_def split: prod.splits res.splits)

lemma adv_answer [node_intro]:
  assumes "advancing K C m" and "\<And>x. advancing K C (f x)"
  shows "advancing K C (answer m f)"
proof -
  have "answer m f = bindG (result_or_error m) (\<lambda>(x, e). case e of None \<Rightarrow> f (the x) | Some e \<Rightarrow> ret (Failed (ErrorText e)))"
    by (rule ext) (auto simp: answer_def result_or_error_def bindG_def ret_run split: prod.splits res.splits)
  then show ?thesis using assms by (auto intro!: node_intro)
qed

lemma adv_with_hash [node_intro]: "(\<And>h. advancing K C (f h)) \<Longrightarrow> advancing K C (with_hash msg txt f)"
  by (auto simp: with_hash_def split: sum.splits intro!: node_intro)

lemma adv_block_reply [node_intro]: "advancing K C (block_reply b cs)"
  unfolding block_reply_def by (intro node_intro)

lemma adv_submitBlock: "cache_laws K \<Longrightarrow> advancing K C (rpc_submitBlock K C body)"
  unfolding rpc_submitBlock_def answer_liftR
  by (cases "DecodeBlock C body") (auto split: res.splits intro!: node_intro adv_SubmitBlock dest: DecodeBlock_valid)

lemmas rpc_defs = rpc_getBlockCandidate_def rpc_getHighest_def rpc_getAccountInfo_def rpc_submitTx_def rpc_getBlock_def
  rpc_getStorageAt_def rpc_getContractElf_def rpc_estimateGas_def rpc_runViewRawCode_def
  rpc_explorerGetAccountTransactions_def rpc_explorerGetTransaction_def rpc_explorerGetBlockByHash_def

lemmas adv_queries = adv_GetBlockCandidate adv_GetHighest adv_Node_GetAccountInfo adv_SubmitTx adv_Node_GetBlock
  adv_GetStorageAt adv_GetContractElf adv_EstimateGas adv_RunViewRawCode adv_ExplorerGetAccountTransactions
  adv_ExplorerGetTransaction adv_ExplorerGetBlockByHash

lemma adv_serve: "cache_laws K \<Longrightarrow> advancing K C (serve K C B now req)"
  by (cases req) (auto simp: rpc_defs adv_submitBlock split: sum.splits intro!: node_intro adv_queries)

section \<open>Storing\<close>

lemma grows_storeRoot: "grows (storeRoot rng)"
proof -
  have w: "grows (modifyS (\<lambda>e. e\<lparr>fDataPos := x e, fData := y e\<rparr>))" for x y
    by (rule grows_same) (simp add: modifyS_run)
  have e: "grows (store_entries es i)" for es i
    by (induction es i rule: store_entries.induct) (auto intro!: growing.goes_rules w)
  have q: "grows store_queue"
  proof (rule goesI)
    fix e r t assume wf: "wf_heap (eheap e)" and run: "store_queue e = (r, t)"
    have "grows (bindG (slice_of (root e)) (\<lambda>rs. \<lambda>e. store_entries (queue_entries rs e) i e))" for i
      by (rule growing.goes_bindG, rule grows_slice_of) (rule growing.goes_self, rule e)
    note go = goesD [OF this wf]
    show "heap_grows e t"
    proof (cases "rq e = [] \<or> int (wpos (fDataPos e)) \<noteq> (r_height (hd (rq e)) + 1) * int SliceDataPosLen")
      case True
      with run have "t = e" by (cases "rq e") (auto simp: store_queue_def)
      with wf show ?thesis by (simp add: heap_grows_def)
    next
      case False
      define i where "i = r_height (hd (rq e)) + 1"
      from False run have "bindG (slice_of (root e)) (\<lambda>rs. \<lambda>e. store_entries (queue_entries rs e) i e) e = (r, t)"
        by (cases "rq e") (simp_all add: store_queue_def i_def)
      then show ?thesis by (rule go)
    qed
  qed
  have "eheap (snd (rewinding m e)) = eheap (snd (m e))" for m :: "(StorageEngine, unit) go" and e
    by (cases "m e"; cases "fst (m e)") (auto simp: rewinding_def)
  then have rw: "grows (rewinding m)" if "grows m" for m :: "(StorageEngine, unit) go"
    using that by (simp add: goes_def heap_grows_def)
  have "snd (dump_slice rng p h) = h" for p h by (simp add: dump_slice_def bindG_def deref_def getS_def split: option.splits)
  then have d: "grows (on_eheap (dump_slice rng p))" for p by (intro grows_same on_eheap_same)
  show ?thesis
    unfolding storeRoot_def by (intro rw growing.goes_rules q d grows_same) (simp add: modifyS_run)
qed

lemma turn_grows: "StoreFinalizedSlices_turn rng busy ev lastRoot e = (r, t) \<Longrightarrow> wf_heap (eheap e) \<Longrightarrow> heap_grows e t"
  using goesD [OF grows_storeRoot]
  by (auto simp: StoreFinalizedSlices_turn_def heap_grows_def split: store_event.splits if_splits prod.splits res.splits)

lemma turn_low:
  assumes "StoreFinalizedSlices_turn rng busy ev lastRoot e = (r, t)" and "wf_hist e hs" and "low e"
  shows "low t"
proof -
  obtain e' where "storeRoot rng e = (Ok (), e')" "eheap e' = eheap e" "ss e' = ss e"
    using storeRoot_run [OF assms(2), of rng] by metis
  with assms(1,3) show ?thesis
    by (auto simp: StoreFinalizedSlices_turn_def low_def split: store_event.splits if_splits)
qed

lemma adv_store: "advancing K C (on_se (StoreFinalizedSlices_turn rng busy ev lastRoot))"
proof (rule goesI)
  fix n r t assume n: "wf_caches K C n" and run: "on_se (StoreFinalizedSlices_turn rng busy ev lastRoot) n = (r, t)"
  obtain e where e: "StoreFinalizedSlices_turn rng busy ev lastRoot (se n) = (r, e)" and t: "t = n\<lparr>se := e\<rparr>"
    using run by (auto simp: on_se_def split: prod.splits)
  have "moves n t" if s: "sound n"
  proof -
    obtain hs where h: "wf_engine (se n)" "wf_hist (se n) hs" "low (se n)" "safe_callback (execCallback n)"
      using s by (auto simp: sound_def)
    from turn_hist [OF e h(1,2)] turn_low [OF e h(2,3)] h(4) engine_step.step_turn [OF e] show ?thesis
      unfolding t moves_def sound_def by auto
  qed
  moreover have "grown n t" if "steady n"
    using turn_grows [OF e] that by (auto simp: t grown_def steady_def heap_grows_def)
  ultimately show "advances K C n t" using n by (simp add: advances_def t wf_caches_cong)
qed

section \<open>Runs\<close>

text \<open>
  A step of a node: a packet comes in, a request is served, one of the loops takes a turn, or the storage
  engine's loop does. The outcome of the step may be an error or a panic; the state is what is left then.
\<close>

inductive node_step :: "'c cache_pkg \<Rightarrow> crypto \<Rightarrow> base58 \<Rightarrow> 'c ChainNode \<Rightarrow> 'c ChainNode \<Rightarrow> bool" for K C B where
  ns_packet: "readLoop_turn K C peer msg n = (r, n') \<Longrightarrow> node_step K C B n n'"
| ns_request: "serve K C B now req n = (r, n') \<Longrightarrow> node_step K C B n n'"
| ns_check: "checkUnresolvedBlocks_turn K C rng busy tm n = (r, n') \<Longrightarrow> node_step K C B n n'"
| ns_highest: "sendMyHighest_turn K C n = (r, n') \<Longrightarrow> node_step K C B n n'"
| ns_sync: "syncLoop_turn K C perm coins n = (r, n') \<Longrightarrow> node_step K C B n n'"
| ns_relay: "broadcastTxsLoop_turn n = (r, n') \<Longrightarrow> node_step K C B n n'"
| ns_store: "on_se (StoreFinalizedSlices_turn rng busy ev lastRoot) n = (r, n') \<Longrightarrow> node_step K C B n n'"

inductive_cases node_stepE: "node_step K C B n n'"

lemma node_step_advances:
  assumes K: "cache_laws K" and n: "wf_caches K C n" and st: "node_step K C B n n'"
  shows "advances K C n n'"
  using st
proof (cases rule: node_step.cases)
  case (ns_packet peer msg r)
  then show ?thesis by (rule goesD [OF adv_readLoop [OF K] n])
next
  case (ns_request now req r)
  then show ?thesis by (rule goesD [OF adv_serve [OF K] n])
next
  case (ns_check rng busy tm r)
  then show ?thesis by (rule goesD [OF adv_checkUnresolvedBlocks [OF K] n])
next
  case (ns_highest r)
  then show ?thesis by (rule goesD [OF adv_sendMyHighest [OF K] n])
next
  case (ns_sync perm coins r)
  then show ?thesis by (rule goesD [OF adv_syncLoop [OF K] n])
next
  case (ns_relay r)
  then show ?thesis by (rule goesD [OF adv_broadcastTxs n])
next
  case (ns_store rng busy ev lastRoot r)
  then show ?thesis by (rule goesD [OF adv_store n])
qed

lemma node_run_advances:
  assumes K: "cache_laws K" and n: "wf_caches K C n" and run: "(node_step K C B)\<^sup>*\<^sup>* n n'"
  shows "advances K C n n'"
  using run
proof (induction rule: rtranclp_induct)
  case base
  from n show ?case by (rule nodes.mv_refl)
next
  case (step m k)
  then show ?case using node_step_advances [OF K nodes.mv_ok [OF n step.IH]] nodes.mv_trans by blast
qed

section \<open>Properties\<close>

lemma new_node_caches: "cache_laws K \<Longrightarrow> NewChainNode K C rng srt names ord cfg g cb net e0 = Ok n \<Longrightarrow> wf_caches K C n"
  by (auto simp: NewChainNode_def wf_caches_def holds_ops(1) split: prod.splits res.splits)

lemma getBlock_assertion:
  assumes "wf_caches K C n" and "getBlock K C ht k n = (Panic, t)"
  shows "cache_Get K k (blockCache n) = None"
proof (cases "cache_Get K k (blockCache n)")
  case (Some v)
  then have "is_block C k v" using assms(1) unfolding wf_caches_def holds_def by blast
  then obtain b where "v = ItBlock b" by (auto simp: is_block_def)
  with Some assms(2) show ?thesis by (simp add: getBlock_def bindG_def getS_def ret_def)
qed

text \<open>
  C12: the items of the caches have the types that the code asserts. In a new node and after any sequence of
  packets, requests and turns of the loops, whatever the other nodes send, every cached header and block is
  filed under its own hash and that hash is the hash of its contents, and the other caches hold consensus
  states, transactions under their hashes, heights and hashes. So a type assertion on a cached item never
  panics; for \<^verbatim>\<open>getBlock\<close>, a panic can only come from reading a block that is not cached.
\<close>

theorem node_types:
  assumes "cache_laws K"
  shows "(NewChainNode K C rng srt names ord cfg g cb net e0 = Ok n0 \<longrightarrow> wf_caches K C n0)
    \<and> (wf_caches K C n \<longrightarrow> (node_step K C B)\<^sup>*\<^sup>* n n' \<longrightarrow> wf_caches K C n'
         \<and> (getBlock K C ht k n' = (Panic, t) \<longrightarrow> cache_Get K k (blockCache n') = None))"
proof (intro conjI impI)
  show "wf_caches K C n0" if "NewChainNode K C rng srt names ord cfg g cb net e0 = Ok n0"
    using new_node_caches [OF assms that] .
  assume "wf_caches K C n" and "(node_step K C B)\<^sup>*\<^sup>* n n'"
  from node_run_advances [OF assms this] show w: "wf_caches K C n'" by (simp add: advances_def)
  show "cache_Get K k (blockCache n') = None" if "getBlock K C ht k n' = (Panic, t)"
    using getBlock_assertion [OF w that] .
qed

text \<open>A cache that never forgets, as a list, and a node with empty caches on a small storage engine.\<close>

definition list_cache :: "(bytes \<times> item) list cache_pkg" where
  "list_cache = \<lparr>cache_New = [], cache_Get = (\<lambda>k c. map_of c k), cache_Set = (\<lambda>k v c. AList.update k v c),
     cache_Delete = (\<lambda>k c. AList.delete k c),
     cache_Add = (\<lambda>k v c. if map_of c k = None then (True, AList.update k v c) else (False, c)),
     cache_Items = (\<lambda>c. AList.clearjunk c)\<rparr>"

lemma list_cache_ops:
  "cache_New list_cache = []" "cache_Get list_cache k c = map_of c k"
  "map_of (cache_Set list_cache j v c) k = (if k = j then Some v else map_of c k)"
  "map_of (cache_Delete list_cache j c) k = (if k = j then None else map_of c k)"
  "map_of (snd (cache_Add list_cache j v c)) k = (if map_of c j = None \<and> k = j then Some v else map_of c k)"
  "cache_Items list_cache c = AList.clearjunk c"
  by (simp_all add: list_cache_def update_conv' AList.delete_conv')

lemma list_cache_laws: "cache_laws list_cache"
proof -
  have "map_of c k = Some v" if "(k, v) \<in> set (AList.clearjunk c)" for c and k :: bytes and v :: item
    using map_of_is_SomeI [OF distinct_clearjunk that] by (simp add: map_of_clearjunk)
  then show ?thesis unfolding cache_laws_def list_cache_ops by simp
qed

definition demo_node :: "(bytes \<times> item) list ChainNode" where
  "demo_node = \<lparr>se = demo_store, unresolvedBlocks = [], blockCache = [], blockConsensusState = [], txPool = [],
     neighborHeight = [], possibleNext = [], config = \<lparr>StorageFinalizeDepth = 3, MaxConnections = 8\<rparr>,
     gConfig = \<lparr>ChainId = 1, GenesisBlock = demo_block, GenesisConsensusState = demo_cs, GenesisBlockReward = 0, BlockReward = 10,
        Tip1EnableHeight = 0\<rparr>,
     execCallback = None, txChan = [], checkUnBlocks = 0, broadcastBlocks = 0, outbox = []\<rparr>"

lemma demo_node_caches: "wf_caches list_cache C demo_node"
  by (simp add: wf_caches_def demo_node_def holds_def list_cache_def)

lemma demo_node_sound: "sound demo_node"
proof -
  have "low demo_store" by (auto simp: low_def demo_store_fields demo_slice_def split: if_splits)
  then show ?thesis using wf_demo_store hist_demo_store by (auto simp: sound_def demo_node_def)
qed

lemma demo_submit:
  "serve list_cache open_crypto B 0 (ReqSubmitTx (EncodeTx demo_tx)) demo_node
    = (Ok Submitted, demo_node\<lparr>txPool := [(Tx_Hash open_crypto demo_tx, ItTx demo_tx)], txChan := [Some demo_tx, None]\<rparr>)"
proof -
  have "DecodeTx (EncodeTx demo_tx) = (Ok demo_tx, [])"
    using DecodeTx_EncodeTx_append [OF canon_demo_tx, of "[]"] by simp
  then show ?thesis
    by (simp add: rpc_submitTx_def answer_liftR SubmitTx_def handleTransactions_def answer_def modifyS_run ret_run
        list_cache_def demo_node_def)
qed

theorem node_types_witness:
  "\<exists>n'. node_step list_cache open_crypto plain_base58 demo_node n' \<and> wf_caches list_cache open_crypto n' \<and> txPool n' \<noteq> []"
proof -
  let ?n = "demo_node\<lparr>txPool := [(Tx_Hash open_crypto demo_tx, ItTx demo_tx)], txChan := [Some demo_tx, None]\<rparr>"
  have st: "node_step list_cache open_crypto plain_base58 demo_node ?n" by (rule ns_request [OF demo_submit])
  then have "(node_step list_cache open_crypto plain_base58)\<^sup>*\<^sup>* demo_node ?n" by blast
  then have "wf_caches list_cache open_crypto ?n"
    using node_types [OF list_cache_laws, of open_crypto _ _ _ _ _ _ _ _ _ _ demo_node plain_base58 ?n] demo_node_caches by blast
  with st show ?thesis by (intro exI [of _ ?n]) simp
qed

text \<open>
  C2: the history of finalized blocks survives everything the node does. Take a node whose storage engine is
  well formed and has the history \<open>hs\<close>, and any run of it: packets of other nodes, requests, blocks that are
  executed and added, turns of the loops and of the storage engine's loop. Unless \<open>2 ^ 62\<close> slices have been
  made by then, the engine is well formed again, and the data of every height of \<open>hs\<close> is read back as it was, as
  long as the tree has no other slice with that key.
\<close>

theorem node_history:
  assumes K: "cache_laws K" and n: "wf_caches K C n" and s: "sound n" and h: "wf_hist (se n) hs"
    and run: "(node_step K C B)\<^sup>*\<^sup>* n n'" and "\<not> full n'"
    and i: "i < length hs" "hs ! i = (k, d)" "length (data_file hs) < 2 ^ 63"
    and k: "slice_data (se n') k = None \<or> slice_data (se n') k = Some d"
  shows "sound n' \<and> ReadData (int i) k (se n') = Ok d"
proof -
  have m: "moves n n'" using node_run_advances [OF K n run] s \<open>\<not> full n'\<close> by (simp add: advances_def)
  have wf: "wf_engine (se n)" using s by (simp add: sound_def)
  from m have "engine_step\<^sup>*\<^sup>* (se n) (se n')" by (simp add: moves_def)
  from history_read [OF wf h this i k] m show ?thesis by (simp add: moves_def)
qed

theorem node_history_witness:
  "\<exists>n'. node_step list_cache open_crypto plain_base58 demo_node n' \<and> txPool n' \<noteq> [] \<and> ReadData 0 demo_key (se n') = Ok [5]"
proof -
  let ?n = "demo_node\<lparr>txPool := [(Tx_Hash open_crypto demo_tx, ItTx demo_tx)], txChan := [Some demo_tx, None]\<rparr>"
  have st: "node_step list_cache open_crypto plain_base58 demo_node ?n" by (rule ns_request [OF demo_submit])
  then have run: "(node_step list_cache open_crypto plain_base58)\<^sup>*\<^sup>* demo_node ?n" by blast
  have "\<not> full ?n" by (simp add: full_def demo_node_def demo_store_def new_engine_def)
  moreover have "wf_hist (se demo_node) [(demo_key, [5])]" using hist_demo_store by (simp add: demo_node_def)
  moreover have "slice_data (se ?n) demo_key = Some [5]" by (simp add: demo_node_def demo_store_fields)
  ultimately have "ReadData (int 0) demo_key (se ?n) = Ok [5]"
    using node_history [OF list_cache_laws demo_node_caches demo_node_sound _ run, of "[(demo_key, [5])]" 0 demo_key "[5]"]
    by simp
  with st show ?thesis by (intro exI [of _ ?n]) simp
qed

end
