(* ===== verification/Chain_Blocks.thy ===== *)
theory Chain_Blocks
  imports Chain_Run
begin

text \<open>
  How a block gets into the chain: which blocks \<^verbatim>\<open>checkUnresolvedBlocks\<close> accepts and what that changes, and that a
  block that one node asks another for arrives.
\<close>

section \<open>Adding a slice\<close>

lemma AddFreezedSlice_adds:
  assumes wf: "wf_engine e" and h: "wf_hist e hs" and b: "built_on e p f" and k: "k \<notin> dom (ss e)" "length k = SliceKeyLen"
    and run: "AddFreezedSlice rng busy p k f d e = (r, e')"
  shows "ss e' k = Some p" and "slice_data e' k = Some d" and "ss e' \<subseteq>\<^sub>m (ss e)(k \<mapsto> p)"
    and "ss e' j = Some q \<Longrightarrow> slice_view (eheap e') q = slice_view (eheap e) q"
proof -
  obtain s hs' where s: "slices (eheap e) p = Some s" and hi: "slices (eheap e) (HighestSlice e) = Some hs'"
    using b wf_slicesD(2) [OF wf_engineD(2) [OF wf]] by (auto simp: built_on_def)
  have k': "ss e k = None" using k(1) by blast
  obtain e1 e2 q ch where
    e1: "e1 = filed k (DumpFile (height s) (rng (maps (eheap e) (st s)))) (f @ d) (added k p f d e)"
    and fin: "finalizing\<^sup>*\<^sup>* e1 e2" and u: "unchanged e1 e2" and k2: "ss e2 k = Some p"
    and run2: "AddFreezedSlice rng busy p k f d e = (Ok (), e2\<lparr>HighestSlice := q, HighestChain := ch\<rparr>)"
    by (rule AddFreezedSlice_run [OF wf b k' s hi, of rng d busy]) blast
  have e': "e' = e2\<lparr>HighestSlice := q, HighestChain := ch\<rparr>" using run run2 by simp
  have f1: "ss e1 = (ss e)(k \<mapsto> p)" "slice_data e1 k = Some d" "eheap e1 = eheap e"
    by (simp_all add: e1 filed_def added_def)
  show "ss e' k = Some p" using k2 by (simp add: e')
  show "ss e' \<subseteq>\<^sub>m (ss e)(k \<mapsto> p)" using u f1(1) by (simp add: e' unchanged_def)
  show "slice_view (eheap e') q = slice_view (eheap e) q" if "ss e' j = Some q" for q
    using u that f1(3) by (simp add: e' unchanged_def)
  have "engine_step e e'" by (rule engine_step.step_add [OF b k run])
  then obtain hs2 where "wf_hist e' (hs @ hs2)" using engine_step_hist [OF _ wf h] by blast
  then have "k \<in> dom (slice_data e')" using wf_histD(6) k2 e' by fastforce
  with finalizing_data [OF fin] f1(2) show "slice_data e' k = Some d"
    by (auto simp: e' map_le_def)
qed

section \<open>Accepting a block\<close>

text \<open>The cases of \<open>resolve\<close>, with the outcome of each look-up given.\<close>

lemma resolve_cases:
  assumes g: "getConsensusState K C 0 f n = (r1, n1)"
  shows "resolve K C rng busy now k f n =
    (case cache_Get K k (blockCache n) of
       None \<Rightarrow> (Ok False, n)
     | Some (ItBlock b) \<Rightarrow>
         if too_early now b then (Ok False, n\<lparr>unresolvedBlocks := cache_Delete K k (unresolvedBlocks n)\<rparr>)
         else (case r1 of
             Ok oldCs \<Rightarrow> (case CheckAndUpdate b oldCs of (False, _) \<Rightarrow> (Ok False, n1)
                           | (True, cs) \<Rightarrow> add_block K C rng busy k f b oldCs cs n1)
           | Err e \<Rightarrow> (Ok False, n1) | Panic \<Rightarrow> (Panic, n1) | Diverge \<Rightarrow> (Diverge, n1))
     | Some _ \<Rightarrow> (Panic, n))"
  using g
  by (cases r1)
     (simp_all add: resolve_def bindG_def getS_run ret_run panic_run drop_unresolved_def modifyS_run attempt_def
       split: option.split item.split prod.split bool.split)

lemma resolve_accepts:
  assumes run: "resolve K C rng busy now k f n = (Ok True, n')"
  obtains b oldCs cs n1 where "cache_Get K k (blockCache n) = Some (ItBlock b)" and "\<not> too_early now b"
    and "getConsensusState K C 0 f n = (Ok oldCs, n1)" and "CheckAndUpdate b oldCs = (True, cs)"
    and "add_block K C rng busy k f b oldCs cs n1 = (Ok True, n')"
proof -
  obtain r1 n1 where g: "getConsensusState K C 0 f n = (r1, n1)" by fastforce
  from run obtain b where b: "cache_Get K k (blockCache n) = Some (ItBlock b)" "\<not> too_early now b"
    unfolding resolve_cases [OF g] by (auto split: option.splits item.splits if_splits)
  with run obtain oldCs where o: "r1 = Ok oldCs" unfolding resolve_cases [OF g] by (auto split: res.splits)
  with run b obtain cs where "CheckAndUpdate b oldCs = (True, cs)" "add_block K C rng busy k f b oldCs cs n1 = (Ok True, n')"
    unfolding resolve_cases [OF g] by (auto split: prod.splits bool.splits)
  with that b g o show thesis by blast
qed

lemma resolve_rejects:
  assumes run: "resolve K C rng busy now k f n = (r, n')"
  shows "se n' = se n \<or> (\<exists>b oldCs cs n1. getConsensusState K C 0 f n = (Ok oldCs, n1) \<and> add_block K C rng busy k f b oldCs cs n1 = (r, n'))"
proof -
  obtain r1 n1 where g: "getConsensusState K C 0 f n = (r1, n1)" by fastforce
  have "se n1 = se n" using goesD [OF getConsensusState_se TrueI g] by simp
  with run g show ?thesis
    unfolding resolve_cases [OF g]
    by (auto split: option.splits item.splits if_splits prod.splits res.splits bool.splits)
qed

lemma add_block_adds:
  assumes s: "sound n" "\<not> full n" and k: "k \<notin> dom (ss (se n))" "length k = HashLen"
    and run: "add_block K C rng busy k f b oldCs cs n = (Ok True, t)"
  obtains p q h1 h2 where "ss (se n) f = Some p" and "ForkSlice p (eheap (se n)) = (Ok q, h1)"
    and "ExecuteBlock C (execCallback n) (exec_context (gConfig n) (Height_cs cs) (Time b) (Miner b) (Difficulty oldCs)) b
             (BlockReward (gConfig n)) q h1 = (Ok (), h2)"
    and "ss (se t) k = Some q" and "slice_view (eheap (se t)) q = slice_view h2 q"
    and "slice_data (se t) k = Some (EncodeConsensus cs @ EncodeBlock b)" and "ss (se t) \<subseteq>\<^sub>m (ss (se n))(k \<mapsto> q)"
    and "\<And>j p. j \<noteq> k \<Longrightarrow> ss (se t) j = Some p \<Longrightarrow> slice_view (eheap (se t)) p = slice_view (eheap (se n)) p"
proof (rule add_block_run [OF s run])
  fix p q h1 h2 h3 e
  assume p: "ss (se n) f = Some p" and fk: "ForkSlice p (eheap (se n)) = (Ok q, h1)"
    and x: "ExecuteBlock C (execCallback n) (exec_context (gConfig n) (Height_cs cs) (Time b) (Miner b) (Difficulty oldCs)) b
             (BlockReward (gConfig n)) q h1 = (Ok (), h2)"
    and fr: "frame h1 q h2" and fz: "Freeze q h2 = (Ok (), h3)" and kept: "tree_kept (se n) h3"
    and b: "built_on ((se n)\<lparr>eheap := h3\<rparr>) q f"
    and a: "AddFreezedSlice rng busy q k f (EncodeConsensus cs @ EncodeBlock b) ((se n)\<lparr>eheap := h3\<rparr>)
             = (if k \<in> dom (ss (se n)) then Err ErrKeyExists else Ok (), e)"
    and t: "t = n\<lparr>se := e, unresolvedBlocks := cache_Delete K k (unresolvedBlocks n)\<rparr>"
  obtain hs where wf: "wf_engine (se n)" and h: "wf_hist (se n) hs" using s(1) by (auto simp: sound_def)
  note w = wf_slicesD [OF wf_engineD(2) [OF wf]]
  have k': "k \<notin> dom (ss ((se n)\<lparr>eheap := h3\<rparr>))" "length k = SliceKeyLen" using k by (simp_all add: HashLen_def SliceKeyLen_def)
  note add = AddFreezedSlice_adds [OF tree_kept_wf [OF kept wf] tree_kept_hist [OF kept h] b k' a]
  have "live h2 q" using frame_live [OF fr] ForkSlice_frame(2) [OF w(1) fk] writable_live by blast
  then have v3: "slice_view h3 = slice_view h2" using Freeze_guards_writes [of h2 q] fz by auto
  have old: "slice_view (eheap e) r = slice_view (eheap (se n)) r" if "j \<noteq> k" "ss e j = Some r" for j r
  proof -
    have "ss (se n) j = Some r" using add(3) that by (auto simp: map_le_def dom_def split: if_splits)
    then have "live (eheap (se n)) r" using w(1,3) by (auto simp: live_def)
    with add(4) [OF that(2)] fork_views [OF w(1) fk fr] v3 show ?thesis by simp
  qed
  show thesis
    by (rule that [OF p fk x]) (use add(1-3) add(4) [OF add(1)] old v3 in \<open>simp_all add: t\<close>)
qed simp

text \<open>
  C1: only checked blocks get into the tree. When \<^verbatim>\<open>mark\<close> reports a new block with the hash \<open>k\<close> and the parent \<open>f\<close>, the
  block is one from the cache whose hash is the hash of its contents, its time is not ahead of the clock, the
  parent is in the tree, the consensus accepts it on the parent's state, and its execution on a fork of the
  parent's slice has succeeded. The tree then has, under \<open>k\<close>, that slice with exactly the contents that the execution
  left, and with the block's data; no other slice is added, and what remains of the tree reads as before.
  When no block is reported, the slices of the tree and all that they read stay as they are.
\<close>

theorem block_accepted:
  assumes w: "wf_caches K C n" and s: "sound n" "\<not> full n" and k: "k \<notin> dom (ss (se n))" "length k = HashLen"
    and run: "resolve K C rng busy now k f n = (r, n')"
  shows "if r = Ok True then
      (\<exists>b oldCs cs p q h1 h2. cache_Get K k (blockCache n) = Some (ItBlock b) \<and> Hash (Header b) = k \<and> valid_block C b
         \<and> \<not> too_early now b \<and> fst (getConsensusState K C 0 f n) = Ok oldCs \<and> CheckAndUpdate b oldCs = (True, cs)
         \<and> ss (se n) f = Some p \<and> ForkSlice p (eheap (se n)) = (Ok q, h1)
         \<and> ExecuteBlock C (execCallback n) (exec_context (gConfig n) (Height_cs cs) (Time b) (Miner b) (Difficulty oldCs)) b
             (BlockReward (gConfig n)) q h1 = (Ok (), h2)
         \<and> ss (se n') k = Some q \<and> slice_view (eheap (se n')) q = slice_view h2 q
         \<and> slice_data (se n') k = Some (EncodeConsensus cs @ EncodeBlock b)
         \<and> ss (se n') \<subseteq>\<^sub>m (ss (se n))(k \<mapsto> q)
         \<and> (\<forall>j p. j \<noteq> k \<longrightarrow> ss (se n') j = Some p \<longrightarrow> slice_view (eheap (se n')) p = slice_view (eheap (se n)) p))
    else ss (se n') = ss (se n) \<and> (\<forall>j p. ss (se n) j = Some p \<longrightarrow> slice_view (eheap (se n')) p = slice_view (eheap (se n)) p)"
proof -
  have caches: "is_block C k v" if "cache_Get K k (blockCache n) = Some v" for v
    using w that unfolding wf_caches_def holds_def by blast
  have same: "se n1 = se n \<and> execCallback n1 = execCallback n \<and> gConfig n1 = gConfig n"
    if "getConsensusState K C 0 f n = (r1, n1)" for r1 n1
    using goesD [OF getConsensusState_se TrueI that] by simp
  show ?thesis
  proof (cases "r = Ok True")
    case True
    with run obtain b oldCs cs n1 where b: "cache_Get K k (blockCache n) = Some (ItBlock b)" "\<not> too_early now b"
      and g: "getConsensusState K C 0 f n = (Ok oldCs, n1)" and c: "CheckAndUpdate b oldCs = (True, cs)"
      and a: "add_block K C rng busy k f b oldCs cs n1 = (Ok True, n')"
      by (metis resolve_accepts)
    note eq = same [OF g]
    have s1: "sound n1" "\<not> full n1" "k \<notin> dom (ss (se n1))" using s k(1) eq by (simp_all add: sound_def full_def)
    have "Hash (Header b) = k" "valid_block C b" using caches [OF b(1)] by (auto simp: is_block_def)
    note found = b(1) this b(2) g c
    show ?thesis
    proof (rule add_block_adds [OF s1 k(2) a], unfold eq [THEN conjunct1] eq [THEN conjunct2, THEN conjunct1] eq [THEN conjunct2, THEN conjunct2])
      fix p q h1 h2
      assume "ss (se n) f = Some p" and "ForkSlice p (eheap (se n)) = (Ok q, h1)"
        and "ExecuteBlock C (execCallback n) (exec_context (gConfig n) (Height_cs cs) (Time b) (Miner b) (Difficulty oldCs)) b
             (BlockReward (gConfig n)) q h1 = (Ok (), h2)"
        and "ss (se n') k = Some q" and "slice_view (eheap (se n')) q = slice_view h2 q"
        and "slice_data (se n') k = Some (EncodeConsensus cs @ EncodeBlock b)" and "ss (se n') \<subseteq>\<^sub>m (ss (se n))(k \<mapsto> q)"
        and "\<And>j p. j \<noteq> k \<Longrightarrow> ss (se n') j = Some p \<Longrightarrow> slice_view (eheap (se n')) p = slice_view (eheap (se n)) p"
      with found show ?thesis
        unfolding if_P [OF True]
        by (intro exI [of _ b] exI [of _ oldCs] exI [of _ cs] exI [of _ p] exI [of _ q] exI [of _ h1] exI [of _ h2]) simp
    qed
  next
    case False
    from resolve_rejects [OF run] show ?thesis
    proof
      assume "\<exists>b oldCs cs n1. getConsensusState K C 0 f n = (Ok oldCs, n1) \<and> add_block K C rng busy k f b oldCs cs n1 = (r, n')"
      then obtain b oldCs cs n1 where g: "getConsensusState K C 0 f n = (Ok oldCs, n1)"
        and a: "add_block K C rng busy k f b oldCs cs n1 = (r, n')" by blast
      note eq = same [OF g]
      have s1: "sound n1" "\<not> full n1" using s eq by (simp_all add: sound_def full_def)
      have l: "live (eheap (se n)) p" if "ss (se n) j = Some p" for j p
        using s(1) that wf_slicesD(1,3) [OF wf_engineD(2)] by (fastforce simp: sound_def live_def)
      obtain h where "n' = n1\<lparr>se := (se n1)\<lparr>eheap := h\<rparr>\<rparr>"
        and v: "\<And>j. live (eheap (se n1)) j \<Longrightarrow> slice_view h j = slice_view (eheap (se n1)) j"
        by (rule add_block_run [OF s1 a]) (use False in blast)+
      then have "ss (se n') = ss (se n)" "eheap (se n') = h" using eq by simp_all
      with False l v show ?thesis unfolding eq [THEN conjunct1] by simp
    qed (use False in simp)
  qed
qed

text \<open>An empty block on the first slice of the small engine.\<close>

definition next_block :: Block where
  "next_block = \<lparr>Header = \<lparr>Hash = zero32, ParentHash = demo_key, BodyHash = zero32, ExtraData = zero32\<rparr>,
     Miner = zero32, Time = 1, Txs = []\<rparr>"

definition waiting_node :: "(bytes \<times> item) list ChainNode" where
  "waiting_node = demo_node\<lparr>blockCache := [(zero32, ItBlock next_block)], blockConsensusState := [(demo_key, ItState (demo_cs\<lparr>Height_cs := 1\<rparr>))]\<rparr>"

lemma valid_next_block: "valid_block open_crypto next_block"
  by (simp add: valid_block_def valid_header_def wf_header_def wf_body_def next_block_def open_crypto_def
      Header_ComputeHash_def Block_ComputeHash_def demo_key_def HashLen_def AddressLen_def)

lemma next_block_accepted: "CheckAndUpdate next_block (demo_cs\<lparr>Height_cs := 1\<rparr>) = (True, demo_cs\<lparr>Height_cs := 2, LastBlockTime := 1\<rparr>)"
proof -
  have "be_nat zero32 = 0" by (simp only: zero32_def be_nat_replicate_0)
  then have "\<not> 0 < bytes_compare zero32 (replicate 32 0xf0)" by (simp add: bytes_compare_be_nat)
  then show ?thesis
    by (simp add: CheckAndUpdate_def next_block_def demo_cs_def Let_def i64_id PeriodBlockCount_def)
qed

lemma waiting_node_ok:
  "wf_caches list_cache open_crypto waiting_node" "sound waiting_node" "\<not> full waiting_node" "zero32 \<notin> dom (ss (se waiting_node))"
  "ss (se waiting_node) demo_key = Some 0"
proof -
  show "wf_caches list_cache open_crypto waiting_node"
    using valid_next_block
    by (simp add: wf_caches_def holds_def list_cache_ops waiting_node_def demo_node_def is_block_def is_state_def) (simp add: next_block_def)
  show "sound waiting_node" using demo_node_sound by (simp add: sound_def waiting_node_def)
qed (simp_all add: waiting_node_def demo_node_def full_def demo_store_def new_engine_def demo_key_def zero32_def)

theorem block_accepted_witness:
  "\<exists>n'. resolve list_cache open_crypto (\<lambda>_. []) False 0 zero32 demo_key waiting_node = (Ok True, n')
     \<and> slice_data (se n') zero32 = Some (EncodeConsensus (demo_cs\<lparr>Height_cs := 2, LastBlockTime := 1\<rparr>) @ EncodeBlock next_block)"
proof -
  obtain r n' where run: "resolve list_cache open_crypto (\<lambda>_. []) False 0 zero32 demo_key waiting_node = (r, n')" by fastforce
  have g: "getConsensusState list_cache open_crypto 0 demo_key waiting_node = (Ok (demo_cs\<lparr>Height_cs := 1\<rparr>), waiting_node)"
    by (simp add: getConsensusState_def bindG_def getS_run ret_run list_cache_ops waiting_node_def)
  have c: "cache_Get list_cache zero32 (blockCache waiting_node) = Some (ItBlock next_block)"
    by (simp add: list_cache_ops waiting_node_def)
  have early: "\<not> too_early 0 next_block" by (simp add: too_early_def next_block_def)
  have a: "add_block list_cache open_crypto (\<lambda>_. []) False zero32 demo_key next_block (demo_cs\<lparr>Height_cs := 1\<rparr>)
      (demo_cs\<lparr>Height_cs := 2, LastBlockTime := 1\<rparr>) waiting_node = (r, n')"
    using run early unfolding resolve_cases [OF g] by (simp add: c next_block_accepted)
  have wf: "wf_heap (eheap (se waiting_node))" and cb: "safe_callback (execCallback waiting_node)"
    using sound_steady [OF waiting_node_ok(2)] by (simp_all add: steady_def)
  have "slices (eheap (se waiting_node)) 0 \<noteq> None" by (simp add: waiting_node_def demo_node_def demo_store_fields)
  then have "live (eheap (se waiting_node)) 0" using wf by (auto simp: live_def)
  then obtain q h1 where fk: "ForkSlice 0 (eheap (se waiting_node)) = (Ok q, h1)" "writable h1 q"
    by (rule ForkSlice_run) blast
  have "ExecuteTxs C cb ctx (Txs next_block) 0 q h1 = (Ok 0, h1)" for C cb ctx by (simp add: next_block_def ret_run)
  then obtain h2 where x: "ExecuteBlock open_crypto (execCallback waiting_node) (exec_context (gConfig waiting_node)
      (Height_cs (demo_cs\<lparr>Height_cs := 2, LastBlockTime := 1\<rparr>)) (Time next_block) (Miner next_block)
      (Difficulty (demo_cs\<lparr>Height_cs := 1\<rparr>))) next_block (BlockReward (gConfig waiting_node)) q h1 = (Ok (), h2)"
    using ExecuteBlock_finishes [OF cb _ fk(2)] by metis
  have "r = Ok True" by (rule add_block_executed [OF waiting_node_ok(2,3,5) fk(1) x a])
  with block_accepted [OF waiting_node_ok(1-4) _ run] run g c next_block_accepted show ?thesis
    by (auto simp: zero32_def HashLen_def)
qed

section \<open>Delivering a block\<close>

text \<open>The law of the cache package that delivery relies on: what has just been set is there.\<close>

definition cache_remembers :: "'c cache_pkg \<Rightarrow> bool" where
  "cache_remembers K \<longleftrightarrow> (\<forall>k v c. cache_Get K k (cache_Set K k v c) = Some v)"

lemma DecodeBlockRequest_Encode:
  assumes "- (2 ^ 63) \<le> MinId_req p" "MinId_req p < 2 ^ 63" "length (Hash_req p) = 32"
  shows "DecodeBlockRequest (EncodeBlockRequest p) = (Ok p, [])"
  using assms ReadFull_append [of "Hash_req p" 32 "[]"]
  by (cases p) (simp add: DecodeBlockRequest_def EncodeBlockRequest_def bindG_Ok int_of_u64_u64_of_int ret_run)

text \<open>The answer to a request by hash.\<close>

lemma answer_by_hash:
  assumes b: "cache_Get K h (blockCache n) = Some (ItBlock b)" "valid_block C b" and h: "length h = 32"
    and cs: "getConsensusState K C (-1) h n = (Ok cs, n1)" "- (2 ^ 63) \<le> Height_cs cs" "Height_cs cs < 2 ^ 63"
  obtains m rp where "handlePacket K C peer (PktBlockRequest # EncodeBlockRequest \<lparr>MinId_req = -1, Hash_req = h\<rparr>) n
      = (Ok (), n1\<lparr>outbox := outbox n1 @ [WriteTo peer (PktBlocks # m)]\<rparr>)"
    and "DecodeBlocks C m = (Ok rp, [])" and "Body rp = [FullBlock b]" and "MinId rp = Height_cs cs" and "IsFull (isFull rp) 0 = Ok True"
proof -
  obtain rp where rp: "Add (FullBlock b) True (NewPacketBlocks (Height_cs cs)) = Ok rp" "wf_packet rp" "Body rp = [FullBlock b]"
    "MinId rp = Height_cs cs"
    using Add_wf [OF wf_NewPacketBlocks, of "FullBlock b" "Height_cs cs"] by (auto simp: item_full_def NewPacketBlocks_def)
  obtain m where m: "EncodeBlocks rp = Ok m" "DecodeBlocks C m = (Ok rp, [])"
    using blocks_roundtrip [OF rp(2), of C "[]"] rp cs b(2) by (auto simp: valid_item_def)
  have f: "IsFull (isFull rp) 0 = Ok True" using rp(2,3) by (simp add: IsFull_flag wf_packet_def item_full_def)
  have "DecodeBlockRequest (EncodeBlockRequest \<lparr>MinId_req = -1, Hash_req = h\<rparr>) = (Ok \<lparr>MinId_req = -1, Hash_req = h\<rparr>, [])"
    by (rule DecodeBlockRequest_Encode) (simp_all add: h)
  then have "handlePacket K C peer (PktBlockRequest # EncodeBlockRequest \<lparr>MinId_req = -1, Hash_req = h\<rparr>) n
      = (Ok (), n1\<lparr>outbox := outbox n1 @ [WriteTo peer (PktBlocks # m)]\<rparr>)"
    using b cs rp(1) m(1)
    by (simp add: handlePacket_def handleBlockRequest_def reply_def getBlock_def bindG_def liftR_run getS_run ret_run Let_def
        blocks_message_def send_def modifyS_run)
  with that m(2) rp(3,4) f show thesis by blast
qed

text \<open>Whatever the receiver has in its caches, a block in a message ends up there.\<close>

lemma note_block_caches:
  assumes "cache_remembers K" and "note_block K C b n = (r, n')"
  shows "r = Ok ()" and "se n' = se n" and "config n' = config n" and "unresolvedBlocks n' = unresolvedBlocks n"
    and "cache_Get K (Hash (Header b)) (blockCache n') =
      (case cache_Get K (Hash (Header b)) (blockCache n) of None \<Rightarrow> Some (ItBlock b) | Some v \<Rightarrow> Some v)"
  using assms by (auto simp: note_block_def modifyS_run cache_remembers_def)

lemma note_header_files:
  assumes K: "cache_remembers K" and i: "minId = -1 \<or> lo < minId \<and> minId < hi" "i64 minId = minId"
  shows "\<exists>new n'. note_header K minId lo hi 0 bh n = (Ok new, n') \<and> blockCache n' = blockCache n
    \<and> cache_Get K (Hash bh) (unresolvedBlocks n') \<noteq> None"
  using assms
  by (cases "cache_Get K (Hash bh) (unresolvedBlocks n)")
     (auto simp: note_header_def bindG_def getS_run ret_run modifyS_run cache_remembers_def)

lemma note_neighbor_run:
  assumes "wf_caches K C n"
  obtains c where "note_neighbor K peer p n = (Ok (), n\<lparr>neighborHeight := c\<rparr>)"
proof (cases "cache_Get K (peer_key peer) (neighborHeight n)")
  case None
  then show thesis
    by (cases "MinId p = -1") (auto intro: that [of "neighborHeight n"] that
        simp: note_neighbor_def bindG_def getS_run ret_run modifyS_run Let_def)
next
  case (Some v)
  then have "is_height (peer_key peer) v" using assms unfolding wf_caches_def holds_def by blast
  then obtain i where "v = ItHeight i" by (auto simp: is_height_def)
  with Some show thesis
    by (cases "MinId p = -1") (auto intro: that [of "neighborHeight n"] that
        simp: note_neighbor_def bindG_def getS_run ret_run modifyS_run Let_def)
qed

lemma receive_block:
  assumes K: "cache_remembers K" and w: "wf_caches K C n" and s: "slices (eheap (se n)) (HighestSlice (se n)) = Some s"
    and dec: "DecodeBlocks C m = (Ok rp, [])" "Body rp = [FullBlock b]" "IsFull (isFull rp) 0 = Ok True"
    and ht: "0 \<le> height s" "height s < 2 ^ 62" and dp: "0 \<le> StorageFinalizeDepth (config n)" "StorageFinalizeDepth (config n) < 2 ^ 62"
    and i: "MinId rp = -1 \<or> height s - StorageFinalizeDepth (config n) - 4 < MinId rp \<and> MinId rp < height s + 501"
  shows "\<exists>n'. handlePacket K C peer (PktBlocks # m) n = (Ok (), n')
    \<and> cache_Get K (Hash (Header b)) (blockCache n') =
        (case cache_Get K (Hash (Header b)) (blockCache n) of None \<Rightarrow> Some (ItBlock b) | Some v \<Rightarrow> Some v)
    \<and> cache_Get K (Hash (Header b)) (unresolvedBlocks n') \<noteq> None"
proof -
  obtain c where 1: "note_neighbor K peer rp n = (Ok (), n\<lparr>neighborHeight := c\<rparr>)" by (rule note_neighbor_run [OF w])
  let ?n1 = "n\<lparr>neighborHeight := c\<rparr>"
  obtain q h1 where fk: "ForkSlice (HighestSlice (se n)) (eheap (se n)) = (Ok q, h1)" "Height q h1 = (Ok (height s + 1), h1)"
    using s ht by (auto simp: ForkSlice_def Height_def bindG_def deref_def alloc_slice_def Let_def i64_id ret_run)
  let ?n2 = "?n1\<lparr>se := (se n)\<lparr>eheap := h1\<rparr>\<rparr>"
  let ?lo = "i64 (height s + 1 - StorageFinalizeDepth (config n) - 5)" and ?hi = "i64 (height s + 1 + 500)"
  have lo: "?lo = height s - StorageFinalizeDepth (config n) - 4" "?hi = height s + 501"
    using ht dp by (simp_all add: i64_id)
  obtain r3 n3 where 3: "note_block K C b ?n2 = (r3, n3)" by fastforce
  note nb = note_block_caches [OF K 3]
  have "i64 (MinId rp) = MinId rp" using i ht dp by (intro i64_id) auto
  then obtain new n4 where 4: "note_header K (MinId rp) ?lo ?hi 0 (Header b) n3 = (Ok new, n4)" "blockCache n4 = blockCache n3"
    "cache_Get K (Hash (Header b)) (unresolvedBlocks n4) \<noteq> None"
    using note_header_files [OF K, of "MinId rp" ?lo ?hi "Header b" n3] i lo by auto
  let ?n5 = "if new then n4\<lparr>checkUnBlocks := checkUnBlocks n4 + 1\<rparr> else n4"
  have "handlePacket K C peer (PktBlocks # m) n = (Ok (), ?n5)"
    using 1 fk 3 4(1) nb(1) dec
    by (simp add: handlePacket_def PktBlocks_def PktBlockRequest_def handleBlocks_def bindG_def liftR_run getS_run ret_run modifyS_run
        on_slices_def on_se_def on_eheap_def)
  with 4 nb(5) show ?thesis by (intro exI [of _ ?n5]) auto
qed

text \<open>
  C14: a block that is asked for arrives. When a node that has a block in its cache gets the request for its
  hash (the message that a node with an unresolved parent broadcasts), it answers that peer with one message;
  and a node that receives this message keeps the block in its cache, or the block with that hash it had
  before, and files its header as unresolved, provided that the height is within the window around its
  highest slice that it accepts. Neither handler fails.
\<close>

theorem block_delivery:
  assumes K: "cache_remembers K"
    and b: "cache_Get K h (blockCache na) = Some (ItBlock b)" "valid_block C b" "Hash (Header b) = h"
    and cs: "getConsensusState K C (-1) h na = (Ok cs, na1)"
    and w: "wf_caches K C nb" and s: "slices (eheap (se nb)) (HighestSlice (se nb)) = Some s"
    and ht: "0 \<le> height s" "height s < 2 ^ 62" and dp: "0 \<le> StorageFinalizeDepth (config nb)" "StorageFinalizeDepth (config nb) < 2 ^ 62"
    and i: "height s - StorageFinalizeDepth (config nb) - 4 < Height_cs cs" "Height_cs cs < height s + 501"
  shows "\<exists>m na' nb'. handlePacket K C peer (PktBlockRequest # EncodeBlockRequest \<lparr>MinId_req = -1, Hash_req = h\<rparr>) na = (Ok (), na')
    \<and> outbox na' = outbox na1 @ [WriteTo peer m]
    \<and> handlePacket K C peer' m nb = (Ok (), nb')
    \<and> cache_Get K h (blockCache nb') =
        (case cache_Get K h (blockCache nb) of None \<Rightarrow> Some (ItBlock b) | Some v \<Rightarrow> Some v)
    \<and> cache_Get K h (unresolvedBlocks nb') \<noteq> None"
proof -
  have h: "length h = 32" using b(2,3) by (auto simp: valid_block_def valid_header_def wf_header_def HashLen_def)
  have "- (2 ^ 63) \<le> Height_cs cs" "Height_cs cs < 2 ^ 63" using i ht dp by simp_all
  then obtain m rp where "handlePacket K C peer (PktBlockRequest # EncodeBlockRequest \<lparr>MinId_req = -1, Hash_req = h\<rparr>) na
      = (Ok (), na1\<lparr>outbox := outbox na1 @ [WriteTo peer (PktBlocks # m)]\<rparr>)"
    and dec: "DecodeBlocks C m = (Ok rp, [])" "Body rp = [FullBlock b]" "MinId rp = Height_cs cs" "IsFull (isFull rp) 0 = Ok True"
    by (rule answer_by_hash [OF b(1,2) h cs])
  moreover obtain nb' where "handlePacket K C peer' (PktBlocks # m) nb = (Ok (), nb')"
    "cache_Get K h (blockCache nb') = (case cache_Get K h (blockCache nb) of None \<Rightarrow> Some (ItBlock b) | Some v \<Rightarrow> Some v)"
    "cache_Get K h (unresolvedBlocks nb') \<noteq> None"
    using receive_block [OF K w s dec(1,2,4) ht dp, of peer'] i dec(3) b(3) by auto
  ultimately show ?thesis by (intro exI [of _ "PktBlocks # m"]) auto
qed

theorem block_delivery_witness:
  "\<exists>m na' nb'. handlePacket list_cache open_crypto 3 (PktBlockRequest # EncodeBlockRequest \<lparr>MinId_req = -1, Hash_req = zero32\<rparr>)
       (waiting_node\<lparr>blockConsensusState := [(zero32, ItState (demo_cs\<lparr>Height_cs := 1\<rparr>))]\<rparr>) = (Ok (), na')
     \<and> outbox na' = [WriteTo 3 m]
     \<and> handlePacket list_cache open_crypto 4 m demo_node = (Ok (), nb')
     \<and> cache_Get list_cache zero32 (blockCache nb') = Some (ItBlock next_block)"
proof -
  let ?na = "waiting_node\<lparr>blockConsensusState := [(zero32, ItState (demo_cs\<lparr>Height_cs := 1\<rparr>))]\<rparr>"
  have K: "cache_remembers list_cache" by (simp add: cache_remembers_def list_cache_ops)
  have b: "cache_Get list_cache zero32 (blockCache ?na) = Some (ItBlock next_block)" "Hash (Header next_block) = zero32"
    by (simp_all add: list_cache_ops waiting_node_def next_block_def)
  have g: "getConsensusState list_cache open_crypto (-1) zero32 ?na = (Ok (demo_cs\<lparr>Height_cs := 1\<rparr>), ?na)"
    by (simp add: getConsensusState_def bindG_def getS_run ret_run list_cache_ops)
  have s: "slices (eheap (se demo_node)) (HighestSlice (se demo_node)) = Some (demo_slice None 0 0)"
    "outbox ?na = []" "cache_Get list_cache zero32 (blockCache demo_node) = None" "config demo_node = \<lparr>StorageFinalizeDepth = 3, MaxConnections = 8\<rparr>"
    by (simp_all add: demo_node_def demo_store_fields waiting_node_def list_cache_ops)
  show ?thesis
    using block_delivery [OF K b(1) valid_next_block b(2) g demo_node_caches s(1), of 3 4] s(2-4)
    by (simp add: demo_slice_def demo_cs_def) blast
qed

end
