(* ===== verification/Mining.thy ===== *)
theory Mining
  imports Chain_Blocks
begin

text \<open>
  Block candidates. \<^verbatim>\<open>GetBlockCandidate\<close> tries the transactions of the pool one after the other, each on a fork
  that is merged when the transaction succeeds. For pools of payments the result is that of a greedy choice
  on the table of accounts, and the candidate executes.
\<close>

section \<open>The ledger\<close>

type_synonym ledger = "AddressType \<Rightarrow> AccountInfo"

definition pay :: "crypto \<Rightarrow> Transaction \<Rightarrow> ledger \<Rightarrow> ledger" where
  "pay C tx T =
     (let T' = T(sender_of C tx := debited tx (T (sender_of C tx)))
      in T'(Receiver tx := credited (Value tx) (T' (Receiver tx))))"

definition payable :: "crypto \<Rightarrow> ExecutionContext \<Rightarrow> Transaction \<Rightarrow> ledger \<Rightarrow> bool" where
  "payable C ctx tx T \<longleftrightarrow> tx_check C ctx tx (T (sender_of C tx)) = None"

fun greedy :: "crypto \<Rightarrow> ExecutionContext \<Rightarrow> ledger \<Rightarrow> Transaction list \<Rightarrow> Transaction list" where
  "greedy C ctx T [] = []"
| "greedy C ctx T (tx # txs) =
     (if payable C ctx tx T then tx # greedy C ctx (pay C tx T) txs else greedy C ctx T txs)"

fun payments :: "crypto \<Rightarrow> ExecutionContext \<Rightarrow> ledger \<Rightarrow> Transaction list \<Rightarrow> bool" where
  "payments C ctx T [] \<longleftrightarrow> True"
| "payments C ctx T (tx # txs) \<longleftrightarrow> payable C ctx tx T \<and> TxType tx = 1 \<and> payments C ctx (pay C tx T) txs"

lemma greedy_payments: "list_all (\<lambda>tx. TxType tx = 1) txs \<Longrightarrow> payments C ctx T (greedy C ctx T txs)"
  by (induction txs arbitrary: T) auto

lemma greedy_subset: "set (greedy C ctx T txs) \<subseteq> set txs"
  by (induction txs arbitrary: T) (auto split: if_splits)

text \<open>A list of payments that the ledger allows executes, one after the other.\<close>

lemma ExecuteTxs_payments:
  assumes cb: "safe_callback cb" and "writable h s" and "payments C ctx (acct h s) txs"
  shows "\<exists>fee' h'. ExecuteTxs C cb ctx txs fee s h = (Ok fee', h') \<and> writable h' s"
  using assms(2,3)
proof (induction txs arbitrary: fee h)
  case (Cons tx txs)
  obtain h1 where 1: "ExecuteTx C cb ctx tx s h = (Ok (), h1)" "writable h1 s" "acct h1 s = pay C tx (acct h s)"
    by (rule ExecuteTx_payment_run [OF cb Cons.prems(1), of tx C ctx])
       (use Cons.prems(2) in \<open>auto simp: payable_def pay_def Let_def\<close>)
  from Cons.IH [OF 1(2), of "fee + Fee tx"] Cons.prems(2) 1 show ?case by (simp add: bindG_Ok)
qed (simp add: ret_run)

section \<open>Choosing transactions\<close>

lemma pick_txs_greedy:
  assumes cb: "safe_callback cb" and "writable h sl" and "list_all (\<lambda>tx. TxType tx = 1) txs" and "map snd vs = map ItTx txs"
  shows "\<exists>h'. pick_txs C cb g ht tm miner (Some c) sl vs h
      = (Ok (greedy C (exec_context g ht tm miner (Difficulty c)) (acct h sl) txs), h')"
  using assms(2-)
proof (induction vs arbitrary: h txs)
  case Nil
  then show ?case by (simp add: ret_run)
next
  case (Cons v vs)
  let ?ctx = "exec_context g ht tm miner (Difficulty c)"
  obtain tx txs' where tx: "txs = tx # txs'" "snd v = ItTx tx" "map snd vs = map ItTx txs'" "TxType tx = 1" "list_all (\<lambda>tx. TxType tx = 1) txs'"
    using Cons.prems by (cases txs) auto
  obtain q h1 where f: "ForkSlice sl h = (Ok q, h1)" "forked h sl h1 q" "writable h1 q" "slice_view h1 q = slice_view h sl"
    using slice_fork.fk_run [OF Cons.prems(1)] by blast
  have T: "acct h1 q = acct h sl" using f(4) by (simp add: acct_def fun_eq_iff)
  note drop = slice_fork.fkd_frame [OF f(2)]
  show ?case
  proof (cases "payable C ?ctx tx (acct h sl)")
    case True
    then have ok: "tx_check C ?ctx tx (acct h1 q (sender_of C tx)) = None" by (simp add: payable_def T)
    obtain h2 where x: "ExecuteTx C cb ?ctx tx q h1 = (Ok (), h2)" "frame h1 q h2" "acct h2 q = pay C tx (acct h sl)"
      by (rule ExecuteTx_payment_run [OF cb f(3) tx(4) ok]) (simp add: pay_def T)
    obtain h3 where m: "Merge q h2 = (Ok (), h3)" "slice_view h3 sl = slice_view h2 q" "frame h sl h3"
      using slice_fork.mrg_run [OF slice_fork.fkd_frm [OF f(2) x(2)]] by blast
    have "acct h3 sl = pay C tx (acct h sl)" using m(2) x(3) by (simp add: acct_def fun_eq_iff)
    with Cons.IH [OF frame_writable [OF m(3) Cons.prems(1)] tx(5,3)] True f(1) x(1) m(1) show ?thesis
      by (auto simp: tx(1,2) bindG_def attempt_def ret_run)
  next
    case False
    then obtain e where "tx_check C ?ctx tx (acct h1 q (sender_of C tx)) = Some e" by (auto simp: payable_def T)
    then have x: "ExecuteTx C cb ?ctx tx q h1 = (Err e, h1)" by (simp add: ExecuteTx_run [OF f(3)])
    have "acct h1 sl = acct h sl" using drop by (simp add: acct_def fun_eq_iff)
    moreover have "writable h1 sl" using drop frame_writable [OF _ Cons.prems(1)] by blast
    ultimately show ?thesis
      using Cons.IH [of h1 txs'] tx False f(1) x by (auto simp: bindG_def attempt_def)
  qed
qed

definition pool_list :: "'c cache_pkg \<Rightarrow> 'c ChainNode \<Rightarrow> Transaction list" where
  "pool_list K n = map (\<lambda>kv. case snd kv of ItTx tx \<Rightarrow> tx) (cache_Items K (txPool n))"

lemma pool_order:
  assumes "wf_caches K C n" and "cache_laws K"
  shows "map snd (cache_Items K (txPool n)) = map ItTx (pool_list K n)"
proof -
  have "\<exists>tx. snd kv = ItTx tx" if "kv \<in> set (cache_Items K (txPool n))" for kv
    using assms(1) holds_ops(5) [OF assms(2), of "is_tx C" "txPool n" "fst kv" "snd kv"] that
    by (auto simp: wf_caches_def is_tx_def)
  then show ?thesis by (fastforce simp: pool_list_def)
qed

section \<open>Properties\<close>

text \<open>
  C11: a miner gets a block that the node will execute. When the pool holds payments and the highest block's
  consensus state is cached, \<^verbatim>\<open>GetBlockCandidate\<close> returns a block on top of the highest one with correct hashes,
  whose transactions are exactly those that a greedy choice on the account table takes from the pool in the
  order given: each is taken when the accounts allow it after the ones before. Executing this block with the
  same time, miner and difficulty on a fork of the highest slice succeeds, whatever the reward.
\<close>

theorem candidate_executes:
  assumes K: "cache_laws K" and w: "wf_caches K C n" and s: "sound n"
    and pool: "list_all (\<lambda>tx. TxType tx = 1) (pool_list K n)"
    and hc: "HighestChain (se n) = hc @ [\<lparr>Key = k, S = Some p\<rparr>]" "slices (eheap (se n)) p = Some ps"
    and hs: "slices (eheap (se n)) (HighestSlice (se n)) = Some hs"
    and c: "cache_Get K k (blockConsensusState n) = Some (ItState c)"
  shows "\<exists>b n' q h1 h2. GetBlockCandidate K C now miner n = (Ok b, n')
    \<and> Txs b = greedy C (exec_context (gConfig n) (i64 (height hs + 1)) now miner (Difficulty c))
          (acct (eheap (se n)) (HighestSlice (se n))) (pool_list K n)
    \<and> ParentHash (Header b) = k \<and> Hash (Header b) = Header_ComputeHash C (Header b) \<and> BodyHash (Header b) = Block_ComputeHash C b
    \<and> ForkSlice (HighestSlice (se n)) (eheap (se n)) = (Ok q, h1)
    \<and> ExecuteBlock C (execCallback n) (exec_context (gConfig n) (i64 (height hs + 1)) (Time b) (Miner b) (Difficulty c)) b reward q h1 = (Ok (), h2)"
proof -
  let ?g = "eheap (se n)" and ?H = "HighestSlice (se n)"
  let ?ctx = "exec_context (gConfig n) (i64 (height hs + 1)) now miner (Difficulty c)"
  have wf: "wf_heap ?g" and cb: "safe_callback (execCallback n)" using sound_steady [OF s] by (simp_all add: steady_def)
  have "live ?g ?H" using wf hs by (auto simp: live_def)
  then obtain q h1 where fk: "ForkSlice ?H ?g = (Ok q, h1)" "writable h1 q" "slice_view h1 q = slice_view ?g ?H" "forked ?g ?H h1 q"
    by (rule ForkSlice_run) blast
  have T: "acct h1 q = acct ?g ?H" using fk(3) by (simp add: acct_def fun_eq_iff)
  have q: "Height q h1 = (Ok (i64 (height hs + 1)), h1)"
    using fk(1) hs by (auto simp: ForkSlice_def Height_def bindG_def deref_def alloc_slice_def Let_def ret_run)
  have "live ?g p" using wf hc(2) by (auto simp: live_def)
  then have "slices h1 p = Some ps" using frame_slice [of ?g ?H h1 p] fk(4) hc(2) by (simp add: forked_def)
  then have p: "Height p h1 = (Ok (height ps), h1)" by (simp add: Height_def bindG_def deref_def ret_run)
  obtain h2 where pick: "pick_txs C (execCallback n) (gConfig n) (i64 (height hs + 1)) now miner (Some c) q (cache_Items K (txPool n)) h1
      = (Ok (greedy C ?ctx (acct ?g ?H) (pool_list K n)), h2)"
    using pick_txs_greedy [OF cb fk(2) pool pool_order [OF w K]] unfolding T by blast
  define b where "b = FillHash C \<lparr>Header = \<lparr>Hash = zero32, ParentHash = k, BodyHash = zero32, ExtraData = zero32\<rparr>,
     Miner = miner, Time = now, Txs = greedy C ?ctx (acct ?g ?H) (pool_list K n)\<rparr>"
  have b: "Txs b = greedy C ?ctx (acct ?g ?H) (pool_list K n)" "Time b = now" "Miner b = miner" "ParentHash (Header b) = k"
    "Hash (Header b) = Header_ComputeHash C (Header b)" "BodyHash (Header b) = Block_ComputeHash C b"
    by (simp_all add: b_def FillHash_def Let_def Header_ComputeHash_def Block_ComputeHash_def EncodeBlockSelf_def)
  have "last_at (HighestChain (se n)) m = (Ok \<lparr>Key = k, S = Some p\<rparr>, m)" for m :: "'a ChainNode"
    by (simp add: hc(1) last_at_def nth_at_def ret_run nth_append)
  then have "GetBlockCandidate K C now miner n = (Ok b, n\<lparr>se := (se n)\<lparr>eheap := h2\<rparr>\<rparr>)"
    using fk(1) q p c pick
    by (simp add: GetBlockCandidate_def bindG_def getS_run ret_run on_slices_def on_se_def on_eheap_def chain_height_def
        getConsensusState_def attempt_def b_def)
  moreover have "payments C ?ctx (acct h1 q) (Txs b)" using greedy_payments [OF pool] by (simp add: b(1) T)
  then obtain fee h3 where "ExecuteTxs C (execCallback n) ?ctx (Txs b) 0 q h1 = (Ok fee, h3)" "writable h3 q"
    using ExecuteTxs_payments [OF cb fk(2)] by blast
  then obtain h4 where "ExecuteBlock C (execCallback n) ?ctx b reward q h1 = (Ok (), h4)"
    using ExecuteBlock_finishes [OF cb] by metis
  ultimately show ?thesis using b fk(1) by auto
qed

definition mining_node :: "(bytes \<times> item) list ChainNode" where
  "mining_node = demo_node\<lparr>se := demo_store\<lparr>HighestChain := [\<lparr>Key = demo_key, S = Some 0\<rparr>]\<rparr>,
     txPool := [(Tx_Hash open_crypto demo_tx, ItTx demo_tx)], blockConsensusState := [(demo_key, ItState demo_cs)]\<rparr>"

lemma mining_node_sound: "sound mining_node"
proof -
  have "wf_engine (demo_store\<lparr>HighestChain := x\<rparr>)" for x
    using wf_demo_store by (simp add: wf_engine_def wf_tree_def wf_slices_def node_def sons_def)
  moreover have "wf_hist (demo_store\<lparr>HighestChain := x\<rparr>) [(demo_key, [5])]" for x
    by (rule wf_hist_cong [OF hist_demo_store]) (simp_all add: node_def)
  moreover have "low (demo_store\<lparr>HighestChain := x\<rparr>)" for x
    using demo_node_sound by (simp add: sound_def low_def demo_node_def)
  ultimately show ?thesis by (auto simp: sound_def mining_node_def demo_node_def)
qed

theorem candidate_executes_witness:
  "\<exists>b n' q h1 h2. GetBlockCandidate list_cache open_crypto 7 zero32 mining_node = (Ok b, n') \<and> ParentHash (Header b) = demo_key
    \<and> ForkSlice 0 (eheap (se mining_node)) = (Ok q, h1)
    \<and> ExecuteBlock open_crypto None (exec_context (gConfig mining_node) 1 (Time b) (Miner b) (Difficulty demo_cs)) b 50 q h1 = (Ok (), h2)"
proof -
  have w: "wf_caches list_cache open_crypto mining_node"
    using demo_node_caches [of open_crypto]
    by (simp add: wf_caches_def holds_def list_cache_ops mining_node_def demo_node_def is_tx_def is_state_def)
  have f: "list_all (\<lambda>tx. TxType tx = 1) (pool_list list_cache mining_node)" "HighestChain (se mining_node) = [] @ [\<lparr>Key = demo_key, S = Some 0\<rparr>]"
    "slices (eheap (se mining_node)) 0 = Some (demo_slice None 0 0)" "HighestSlice (se mining_node) = 0" "execCallback mining_node = None"
    "cache_Get list_cache demo_key (blockConsensusState mining_node) = Some (ItState demo_cs)"
    by (simp_all add: pool_list_def list_cache_ops mining_node_def demo_tx_def demo_store_fields demo_node_def)
  show ?thesis
    using candidate_executes [OF list_cache_laws w mining_node_sound f(1-3), of "demo_slice None 0 0" demo_cs 7 zero32 50] f(3-6)
    by (auto simp: demo_slice_def i64_id)
qed

end
