(* ===== verification/Mine.thy ===== *)
theory Mine
  imports Mining Strconv
begin

text \<open>
  The miner, \<^verbatim>\<open>cmd/miner/main.go\<close>, and the mining loop of the test node, \<^verbatim>\<open>cmd/testnode/main.go\<close>.

  The miner's threads share pointers to blocks: the task is one, the channel of results holds others, and a
  thread that finds a hash writes the header into the block it points to. The blocks are therefore a list
  and a pointer is a position in it. A thread's turn has two halves, taking the task and finishing the search,
  and between them other threads and the update of the task run.

  The lemmas show that whatever the node answers and however the threads are interleaved, a result is a block
  with correct hashes below the difficulty that came with its task, so that the node decodes and accepts it.
\<close>

section \<open>The search of the miner\<close>

text \<open>The extra data: the thread, its epoch and the global nonce, then four bytes for the counter.\<close>

definition prepare_header :: "bytes \<Rightarrow> int \<Rightarrow> int \<Rightarrow> BlockHeader \<Rightarrow> BlockHeader" where
  "prepare_header globalNonce thread epoch bh =
     (let e1 = blit (ExtraData bh) 24 globalNonce; e2 = e1[0 := word_of_int thread] in
      bh\<lparr>ExtraData := blit e2 1 (le_bytes 8 (u64_of_int epoch))\<rparr>)"

definition set_counter :: "nat \<Rightarrow> BlockHeader \<Rightarrow> BlockHeader" where
  "set_counter i bh = bh\<lparr>ExtraData := blit (ExtraData bh) 8 (le_bytes 4 (of_nat i :: u32))\<rparr>"

fun search_header :: "crypto \<Rightarrow> HashType \<Rightarrow> nat \<Rightarrow> nat \<Rightarrow> BlockHeader \<Rightarrow> BlockHeader option" where
  "search_header C df 0 i bh = None"
| "search_header C df (Suc n) i bh =
     (let bh1 = set_counter i bh; h = Header_ComputeHash C bh1 in
      if bytes_compare h df \<le> 0 then Some (bh1\<lparr>Hash := h\<rparr>) else search_header C df n (Suc i) bh1)"

definition mine_header :: "crypto \<Rightarrow> HashType \<Rightarrow> BlockHeader \<Rightarrow> BlockHeader option" where
  "mine_header C df bh = search_header C df 10000000 0 bh"

section \<open>The state of the miner\<close>

record mine_job =
  job_thread :: int
  job_task :: nat
  job_header :: BlockHeader
  job_difficulty :: HashType

record miner =
  m_blocks :: "Block list"
  curTask :: "nat option"
  curDifficulty :: HashType
  globalNonce :: bytes
  m_epoch :: "int \<Rightarrow> int"
  m_jobs :: "mine_job list"
  resChan :: "nat list"

definition new_miner :: "bytes \<Rightarrow> miner" where
  "new_miner rnd = \<lparr>m_blocks = [], curTask = None, curDifficulty = zero32, globalNonce = rnd, m_epoch = (\<lambda>_. 0), m_jobs = [], resChan = []\<rparr>"

definition mine_take :: "int \<Rightarrow> miner \<Rightarrow> miner" where
  "mine_take thread m =
     (case curTask m of
        None \<Rightarrow> m
      | Some t \<Rightarrow>
          let epoch = m_epoch m thread + 1 in
          m\<lparr>m_epoch := (m_epoch m)(thread := epoch),
            m_jobs := m_jobs m @ [\<lparr>job_thread = thread, job_task = t,
              job_header = prepare_header (globalNonce m) thread epoch (Header (m_blocks m ! t)), job_difficulty = curDifficulty m\<rparr>]\<rparr>)"

definition mine_finish :: "crypto \<Rightarrow> mine_job \<Rightarrow> miner \<Rightarrow> miner" where
  "mine_finish C j m =
     (let m1 = m\<lparr>m_jobs := remove1 j (m_jobs m)\<rparr> in
      case mine_header C (job_difficulty j) (job_header j) of
        None \<Rightarrow> m1
      | Some bh \<Rightarrow>
          m1\<lparr>m_blocks := (m_blocks m)[job_task j := (m_blocks m ! job_task j)\<lparr>Header := bh\<rparr>], resChan := resChan m @ [job_task j]\<rparr>)"

text \<open>Sending the first result to the node.\<close>

definition mine_submit :: "miner \<Rightarrow> request option \<times> miner" where
  "mine_submit m =
     (case resChan m of
        [] \<Rightarrow> (None, m)
      | t # ts \<Rightarrow> (Some (ReqSubmitBlock (EncodeBlock (m_blocks m ! t))), m\<lparr>resChan := ts\<rparr>))"

text \<open>
  The node's answer to the request for a task. Base64 and JSON are between the bytes here and those on the
  wire; a message without the fields that are asked for is a panic. An error is only logged, and its text is left out.
\<close>

definition mine_update :: "crypto \<Rightarrow> response \<Rightarrow> (miner, unit) go" where
  "mine_update C rsp m =
     (case rsp of
        CandidateReply buf df \<Rightarrow>
          (case fst (DecodeBlock C buf) of
             Ok nt \<Rightarrow>
               (case hex_decode (string_bytes df) of
                  Inl e \<Rightarrow> (Err (ErrJson []), m)
                | Inr nh \<Rightarrow>
                    (Ok (), m\<lparr>m_blocks := m_blocks m @ [nt], curTask := Some (length (m_blocks m)), curDifficulty := blit (curDifficulty m) 0 nh\<rparr>))
           | Err e \<Rightarrow> (Err e, m) | Panic \<Rightarrow> (Panic, m) | Diverge \<Rightarrow> (Diverge, m))
      | Failed f \<Rightarrow> (Err (ErrJson []), m)
      | _ \<Rightarrow> (Panic, m))"

text \<open>Runs of the miner, with the difficulties that came with the tasks.\<close>

inductive mining :: "crypto \<Rightarrow> miner \<Rightarrow> HashType list \<Rightarrow> bool" for C where
  mining_start: "length rnd = 8 \<Longrightarrow> mining C (new_miner rnd) []"
| mining_update: "mining C m D \<Longrightarrow> mine_update C rsp m = (Ok (), m') \<Longrightarrow> mining C m' (D @ [curDifficulty m'])"
| mining_take: "mining C m D \<Longrightarrow> mining C (mine_take thread m) D"
| mining_finish: "mining C m D \<Longrightarrow> j \<in> set (m_jobs m) \<Longrightarrow> mining C (mine_finish C j m) D"
| mining_submit: "mining C m D \<Longrightarrow> mine_submit m = (r, m') \<Longrightarrow> mining C m' D"

section \<open>What the miner finds\<close>

lemma set_counter_simps [simp]:
  "Hash (set_counter i bh) = Hash bh" "ParentHash (set_counter i bh) = ParentHash bh" "BodyHash (set_counter i bh) = BodyHash bh"
  "length (ExtraData bh) = 32 \<Longrightarrow> length (ExtraData (set_counter i bh)) = 32"
  by (simp_all add: set_counter_def)

lemma set_counter_again: "length (ExtraData bh) = 32 \<Longrightarrow> set_counter i (set_counter j bh) = set_counter i bh"
  by (simp add: set_counter_def blit_def)

lemma prepare_header_simps [simp]:
  "ParentHash (prepare_header g t e bh) = ParentHash bh" "BodyHash (prepare_header g t e bh) = BodyHash bh"
  "length (ExtraData bh) = 32 \<Longrightarrow> length g = 8 \<Longrightarrow> length (ExtraData (prepare_header g t e bh)) = 32"
  by (simp_all add: prepare_header_def Let_def)

lemma search_header_spec:
  assumes "length (ExtraData bh) = 32"
  shows "search_header C df n i bh =
    (if \<exists>k<n. bytes_compare (Header_ComputeHash C (set_counter (i + k) bh)) df \<le> 0
     then let k = LEAST k. bytes_compare (Header_ComputeHash C (set_counter (i + k) bh)) df \<le> 0; bh1 = set_counter (i + k) bh in
       Some (bh1\<lparr>Hash := Header_ComputeHash C bh1\<rparr>)
     else None)"
  using assms
proof (induction n arbitrary: i bh)
  case (Suc n)
  let ?P = "\<lambda>k. bytes_compare (Header_ComputeHash C (set_counter (i + k) bh)) df \<le> 0"
  show ?case
  proof (cases "?P 0")
    case True
    then have "(LEAST k. ?P k) = 0" "\<exists>k<Suc n. ?P k" by (auto intro: Least_equality)
    with True show ?thesis by (simp add: Let_def)
  next
    case False
    have ex: "(\<exists>k<Suc n. ?P k) = (\<exists>k<n. ?P (Suc k))" using False by (metis (no_types, lifting) Suc_less_eq less_Suc_eq_0_disj)
    have le: "(LEAST k. ?P k) = Suc (LEAST k. ?P (Suc k))" if "\<exists>k<n. ?P (Suc k)"
      using that Least_Suc [of ?P _] False by blast
    have "search_header C df (Suc n) i bh = search_header C df n (Suc i) (set_counter i bh)" using False by (simp add: Let_def)
    also have "\<dots> = (if \<exists>k<n. ?P (Suc k) then let k = LEAST k. ?P (Suc k); bh1 = set_counter (i + Suc k) bh in
        Some (bh1\<lparr>Hash := Header_ComputeHash C bh1\<rparr>) else None)"
      unfolding Suc.IH [OF set_counter_simps(4) [OF Suc.prems]]
      by (simp only: set_counter_again [OF Suc.prems] add_Suc add_Suc_right)
    finally show ?thesis unfolding ex using le by (simp add: Let_def)
  qed
qed simp

lemma search_header_found:
  assumes "search_header C df n i bh = Some bh1"
  shows "ParentHash bh1 = ParentHash bh \<and> BodyHash bh1 = BodyHash bh \<and> Hash bh1 = Header_ComputeHash C bh1 \<and>
    bytes_compare (Hash bh1) df \<le> 0 \<and> (length (ExtraData bh) = 32 \<longrightarrow> length (ExtraData bh1) = 32)"
  using assms
proof (induction n arbitrary: i bh)
  case (Suc n)
  have eq: "Header_ComputeHash C (b\<lparr>Hash := h\<rparr>) = Header_ComputeHash C b" for b h by (simp add: Header_ComputeHash_def)
  show ?case
  proof (cases "bytes_compare (Header_ComputeHash C (set_counter i bh)) df \<le> 0")
    case True
    with Suc.prems show ?thesis by (auto simp: Let_def eq)
  next
    case False
    with Suc.prems have "search_header C df n (Suc i) (set_counter i bh) = Some bh1" by (simp add: Let_def)
    from Suc.IH [OF this] show ?thesis by auto
  qed
qed simp

text \<open>
  The invariant of the miner: every block has the sizes and the body hash of a decoded block and, when it is a
  result, a correct hash below its difficulty. A job searches a header for its task's body.
\<close>

definition job_ok :: "miner \<Rightarrow> HashType list \<Rightarrow> mine_job \<Rightarrow> bool" where
  "job_ok m D j \<longleftrightarrow> job_task j < length (m_blocks m) \<and> job_difficulty j = D ! job_task j \<and> length (ExtraData (job_header j)) = 32 \<and>
     ParentHash (job_header j) = ParentHash (Header (m_blocks m ! job_task j)) \<and>
     BodyHash (job_header j) = BodyHash (Header (m_blocks m ! job_task j))"

definition wf_miner :: "crypto \<Rightarrow> miner \<Rightarrow> HashType list \<Rightarrow> bool" where
  "wf_miner C m D \<longleftrightarrow> length D = length (m_blocks m) \<and> length (globalNonce m) = 8 \<and> (\<forall>b\<in>set (m_blocks m). valid_block C b) \<and>
     (\<forall>t. curTask m = Some t \<longrightarrow> t < length (m_blocks m) \<and> curDifficulty m = D ! t) \<and>
     (\<forall>j\<in>set (m_jobs m). job_ok m D j) \<and>
     (\<forall>t\<in>set (resChan m). t < length (m_blocks m) \<and> bytes_compare (Hash (Header (m_blocks m ! t))) (D ! t) \<le> 0)"

lemma valid_block_mined:
  assumes "valid_block C b" and "ParentHash bh = ParentHash (Header b)" and "BodyHash bh = BodyHash (Header b)"
    and "Hash bh = Header_ComputeHash C bh" and "length (ExtraData bh) = 32" and "hash32 C"
  shows "valid_block C (b\<lparr>Header := bh\<rparr>)"
  using assms by (auto simp: valid_block_def valid_header_def wf_header_def wf_body_def Block_ComputeHash_def EncodeBlockSelf_def
      Header_ComputeHash_def hash32_def len_defs)

lemma wf_miner_update:
  assumes "wf_miner C m D" and "mine_update C rsp m = (Ok (), m')"
  shows "wf_miner C m' (D @ [curDifficulty m'])"
proof -
  from assms(2) obtain buf df nt nh where "fst (DecodeBlock C buf) = Ok nt"
    and m': "m' = m\<lparr>m_blocks := m_blocks m @ [nt], curTask := Some (length (m_blocks m)), curDifficulty := blit (curDifficulty m) 0 nh\<rparr>"
    by (auto simp: mine_update_def split: response.splits res.splits sum.splits)
  then have "valid_block C nt" by (metis DecodeBlock_valid prod.collapse)
  with assms(1) show ?thesis unfolding m' by (auto simp: wf_miner_def job_ok_def nth_append)
qed

lemma wf_miner_take: "wf_miner C m D \<Longrightarrow> wf_miner C (mine_take thread m) D"
proof -
  assume w: "wf_miner C m D"
  have "length (ExtraData (Header (m_blocks m ! t))) = 32" if "t < length (m_blocks m)" for t
    using w nth_mem [OF that] by (auto simp: wf_miner_def valid_block_def valid_header_def wf_header_def len_defs)
  with w show ?thesis by (auto simp: wf_miner_def mine_take_def Let_def job_ok_def split: option.split)
qed

lemma wf_miner_finish:
  assumes w: "wf_miner C m D" and j: "j \<in> set (m_jobs m)" and C: "hash32 C"
  shows "wf_miner C (mine_finish C j m) D"
proof (cases "mine_header C (job_difficulty j) (job_header j)")
  case None
  with w show ?thesis by (auto simp: mine_finish_def Let_def wf_miner_def job_ok_def dest: notin_set_remove1)
next
  case (Some bh)
  let ?t = "job_task j" and ?b = "(m_blocks m ! job_task j)\<lparr>Header := bh\<rparr>"
  have jo: "job_ok m D j" using w j by (simp add: wf_miner_def)
  note f = search_header_found [OF Some [unfolded mine_header_def]]
  have b: "ParentHash bh = ParentHash (Header (m_blocks m ! ?t))" "BodyHash bh = BodyHash (Header (m_blocks m ! ?t))"
    "length (ExtraData bh) = 32" "bytes_compare (Hash bh) (D ! ?t) \<le> 0"
    using f jo by (auto simp: job_ok_def)
  have t: "?t < length (m_blocks m)" using jo by (simp add: job_ok_def)
  have "valid_block C ?b" by (rule valid_block_mined) (use w t f b C in \<open>simp_all add: wf_miner_def\<close>)
  then have "\<forall>x\<in>set ((m_blocks m)[?t := ?b]). valid_block C x" using w set_update_subset_insert [of "m_blocks m" ?t ?b] by (auto simp: wf_miner_def)
  then show ?thesis using w t b Some
    by (auto simp: mine_finish_def Let_def wf_miner_def job_ok_def nth_list_update dest: notin_set_remove1)
qed

lemma mining_wf: "mining C m D \<Longrightarrow> hash32 C \<Longrightarrow> wf_miner C m D"
proof (induction rule: mining.induct)
  case (mining_start rnd)
  then show ?case by (simp add: new_miner_def wf_miner_def)
next
  case (mining_submit m D r m')
  then show ?case by (auto simp: mine_submit_def wf_miner_def job_ok_def split: list.splits)
qed (simp_all add: wf_miner_update wf_miner_take wf_miner_finish)

text \<open>
  C15: What a miner submits. However its threads are interleaved with each other and with new tasks, and whatever the
  node has answered, every block in the channel of results decodes from its encoding, has correct hashes and a
  hash not above the difficulty that came with its task, so that the consensus accepts it on any state with this
  difficulty and an older last block.
\<close>

theorem mined_blocks_accepted:
  assumes "mining C m D" and "hash32 C" and "t \<in> set (resChan m)"
  shows "\<exists>b. m_blocks m ! t = b \<and> fst (DecodeBlock C (EncodeBlock b)) = Ok b \<and> Hash (Header b) = Header_ComputeHash C (Header b) \<and>
    (\<forall>cs. Difficulty cs = D ! t \<longrightarrow> LastBlockTime cs < Time b \<longrightarrow> fst (CheckAndUpdate b cs))"
proof -
  let ?b = "m_blocks m ! t"
  have w: "wf_miner C m D" by (rule mining_wf [OF assms(1,2)])
  then have v: "valid_block C ?b" and h: "bytes_compare (Hash (Header ?b)) (D ! t) \<le> 0" using assms(3) by (auto simp: wf_miner_def)
  have "fst (DecodeBlock C (EncodeBlock ?b)) = Ok ?b" using DecodeBlock_Encode [OF v, of "[]"] by simp
  moreover have "fst (CheckAndUpdate ?b cs)" if "Difficulty cs = D ! t" "LastBlockTime cs < Time ?b" for cs
    using h that by (auto simp: CheckAndUpdate_def Let_def)
  ultimately show ?thesis using v by (simp add: valid_block_def valid_header_def)
qed

text \<open>A node's answer for a block and its difficulty is the task it was made from.\<close>

lemma mine_update_candidate:
  assumes "valid_block C b" and "length d = 32" and "length (curDifficulty m) = 32"
  shows "mine_update C (CandidateReply (EncodeBlock b) (hex_bytes d)) m =
    (Ok (), m\<lparr>m_blocks := m_blocks m @ [b], curTask := Some (length (m_blocks m)), curDifficulty := d\<rparr>)"
proof -
  have "fst (DecodeBlock C (EncodeBlock b)) = Ok b" using DecodeBlock_Encode [OF assms(1), of "[]"] by simp
  moreover have "blit (curDifficulty m) 0 d = d" using assms(2,3) by (simp add: blit_def)
  ultimately show ?thesis by (simp add: mine_update_def hex_decode_hex_bytes)
qed

lemma mine_header_first:
  assumes "length (ExtraData bh) = 32" and "bytes_compare (Header_ComputeHash C (set_counter 0 bh)) df \<le> 0"
  shows "mine_header C df bh = Some ((set_counter 0 bh)\<lparr>Hash := Header_ComputeHash C (set_counter 0 bh)\<rparr>)"
proof -
  have "(10000000 :: nat) = Suc 9999999" by simp
  then show ?thesis unfolding mine_header_def using assms(2) by (simp only: search_header.simps Let_def if_True)
qed

lemma bytes_compare_top: "length xs = n \<Longrightarrow> bytes_compare xs (replicate n 0xff) \<le> 0"
proof (induction xs arbitrary: n)
  case (Cons x xs)
  have "\<not> 0xff < x" using unsigned_less [of x, where ?'a = nat] by (simp add: word_less_nat_alt)
  with Cons show ?case by auto
qed simp

definition busy_miner :: miner where
  "busy_miner = mine_finish demo_crypto
     \<lparr>job_thread = 3, job_task = 0, job_header = prepare_header (replicate 8 1) 3 1 (Header demo_block), job_difficulty = replicate 32 0xff\<rparr>
     (mine_take 3 (snd (mine_update demo_crypto (CandidateReply (EncodeBlock demo_block) (hex_bytes (replicate 32 0xff))) (new_miner (replicate 8 1)))))"

lemma busy_miner_run: "mining demo_crypto busy_miner [replicate 32 0xff] \<and> 0 \<in> set (resChan busy_miner)"
proof -
  let ?d = "replicate 32 0xff :: bytes"
  let ?j = "\<lparr>job_thread = 3, job_task = 0, job_header = prepare_header (replicate 8 1) 3 1 (Header demo_block), job_difficulty = ?d\<rparr>"
  let ?m = "(new_miner (replicate 8 1))\<lparr>m_blocks := [demo_block], curTask := Some 0, curDifficulty := ?d\<rparr>"
  have up: "mine_update demo_crypto (CandidateReply (EncodeBlock demo_block) (hex_bytes ?d)) (new_miner (replicate 8 1)) = (Ok (), ?m)"
    using mine_update_candidate [OF valid_demo_block, of ?d "new_miner (replicate 8 1)"] by (simp add: new_miner_def zero32_def)
  have "mining demo_crypto ?m ([] @ [curDifficulty ?m])"
    by (rule mining_update [OF mining_start up]) simp
  then have run: "mining demo_crypto (mine_take 3 ?m) [?d]" using mining_take by fastforce
  have j: "?j \<in> set (m_jobs (mine_take 3 ?m))" by (simp add: mine_take_def new_miner_def)
  have l: "length (ExtraData (Header demo_block)) = 32"
    using valid_demo_block by (simp add: valid_block_def valid_header_def wf_header_def len_defs)
  have "mine_header demo_crypto ?d (job_header ?j) \<noteq> None"
    using mine_header_first [of "job_header ?j" demo_crypto ?d] l
    by (simp add: Header_ComputeHash_def bytes_compare_top)
  then have "0 \<in> set (resChan busy_miner)"
    by (auto simp: busy_miner_def up mine_finish_def Let_def split: option.split)
  moreover have "mining demo_crypto busy_miner [?d]"
    unfolding busy_miner_def up snd_conv by (rule mining_finish [OF run j])
  ultimately show ?thesis by blast
qed

theorem mined_blocks_accepted_witness:
  "0 \<in> set (resChan busy_miner) \<and>
   (\<exists>b. m_blocks busy_miner ! 0 = b \<and> fst (DecodeBlock demo_crypto (EncodeBlock b)) = Ok b \<and>
     (\<forall>cs. Difficulty cs = replicate 32 0xff \<longrightarrow> LastBlockTime cs < Time b \<longrightarrow> fst (CheckAndUpdate b cs)))"
  using mined_blocks_accepted [OF conjunct1 [OF busy_miner_run] _ conjunct2 [OF busy_miner_run]] busy_miner_run
  by (auto simp: hash32_def)

section \<open>The test node\<close>

text \<open>The test node counts until the hash fits; a search that never ends has no result.\<close>

partial_function (option) pow_loop :: "crypto \<Rightarrow> HashType \<Rightarrow> u64 \<Rightarrow> BlockHeader \<Rightarrow> BlockHeader option" where
  "pow_loop C df i bh =
     (if 0 < bytes_compare (Hash bh) df
      then let bh1 = bh\<lparr>ExtraData := blit (ExtraData bh) 0 (le_bytes 8 i)\<rparr> in
           pow_loop C df (i + 1) (bh1\<lparr>Hash := Header_ComputeHash C bh1\<rparr>)
      else Some bh)"

definition testnode_turn :: "'c cache_pkg \<Rightarrow> crypto \<Rightarrow> PubkeyType \<Rightarrow> u64 \<Rightarrow> ('c ChainNode, u64) go" where
  "testnode_turn K C pubkey now =
     bindG (GetBlockCandidate K C now (PubkeyToAddress C pubkey)) (\<lambda>b.
     bindG (attempt (GetHighest K C)) (\<lambda>hi.
     case hi of
       None \<Rightarrow> panic
     | Some (_, cs) \<Rightarrow>
         (case pow_loop C (Difficulty cs) 0 (Header b) of
            None \<Rightarrow> diverge
          | Some bh \<Rightarrow> bindG (attempt (SubmitBlock K C (b\<lparr>Header := bh\<rparr>))) (\<lambda>_. ret (Time b)))))"

definition pow_header :: "crypto \<Rightarrow> u64 \<Rightarrow> BlockHeader \<Rightarrow> BlockHeader" where
  "pow_header C i bh =
     (let bh1 = bh\<lparr>ExtraData := blit (ExtraData bh) 0 (le_bytes 8 i)\<rparr> in bh1\<lparr>Hash := Header_ComputeHash C bh1\<rparr>)"

lemma pow_loop_step:
  "pow_loop C df i bh = (if 0 < bytes_compare (Hash bh) df then pow_loop C df (i + 1) (pow_header C i bh) else Some bh)"
  by (subst pow_loop.simps) (simp add: pow_header_def Let_def)

lemma pow_header_again: "length (ExtraData bh) = 32 \<Longrightarrow> pow_header C i (pow_header C j bh) = pow_header C i bh"
  by (simp add: pow_header_def Let_def Header_ComputeHash_def blit_def)

lemma pow_header_simps [simp]:
  "ParentHash (pow_header C i bh) = ParentHash bh" "BodyHash (pow_header C i bh) = BodyHash bh"
  "Hash (pow_header C i bh) = Header_ComputeHash C (pow_header C i bh)"
  "length (ExtraData bh) = 32 \<Longrightarrow> length (ExtraData (pow_header C i bh)) = 32"
  by (simp_all add: pow_header_def Let_def Header_ComputeHash_def)

lemma pow_loop_from:
  assumes "length (ExtraData bh) = 32" and "bytes_compare (Hash (pow_header C (i + of_nat n) bh)) df \<le> 0"
  shows "\<exists>bh1. pow_loop C df i bh = Some bh1 \<and> bytes_compare (Hash bh1) df \<le> 0 \<and> (bh1 = bh \<or> (\<exists>j. bh1 = pow_header C j bh))"
  using assms
proof (induction n arbitrary: i bh)
  case 0
  then show ?case by (cases "0 < bytes_compare (Hash bh) df") (auto simp: pow_loop_step [of C df i bh] pow_loop_step [of C df "i + 1"])
next
  case (Suc n)
  show ?case
  proof (cases "0 < bytes_compare (Hash bh) df")
    case True
    have "bytes_compare (Hash (pow_header C (i + 1 + of_nat n) (pow_header C i bh))) df \<le> 0"
      using Suc.prems by (simp only: pow_header_again) (simp add: add.assoc)
    from Suc.IH [OF _ this] Suc.prems(1) True show ?thesis
      by (auto simp: pow_loop_step [of C df i bh] pow_header_again)
  qed (simp add: pow_loop_step [of C df i bh])
qed

text \<open>
  The search of the test node ends whenever it can: when some value of the eight bytes gives a hash
  not above the difficulty, the loop returns, with a header for the same parent and body whose hash is right and
  not above the difficulty.
\<close>

lemma pow_loop_returns:
  assumes "length (ExtraData bh) = 32" and "Hash bh = Header_ComputeHash C bh"
    and "\<exists>i. bytes_compare (Hash (pow_header C i bh)) df \<le> 0"
  shows "\<exists>bh1. pow_loop C df 0 bh = Some bh1 \<and> bytes_compare (Hash bh1) df \<le> 0 \<and> Hash bh1 = Header_ComputeHash C bh1 \<and>
    ParentHash bh1 = ParentHash bh \<and> BodyHash bh1 = BodyHash bh \<and> length (ExtraData bh1) = 32"
proof -
  from assms(3) obtain i where "bytes_compare (Hash (pow_header C i bh)) df \<le> 0" by blast
  then have "bytes_compare (Hash (pow_header C (0 + of_nat (unat i)) bh)) df \<le> 0" by simp
  from pow_loop_from [OF assms(1) this] assms(1,2) show ?thesis by auto
qed

end
