(* ===== verification/Tools.thy ===== *)
theory Tools
  imports Mine
begin

text \<open>
  The small programs under \<^verbatim>\<open>cmd/\<close>: the generator of a chain's configuration and the configuration of the test
  node, the transactions of the stress test, the reader of blocks behind the throughput report, and
  the program that trims an ELF file in place. Flags, files, HTTP and log lines are left out.

  The lemmas show that a configuration that has been generated starts a node whose only funded account is the
  key that was generated with it.
\<close>

section \<open>Configurations\<close>

text \<open>\<open>fill\<close> is the byte that the hash of the parent consists of, \<open>df\<close> the difficulty, \<open>now\<close> the time.\<close>

definition genesis_template :: "crypto \<Rightarrow> u8 \<Rightarrow> PubkeyType \<Rightarrow> u64 \<Rightarrow> Block" where
  "genesis_template C fill pubkey now =
     FillHash C \<lparr>Header = \<lparr>Hash = zero32, ParentHash = replicate HashLen fill, BodyHash = zero32, ExtraData = zero32\<rparr>,
                 Miner = PubkeyToAddress C pubkey, Time = now, Txs = []\<rparr>"

definition genesis_config :: "crypto \<Rightarrow> u16 \<Rightarrow> u8 \<Rightarrow> HashType \<Rightarrow> PubkeyType \<Rightarrow> u64 \<Rightarrow> ChainGlobalConfig option" where
  "genesis_config C chain fill df pubkey now =
     (let b = genesis_template C fill pubkey now; bi = 1000000000 in
      case pow_loop C df 0 (Header b) of
        None \<Rightarrow> None
      | Some bh \<Rightarrow>
          Some \<lparr>ChainId = chain, GenesisBlock = b\<lparr>Header := bh\<rparr>,
                GenesisConsensusState = \<lparr>Height_cs = - 1, LastBlockTime = 0, LastKeyBlockTime = 0, Difficulty = df\<rparr>,
                GenesisBlockReward = bi * 10000000, BlockReward = bi, Tip1EnableHeight = 0\<rparr>)"

definition generated_config :: "crypto \<Rightarrow> PubkeyType \<Rightarrow> u64 \<Rightarrow> ChainGlobalConfig option" where
  "generated_config C pubkey now = genesis_config C 8888 0x22 ([0, 0, 0, 0xf] @ replicate 28 0) pubkey now"

definition testnode_config :: "crypto \<Rightarrow> PubkeyType \<Rightarrow> u64 \<Rightarrow> ChainGlobalConfig option" where
  "testnode_config C pubkey now = genesis_config C 4 0xcc (1 # replicate 31 0) pubkey now"

section \<open>Other programs\<close>

text \<open>The transaction that account \<open>j\<close> of \<open>n\<close> sends in round \<open>i\<close> of the stress test.\<close>

definition stress_tx :: "crypto \<Rightarrow> (PubkeyType \<times> PrivkeyType) list \<Rightarrow> nat \<Rightarrow> nat \<Rightarrow> Transaction" where
  "stress_tx C accounts i j =
     (let k = (i + j + 1) mod length accounts in
      Tx_Sign C (snd (accounts ! j))
        \<lparr>TxType = 1, SenderPubkey = fst (accounts ! j), SenderSig = replicate SigLen 0,
         Receiver = PubkeyToAddress C (fst (accounts ! k)), Value = 0, GasLimit = 0, Fee = 0, Nonce = of_nat i, Data = []\<rparr>)"

definition stress_requests :: "crypto \<Rightarrow> (PubkeyType \<times> PrivkeyType) list \<Rightarrow> nat \<Rightarrow> request list" where
  "stress_requests C accounts m =
     concat (map (\<lambda>i. map (\<lambda>j. ReqSubmitTx (EncodeTx (stress_tx C accounts i j))) [0..<length accounts]) [0..<m])"

text \<open>The reader of a block, from the node's answer, and the report's window of the last ten blocks.\<close>

definition calctps_getBlock :: "crypto \<Rightarrow> int \<Rightarrow> response \<Rightarrow> Block res" where
  "calctps_getBlock C n rsp =
     (case rsp of
        BlockReply buf cons ht \<Rightarrow>
          if ht \<noteq> n then Panic
          else (case fst (DecodeBlock C buf) of Ok b \<Rightarrow> Ok b | Diverge \<Rightarrow> Diverge | _ \<Rightarrow> Panic)
      | _ \<Rightarrow> Panic)"

definition calctps_window :: "Block \<Rightarrow> Block list \<Rightarrow> (nat \<times> u64) option \<times> Block list" where
  "calctps_window cur s =
     (let s1 = s @ [cur] in
      if 10 < length s1
      then let s2 = tl s1 in (Some (sum_list (map (\<lambda>t. length (Txs t)) s2), Time (last s2) - Time (hd s1)), s2)
      else (None, s1))"

definition trimelf :: "bytes \<Rightarrow> bytes res" where
  "trimelf b =
     (case ParseELF b of
        Ok elf \<Rightarrow> (case TrimELF b elf [] (ucast (Entry elf)) of Ok b2 \<Rightarrow> Ok b2 | Diverge \<Rightarrow> Diverge | _ \<Rightarrow> Panic)
      | Diverge \<Rightarrow> Diverge | _ \<Rightarrow> Panic)"

section \<open>A generated chain starts\<close>

lemma valid_genesis_template:
  assumes "hash32 C"
  shows "valid_block C (genesis_template C fill pubkey now)"
  unfolding genesis_template_def
  by (rule valid_FillHash [OF assms]) (use assms in \<open>simp_all add: wf_body_def PubkeyToAddress_def hash32_def len_defs\<close>)

lemma ExecuteBlock_empty:
  assumes cb: "safe_callback cb" and w: "writable h s" and "Txs b = []"
  obtains h' where "ExecuteBlock C cb ctx b reward s h = (Ok (), h')"
    "acct h' s = (acct h s)(Miner b := (acct h s (Miner b))\<lparr>Balance := Balance (acct h s (Miner b)) + reward\<rparr>)"
proof -
  let ?i = "(acct h s (Miner b))\<lparr>Balance := Balance (acct h s (Miner b)) + reward\<rparr>"
  obtain h2 where 2: "SetAccountInfo s (Miner b) ?i h = (Ok (), h2)" "acct h2 s = (acct h s)(Miner b := ?i)" "writable h2 s"
    using accounts.set_wr [OF w] by metis
  obtain h3 where 3: "notify_transfer cb s zero32 (Miner b) reward [] None ctx h2 = (Ok (), h3)" "acct h3 s = acct h2 s" "writable h3 s"
    using silentD [OF notify_transfer_silent [OF cb] 2(3)] by metis
  obtain h4 where 4: "notify_block cb s b ctx h3 = (Ok (), h4)" "acct h4 s = acct h3 s"
    using silentD [OF notify_block_silent [OF cb] 3(3)] by metis
  have "ExecuteBlock C cb ctx b reward s h = (Ok (), h4)"
    using assms(3) 2(1) 3(1) 4(1) accounts.get_run [OF w] by (simp add: ExecuteBlock_def bindG_Ok ret_run)
  with 2(2) 3(2) 4(2) show thesis by (intro that [of h4]) simp_all
qed

lemma acct_zero: "slice_view h s = (\<lambda>_. zero_data) \<Longrightarrow> acct h s = (\<lambda>_. \<lparr>Balance = 0, AccountNonce = 0\<rparr>)"
  using acct_demo_heap view_demo_heap by (simp add: acct_def fun_eq_iff)

text \<open>
  C16: A generated chain starts. When some value of the eight bytes gives the template of the genesis block a hash
  not above the difficulty, the configuration is generated, and a node that is started with it accepts the
  genesis block, at height 0 and in a state where the miner's account holds ten million coins and every other account
  is empty. The block decodes from its bytes.
\<close>

theorem generated_chain_starts:
  assumes "hash32 C" and "now \<noteq> 0" and "safe_callback cb" and "wf_heap h"
    and "\<exists>i. bytes_compare (Hash (pow_header C i (Header (genesis_template C fill pubkey now)))) df \<le> 0"
  shows "\<exists>g b cs sl h'. genesis_config C chain fill df pubkey now = Some g \<and> GenesisBlock g = b \<and>
    genesis_data C cb g h = (Ok (sl, EncodeConsensus cs @ EncodeBlock b), h') \<and>
    Height_cs cs = 0 \<and> LastBlockTime cs = now \<and> fst (DecodeBlock C (EncodeBlock b)) = Ok b \<and>
    acct h' sl = (\<lambda>_. \<lparr>Balance = 0, AccountNonce = 0\<rparr>)(PubkeyToAddress C pubkey := \<lparr>Balance = 10 ^ 16, AccountNonce = 0\<rparr>)"
proof -
  let ?t = "genesis_template C fill pubkey now"
  have t: "valid_block C ?t" by (rule valid_genesis_template [OF assms(1)])
  then have h: "length (ExtraData (Header ?t)) = 32" "Hash (Header ?t) = Header_ComputeHash C (Header ?t)"
    by (simp_all add: valid_block_def valid_header_def wf_header_def len_defs)
  from pow_loop_returns [OF h assms(5)] obtain bh where bh: "pow_loop C df 0 (Header ?t) = Some bh" "bytes_compare (Hash bh) df \<le> 0"
    "Hash bh = Header_ComputeHash C bh" "ParentHash bh = ParentHash (Header ?t)" "BodyHash bh = BodyHash (Header ?t)"
    "length (ExtraData bh) = 32" by blast
  define b where "b = ?t\<lparr>Header := bh\<rparr>"
  have vb: "valid_block C b" unfolding b_def by (rule valid_block_mined [OF t bh(4,5,3,6) assms(1)])
  have fields: "Txs b = []" "Time b = now" "Miner b = PubkeyToAddress C pubkey" "Header b = bh"
    by (simp_all add: b_def genesis_template_def FillHash_def Let_def)
  obtain g where g: "genesis_config C chain fill df pubkey now = Some g" "GenesisBlock g = b" "GenesisBlockReward g = 10 ^ 16"
    "GenesisConsensusState g = \<lparr>Height_cs = - 1, LastBlockTime = 0, LastKeyBlockTime = 0, Difficulty = df\<rparr>"
    by (simp add: genesis_config_def Let_def bh(1) b_def)
  obtain sl h1 where s: "EmptySlice h = (Ok sl, h1)" "writable h1 sl" "slice_view h1 sl = (\<lambda>_. zero_data)"
    using EmptySlice_run [OF assms(4)] by metis
  obtain h2 where x: "ExecuteBlock C cb (exec_context g 0 now (Miner b) df) b (10 ^ 16) sl h1 = (Ok (), h2)"
    "acct h2 sl = (acct h1 sl)(Miner b := (acct h1 sl (Miner b))\<lparr>Balance := Balance (acct h1 sl (Miner b)) + 10 ^ 16\<rparr>)"
    by (rule ExecuteBlock_empty [OF assms(3) s(2) fields(1)])
  obtain cs where cs: "CheckAndUpdate b (GenesisConsensusState g) = (True, cs)" "Height_cs cs = 0" "LastBlockTime cs = now"
    using bh(2) assms(2) by (simp add: CheckAndUpdate_def Let_def fields g(4) i64_def word_neq_0_conv)
  have "genesis_data C cb g h = (Ok (sl, EncodeConsensus cs @ EncodeBlock b), h2)"
    using vb s(1) x(1) cs(1)
    by (simp add: genesis_data_def g fields(2,4) Let_def valid_block_def valid_header_def bindG_Ok ret_run)
  moreover have "acct h2 sl = (\<lambda>_. \<lparr>Balance = 0, AccountNonce = 0\<rparr>)(PubkeyToAddress C pubkey := \<lparr>Balance = 10 ^ 16, AccountNonce = 0\<rparr>)"
    using x(2) acct_zero [OF s(3)] by (simp add: fields(3))
  moreover have "fst (DecodeBlock C (EncodeBlock b)) = Ok b" using DecodeBlock_Encode [OF vb, of "[]"] by simp
  ultimately show ?thesis using g(1,2) cs(2,3) by blast
qed

theorem generated_chain_starts_witness:
  "\<exists>g sl dat h'. testnode_config const_crypto zero32 5 = Some g \<and>
     genesis_data const_crypto (Some (ExplorerExecutionCallback const_crypto)) g demo_heap = (Ok (sl, dat), h') \<and>
     Balance (acct h' sl (PubkeyToAddress const_crypto zero32)) = 10 ^ 16"
proof -
  have 1: "hash32 const_crypto" by (simp add: hash32_def const_crypto_def)
  have 2: "wf_heap demo_heap" using writable_demo_heap by (simp add: writable_def)
  have "bytes_compare (Hash (pow_header const_crypto 0 bh)) (1 # replicate 31 0) \<le> 0" for bh
    by (simp add: Header_ComputeHash_def const_crypto_def zero32_def numeral_eq_Suc)
  then have 3: "\<exists>i. bytes_compare (Hash (pow_header const_crypto i (Header (genesis_template const_crypto 0xcc zero32 5)))) (1 # replicate 31 0) \<le> 0"
    by blast
  have "(5 :: u64) \<noteq> 0" by simp
  from generated_chain_starts [OF 1 this safe_explorer 2 3, of 4] show ?thesis
    unfolding testnode_config_def by fastforce
qed

text \<open>
  The transactions of the stress test have no gas. With the configurations above, which never leave the rules of
  \<^verbatim>\<open>Tip1\<close>, each of them is refused when a block is executed, whatever the sender's account holds.
\<close>

lemma stress_tx_refused:
  assumes "Some g \<in> {generated_config C pubkey now, testnode_config C pubkey now}" and "0 \<le> ht"
  shows "tx_check C (exec_context g ht tm m d) (stress_tx C accounts i j) ai \<noteq> None"
proof -
  have "Tip1EnableHeight g = 0"
    using assms(1) by (auto simp: generated_config_def testnode_config_def genesis_config_def Let_def split: option.splits)
  then show ?thesis
    using assms(2) by (simp add: tx_check_def exec_context_def stress_tx_def Let_def Tx_Sign_def GasTransfer_def)
qed

end
