(* ===== verification/Assembler.thy ===== *)
theory Assembler
  imports Strconv Cpu "HOL-Library.Multiset"
begin

text \<open>
  The built-in assembler, \<^verbatim>\<open>BuiltinAsmToBytes\<close> of \<^verbatim>\<open>vm/utils.go\<close>, with which the wallet turns its calls of
  contracts into code. A Go string is its characters of eight bits; every error of the assembler is a panic.
  Instructions that refer to labels are completed in a second pass that ranges over a Go map: its
  order is an argument, \<open>ord\<close>.

  The lemmas show that the order does not matter.
\<close>

section \<open>Operands\<close>

definition try_res :: "'a res \<Rightarrow> ('a \<Rightarrow> 'b res) \<Rightarrow> 'b res" where
  "try_res r f = (case r of Ok x \<Rightarrow> f x | Err e \<Rightarrow> Err e | Panic \<Rightarrow> Panic | Diverge \<Rightarrow> Diverge)"

lemma try_res_simps [simp]:
  "try_res (Ok x) f = f x" "try_res (Err e) f = Err e" "try_res Panic f = Panic" "try_res Diverge f = Diverge"
  by (simp_all add: try_res_def)

lemma try_res_eq_Ok: "try_res r f = Ok y \<longleftrightarrow> (\<exists>x. r = Ok x \<and> f x = Ok y)"
  by (cases r) simp_all

lemma try_res_cong: "(\<And>x. r = Ok x \<Longrightarrow> f x = g x) \<Longrightarrow> try_res r f = try_res r g"
  by (cases r) simp_all

definition i32 :: "int \<Rightarrow> int" where
  "i32 x = sint (word_of_int x :: u32)"

text \<open>\<^verbatim>\<open>strings.Split\<close> with a separator of one character, \<^verbatim>\<open>strings.Trim\<close> of blanks, \<^verbatim>\<open>strings.Join\<close> with line feeds.\<close>

fun split_on :: "char \<Rightarrow> string \<Rightarrow> string list" where
  "split_on c [] = [[]]"
| "split_on c (x # xs) =
     (if x = c then [] # split_on c xs
      else case split_on c xs of [] \<Rightarrow> [[x]] | w # ws \<Rightarrow> (x # w) # ws)"

definition trim_blanks :: "string \<Rightarrow> string" where
  "trim_blanks s = rev (dropWhile ((=) CHR '' '') (rev (dropWhile ((=) CHR '' '') s)))"

fun join_lines :: "string list \<Rightarrow> string" where
  "join_lines [] = []"
| "join_lines [l] = l"
| "join_lines (l # ls) = l @ CHR 0x0A # join_lines ls"

definition arg_at :: "nat \<Rightarrow> 'a list \<Rightarrow> 'a res" where
  "arg_at i xs = (if i < length xs then Ok (xs ! i) else Panic)"

definition asm_word :: "string \<Rightarrow> u32 res" where
  "asm_word x = (case Atoi (string_bytes x) of Inl _ \<Rightarrow> Panic | Inr r \<Rightarrow> Ok (word_of_int r))"

definition asm_reg :: "string \<Rightarrow> u32 res" where
  "asm_reg x =
     (if x = ''zero'' then Ok 0
      else if x = ''ra'' then Ok 1
      else if x = ''sp'' then Ok 2
      else if x = ''gp'' then Ok 3
      else if x = ''tp'' then Ok 4
      else if x = ''fp'' then Ok 8
      else case x of
          [] \<Rightarrow> Panic
        | c # ds \<Rightarrow>
            if c = CHR ''x'' then asm_word ds
            else if c = CHR ''a'' then try_res (asm_word ds) (\<lambda>t. Ok (10 + t))
            else if c = CHR ''t'' then try_res (asm_word ds) (\<lambda>t. Ok (if t < 3 then 5 + t else 25 + t))
            else if c = CHR ''s'' then try_res (asm_word ds) (\<lambda>t. Ok (if t < 2 then 8 + t else 16 + t))
            else Panic)"

definition parseMem :: "string \<Rightarrow> (int \<times> u32) res" where
  "parseMem x =
     (if x = [] \<or> last x \<noteq> CHR '')'' then Panic
      else case split_on CHR ''('' (butlast x) of
          [off, base] \<Rightarrow> try_res (asm_word off) (\<lambda>w. try_res (asm_reg base) (\<lambda>r. Ok (sint w, r)))
        | _ \<Rightarrow> Panic)"

section \<open>Instructions\<close>

text \<open>
  \<open>li\<close> by the size of the constant: one instruction, two, or a jump over the constant itself and a load; \<open>n\<close> is the
  number of words so far, because the constant has to lie at a multiple of eight.
\<close>

definition asm_li :: "u32 \<Rightarrow> int \<Rightarrow> nat \<Rightarrow> u32 list res" where
  "asm_li rd v n =
     (if v < 2048 \<and> - 2048 \<le> v then try_res (genIType 0b0010011 rd 0b000 0 v) (\<lambda>a. Ok [a])
      else if v < 2 ^ 31 \<and> - (2 ^ 31) \<le> v then
        let u0 = v mod 4096; u = (if 2048 \<le> u0 then u0 - 4096 else u0); v2 = v - u in
        try_res (genUType 0b0110111 rd (i32 v2)) (\<lambda>a.
        if u = 0 then Ok [a] else try_res (genIType 0b0011011 rd 0b000 rd u) (\<lambda>b. Ok [a, b]))
      else
        let vlo = ucast (word_of_int v :: u64); vhi = ucast (drop_bit 32 (word_of_int v :: u64)) in
        try_res (if n mod 2 = 0 then Ok [] else try_res (genIType 0b0010011 0 0b000 0 0) (\<lambda>p. Ok [p])) (\<lambda>pad.
        try_res (genUType 0b0010111 rd 0) (\<lambda>a.
        try_res (genJType 0b1101111 0 12) (\<lambda>b.
        try_res (genIType 0b0000011 rd 0b011 rd 8) (\<lambda>c. Ok (pad @ [a, b, vlo, vhi, c]))))))"

definition asm_insn :: "string \<Rightarrow> string list \<Rightarrow> nat \<Rightarrow> u32 list res" where
  "asm_insn op args n =
     (let reg = (\<lambda>i. try_res (arg_at i args) asm_reg);
          imm = (\<lambda>i. try_res (arg_at i args) (\<lambda>x. try_res (asm_word x) (\<lambda>w. Ok (sint w))));
          mem = (\<lambda>i. try_res (arg_at i args) parseMem);
          one = (\<lambda>r. try_res r (\<lambda>w. Ok [w])) in
      if op = ''mv'' then try_res (reg 0) (\<lambda>rd. try_res (reg 1) (\<lambda>rs1. one (genIType 0b0010011 rd 0b000 rs1 0)))
      else if op = ''li'' then
        try_res (reg 0) (\<lambda>rd. try_res (arg_at 1 args) (\<lambda>x.
        case Atoi (string_bytes x) of Inl _ \<Rightarrow> Panic | Inr v \<Rightarrow> asm_li rd v n))
      else if op = ''srli'' then
        try_res (reg 0) (\<lambda>rd. try_res (reg 1) (\<lambda>rs1. try_res (imm 2) (\<lambda>i. one (genIType 0b0010011 rd 0b101 rs1 i))))
      else if op = ''jalr'' then
        try_res (if length args = 1 then try_res (reg 0) (\<lambda>r. Ok (1, r))
                 else try_res (reg 0) (\<lambda>rd. try_res (reg 1) (\<lambda>rs1. Ok (rd, rs1)))) (\<lambda>(rd, rs1).
        one (genIType 0b1100111 rd 0b000 rs1 0))
      else if op = ''ret'' then one (genIType 0b1100111 0 0b000 1 0)
      else if op = ''addi'' then
        try_res (reg 0) (\<lambda>rd. try_res (reg 1) (\<lambda>rs1. try_res (imm 2) (\<lambda>i. one (genIType 0b0010011 rd 0b000 rs1 i))))
      else if op = ''sub'' then
        try_res (reg 0) (\<lambda>rd. try_res (reg 1) (\<lambda>rs1. try_res (reg 2) (\<lambda>rs2. one (genRType 0b0110011 rd 0b000 rs1 rs2 0b0100000))))
      else if op = ''lb'' then
        try_res (mem 1) (\<lambda>(off, rs1). try_res (reg 0) (\<lambda>rd. one (genIType 0b0000011 rd 0b000 rs1 off)))
      else if op = ''ld'' then
        try_res (mem 1) (\<lambda>(off, rs1). try_res (reg 0) (\<lambda>rd. one (genIType 0b0000011 rd 0b011 rs1 off)))
      else if op = ''sb'' then
        try_res (mem 1) (\<lambda>(off, rs1). try_res (reg 0) (\<lambda>rs2. one (genSType 0b0100011 0b000 rs1 rs2 off)))
      else if op = ''sd'' then
        try_res (mem 1) (\<lambda>(off, rs1). try_res (reg 0) (\<lambda>rs2. one (genSType 0b0100011 0b011 rs1 rs2 off)))
      else Panic)"

section \<open>The two passes\<close>

record laterInsn =
  later_op :: string
  later_args :: "string list"

record assembly =
  asm_rest :: "u32 list"
  asm_tbuf :: bytes
  asm_labels :: "string \<rightharpoonup> nat"
  asm_later :: "(nat \<times> laterInsn) list"

definition split_insn :: "string \<Rightarrow> laterInsn" where
  "split_insn line =
     (if CHR '' '' \<in> set line
      then \<lparr>later_op = takeWhile ((\<noteq>) CHR '' '') line,
            later_args = map trim_blanks (split_on CHR '','' (tl (dropWhile ((\<noteq>) CHR '' '') line)))\<rparr>
      else \<lparr>later_op = line, later_args = []\<rparr>)"

definition asm_line :: "string \<Rightarrow> assembly \<Rightarrow> assembly res" where
  "asm_line line a =
     (let t = trim_blanks line; n = length (asm_rest a) in
      if t = [] then Ok a
      else if last t = CHR '':'' then Ok (a\<lparr>asm_labels := (asm_labels a)(butlast t \<mapsto> n)\<rparr>)
      else if hd t = CHR ''.'' then
        if length t < 6 \<or> sub_bytes 1 6 t \<noteq> ''byte '' then Panic
        else try_res (asm_word (drop 6 t)) (\<lambda>w.
          let tb = asm_tbuf a @ [ucast w] in
          Ok (if length tb = 4 then a\<lparr>asm_rest := asm_rest a @ [le_word tb], asm_tbuf := []\<rparr> else a\<lparr>asm_tbuf := tb\<rparr>))
      else if asm_tbuf a \<noteq> [] then Panic
      else
        let lin = split_insn line in
        if later_op lin = ''la''
        then Ok (a\<lparr>asm_later := asm_later a @ [(n, lin)], asm_rest := asm_rest a @ [0, 0]\<rparr>)
        else if later_op lin \<in> {''j'', ''beq'', ''bne''}
        then Ok (a\<lparr>asm_later := asm_later a @ [(n, lin)], asm_rest := asm_rest a @ [0]\<rparr>)
        else try_res (asm_insn (later_op lin) (later_args lin) n) (\<lambda>ws. Ok (a\<lparr>asm_rest := asm_rest a @ ws\<rparr>)))"

fun asm_lines :: "string list \<Rightarrow> assembly \<Rightarrow> assembly res" where
  "asm_lines [] a = Ok a"
| "asm_lines (l # ls) a = try_res (asm_line l a) (asm_lines ls)"

text \<open>A label that is not defined counts as the start, as an absent key of a Go map reads as zero.\<close>

definition label_diff :: "(string \<rightharpoonup> nat) \<Rightarrow> nat \<Rightarrow> string \<Rightarrow> int" where
  "label_diff labels p l = i32 ((int (case labels l of None \<Rightarrow> 0 | Some n \<Rightarrow> n) - int p) * 4)"

definition patch_words :: "(string \<rightharpoonup> nat) \<Rightarrow> nat \<times> laterInsn \<Rightarrow> u32 list res" where
  "patch_words labels pl =
     (let p = fst pl; op = later_op (snd pl); args = later_args (snd pl);
          reg = (\<lambda>i. try_res (arg_at i args) asm_reg);
          diff = (\<lambda>i. try_res (arg_at i args) (\<lambda>l. Ok (label_diff labels p l)));
          branch = (\<lambda>funct3. try_res (diff 2) (\<lambda>d. try_res (reg 0) (\<lambda>rs1. try_res (reg 1) (\<lambda>rs2.
            try_res (genBType 0b1100011 funct3 rs1 rs2 d) (\<lambda>w. Ok [w]))))) in
      if op = ''la'' then
        try_res (diff 1) (\<lambda>d. try_res (reg 0) (\<lambda>rd.
        try_res (genUType 0b0010111 rd 0) (\<lambda>a. try_res (genIType 0b0010011 rd 0b000 rd d) (\<lambda>b. Ok [a, b]))))
      else if op = ''j'' then try_res (diff 0) (\<lambda>d. try_res (genJType 0b1101111 0 d) (\<lambda>w. Ok [w]))
      else if op = ''beq'' then branch 0b000
      else if op = ''bne'' then branch 0b001
      else Panic)"

definition patch :: "(string \<rightharpoonup> nat) \<Rightarrow> nat \<times> laterInsn \<Rightarrow> u32 list res \<Rightarrow> u32 list res" where
  "patch labels pl r = try_res r (\<lambda>ws. try_res (patch_words labels pl) (\<lambda>xs. Ok (blit ws (fst pl) xs)))"

definition BuiltinAsmToBytes :: "((nat \<times> laterInsn) list \<Rightarrow> (nat \<times> laterInsn) list) \<Rightarrow> string \<Rightarrow> bytes res" where
  "BuiltinAsmToBytes ord asm =
     try_res (asm_lines (split_on CHR 0x0A (''_start:'' @ CHR 0x0A # asm))
       \<lparr>asm_rest = [], asm_tbuf = [], asm_labels = Map.empty, asm_later = []\<rparr>) (\<lambda>a.
     try_res (fold (patch (asm_labels a)) (ord (asm_later a)) (Ok (asm_rest a))) (\<lambda>ws.
     Ok (concat (map (le_bytes 4) ws))))"

section \<open>The order of the second pass\<close>

text \<open>The assembler returns or panics, it has no other outcome.\<close>

definition plain :: "'a res \<Rightarrow> bool" where
  "plain r \<longleftrightarrow> r = Panic \<or> (\<exists>x. r = Ok x)"

lemma plain_basic [simp]: "plain (Ok x)" "plain Panic"
  by (simp_all add: plain_def)

lemma plain_try: "plain r \<Longrightarrow> (\<And>x. r = Ok x \<Longrightarrow> plain (f x)) \<Longrightarrow> plain (try_res r f)"
  by (auto simp: plain_def)

lemma plain_cases:
  "plain a \<Longrightarrow> plain b \<Longrightarrow> plain (if c then a else b)"
  "(\<And>x y. plain (g x y)) \<Longrightarrow> plain (case p of (x, y) \<Rightarrow> g x y)"
  "plain b \<Longrightarrow> (\<And>v. plain (h v)) \<Longrightarrow> plain (case e of Inl _ \<Rightarrow> b | Inr v \<Rightarrow> h v)"
  by (simp_all split: prod.split sum.split)

lemma plain_arg_at: "plain (arg_at i xs)"
  by (simp add: arg_at_def)

lemma plain_asm_word: "plain (asm_word x)"
  by (simp add: asm_word_def split: sum.split)

lemma plain_asm_reg: "plain (asm_reg x)"
  by (auto simp: asm_reg_def intro: plain_asm_word plain_try split: list.split)

lemma plain_gen:
  "plain (genRType a b c d e f)" "plain (genIType a b c d i)" "plain (genSType a b c d i)" "plain (genBType a b c d i)"
  "plain (genUType a b i)" "plain (genJType a b i)"
  by (simp_all add: genRType_def genIType_def genSType_def genBType_def genUType_def genJType_def Let_def)

lemma plain_patch_words: "plain (patch_words labels pl)"
  by (simp add: patch_words_def Let_def plain_try plain_arg_at plain_asm_reg plain_gen)

lemma plain_parseMem: "plain (parseMem x)"
  by (simp add: parseMem_def plain_try plain_asm_word plain_asm_reg split: list.split)

lemma plain_asm_li: "plain (asm_li rd v n)"
  by (simp add: asm_li_def Let_def plain_try plain_gen)

lemma plain_asm_insn: "plain (asm_insn op args n)"
  unfolding asm_insn_def Let_def
  by (intro plain_cases plain_try plain_arg_at plain_asm_reg plain_asm_word plain_parseMem plain_asm_li plain_gen plain_basic)

lemma plain_asm_line: "plain (asm_line l a)"
  by (simp add: asm_line_def Let_def plain_try plain_asm_word plain_asm_insn)

lemma plain_asm_lines: "plain (asm_lines ls a)"
  by (induction ls arbitrary: a) (simp_all add: plain_try plain_asm_line)

lemma plain_patch: "plain r \<Longrightarrow> plain (patch labels pl r)"
  by (simp add: patch_def plain_try plain_patch_words)

lemma plain_patches: "plain r \<Longrightarrow> plain (fold (patch labels) pls r)"
  by (induction pls arbitrary: r) (simp_all add: plain_patch)

lemma plain_BuiltinAsmToBytes: "plain (BuiltinAsmToBytes ord asm)"
  unfolding BuiltinAsmToBytes_def by (intro plain_try plain_asm_lines plain_patches) simp_all

text \<open>An unfinished instruction takes one word, or two when it loads an address.\<close>

definition later_span :: "nat \<times> laterInsn \<Rightarrow> nat set" where
  "later_span pl = {fst pl ..< fst pl + (if later_op (snd pl) = ''la'' then 2 else 1)}"

lemma patch_words_span: "patch_words labels pl = Ok xs \<Longrightarrow> {fst pl ..< fst pl + length xs} = later_span pl"
  by (auto simp: patch_words_def later_span_def Let_def try_res_eq_Ok split: if_splits)

lemma length_blit_any: "length (blit ws p xs) = length ws"
  by (simp add: blit_def min_def)

lemma nth_blit_any: "i < length ws \<Longrightarrow> blit ws p xs ! i = (if i \<in> {p ..< p + length xs} then xs ! (i - p) else ws ! i)"
  by (auto simp: blit_def nth_append min_def)

lemma blit_commute:
  assumes "{p ..< p + length xs} \<inter> {q ..< q + length ys} = {}"
  shows "blit (blit ws p xs) q ys = blit (blit ws q ys) p xs"
proof (rule nth_equalityI)
  fix i assume "i < length (blit (blit ws p xs) q ys)"
  then have i: "i < length ws" by (simp add: length_blit_any)
  have "\<not> (i \<in> {p ..< p + length xs} \<and> i \<in> {q ..< q + length ys})" using assms by blast
  then show "blit (blit ws p xs) q ys ! i = blit (blit ws q ys) p xs ! i" using i by (auto simp: nth_blit_any length_blit_any)
qed (simp add: length_blit_any)

lemma patch_commute:
  assumes "later_span x \<inter> later_span y = {}"
  shows "patch labels x (patch labels y r) = patch labels y (patch labels x r)"
proof -
  consider "patch_words labels x = Panic" | "patch_words labels y = Panic"
    | xs ys where "patch_words labels x = Ok xs" "patch_words labels y = Ok ys"
    using plain_patch_words [of labels x] plain_patch_words [of labels y] unfolding plain_def by blast
  then show ?thesis
  proof cases
    case (3 xs ys)
    then have "{fst x ..< fst x + length xs} \<inter> {fst y ..< fst y + length ys} = {}"
      using assms by (simp only: patch_words_span)
    from blit_commute [OF this] 3 show ?thesis by (cases r) (simp_all add: patch_def)
  qed (use plain_patch_words [of labels x] plain_patch_words [of labels y] in \<open>cases r; auto simp: patch_def plain_def\<close>)+
qed

text \<open>The spans of the unfinished instructions are pairwise disjoint and inside of what has been produced.\<close>

definition wf_later :: "assembly \<Rightarrow> bool" where
  "wf_later a \<longleftrightarrow> (\<forall>x\<in>set (asm_later a). later_span x \<subseteq> {..< length (asm_rest a)}) \<and>
     distinct (asm_later a) \<and> (\<forall>x\<in>set (asm_later a). \<forall>y\<in>set (asm_later a). x \<noteq> y \<longrightarrow> later_span x \<inter> later_span y = {})"

lemma wf_later_more: "wf_later a \<Longrightarrow> asm_later a' = asm_later a \<Longrightarrow> length (asm_rest a) \<le> length (asm_rest a') \<Longrightarrow> wf_later a'"
  by (fastforce simp: wf_later_def)

lemma wf_later_add:
  assumes "wf_later a" and "later_span (length (asm_rest a), lin) = {length (asm_rest a) ..< length (asm_rest a) + n}" and "0 < n"
    and "asm_later a' = asm_later a @ [(length (asm_rest a), lin)]" and "length (asm_rest a') = length (asm_rest a) + n"
  shows "wf_later a'"
proof -
  let ?x = "(length (asm_rest a), lin)"
  have sub: "later_span y \<subseteq> {..< length (asm_rest a)}" if "y \<in> set (asm_later a)" for y
    using assms(1) that by (simp add: wf_later_def)
  have old: "later_span y \<inter> later_span ?x = {}" if "y \<in> set (asm_later a)" for y
    using sub [OF that] assms(2) by fastforce
  have "?x \<notin> set (asm_later a)" using old [of ?x] assms(2,3) by auto
  moreover have "later_span y \<subseteq> {..< length (asm_rest a')}" if "y \<in> set (asm_later a')" for y
    using that sub [of y] assms(2,4,5) by fastforce
  ultimately show ?thesis using assms(1,4) old by (simp add: wf_later_def Int_commute)
qed

lemma wf_later_push:
  "wf_later a \<Longrightarrow> later_op lin = ''la'' \<Longrightarrow>
   wf_later (a\<lparr>asm_later := asm_later a @ [(length (asm_rest a), lin)], asm_rest := asm_rest a @ [0, 0]\<rparr>)"
  "wf_later a \<Longrightarrow> later_op lin \<noteq> ''la'' \<Longrightarrow>
   wf_later (a\<lparr>asm_later := asm_later a @ [(length (asm_rest a), lin)], asm_rest := asm_rest a @ [0]\<rparr>)"
  by (erule wf_later_add [where n = 2 and lin = lin]; simp add: later_span_def)
     (erule wf_later_add [where n = 1 and lin = lin]; simp add: later_span_def)

lemma asm_line_wf: "asm_line l a = Ok a' \<Longrightarrow> wf_later a \<Longrightarrow> wf_later a'"
  by (auto simp: asm_line_def Let_def try_res_eq_Ok split: if_splits elim: wf_later_more intro: wf_later_push)

lemma asm_lines_wf: "asm_lines ls a = Ok a' \<Longrightarrow> wf_later a \<Longrightarrow> wf_later a'"
  by (induction ls arbitrary: a) (auto simp: try_res_eq_Ok dest: asm_line_wf)

text \<open>
  C34: The second pass of the assembler ranges over a Go map, in an order that differs from run to run. Whatever
  the order, the result is the same, be it code or a panic, and the assembler has no other outcome.
\<close>

theorem assembler_deterministic:
  assumes "\<And>l. mset (ord l) = mset l"
  shows "BuiltinAsmToBytes ord asm = BuiltinAsmToBytes (\<lambda>l. l) asm \<and>
    (BuiltinAsmToBytes ord asm = Panic \<or> (\<exists>code. BuiltinAsmToBytes ord asm = Ok code))"
proof
  have same: "fold (patch (asm_labels a)) (ord (asm_later a)) = fold (patch (asm_labels a)) (asm_later a)" if "wf_later a" for a
  proof (rule fold_multiset_equiv)
    have "set (ord (asm_later a)) = set (asm_later a)" using assms by (metis set_mset_mset)
    moreover have "patch (asm_labels a) x \<circ> patch (asm_labels a) y = patch (asm_labels a) y \<circ> patch (asm_labels a) x"
      if "x \<in> set (asm_later a)" "y \<in> set (asm_later a)" for x y
      using that \<open>wf_later a\<close> patch_commute [of x y] by (cases "x = y") (auto simp: wf_later_def fun_eq_iff)
    ultimately show "patch (asm_labels a) x \<circ> patch (asm_labels a) y = patch (asm_labels a) y \<circ> patch (asm_labels a) x"
      if "x \<in> set (ord (asm_later a))" "y \<in> set (ord (asm_later a))" for x y using that by simp
  qed (simp add: assms)
  have wf: "wf_later a" if "asm_lines ls \<lparr>asm_rest = [], asm_tbuf = [], asm_labels = Map.empty, asm_later = []\<rparr> = Ok a" for ls a
    using asm_lines_wf [OF that] by (simp add: wf_later_def)
  show "BuiltinAsmToBytes ord asm = BuiltinAsmToBytes (\<lambda>l. l) asm"
    unfolding BuiltinAsmToBytes_def by (intro try_res_cong) (simp only: same [OF wf])
qed (use plain_BuiltinAsmToBytes in \<open>simp only: plain_def\<close>)

text \<open>A jump forwards and a branch backwards: two unfinished instructions, completed in either order.\<close>

definition demo_asm :: string where
  "demo_asm = join_lines [''j skip'', ''loop:'', ''ret'', ''skip:'', ''beq ra, zero, loop'']"

theorem assembler_deterministic_witness:
  "BuiltinAsmToBytes rev demo_asm = BuiltinAsmToBytes (\<lambda>l. l) demo_asm \<and>
   BuiltinAsmToBytes (\<lambda>l. l) demo_asm = Ok (concat (map (le_bytes 4) [0x0080006f, 0x00008067, 0xfe008ee3 :: u32]))"
proof
  show "BuiltinAsmToBytes rev demo_asm = BuiltinAsmToBytes (\<lambda>l. l) demo_asm"
    using assembler_deterministic [of rev demo_asm] by simp
  show "BuiltinAsmToBytes (\<lambda>l. l) demo_asm = Ok (concat (map (le_bytes 4) [0x0080006f, 0x00008067, 0xfe008ee3 :: u32]))"
    by code_simp
qed

end
