(* ===== verification/Asm_Exec.thy ===== *)
theory Asm_Exec
  imports Assembler
begin

text \<open>
  Assembled instructions on the processor. The lemmas decode what the encoders of the assembler build, and the
  theorem shows for every 64-bit constant that the words of \<open>li\<close>, fetched and executed by the processor of
  the virtual machine, load the constant and do nothing else.
\<close>

section \<open>Decoding of encoded instructions\<close>

lemma bits_in:
  "(n :: nat) < 2 \<Longrightarrow> n \<in> {0, 1}" "n < 3 \<Longrightarrow> n \<in> {0, 1, 2}" "n < 5 \<Longrightarrow> n \<in> {0, 1, 2, 3, 4}"
  unfolding insert_iff empty_iff by presburger+

lemma low_bits: "insn AND 3 = opcode AND 3" if "\<And>n. n < 2 \<Longrightarrow> bit insn n = bit opcode n" for insn opcode :: u32
proof (rule u32_eqI)
  fix n :: nat assume "n \<in> bits32"
  then show "bit (insn AND 3) n = bit (opcode AND 3) n"
    using that [of 0] that [of 1] by (elim insertE emptyE) (simp_all add: bit_simps)
qed

lemma u5_eqI: "(\<And>n. n < 5 \<Longrightarrow> bit a n = bit b n) \<Longrightarrow> a = (b :: 5 word)"
  by (rule bit_word_eqI) simp

lemma u3_eqI: "(\<And>n. n < 3 \<Longrightarrow> bit a n = bit b n) \<Longrightarrow> a = (b :: 3 word)"
  by (rule bit_word_eqI) simp

lemma genIType_fields:
  assumes "genIType opcode rd funct3 rs1 imm = Ok insn"
  shows "insn AND 3 = opcode AND 3" and "insn_opcode insn = ucast (drop_bit 2 opcode)" and "insn_rd insn = ucast rd"
    and "insn_funct3 insn = ucast funct3" and "insn_rs1 insn = ucast rs1"
proof -
  have ok: "fields_ok opcode funct3 [rd, rs1]"
    and insn: "insn = opcode OR push_bit 7 rd OR push_bit 12 funct3 OR push_bit 15 rs1 OR push_bit 20 (word_of_int imm AND 4095)"
    using assms unfolding genIType_def Let_def if_Ok_eq by auto
  show "insn AND 3 = opcode AND 3"
    by (rule low_bits, drule bits_in(1)) (auto simp: insn bit_simps)
  show "insn_opcode insn = ucast (drop_bit 2 opcode)" unfolding insn_opcode_def
    by (rule u5_eqI, drule bits_in(3)) (elim insertE emptyE; simp add: insn bit_simps)
  show "insn_rd insn = ucast rd" unfolding insn_rd_def
    by (rule u5_eqI, drule bits_in(3)) (elim insertE emptyE; simp add: insn bit_simps fields_okD [OF ok])
  show "insn_funct3 insn = ucast funct3" unfolding insn_funct3_def
    by (rule u3_eqI, drule bits_in(2)) (elim insertE emptyE; simp add: insn bit_simps fields_okD [OF ok])
  show "insn_rs1 insn = ucast rs1" unfolding insn_rs1_def
    by (rule u5_eqI, drule bits_in(3)) (elim insertE emptyE; simp add: insn bit_simps fields_okD [OF ok])
qed

lemma genUType_fields:
  assumes "genUType opcode rd imm = Ok insn"
  shows "insn AND 3 = opcode AND 3" and "insn_opcode insn = ucast (drop_bit 2 opcode)" and "insn_rd insn = ucast rd"
proof -
  have low: "imm mod 2 ^ 12 = 0" and ok: "fields_ok opcode 0 [rd]" and insn: "insn = opcode OR push_bit 7 rd OR word_of_int imm"
    using assms unfolding genUType_def if_Ok_eq by auto
  show "insn AND 3 = opcode AND 3"
    by (rule low_bits, drule bits_in(1)) (auto simp: insn bit_simps bit_int_multiple [OF low])
  show "insn_opcode insn = ucast (drop_bit 2 opcode)" unfolding insn_opcode_def
    by (rule u5_eqI, drule bits_in(3)) (elim insertE emptyE; simp add: insn bit_simps bit_int_multiple [OF low])
  show "insn_rd insn = ucast rd" unfolding insn_rd_def
    by (rule u5_eqI, drule bits_in(3)) (elim insertE emptyE; simp add: insn bit_simps fields_okD [OF ok] bit_int_multiple [OF low])
qed

lemma genJType_fields:
  assumes "genJType opcode rd imm = Ok insn"
  shows "insn AND 3 = opcode AND 3" and "insn_opcode insn = ucast (drop_bit 2 opcode)" and "insn_rd insn = ucast rd"
proof -
  obtain t where ok: "fields_ok opcode 0 [rd]" and insn: "insn = opcode OR push_bit 7 rd OR push_bit 12 t"
    using assms unfolding genJType_def Let_def if_Ok_eq by blast
  show "insn AND 3 = opcode AND 3"
    by (rule low_bits, drule bits_in(1)) (auto simp: insn bit_simps)
  show "insn_opcode insn = ucast (drop_bit 2 opcode)" unfolding insn_opcode_def
    by (rule u5_eqI, drule bits_in(3)) (elim insertE emptyE; simp add: insn bit_simps)
  show "insn_rd insn = ucast rd" unfolding insn_rd_def
    by (rule u5_eqI, drule bits_in(3)) (elim insertE emptyE; simp add: insn bit_simps fields_okD [OF ok])
qed

section \<open>Steps\<close>

lemma sint_word_of_int_u32: "- (2 ^ 31) \<le> k \<Longrightarrow> k < 2 ^ 31 \<Longrightarrow> sint (word_of_int k :: u32) = k"
  by (simp add: int_word_sint)

lemma sext_word_of_int: "- (2 ^ 31) \<le> k \<Longrightarrow> k < 2 ^ 31 \<Longrightarrow> SignExtend32 (word_of_int k) = word_of_int k"
  using sint_word_of_int_u32 [of k] by (simp add: SignExtend32_def scast_eq)

lemma genIType_range: "genIType opcode rd funct3 rs1 imm = Ok insn \<Longrightarrow> SignExtend32 (ImmIType insn) = word_of_int imm"
  unfolding ImmIType_gen by (rule sext_word_of_int) (auto simp: genIType_def split: if_splits)

lemma alu_step:
  assumes "insn AND 3 = 3" and "insn_opcode insn \<noteq> 0" and "insn_opcode insn \<noteq> 8"
    and "exec_alu insn (set_reg 0 0 cpu) = Ok (v, pc)" and "10 \<le> g"
  shows "execStep acc get put insn (cpu, (m, g)) = (Ok (), (finish_step insn v pc (set_reg 0 0 cpu), (m, g - 10)))"
  using assms by (simp add: execStep_def bindG_Ok modifyS_run getS_run liftR_run on_snd_def charge_def GasInstructionBase_def not_less)

lemma Pc_set_reg [simp]: "Pc (set_reg rd v cpu) = Pc cpu"
  by (simp add: set_reg_def)

text \<open>The registers that an instruction sees: register 0 reads as zero.\<close>

abbreviation zeroed :: "CPU \<Rightarrow> CPU" where
  "zeroed \<equiv> set_reg 0 0"

lemma addi_step:
  assumes "genIType 0b0010011 rd 0 rs1 imm = Ok insn" and "10 \<le> g"
  shows "execStep acc get put insn (cpu, (m, g)) =
    (Ok (), ((set_reg (ucast rd) (Reg (zeroed cpu) (ucast rs1) + word_of_int imm) (zeroed cpu))\<lparr>Pc := Pc cpu + 4\<rparr>, (m, g - 10)))"
  using genIType_fields [OF assms(1)] genIType_range [OF assms(1)] assms(2)
  by (simp add: alu_step [of insn cpu "Some (Reg (zeroed cpu) (ucast rs1) + word_of_int imm)" "Pc cpu + 4"]
      exec_alu_def exec_op_imm_def set_rd_def finish_step_def Let_def)

lemma addiw_step:
  assumes "genIType 0b0011011 rd 0 rs1 imm = Ok insn" and "10 \<le> g"
  shows "execStep acc get put insn (cpu, (m, g)) =
    (Ok (), ((set_reg (ucast rd) (SignExtend32 (ucast (Reg (zeroed cpu) (ucast rs1)) + word_of_int imm)) (zeroed cpu))\<lparr>Pc := Pc cpu + 4\<rparr>, (m, g - 10)))"
  using genIType_fields [OF assms(1)] ImmIType_gen [OF assms(1)] assms(2)
  by (simp add: alu_step [of insn cpu "Some (SignExtend32 (ucast (Reg (zeroed cpu) (ucast rs1)) + word_of_int imm))" "Pc cpu + 4"]
      exec_alu_def exec_op_imm32_def set_rd_def finish_step_def Let_def)

lemma lui_step:
  assumes "genUType 0b0110111 rd imm = Ok insn" and "10 \<le> g"
  shows "execStep acc get put insn (cpu, (m, g)) =
    (Ok (), ((set_reg (ucast rd) (SignExtend32 (word_of_int imm)) (zeroed cpu))\<lparr>Pc := Pc cpu + 4\<rparr>, (m, g - 10)))"
  using genUType_fields [OF assms(1)] ImmUType_gen [OF assms(1)] assms(2)
  by (simp add: alu_step [of insn cpu "Some (SignExtend32 (word_of_int imm))" "Pc cpu + 4"] exec_alu_def finish_step_def Let_def)

lemma auipc_step:
  assumes "genUType 0b0010111 rd 0 = Ok insn" and "10 \<le> g"
  shows "execStep acc get put insn (cpu, (m, g)) =
    (Ok (), ((set_reg (ucast rd) (Pc cpu) (zeroed cpu))\<lparr>Pc := Pc cpu + 4\<rparr>, (m, g - 10)))"
  using genUType_fields [OF assms(1)] ImmUType_gen [OF assms(1)] assms(2)
  by (simp add: alu_step [of insn cpu "Some (Pc cpu)" "Pc cpu + 4"] exec_alu_def finish_step_def Let_def SignExtend32_def)

lemma jump_step:
  assumes "genJType 0b1101111 0 imm = Ok insn" and "10 \<le> g"
  shows "execStep acc get put insn (cpu, (m, g)) =
    (Ok (), ((set_reg 0 (Pc cpu + 4) (zeroed cpu))\<lparr>Pc := word_of_int imm + Pc cpu\<rparr>, (m, g - 10)))"
proof -
  have "SignExtend32 (ImmJType insn) = word_of_int imm"
    using assms(1) unfolding ImmJType_gen [OF assms(1)]
    by (intro sext_word_of_int) (auto simp: genJType_def split: if_splits)
  then show ?thesis using genJType_fields [OF assms(1)] assms(2)
    by (simp add: alu_step [of insn cpu "Some (Pc cpu + 4)" "word_of_int imm + Pc cpu"] exec_alu_def finish_step_def Let_def)
qed

lemma ld_step:
  assumes "genIType 0b0000011 rd 3 rs1 imm = Ok insn" and "20 \<le> g"
    and "Reg (zeroed cpu) (ucast rs1) + word_of_int imm = a" and "a AND 7 = 0"
    and "acc a OpRead (m, g - 20) = (Ok pos, (m, g - 20))" and "get pos (m, g - 20) = val"
  shows "execStep acc get put insn (cpu, (m, g)) =
    (Ok (), ((set_reg (ucast rd) val (zeroed cpu))\<lparr>Pc := Pc cpu + 4\<rparr>, (m, g - 20)))"
proof -
  have g: "\<not> g < 10" "\<not> g - 10 < 10" "g - 10 - 10 = g - 20" using assms(2) by (simp_all add: word_less_nat_alt word_le_nat_alt unat_sub_if_size)
  have a: "a AND NOT 7 = a" using assms(4) proof -
    have "a = (a AND 7) OR (a AND NOT 7)" by (rule bit_word_eqI) (auto simp: bit_simps)
    with assms(4) show ?thesis by simp
  qed
  have lv: "load_value 3 0 val = Ok val" by (simp add: load_value_def)
  show ?thesis
    using genIType_fields [OF assms(1)] genIType_range [OF assms(1)] assms(3-6) g a lv
    by (simp add: execStep_def exec_mem_def Let_def bindG_Ok modifyS_run getS_run liftR_run ret_run on_snd_def charge_def
        GasInstructionBase_def GasMemoryOp_def finish_step_def set_reg_def)
qed

section \<open>Loading a constant\<close>

text \<open>
  \<open>run_code\<close> executes a number of instructions, each fetched from the words \<open>ws\<close> that lie at \<open>base\<close>;
  \<open>code_visible\<close> says that a load of eight bytes inside of the code reads two of the words.
\<close>

definition fetch_word :: "u64 \<Rightarrow> u32 list \<Rightarrow> u64 \<Rightarrow> u32 option" where
  "fetch_word base ws pc =
     (let d = unat (pc - base) in if d mod 4 = 0 \<and> d div 4 < length ws then Some (ws ! (d div 4)) else None)"

fun run_code ::
  "(u64 \<Rightarrow> mem_op \<Rightarrow> ('m \<times> u64, 'c) go) \<Rightarrow> ('c \<Rightarrow> 'm \<times> u64 \<Rightarrow> u64) \<Rightarrow> ('c \<Rightarrow> u64 \<Rightarrow> 'm \<times> u64 \<Rightarrow> 'm \<times> u64)
     \<Rightarrow> u64 \<Rightarrow> u32 list \<Rightarrow> nat \<Rightarrow> (CPU \<times> ('m \<times> u64), unit) go" where
  "run_code acc get put base ws 0 s = (Ok (), s)"
| "run_code acc get put base ws (Suc k) s =
     (case fetch_word base ws (Pc (fst s)) of
        None \<Rightarrow> (Panic, s)
      | Some w \<Rightarrow> bindG (execStep acc get put w) (\<lambda>_. run_code acc get put base ws k) s)"

definition code_visible ::
  "(u64 \<Rightarrow> mem_op \<Rightarrow> ('m \<times> u64, 'c) go) \<Rightarrow> ('c \<Rightarrow> 'm \<times> u64 \<Rightarrow> u64) \<Rightarrow> u64 \<Rightarrow> u32 list \<Rightarrow> 'm \<Rightarrow> bool" where
  "code_visible acc get base ws m \<longleftrightarrow>
     (\<forall>i g. Suc i < length ws \<and> (base + 4 * of_nat i) AND 7 = 0 \<longrightarrow>
        (\<exists>pos. acc (base + 4 * of_nat i) OpRead (m, g) = (Ok pos, (m, g)) \<and>
          get pos (m, g) = ucast (ws ! i) OR push_bit 32 (ucast (ws ! Suc i))))"

lemma run_code_step:
  assumes "fetch_word base ws (Pc cpu) = Some w" and "execStep acc get put w (cpu, (m, g)) = (Ok (), s)"
  shows "run_code acc get put base ws (Suc k) (cpu, (m, g)) = run_code acc get put base ws k s"
  using assms by (simp add: bindG_Ok)

lemma halves: "ucast (ucast w :: u32) OR push_bit 32 (ucast (ucast (drop_bit 32 w) :: u32)) = (w :: u64)"
  by (rule bit_word_eqI) (auto simp: bit_simps)

lemma and_7: "x AND 7 = 0 \<longleftrightarrow> unat (x :: u64) mod 8 = 0"
proof -
  have "x AND 7 = take_bit 3 x" using take_bit_eq_mask [of 3 x] by (simp add: mask_eq_exp_minus_1)
  then show ?thesis using unat_take_mod [of 3 x] by (simp add: word_unat_eq_iff)
qed

lemma aligned_add_eights: "x AND 7 = 0 \<Longrightarrow> (x + 8 * y) AND 7 = (0 :: u64)"
proof -
  assume "x AND 7 = 0"
  then have x: "unat x mod 8 = 0" by (simp only: and_7)
  have "unat (x + 8 * y) = (unat x + 8 * unat y) mod 2 ^ 64" by (simp add: unat_word_ariths mod_add_right_eq)
  also have "\<dots> mod 8 = (unat x + 8 * unat y) mod 8" by (rule mod_mod_cancel) simp
  also have "\<dots> = 0" using x by presburger
  finally show ?thesis by (simp only: and_7)
qed

lemma aligned_data:
  assumes "(base - 4 * of_nat n) AND 7 = (0 :: u64)"
  shows "n mod 2 = 0 \<Longrightarrow> (base + 8) AND 7 = 0" and "n mod 2 \<noteq> 0 \<Longrightarrow> (base + 12) AND 7 = 0"
proof -
  let ?s = "base - 4 * of_nat n"
  show "(base + 8) AND 7 = 0" if "n mod 2 = 0"
  proof -
    from that have "even n" by presburger
    then obtain j where "n = 2 * j" by (rule evenE)
    then have "base + 8 = ?s + 8 * (of_nat j + 1)" by (simp add: algebra_simps)
    with aligned_add_eights [OF assms, of "of_nat j + 1"] show ?thesis by (simp only:)
  qed
  show "(base + 12) AND 7 = 0" if "n mod 2 \<noteq> 0"
  proof -
    from that have "odd n" by presburger
    then obtain j where "n = 2 * j + 1" by (rule oddE)
    then have "base + 12 = ?s + 8 * (of_nat j + 2)" by (simp add: algebra_simps)
    with aligned_add_eights [OF assms, of "of_nat j + 2"] show ?thesis by (simp only:)
  qed
qed

text \<open>Which words \<open>li\<close> stands for, by the size of the constant.\<close>

lemma gen_ok:
  "rd < 32 \<Longrightarrow> rs1 < 32 \<Longrightarrow> - 2048 \<le> i \<Longrightarrow> i \<le> 2047 \<Longrightarrow> opcode < 128 \<Longrightarrow> funct3 < 8 \<Longrightarrow> \<exists>w. genIType opcode rd funct3 rs1 i = Ok w"
  "rd < 32 \<Longrightarrow> i mod 4096 = 0 \<Longrightarrow> opcode < 128 \<Longrightarrow> \<exists>w. genUType opcode rd i = Ok w"
  "\<exists>w. genJType 0b1101111 0 12 = Ok w"
  by (simp_all add: genIType_def genUType_def genJType_def fields_ok_def Let_def)

lemma i32_eq: "- (2 ^ 31) \<le> x \<Longrightarrow> x \<le> 2 ^ 31 \<Longrightarrow> i32 x = (if x = 2 ^ 31 then - (2 ^ 31) else x)"
  using sint_word_of_int_u32 [of x] by (auto simp: i32_def)

lemma li_words:
  assumes "rd < 32"
  obtains (small) a where "- 2048 \<le> v" "v < 2048" "genIType 0b0010011 rd 0 0 v = Ok a" "asm_li rd v n = Ok [a]"
  | (upper) a where "- (2 ^ 31) \<le> v" "v < 2 ^ 31" "genUType 0b0110111 rd (i32 v) = Ok a" "asm_li rd v n = Ok [a]"
  | (both) a b u where "- (2 ^ 31) \<le> v" "v < 2 ^ 31" "genUType 0b0110111 rd (i32 (v - u)) = Ok a"
      "genIType 0b0011011 rd 0 rd u = Ok b" "asm_li rd v n = Ok [a, b]"
  | (wide) a b c p where "genUType 0b0010111 rd 0 = Ok a" "genJType 0b1101111 0 12 = Ok b" "genIType 0b0000011 rd 3 rd 8 = Ok c"
      "genIType 0b0010011 0 0 0 0 = Ok p"
      "asm_li rd v n = Ok ((if n mod 2 = 0 then [] else [p]) @ [a, b, ucast (word_of_int v :: u64), ucast (drop_bit 32 (word_of_int v :: u64)), c])"
proof -
  define u where "u = (if 2048 \<le> v mod 4096 then v mod 4096 - 4096 else v mod 4096)"
  define k where "k = v div 4096 + (if 2048 \<le> v mod 4096 then 1 else 0)"
  have m: "0 \<le> v mod 4096" "v mod 4096 < 4096" by simp_all
  have v: "v = 4096 * (v div 4096) + v mod 4096" by simp
  have u: "- 2048 \<le> u" "u \<le> 2047" using m by (auto simp: u_def)
  have k: "v - u = 4096 * k" using v by (simp add: u_def k_def algebra_simps)
  consider "- 2048 \<le> v" "v < 2048" | "\<not> (v < 2048 \<and> - 2048 \<le> v)" "- (2 ^ 31) \<le> v" "v < 2 ^ 31" | "\<not> (v < 2 ^ 31 \<and> - (2 ^ 31) \<le> v)"
    by linarith
  then show thesis
  proof cases
    case 1
    with gen_ok(1) [of rd 0 v "0b0010011" 0] assms obtain a where a: "genIType 0b0010011 rd 0 0 v = Ok a" by auto
    with 1 show thesis by (intro small [of a]) (simp_all add: asm_li_def)
  next
    case 2
    have "- 524288 \<le> k" "k \<le> 524288" using 2(2,3) u k by simp_all
    then have lo: "- (2 ^ 31) \<le> v - u" and hi: "v - u \<le> 2 ^ 31" using k by simp_all
    have "i32 (v - u) mod 4096 = 0" using k i32_eq [OF lo hi] by simp
    then obtain a where a: "genUType 0b0110111 rd (i32 (v - u)) = Ok a" using gen_ok(2) [of rd "i32 (v - u)" "0b0110111"] assms by auto
    obtain b where b: "genIType 0b0011011 rd 0 rd u = Ok b" using gen_ok(1) [of rd rd u "0b0011011" 0] assms u by auto
    have li: "asm_li rd v n = (if u = 0 then Ok [a] else Ok [a, b])"
      using 2 a b by (cases "u = 0") (auto simp: asm_li_def Let_def u_def [symmetric])
    show thesis
    proof (cases "u = 0")
      case True
      with 2 a li show thesis by (intro upper [of a]) simp_all
    next
      case False
      with 2 a b li show thesis by (intro both [of u a b]) simp_all
    qed
  next
    case 3
    obtain a where a: "genUType 0b0010111 rd 0 = Ok a" using gen_ok(2) [of rd 0 "0b0010111"] assms by auto
    obtain b where b: "genJType 0b1101111 0 12 = Ok b" using gen_ok(3) by auto
    obtain c where c: "genIType 0b0000011 rd 3 rd 8 = Ok c" using gen_ok(1) [of rd rd 8 "0b0000011" 3] assms by auto
    obtain p where p: "genIType 0b0010011 0 0 0 0 = Ok p" using gen_ok(1) [of 0 0 0 "0b0010011" 0] by auto
    have "\<not> (v < 2048 \<and> - 2048 \<le> v)" using 3 by auto
    then have "asm_li rd v n = Ok ((if n mod 2 = 0 then [] else [p]) @ [a, b, ucast (word_of_int v :: u64), ucast (drop_bit 32 (word_of_int v :: u64)), c])"
      unfolding asm_li_def using 3 a b c p by (simp only: if_False Let_def) simp
    with a b c p show thesis by (rule wide)
  qed
qed

lemma fetch_head: "Pc cpu = base \<Longrightarrow> fetch_word base (w # ws) (Pc cpu) = Some w"
  by (simp add: fetch_word_def)

lemma fetch_at: "i < length ws \<Longrightarrow> i < 2 ^ 61 \<Longrightarrow> pc = base + 4 * of_nat i \<Longrightarrow> fetch_word base ws pc = Some (ws ! i)"
proof -
  assume i: "i < length ws" "i < 2 ^ 61" and pc: "pc = base + 4 * of_nat i"
  have "pc - base = of_nat (4 * i)" by (simp add: pc)
  then have "unat (pc - base) = 4 * i" using i(2) unat_of_nat_u64 [of "4 * i"] by (simp del: of_nat_mult)
  then show ?thesis using i(1) by (simp add: fetch_word_def)
qed

text \<open>
  \<open>loads rd v base cpu len cpu'\<close>: the register has the value, the program counter is behind \<open>len\<close> words, and the
  other registers are as they were.
\<close>

definition loads :: "u32 \<Rightarrow> int \<Rightarrow> nat \<Rightarrow> CPU \<Rightarrow> CPU \<Rightarrow> bool" where
  "loads rd v len cpu cpu' \<longleftrightarrow> Reg cpu' (ucast rd) = word_of_int v \<and> Pc cpu' = Pc cpu + 4 * of_nat len \<and>
     (\<forall>r. r \<noteq> 0 \<and> r \<noteq> ucast rd \<longrightarrow> Reg cpu' r = Reg cpu r)"

lemma ucast_reg: "0 < rd \<Longrightarrow> rd < 32 \<Longrightarrow> (ucast (rd :: u32) :: reg) \<noteq> 0"
proof
  assume rd: "0 < rd" "rd < 32" and "(ucast rd :: reg) = 0"
  then have "unat (ucast rd :: reg) = 0" by simp
  then have "unat rd mod 32 = 0" by (simp only: unsigned_ucast_eq take_bit_eq_mod) simp
  moreover have "unat rd < 32" "0 < unat rd" using rd by (simp_all add: word_less_nat_alt)
  ultimately show False by simp
qed

lemma wide_run:
  assumes rd: "0 < rd" "rd < 32" and g: "40 \<le> g"
    and gen: "genUType 0b0010111 rd 0 = Ok a" "genJType 0b1101111 0 12 = Ok b" "genIType 0b0000011 rd 3 rd 8 = Ok c"
    and at: "fetch_word base ws (Pc cpu) = Some a" "fetch_word base ws (Pc cpu + 4) = Some b" "fetch_word base ws (Pc cpu + 16) = Some c"
    and al: "(Pc cpu + 8) AND 7 = 0"
    and rd8: "\<And>g. \<exists>pos. acc (Pc cpu + 8) OpRead (m, g) = (Ok pos, (m, g)) \<and> get pos (m, g) = word_of_int v"
  shows "\<exists>cpu' g'. run_code acc get put base ws 3 (cpu, (m, g)) = (Ok (), (cpu', (m, g'))) \<and> loads rd v 5 cpu cpu'"
proof -
  let ?r = "ucast rd :: reg"
  have r: "?r \<noteq> 0" by (rule ucast_reg [OF rd])
  have gs: "10 \<le> g" "10 \<le> g - 10" "20 \<le> g - 10 - 10" using g by (simp_all add: word_le_nat_alt unat_sub_if_size)
  define c1 where "c1 = (set_reg ?r (Pc cpu) (zeroed cpu))\<lparr>Pc := Pc cpu + 4\<rparr>"
  define c2 where "c2 = (set_reg 0 (Pc c1 + 4) (zeroed c1))\<lparr>Pc := word_of_int 12 + Pc c1\<rparr>"
  obtain pos where pos: "acc (Pc cpu + 8) OpRead (m, g - 10 - 10 - 20) = (Ok pos, (m, g - 10 - 10 - 20))"
    "get pos (m, g - 10 - 10 - 20) = word_of_int v" using rd8 by blast
  have s1: "execStep acc get put a (cpu, (m, g)) = (Ok (), (c1, (m, g - 10)))"
    unfolding c1_def by (rule auipc_step [OF gen(1) gs(1)])
  have s2: "execStep acc get put b (c1, (m, g - 10)) = (Ok (), (c2, (m, g - 10 - 10)))"
    unfolding c2_def by (rule jump_step [OF gen(2) gs(2)])
  have a: "Reg (zeroed c2) ?r + word_of_int 8 = Pc cpu + 8" using r by (simp add: c2_def c1_def set_reg_def)
  have s3: "execStep acc get put c (c2, (m, g - 10 - 10)) =
      (Ok (), ((set_reg ?r (word_of_int v) (zeroed c2))\<lparr>Pc := Pc c2 + 4\<rparr>, (m, g - 10 - 10 - 20)))"
    by (rule ld_step [OF gen(3) gs(3) a al]) (rule pos)+
  have "Pc c1 = Pc cpu + 4" "Pc c2 = Pc cpu + 16" by (simp_all add: c1_def c2_def add.assoc)
  with at s1 s2 s3 have "run_code acc get put base ws 3 (cpu, (m, g)) =
      (Ok (), ((set_reg ?r (word_of_int v) (zeroed c2))\<lparr>Pc := Pc c2 + 4\<rparr>, (m, g - 10 - 10 - 20)))"
    by (simp add: numeral_3_eq_3 bindG_Ok)
  moreover have "loads rd v 5 cpu ((set_reg ?r (word_of_int v) (zeroed c2))\<lparr>Pc := Pc c2 + 4\<rparr>)"
    using r by (simp add: loads_def set_reg_def c1_def c2_def add.assoc)
  ultimately show ?thesis by blast
qed

lemma truncate_sext: "ucast (SignExtend32 x) = x"
  unfolding SignExtend32_def 
proof (rule bit_word_eqI)
  fix n :: nat assume "n < LENGTH(32)"
  then have "n < 31 \<or> n = 31" by auto
  then show "bit (ucast (scast x :: u64) :: u32) n = bit x n" by (auto simp: bit_simps)
qed

lemma narrow_run:
  assumes rd: "0 < rd" "rd < 32" and g: "20 \<le> g" and v: "- (2 ^ 31) \<le> v" "v < 2 ^ 31"
    and gen: "genUType 0b0110111 rd (i32 (v - u)) = Ok a" "genIType 0b0011011 rd 0 rd u = Ok b"
  shows "\<exists>cpu' g'. run_code acc get put (Pc cpu) [a, b] 2 (cpu, (m, g)) = (Ok (), (cpu', (m, g'))) \<and> loads rd v 2 cpu cpu'"
proof -
  let ?r = "ucast rd :: reg"
  have r: "?r \<noteq> 0" by (rule ucast_reg [OF rd])
  have gs: "10 \<le> g" "10 \<le> g - 10" using g by (simp_all add: word_le_nat_alt unat_sub_if_size)
  define c1 where "c1 = (set_reg ?r (SignExtend32 (word_of_int (i32 (v - u)))) (zeroed cpu))\<lparr>Pc := Pc cpu + 4\<rparr>"
  have s1: "execStep acc get put a (cpu, (m, g)) = (Ok (), (c1, (m, g - 10)))"
    unfolding c1_def by (rule lui_step [OF gen(1) gs(1)])
  have "ucast (Reg (zeroed c1) ?r) = (word_of_int (v - u) :: u32)"
    using r by (simp add: c1_def set_reg_def i32_def truncate_sext)
  then have "ucast (Reg (zeroed c1) ?r) + word_of_int u = (word_of_int v :: u32)" by simp
  then have s2: "execStep acc get put b (c1, (m, g - 10)) =
      (Ok (), ((set_reg ?r (word_of_int v) (zeroed c1))\<lparr>Pc := Pc c1 + 4\<rparr>, (m, g - 10 - 10)))"
    using addiw_step [OF gen(2) gs(2), of acc get put c1 m] by (simp add: sext_word_of_int [OF v])
  have f: "fetch_word (Pc cpu) [a, b] (Pc cpu) = Some a" "fetch_word (Pc cpu) [a, b] (Pc c1) = Some b"
    by (simp_all add: fetch_word_def c1_def)
  have "run_code acc get put (Pc cpu) [a, b] 2 (cpu, (m, g)) =
      (Ok (), ((set_reg ?r (word_of_int v) (zeroed c1))\<lparr>Pc := Pc c1 + 4\<rparr>, (m, g - 10 - 10)))"
    using s1 s2 f by (simp add: numeral_2_eq_2 bindG_Ok)
  moreover have "loads rd v 2 cpu ((set_reg ?r (word_of_int v) (zeroed c1))\<lparr>Pc := Pc c1 + 4\<rparr>)"
    using r by (simp add: loads_def set_reg_def c1_def add.assoc)
  ultimately show ?thesis by blast
qed

lemma single_run:
  assumes "execStep acc get put a (cpu, (m, g)) = (Ok (), ((set_reg (ucast rd) (word_of_int v) (zeroed cpu))\<lparr>Pc := Pc cpu + 4\<rparr>, (m, g')))"
  shows "run_code acc get put (Pc cpu) [a] 1 (cpu, (m, g)) =
      (Ok (), ((set_reg (ucast rd) (word_of_int v) (zeroed cpu))\<lparr>Pc := Pc cpu + 4\<rparr>, (m, g'))) \<and>
    loads rd v 1 cpu ((set_reg (ucast rd) (word_of_int v) (zeroed cpu))\<lparr>Pc := Pc cpu + 4\<rparr>)"
  using assms by (simp add: bindG_Ok fetch_word_def loads_def set_reg_def)

lemma li_result:
  "asm_li rd v n = Ok ws \<Longrightarrow>
   \<exists>cpu' g'. run_code acc get put (Pc cpu) ws k (cpu, (m, g)) = (Ok (), (cpu', (m, g'))) \<and> loads rd v l cpu cpu' \<Longrightarrow> l = length ws \<Longrightarrow>
   \<exists>ws k cpu' g'. asm_li rd v n = Ok ws \<and> run_code acc get put (Pc cpu) ws k (cpu, (m, g)) = (Ok (), (cpu', (m, g')))
     \<and> loads rd v (length ws) cpu cpu'"
  by blast

lemma li_run:
  assumes rd: "0 < rd" "rd < 32" and g: "60 \<le> g" and al: "(Pc cpu - 4 * of_nat n) AND 7 = 0"
    and vis: "\<And>ws. asm_li rd v n = Ok ws \<Longrightarrow> code_visible acc get (Pc cpu) ws m"
  shows "\<exists>ws k cpu' g'. asm_li rd v n = Ok ws \<and> run_code acc get put (Pc cpu) ws k (cpu, (m, g)) = (Ok (), (cpu', (m, g')))
    \<and> loads rd v (length ws) cpu cpu'"
proof -
  have gs: "10 \<le> g" "20 \<le> g" "40 \<le> g" "40 \<le> g - 10" using g by (simp_all add: word_le_nat_alt unat_sub_if_size)
  from rd(2) show ?thesis
  proof (cases rule: li_words [where v = v and n = n])
    case (small a)
    have "Reg (zeroed cpu) (ucast (0 :: u32)) = 0" by (simp add: set_reg_def)
    then have "execStep acc get put a (cpu, (m, g)) =
        (Ok (), ((set_reg (ucast rd) (word_of_int v) (zeroed cpu))\<lparr>Pc := Pc cpu + 4\<rparr>, (m, g - 10)))"
      using addi_step [OF small(3) gs(1), of acc get put cpu m] by simp
    from single_run [OF this] show ?thesis by (intro li_result [OF small(4), where k = 1 and l = 1]) (blast, simp)
  next
    case (upper a)
    have "SignExtend32 (word_of_int (i32 v)) = (word_of_int v :: u64)"
      using upper(1,2) sint_word_of_int_u32 [of v] by (simp add: i32_def sext_word_of_int)
    then have "execStep acc get put a (cpu, (m, g)) =
        (Ok (), ((set_reg (ucast rd) (word_of_int v) (zeroed cpu))\<lparr>Pc := Pc cpu + 4\<rparr>, (m, g - 10)))"
      using lui_step [OF upper(3) gs(1), of acc get put cpu m] by simp
    from single_run [OF this] show ?thesis by (intro li_result [OF upper(4), where k = 1 and l = 1]) (blast, simp)
  next
    case (both a b u)
    from narrow_run [OF rd gs(2) both(1-4)] show ?thesis by (intro li_result [OF both(5), where k = 2 and l = 2]) simp_all
  next
    case (wide a b c p)
    let ?lo = "ucast (word_of_int v :: u64) :: u32" and ?hi = "ucast (drop_bit 32 (word_of_int v :: u64)) :: u32"
    note vis' = vis [OF wide(5)]
    show ?thesis
    proof (cases "n mod 2 = 0")
      case True
      have al8: "(Pc cpu + 8) AND 7 = 0" by (rule aligned_data(1) [OF al True])
      have "\<exists>pos. acc (Pc cpu + 8) OpRead (m, g) = (Ok pos, (m, g)) \<and> get pos (m, g) = word_of_int v" for g
        using vis' [unfolded code_visible_def, rule_format, of 2 g] al8 True by (simp add: halves)
      then have "\<exists>cpu' g'. run_code acc get put (Pc cpu) [a, b, ?lo, ?hi, c] 3 (cpu, (m, g)) = (Ok (), (cpu', (m, g'))) \<and> loads rd v 5 cpu cpu'"
        by (intro wide_run [OF rd gs(3) wide(1-3) _ _ _ al8]) (simp_all add: fetch_word_def)
      moreover have "asm_li rd v n = Ok [a, b, ?lo, ?hi, c]" using wide(5) True by simp
      ultimately show ?thesis by (intro li_result [where k = 3 and l = 5]) (assumption, assumption, simp)
    next
      case False
      define c1 where "c1 = (zeroed cpu)\<lparr>Pc := Pc cpu + 4\<rparr>"
      have s: "execStep acc get put p (cpu, (m, g)) = (Ok (), (c1, (m, g - 10)))"
        using addi_step [OF wide(4) gs(1), of acc get put cpu m] by (simp add: c1_def set_reg_def)
      have al8: "(Pc c1 + 8) AND 7 = 0" using aligned_data(2) [OF al False] by (simp add: c1_def add.assoc)
      have rd8: "\<exists>pos. acc (Pc c1 + 8) OpRead (m, g) = (Ok pos, (m, g)) \<and> get pos (m, g) = word_of_int v" for g
        using vis' [unfolded code_visible_def, rule_format, of 3 g] al8 False by (simp add: halves c1_def add.assoc)
      have "\<exists>cpu' g'. run_code acc get put (Pc cpu) [p, a, b, ?lo, ?hi, c] 3 (c1, (m, g - 10)) = (Ok (), (cpu', (m, g'))) \<and> loads rd v 5 c1 cpu'"
        by (rule wide_run [OF rd gs(4) wide(1-3) _ _ _ al8]; (rule rd8)?) (simp_all add: fetch_word_def c1_def)
      then obtain cpu' g' where run: "run_code acc get put (Pc cpu) [p, a, b, ?lo, ?hi, c] 3 (c1, (m, g - 10)) = (Ok (), (cpu', (m, g')))"
        and ld: "loads rd v 5 c1 cpu'" by blast
      have "run_code acc get put (Pc cpu) [p, a, b, ?lo, ?hi, c] (Suc 3) (cpu, (m, g)) = (Ok (), (cpu', (m, g')))"
        using run by (simp only: run_code_step [OF fetch_head [OF refl] s])
      moreover have "loads rd v 6 cpu cpu'" using ld by (simp add: loads_def c1_def set_reg_def add.assoc)
      moreover have "asm_li rd v n = Ok [p, a, b, ?lo, ?hi, c]" using wide(5) False by simp
      ultimately show ?thesis by (intro li_result [where k = "Suc 3" and l = 6]) (assumption, blast, simp)
    qed
  qed
qed

text \<open>
  C18: The pseudo-instruction \<open>li\<close> of the assembler, for any register but zero and any 64-bit constant: it is always
  assembled, and its words, at the place for which they were assembled and with the code aligned to eight bytes,
  are executed by the processor without an error. Execution arrives behind the last word with the constant in the
  register and every other register unchanged; that the constant may lie inside of the code is part of this.
\<close>

theorem li_loads_constant:
  assumes "0 < rd" "rd < 32" and "60 \<le> g" and "(Pc cpu - 4 * of_nat n) AND 7 = 0"
    and "\<And>ws. asm_li rd v n = Ok ws \<Longrightarrow> code_visible acc get (Pc cpu) ws m"
  shows "\<exists>ws k cpu' g'. asm_li rd v n = Ok ws \<and>
    run_code acc get put (Pc cpu) ws k (cpu, (m, g)) = (Ok (), (cpu', (m, g'))) \<and>
    Reg cpu' (ucast rd) = word_of_int v \<and> Pc cpu' = Pc cpu + 4 * of_nat (length ws) \<and>
    (\<forall>r. r \<noteq> 0 \<and> r \<noteq> ucast rd \<longrightarrow> Reg cpu' r = Reg cpu r)"
  using li_run [OF assms] by (simp add: loads_def)

text \<open>A memory that holds the words of the code and nothing else, at address 0.\<close>

definition list_get :: "u64 \<Rightarrow> u32 list \<times> u64 \<Rightarrow> u64" where
  "list_get a s = (let i = unat a div 4 in ucast (fst s ! i) OR push_bit 32 (ucast (fst s ! Suc i)))"

lemma list_visible: "length ws < 2 ^ 61 \<Longrightarrow> code_visible (\<lambda>a op s. (Ok a, s)) list_get 0 ws ws"
proof -
  assume l: "length ws < 2 ^ 61"
  have "unat (4 * of_nat i :: u64) = 4 * i" if "Suc i < length ws" for i
    using unat_of_nat_u64 [of "4 * i"] that l by simp
  then show ?thesis by (simp add: code_visible_def list_get_def)
qed

definition demo_cpu :: CPU where "demo_cpu = \<lparr>Reg = (\<lambda>_. 0), Pc = 0\<rparr>"

theorem li_loads_constant_witness:
  "\<exists>ws k cpu' g'. asm_li 10 (- (2 ^ 40)) 0 = Ok ws \<and>
     run_code (\<lambda>a op s. (Ok a, s)) list_get (\<lambda>a v s. s) 0 ws k (demo_cpu, (ws, 100)) = (Ok (), (cpu', (ws, g'))) \<and>
     Reg cpu' 10 = word_of_int (- (2 ^ 40))"
proof -
  obtain ws where ws: "asm_li 10 (- (2 ^ 40)) 0 = Ok ws" "length ws = 5"
    by (cases rule: li_words [of 10 "- (2 ^ 40)" 0]) simp_all
  have "code_visible (\<lambda>a op s. (Ok a, s)) list_get (Pc demo_cpu) ws ws"
    using list_visible [of ws] ws(2) by (simp add: demo_cpu_def)
  then have "\<exists>ws' k cpu' g'. asm_li 10 (- (2 ^ 40)) 0 = Ok ws' \<and>
      run_code (\<lambda>a op s. (Ok a, s)) list_get (\<lambda>a v s. s) (Pc demo_cpu) ws' k (demo_cpu, (ws, 100)) = (Ok (), (cpu', (ws, g'))) \<and>
      Reg cpu' (ucast (10 :: u32)) = word_of_int (- (2 ^ 40)) \<and> Pc cpu' = Pc demo_cpu + 4 * of_nat (length ws') \<and>
      (\<forall>r. r \<noteq> 0 \<and> r \<noteq> ucast (10 :: u32) \<longrightarrow> Reg cpu' r = Reg demo_cpu r)"
    by (intro li_loads_constant) (use ws in \<open>simp_all add: demo_cpu_def\<close>)
  then show ?thesis using ws(1) by (auto simp: demo_cpu_def)
qed

end
