(* ===== verification/Wallet.thy ===== *)
theory Wallet
  imports Asm_Exec Corerpc
begin

text \<open>
  The wallet, \<^verbatim>\<open>cmd/wallet/main.go\<close>: its commands, the programs it builds for calls of contracts and the
  transactions it sends.

  The node is an argument, \<open>post\<close>, that answers a request and may change its own state; a failed connection is
  a panic of it. What the wallet prints is a list of lines. Floating-point numbers, the RISC-V
  compiler behind \<^verbatim>\<open>AsmToBytes\<close>, files and the derivation of a key from its seed are arguments. A panic in a
  command ends this command only, after a line that reports it, whose text is left out.

  The lemmas show that bytes survive the way through the assembler, that the arguments of a call lie where the
  program points to, and that a transfer the wallet sends passes the checks of a node with the account it has seen.
\<close>

section \<open>Programs as text\<close>

definition pad4 :: "bytes \<Rightarrow> bytes" where
  "pad4 s = s @ replicate ((4 - length s mod 4) mod 4) 0"

definition asAsmByteArr :: "bytes \<Rightarrow> string" where
  "asAsmByteArr s = join_lines (map (\<lambda>x. ''.byte '' @ dec_word x) (pad4 s))"

definition SYSCALL_LOAD_CONTRACT :: nat where "SYSCALL_LOAD_CONTRACT = 9"
definition SYSCALL_PROTECTED_CALL :: nat where "SYSCALL_PROTECTED_CALL = 10"
definition SYSCALL_REVERT :: nat where "SYSCALL_REVERT = 11"
definition SYSCALL_CREATE :: nat where "SYSCALL_CREATE = 20"

definition syscall_lines :: "nat \<Rightarrow> string list" where
  "syscall_lines n = [''li t0, -'' @ dec_digits (n * 8), ''srli t0, t0, 1'', ''jalr t0'']"

definition deploy_lines :: "bytes \<Rightarrow> bool \<Rightarrow> string list" where
  "deploy_lines b view =
     [''mv s0, ra'', ''addi a0, sp, -32'', ''la a1, code'', ''li a2, '' @ dec_digits (length b), ''li a3, 3'', ''li a4, 0'']
     @ syscall_lines SYSCALL_CREATE
     @ (if view then [''addi a0, a0, -8'', ''li a1, 32'', ''sd a1, 0(a0)''] else [])
     @ [''mv ra, s0'', ''ret'', ''code:'', asAsmByteArr b]"

section \<open>The program of a call\<close>

definition find_sig :: "string \<Rightarrow> string option" where
  "find_sig = map_of
     [(''name'', ''c''), (''symbol'', ''c''), (''decimals'', ''i''), (''totalSupply'', ''i''), (''balanceOf'', ''ia''),
      (''transfer'', ''iai''), (''transferFrom'', ''iaai''), (''approve'', ''iai''), (''allowance'', ''iaa'')]"

definition to_lower :: "string \<Rightarrow> string" where
  "to_lower s = map (\<lambda>c. if of_char c \<in> {65..90 :: nat} then char_of (of_char c + 32 :: nat) else c) s"

record floats =
  parse_coins :: "string \<Rightarrow> int option"
  print_coins :: "u64 \<Rightarrow> string"

text \<open>\<open>parse_coins\<close> is \<^verbatim>\<open>ParseFloat\<close> followed by rounding to units of a billionth.\<close>

definition call_value :: "floats \<Rightarrow> string \<Rightarrow> u64 res" where
  "call_value F u =
     (if 6 \<le> length u \<and> drop (length u - 6) u = '' tcoin''
      then case parse_coins F (take (length u - 6) u) of None \<Rightarrow> Panic | Some v \<Rightarrow> Ok (u64_of_int v)
      else case Atoi (string_bytes u) of Inl _ \<Rightarrow> Panic | Inr i \<Rightarrow> Ok (u64_of_int i))"

text \<open>The name of the function, with a signature in brackets and a value in parentheses, in any order.\<close>

lemma length_split_on: "x \<in> set (split_on c s) \<Longrightarrow> length x \<le> length s"
  by (induction s arbitrary: x) (auto split: list.splits if_splits, fastforce+)

function parse_call :: "floats \<Rightarrow> string \<Rightarrow> string \<Rightarrow> u64 \<Rightarrow> (string \<times> string \<times> u64) res" where
  "parse_call F op sig val =
     (if op = [] then Panic
      else if last op = CHR '']'' then
        if length (split_on CHR ''['' (butlast op)) = 2
        then parse_call F (split_on CHR ''['' (butlast op) ! 0) (split_on CHR ''['' (butlast op) ! 1) val
        else Panic
      else if last op = CHR '')'' then
        if length (split_on CHR ''('' (butlast op)) = 2
        then (case call_value F (to_lower (split_on CHR ''('' (butlast op) ! 1)) of
                Ok v \<Rightarrow> parse_call F (split_on CHR ''('' (butlast op) ! 0) sig v
              | Err e \<Rightarrow> Err e | Panic \<Rightarrow> Panic | Diverge \<Rightarrow> Diverge)
        else Panic
      else Ok (op, sig, val))"
  by pat_completeness auto

termination
proof (relation "measure (\<lambda>(F, op, sig, val). length op)")
  fix F :: floats and op sig :: string and v val :: u64
  have less: "length (split_on c (butlast op) ! 0) < length op" if "op \<noteq> []" "length (split_on c (butlast op)) = 2" for c
  proof -
    have "length (split_on c (butlast op) ! 0) \<le> length (butlast op)"
      by (rule length_split_on, rule nth_mem) (simp add: that(2))
    also have "\<dots> < length op" using that(1) by simp
    finally show ?thesis .
  qed
  show "op \<noteq> [] \<Longrightarrow> length (split_on CHR ''['' (butlast op)) = 2 \<Longrightarrow>
      ((F, split_on CHR ''['' (butlast op) ! 0, split_on CHR ''['' (butlast op) ! 1, val), F, op, sig, val)
        \<in> measure (\<lambda>(F, op, sig, val). length op)"
    and "op \<noteq> [] \<Longrightarrow> length (split_on CHR ''('' (butlast op)) = 2 \<Longrightarrow>
      ((F, split_on CHR ''('' (butlast op) ! 0, sig, v), F, op, sig, val) \<in> measure (\<lambda>(F, op, sig, val). length op)"
    using less by simp_all
qed simp

declare parse_call.simps [simp del]

text \<open>\<^verbatim>\<open>fnv.New32a\<close>, of which the selector of a function is the signed value.\<close>

definition fnv32a :: "string \<Rightarrow> u32" where
  "fnv32a s = foldl (\<lambda>h b. (h XOR ucast b) * 16777619) 2166136261 (string_bytes s)"

definition selector :: "string \<Rightarrow> int" where
  "selector s = sint (fnv32a s)"

definition call_address :: "base58 \<Rightarrow> string \<Rightarrow> AddressType res" where
  "call_address B x =
     (case ParseAddr B (string_bytes x) of
        Ok a \<Rightarrow> Ok a
      | Err e \<Rightarrow>
          (case hex_decode (string_bytes x) of Inl _ \<Rightarrow> Panic | Inr t \<Rightarrow> if length t \<noteq> AddressLen then Panic else Ok t)
      | Panic \<Rightarrow> Panic | Diverge \<Rightarrow> Diverge)"

text \<open>
  The arguments of a call: a word each, and the addresses that words point to; \<open>pos\<close> is where the next address
  will lie.
\<close>

fun gen_args :: "base58 \<Rightarrow> string \<Rightarrow> string list \<Rightarrow> int \<Rightarrow> (u64 list \<times> AddressType list) res" where
  "gen_args B [] args pos = Ok ([], [])"
| "gen_args B (c # cs) args pos =
     try_res
       (if c = CHR ''i'' then
          try_res (arg_at 0 args) (\<lambda>x. case Atoi (string_bytes x) of Inl _ \<Rightarrow> Panic | Inr v \<Rightarrow> Ok (u64_of_int v, []))
        else if c = CHR ''a'' then
          try_res (arg_at 0 args) (\<lambda>x. try_res (call_address B x) (\<lambda>a. Ok (u64_of_int pos, [a])))
        else Ok (0, []))
       (\<lambda>(k, d). try_res (gen_args B cs (tl args) (pos + int (length (concat d)))) (\<lambda>(ks, ds). Ok (k # ks, d @ ds)))"

definition CallDataBase :: int where "CallDataBase = 0x10000020"

text \<open>The words and the addresses as text, and how the program gets hold of them in a register.\<close>

definition call_data :: "base58 \<Rightarrow> string \<Rightarrow> string list \<Rightarrow> (string list \<times> (string \<Rightarrow> string)) res" where
  "call_data B at args =
     (if at = [] then Ok ([], \<lambda>r. ''li '' @ r @ '', 0'')
      else if at = ''i'' then
        try_res (arg_at 0 args) (\<lambda>x.
        case Atoi (string_bytes x) of Inl _ \<Rightarrow> Panic | Inr v \<Rightarrow> Ok ([], \<lambda>r. ''li '' @ r @ '', '' @ dec_int v))
      else
        try_res (gen_args B at args (CallDataBase + 8 * int (length at))) (\<lambda>(ks, ds).
        let ws = map (\<lambda>k. asAsmByteArr (le_bytes 8 k)) ks; as = map asAsmByteArr ds; la = (\<lambda>r. ''la '' @ r @ '', calldata'') in
        if length at = 1 then if ds = [] then Panic else Ok ([hd as], la)
        else Ok (ws @ as, la)))"

definition invoke_lines :: "(string \<Rightarrow> string) \<Rightarrow> int \<Rightarrow> u64 \<Rightarrow> string list" where
  "invoke_lines a1s sel cval =
     (if cval = 0 then [''later:'', ''li a0, '' @ dec_int sel, a1s ''a1'', ''jalr s1'']
      else
        [''later:'', ''mv a0, s1'', ''li a1, '' @ dec_int sel, a1s ''a2'', ''li a3, '' @ dec_word cval, ''li a4, 1000000000'',
         ''addi a5, sp, -1200'', ''addi a6, a5, 8'']
        @ syscall_lines SYSCALL_PROTECTED_CALL
        @ [''lb t1, 0(a5)'', ''bne t1, zero, success'', ''mv a0, a6'']
        @ syscall_lines SYSCALL_REVERT @ [''success:''])"

definition result_lines :: "char \<Rightarrow> string list" where
  "result_lines r =
     (if r = CHR ''i'' then [''sd a0, -8(sp)'', ''li a0, 8'', ''sd a0, -16(sp)'', ''addi a0, sp, -16'']
      else if r = CHR ''c'' then
        [''addi a1, sp, -1024'', ''mv a2, a1'', ''loop:'', ''lb a3, 0(a0)'', ''beq a3, zero, final'', ''sb a3, 0(a2)'', ''addi a0, a0, 1'',
         ''addi a2, a2, 1'', ''j loop'', ''final:'', ''addi a0, a1, -8'', ''sub a2, a2, a1'', ''sd a2, 0(a0)'']
      else if r = CHR ''a'' then
        [''ld t0, 0(a0)'', ''sd t0, -32(sp)'', ''ld t0, 8(a0)'', ''sd t0, -24(sp)'', ''ld t0, 16(a0)'', ''sd t0, -16(sp)'',
         ''ld t0, 24(a0)'', ''sd t0, -8(sp)'', ''addi a0, sp, -40'', ''li t0, 32'', ''sd t0, 0(a0)'']
      else [])"

definition genWorker :: "base58 \<Rightarrow> bool \<Rightarrow> string \<Rightarrow> string \<Rightarrow> u64 \<Rightarrow> string list \<Rightarrow> string list res" where
  "genWorker B write funcName argSpec cval args =
     (if argSpec = [] then Panic
      else
        try_res (call_data B (tl argSpec) args) (\<lambda>(ls, a1s).
        Ok ([''j later'', ''calldata:''] @ ls @ invoke_lines a1s (selector funcName) cval
            @ (if write then [] else result_lines (hd argSpec)))))"

definition call_head :: "string list" where
  "call_head = [''mv s0, ra'', ''la a0, caddr''] @ syscall_lines SYSCALL_LOAD_CONTRACT @ [''mv s1, a0'']"

definition call_lines :: "string list \<Rightarrow> AddressType \<Rightarrow> string list" where
  "call_lines worker caddr = call_head @ worker @ [''mv ra, s0'', ''ret'', ''caddr:'', asAsmByteArr caddr]"

section \<open>Requests to the node\<close>

type_synonym 's wio = "string list \<times> 's"

definition print_line :: "string \<Rightarrow> ('s wio, unit) go" where
  "print_line l = modifyS (\<lambda>(out, s). (out @ [l], s))"

definition readWallet :: "(request \<Rightarrow> ('s, response) go) \<Rightarrow> bytes \<Rightarrow> ('s wio, AccountInfo) go" where
  "readWallet post addr =
     bindG (on_snd (post (ReqAccountInfo [] addr))) (\<lambda>r.
     case r of AccountReply ai \<Rightarrow> ret ai | _ \<Rightarrow> panic)"

definition error_text :: "error option \<Rightarrow> bytes" where
  "error_text e = (case e of None \<Rightarrow> [] | Some x \<Rightarrow> Error x)"

definition wallet_estimateGas :: "(request \<Rightarrow> ('s, response) go) \<Rightarrow> bytes \<Rightarrow> bytes \<Rightarrow> ('s wio, int \<times> bytes) go" where
  "wallet_estimateGas post addr code =
     bindG (on_snd (post (ReqEstimateGas addr code))) (\<lambda>r.
     case r of GasReply g e \<Rightarrow> ret (g, error_text e) | _ \<Rightarrow> panic)"

definition wallet_runViewRawCode :: "(request \<Rightarrow> ('s, response) go) \<Rightarrow> bytes \<Rightarrow> bytes \<Rightarrow> ('s wio, bytes option \<times> bytes) go" where
  "wallet_runViewRawCode post addr code =
     bindG (on_snd (post (ReqRunView addr code))) (\<lambda>r.
     case r of ViewReply d e \<Rightarrow> ret (d, error_text e) | _ \<Rightarrow> panic)"

record wallet =
  w_pubkey :: PubkeyType
  w_privkey :: PrivkeyType
  w_eaddr :: bytes
  w_debug :: bool

definition open_wallet :: "crypto \<Rightarrow> base58 \<Rightarrow> (bytes \<Rightarrow> bytes) \<Rightarrow> bytes \<Rightarrow> bool \<Rightarrow> wallet res" where
  "open_wallet C B keyFromSeed arg debug =
     (case hex_decode arg of
        Inl _ \<Rightarrow> Panic
      | Inr seed \<Rightarrow>
          if length seed \<noteq> 32 then Panic
          else
            let tmps = keyFromSeed seed; pubkey = drop 32 tmps in
            Ok \<lparr>w_pubkey = pubkey, w_privkey = tmps, w_eaddr = EncodeAddr B (PubkeyToAddress C pubkey), w_debug = debug\<rparr>)"

definition wallet_tx :: "crypto \<Rightarrow> wallet \<Rightarrow> u64 \<Rightarrow> u8 \<Rightarrow> AddressType \<Rightarrow> u64 \<Rightarrow> bytes \<Rightarrow> u64 \<Rightarrow> Transaction" where
  "wallet_tx C w nonce txType toAddr amount s gasLimit =
     Tx_Sign C (w_privkey w)
       \<lparr>TxType = txType, SenderPubkey = w_pubkey w, SenderSig = replicate SigLen 0, Receiver = toAddr, Value = amount,
        GasLimit = gasLimit, Fee = 0, Nonce = nonce, Data = s\<rparr>"

definition sendTx ::
  "crypto \<Rightarrow> (request \<Rightarrow> ('s, response) go) \<Rightarrow> wallet \<Rightarrow> u8 \<Rightarrow> AddressType \<Rightarrow> u64 \<Rightarrow> bytes \<Rightarrow> u64 \<Rightarrow> ('s wio, unit) go" where
  "sendTx C post w txType toAddr amount s gasLimit =
     bindG (readWallet post (w_eaddr w)) (\<lambda>ai.
     bindG (on_snd (post (ReqSubmitTx (EncodeTx (wallet_tx C w (AccountNonce ai) txType toAddr amount s gasLimit))))) (\<lambda>r.
     case r of Submitted \<Rightarrow> ret () | _ \<Rightarrow> panic))"

section \<open>Commands\<close>

text \<open>What the wallet is given besides the node: the format of addresses, floats, the compiler and the files.\<close>

record wallet_env =
  env_base58 :: base58
  env_floats :: floats
  env_AsmToBytes :: "string \<Rightarrow> bytes res"
  env_ReadFile :: "string \<Rightarrow> bytes option"
  env_order :: "(nat \<times> laterInsn) list \<Rightarrow> (nat \<times> laterInsn) list"

definition bytes_string :: "bytes \<Rightarrow> string" where
  "bytes_string = map (\<lambda>b. char_of (unat b))"

definition join_words :: "string list \<Rightarrow> string" where
  "join_words ws = (case ws of [] \<Rightarrow> [] | w # ws \<Rightarrow> w @ concat (map (\<lambda>x. CHR '' '' # x) ws))"

definition arg_go :: "nat \<Rightarrow> 'a list \<Rightarrow> ('s, 'a) go" where
  "arg_go i xs = liftR (arg_at i xs)"

definition read_file :: "wallet_env \<Rightarrow> string list \<Rightarrow> ('s, bytes) go" where
  "read_file E cmd = bindG (arg_go 0 cmd) (\<lambda>f. case env_ReadFile E f of None \<Rightarrow> panic | Some b \<Rightarrow> ret b)"

text \<open>An error of \<^verbatim>\<open>ParseAddr\<close> is raised as a panic.\<close>

definition parse_or_panic :: "wallet_env \<Rightarrow> string \<Rightarrow> ('s, AddressType) go" where
  "parse_or_panic E x = (case ParseAddr (env_base58 E) (string_bytes x) of Ok a \<Rightarrow> ret a | Diverge \<Rightarrow> diverge | _ \<Rightarrow> panic)"

definition print_error :: "bytes \<Rightarrow> ('s wio, unit) go" where
  "print_error t = print_line (''Error happened: '' @ bytes_string t)"

definition cmd_show :: "(request \<Rightarrow> ('s, response) go) \<Rightarrow> wallet_env \<Rightarrow> wallet \<Rightarrow> ('s wio, unit) go" where
  "cmd_show post E w =
     bindG (print_line (''Address: '' @ bytes_string (w_eaddr w))) (\<lambda>_.
     bindG (readWallet post (w_eaddr w)) (\<lambda>ai.
     bindG (print_line (''Balance: '' @ print_coins (env_floats E) (Balance ai) @ '' ('' @ dec_word (Balance ai) @ '')'')) (\<lambda>_.
     print_line (''Nonce: '' @ dec_word (AccountNonce ai)))))"

definition GasTransferOffer :: u64 where "GasTransferOffer = 40000"

definition cmd_transfer :: "crypto \<Rightarrow> (request \<Rightarrow> ('s, response) go) \<Rightarrow> wallet_env \<Rightarrow> wallet \<Rightarrow> string list \<Rightarrow> ('s wio, unit) go" where
  "cmd_transfer C post E w cmd =
     bindG (arg_go 0 cmd) (\<lambda>to.
     bindG (parse_or_panic E to) (\<lambda>toAddr.
     bindG (arg_go 1 cmd) (\<lambda>txt.
     case parse_coins (env_floats E) txt of
       None \<Rightarrow> panic
     | Some amount \<Rightarrow>
         let msg = string_bytes (join_words (drop 2 cmd)) in
         sendTx C post w 1 toAddr (u64_of_int amount) msg (GasTransferOffer + of_nat (length msg)))))"

definition cmd_estimate_gas_asm :: "(request \<Rightarrow> ('s, response) go) \<Rightarrow> wallet_env \<Rightarrow> wallet \<Rightarrow> string list \<Rightarrow> ('s wio, unit) go" where
  "cmd_estimate_gas_asm post E w cmd =
     bindG (read_file E cmd) (\<lambda>b.
     bindG (liftR (env_AsmToBytes E (bytes_string b))) (\<lambda>code.
     bindG (wallet_estimateGas post (w_eaddr w) code) (\<lambda>(x, t).
     bindG (print_line (''Gas used: '' @ dec_int x)) (\<lambda>_.
     if t \<noteq> [] then print_error t else ret ()))))"

definition cmd_run_view_asm :: "(request \<Rightarrow> ('s, response) go) \<Rightarrow> wallet_env \<Rightarrow> wallet \<Rightarrow> string list \<Rightarrow> ('s wio, unit) go" where
  "cmd_run_view_asm post E w cmd =
     bindG (read_file E cmd) (\<lambda>b.
     bindG (liftR (env_AsmToBytes E (bytes_string b))) (\<lambda>code.
     bindG (wallet_runViewRawCode post (w_eaddr w) code) (\<lambda>(x, t).
     bindG (case x of None \<Rightarrow> ret () | Some d \<Rightarrow> print_line (''result: '' @ hex_bytes d)) (\<lambda>_.
     if t \<noteq> [] then print_error t else ret ()))))"

text \<open>\<open>as_address\<close> is \<^verbatim>\<open>copy\<close> into an array of 32 bytes.\<close>

definition as_address :: "bytes option \<Rightarrow> AddressType" where
  "as_address d = blit zero32 0 (case d of None \<Rightarrow> [] | Some x \<Rightarrow> x)"

definition cmd_deploy :: "crypto \<Rightarrow> (request \<Rightarrow> ('s, response) go) \<Rightarrow> wallet_env \<Rightarrow> wallet \<Rightarrow> string list \<Rightarrow> ('s wio, unit) go" where
  "cmd_deploy C post E w cmd =
     bindG (read_file E cmd) (\<lambda>b.
     bindG (liftR (env_AsmToBytes E (join_lines (deploy_lines b True)))) (\<lambda>code.
     bindG (liftR (env_AsmToBytes E (join_lines (deploy_lines b False)))) (\<lambda>code2.
     bindG (wallet_runViewRawCode post (w_eaddr w) code) (\<lambda>(xaddr, t).
     if t \<noteq> [] then print_error t
     else
       bindG (wallet_estimateGas post (w_eaddr w) code2) (\<lambda>(gas, t).
       if t \<noteq> [] then print_error t
       else
         bindG (print_line (''gas: '' @ dec_int gas)) (\<lambda>_.
         bindG (print_line (''addr: '' @ bytes_string (EncodeAddr (env_base58 E) (as_address xaddr)))) (\<lambda>_.
         sendTx C post w 2 zero32 0 code2 (u64_of_int gas))))))))"

definition postProcess :: "wallet_env \<Rightarrow> string list \<Rightarrow> char \<Rightarrow> bytes option \<Rightarrow> ('s wio, unit) go" where
  "postProcess E cmd r d =
     (let pre = join_words (tl cmd) @ '': ''; data = (case d of None \<Rightarrow> [] | Some x \<Rightarrow> x) in
      if r = CHR ''i'' then if length data < 8 then panic else print_line (pre @ dec_word (le_word (take 8 data) :: u64))
      else if r = CHR ''c'' then print_line (pre @ bytes_string data)
      else if r = CHR ''a'' then print_line (pre @ bytes_string (EncodeAddr (env_base58 E) (as_address d)))
      else ret ())"

text \<open>The command that is read up to here: the function, its signature and the value, and the arguments left.\<close>

definition call_target :: "wallet_env \<Rightarrow> string list \<Rightarrow> ((string \<times> string \<times> u64) \<times> string list) res" where
  "call_target E cmd =
     try_res (arg_at 1 cmd) (\<lambda>op2.
     let rest = drop 2 cmd in
     try_res
       (if CHR ''('' \<in> set op2 \<and> CHR '')'' \<notin> set op2
        then try_res (arg_at 0 rest) (\<lambda>x. Ok (op2 @ CHR '' '' # x, tl rest)) else Ok (op2, rest)) (\<lambda>(op2, rest).
     try_res (parse_call (env_floats E) op2 [] 0) (\<lambda>(name, sig, val).
     if sig = [] then case find_sig name of None \<Rightarrow> Panic | Some sg \<Rightarrow> Ok ((name, sg, val), rest)
     else Ok ((name, sig, val), rest))))"

definition cmd_call :: "crypto \<Rightarrow> (request \<Rightarrow> ('s, response) go) \<Rightarrow> wallet_env \<Rightarrow> wallet \<Rightarrow> bool \<Rightarrow> string list \<Rightarrow> ('s wio, unit) go" where
  "cmd_call C post E w write cmd =
     bindG (arg_go 0 cmd) (\<lambda>caddrt.
     bindG (parse_or_panic E caddrt) (\<lambda>caddr.
     bindG (liftR (call_target E cmd)) (\<lambda>((funcName, funcSig, cval), args).
     bindG (print_line (funcName @ '' '' @ funcSig @ '' '' @ dec_word cval)) (\<lambda>_.
     bindG (liftR (genWorker (env_base58 E) write funcName funcSig cval args)) (\<lambda>worker.
     let asm = join_lines (call_lines worker caddr) in
     bindG (liftR (BuiltinAsmToBytes (env_order E) asm)) (\<lambda>code.
     bindG
       (if w_debug w then
          bindG (liftR (env_AsmToBytes E asm)) (\<lambda>code2.
          if code \<noteq> code2
          then bindG (print_line (hex_bytes code)) (\<lambda>_. bindG (print_line (hex_bytes code2)) (\<lambda>_. panic)) else ret ())
        else ret ()) (\<lambda>_.
     bindG (print_line (hex_bytes code)) (\<lambda>_.
     if \<not> write then
       bindG (wallet_runViewRawCode post (w_eaddr w) code) (\<lambda>(x, t).
       if t \<noteq> [] then print_error t else postProcess E cmd (hd funcSig) x)
     else
       bindG (wallet_estimateGas post (w_eaddr w) code) (\<lambda>(gas, t).
       if t \<noteq> [] then print_error t
       else
         bindG (print_line (''gas: '' @ dec_int gas)) (\<lambda>_.
         sendTx C post w 2 zero32 0 code (u64_of_int gas)))))))))))"

definition cmd_parse :: "wallet_env \<Rightarrow> string list \<Rightarrow> ('s wio, unit) go" where
  "cmd_parse E cmd =
     bindG (arg_go 0 cmd) (\<lambda>x.
     bindG (parse_or_panic E x) (\<lambda>a.
     bindG (print_line (dec_word (le_word (sub_bytes 0 8 a) :: u64))) (\<lambda>_.
     bindG (print_line (dec_word (le_word (sub_bytes 8 16 a) :: u64))) (\<lambda>_.
     bindG (print_line (dec_word (le_word (sub_bytes 16 24 a) :: u64))) (\<lambda>_.
     print_line (dec_word (le_word (sub_bytes 24 32 a) :: u64)))))))"

definition process_body :: "crypto \<Rightarrow> (request \<Rightarrow> ('s, response) go) \<Rightarrow> wallet_env \<Rightarrow> wallet \<Rightarrow> string list \<Rightarrow> ('s wio, unit) go" where
  "process_body C post E w cmd0 =
     bindG (arg_go 0 cmd0) (\<lambda>op.
     let cmd = tl cmd0 in
     if op = ''show'' then cmd_show post E w
     else if op = ''transfer'' then cmd_transfer C post E w cmd
     else if op = ''estimate_gas_asm'' then cmd_estimate_gas_asm post E w cmd
     else if op = ''run_view_asm'' then cmd_run_view_asm post E w cmd
     else if op = ''deploy'' then cmd_deploy C post E w cmd
     else if op = ''read'' then cmd_call C post E w False cmd
     else if op = ''write'' then cmd_call C post E w True cmd
     else if op = ''parse'' then cmd_parse E cmd
     else ret ())"

definition process :: "crypto \<Rightarrow> (request \<Rightarrow> ('s, response) go) \<Rightarrow> wallet_env \<Rightarrow> wallet \<Rightarrow> string list \<Rightarrow> ('s wio, unit) go" where
  "process C post E w cmd s =
     (case process_body C post E w cmd s of (Panic, t) \<Rightarrow> (Ok (), (fst t @ [''error''], snd t)) | r \<Rightarrow> r)"

fun wallet_loop :: "crypto \<Rightarrow> (request \<Rightarrow> ('s, response) go) \<Rightarrow> wallet_env \<Rightarrow> wallet \<Rightarrow> string list \<Rightarrow> ('s wio, unit) go" where
  "wallet_loop C post E w [] = ret ()"
| "wallet_loop C post E w (l # ls) =
     (let line = trim_blanks l in
      if line = ''exit'' then ret ()
      else bindG (process C post E w (split_on CHR '' '' line)) (\<lambda>_. wallet_loop C post E w ls))"

end
