(* ===== verification/Wallet_Calls.thy ===== *)
theory Wallet_Calls
  imports Wallet
begin

text \<open>
  What the wallet's programs and transactions are: bytes written as text are assembled to these bytes, the
  arguments of a call lie where the program and its pointers expect them, and a transfer is a
  transaction that the node accepts.
\<close>

section \<open>Bytes as text\<close>

abbreviation (input) line_feed :: char where "line_feed \<equiv> CHR 0x0A"

lemma split_on_nonempty [simp]: "split_on c s \<noteq> []"
  by (induction s) (auto split: list.split)

lemma split_on_append: "split_on c (a @ c # b) = split_on c a @ split_on c b"
proof (induction a)
  case (Cons x a)
  obtain w ws where "split_on c a = w # ws" by (cases "split_on c a") simp_all
  with Cons show ?case by simp
qed simp

lemma split_on_single: "c \<notin> set s \<Longrightarrow> split_on c s = [s]"
  by (induction s) auto

lemma split_on_join: "ls \<noteq> [] \<Longrightarrow> split_on line_feed (join_lines ls) = concat (map (split_on line_feed) ls)"
  by (induction ls rule: join_lines.induct) (simp_all add: split_on_append)

definition byte_line :: "u8 \<Rightarrow> string" where
  "byte_line x = ''.byte '' @ dec_word x"

lemma dec_digits_chars: "c \<in> set (dec_digits n) \<Longrightarrow> c \<noteq> CHR '' '' \<and> c \<noteq> CHR '':'' \<and> c \<noteq> line_feed"
  using dec_digits_char [of c n] by auto

lemma last_dec_digits: "last (dec_digits n) \<noteq> CHR '' ''" "last (dec_digits n) \<noteq> CHR '':''"
  using dec_digits_chars [OF last_in_set [OF dec_digits_nonempty]] by auto

lemma trim_id: "s = [] \<or> hd s \<noteq> CHR '' '' \<and> last s \<noteq> CHR '' '' \<Longrightarrow> trim_blanks s = s"
proof -
  assume s: "s = [] \<or> hd s \<noteq> CHR '' '' \<and> last s \<noteq> CHR '' ''"
  have d: "dropWhile ((=) c) xs = xs" if "xs = [] \<or> hd xs \<noteq> c" for c and xs :: string
    using that by (cases xs) auto
  show ?thesis using s by (auto simp: trim_blanks_def d hd_rev)
qed

lemma split_byte_line: "split_on line_feed (byte_line x) = [byte_line x]"
  by (rule split_on_single) (use dec_digits_chars in \<open>auto simp: byte_line_def dec_word_def\<close>)

definition push_byte :: "u8 \<Rightarrow> assembly \<Rightarrow> assembly" where
  "push_byte x a =
     (let tb = asm_tbuf a @ [x] in
      if length tb = 4 then a\<lparr>asm_rest := asm_rest a @ [le_word tb], asm_tbuf := []\<rparr> else a\<lparr>asm_tbuf := tb\<rparr>)"

lemma asm_byte_line: "asm_line (byte_line x) a = Ok (push_byte x a)"
proof -
  have l: "last (byte_line x) \<noteq> CHR '' ''" "last (byte_line x) \<noteq> CHR '':''"
    using last_dec_digits [of "unat x"] by (simp_all add: byte_line_def dec_word_def)
  then have t: "trim_blanks (byte_line x) = byte_line x" by (intro trim_id) (simp add: byte_line_def)
  have "unat x < 256" using unsigned_less [of x, where ?'a = nat] by simp
  then have "asm_word (dec_word x) = Ok (word_of_int (int (unat x)))"
    using Atoi_dec [of "unat x"] by (simp add: asm_word_def dec_word_def)
  moreover have "ucast (word_of_int (int (unat x)) :: u32) = x"
  proof -
    have "word_of_int (int (unat x)) = (ucast x :: u32)" by (simp only: ucast_eq uint_nat)
    moreover have "ucast (ucast x :: u32) = x" by (rule bit_word_eqI) (auto simp: bit_simps)
    ultimately show ?thesis by simp
  qed
  moreover have "byte_line x \<noteq> []" "hd (byte_line x) = CHR ''.''" "\<not> length (byte_line x) < 6"
    "sub_bytes 1 6 (byte_line x) = ''byte ''" "drop 6 (byte_line x) = dec_word x"
    by (simp_all add: byte_line_def sub_bytes_def)
  ultimately show ?thesis using l t by (simp add: asm_line_def Let_def push_byte_def)
qed

fun words_of :: "bytes \<Rightarrow> u32 list" where
  "words_of (a # b # c # d # bs) = le_word [a, b, c, d] # words_of bs"
| "words_of _ = []"

lemma asm_byte_lines:
  "length bs mod 4 = 0 \<Longrightarrow> asm_tbuf a = [] \<Longrightarrow>
   asm_lines (map byte_line bs) a = Ok (a\<lparr>asm_rest := asm_rest a @ words_of bs\<rparr>)"
proof (induction bs arbitrary: a rule: words_of.induct)
  case (1 x y z w bs)
  have "push_byte w (push_byte z (push_byte y (push_byte x a))) = a\<lparr>asm_rest := asm_rest a @ [le_word [x, y, z, w]]\<rparr>"
    using 1(3) by (simp add: push_byte_def)
  with 1 show ?case by (simp add: asm_byte_line)
qed auto

lemma words_of_bytes: "length bs mod 4 = 0 \<Longrightarrow> concat (map (le_bytes 4) (words_of bs)) = bs"
proof (induction bs rule: words_of.induct)
  case (1 a b c d bs)
  have "le_bytes 4 (le_word [a, b, c, d] :: u32) = [a, b, c, d]" 
  proof -
    have "length [a, b, c, d] = 4" "8 * length [a, b, c, d] \<le> LENGTH(32)" by simp_all
    then show ?thesis using le_bytes_le_word [of "[a, b, c, d]", where ?'a = 32] by (simp only:)
  qed
  with 1 show ?case by simp
qed auto

lemma length_words_of: "length bs mod 4 = 0 \<Longrightarrow> length (words_of bs) = length bs div 4"
  by (induction bs rule: words_of.induct) auto

lemma asm_lines_append: "asm_lines (xs @ ys) a = try_res (asm_lines xs a) (asm_lines ys)"
proof (induction xs arbitrary: a)
  case (Cons x xs)
  then show ?case by (cases "asm_line x a") simp_all
qed simp

lemma length_pad4 [simp]: "length (pad4 s) mod 4 = 0"
proof -
  have "length s mod 4 \<in> {0, 1, 2, 3}" by auto
  moreover have "length (pad4 s) mod 4 = (length s mod 4 + (4 - length s mod 4) mod 4) mod 4"
    by (simp add: pad4_def mod_add_left_eq)
  ultimately show ?thesis by auto
qed

lemma pad4_id: "length s mod 4 = 0 \<Longrightarrow> pad4 s = s"
  by (simp add: pad4_def)

lemma split_asAsmByteArr:
  "split_on line_feed (asAsmByteArr s) = (if s = [] then [[]] else map byte_line (pad4 s))"
proof (cases "s = []")
  case False
  then have "map byte_line (pad4 s) \<noteq> []" by (simp add: pad4_def)
  then have "split_on line_feed (join_lines (map byte_line (pad4 s))) = map byte_line (pad4 s)"
    by (simp add: split_on_join comp_def split_byte_line)
  then show ?thesis using False by (simp add: asAsmByteArr_def byte_line_def [abs_def])
qed (simp add: asAsmByteArr_def pad4_def)

lemma asm_empty_line: "asm_line [] a = Ok a"
  by (simp add: asm_line_def trim_blanks_def)

lemma asm_byte_array:
  "asm_tbuf a = [] \<Longrightarrow> asm_lines (split_on line_feed (asAsmByteArr s)) a = Ok (a\<lparr>asm_rest := asm_rest a @ words_of (pad4 s)\<rparr>)"
  by (simp add: split_asAsmByteArr asm_byte_lines asm_empty_line) (simp add: pad4_def)

abbreviation empty_asm :: assembly where
  "empty_asm \<equiv> \<lparr>asm_rest = [], asm_tbuf = [], asm_labels = Map.empty, asm_later = []\<rparr>"

lemma asm_start: "asm_line ''_start:'' a = Ok (a\<lparr>asm_labels := (asm_labels a)(''_start'' \<mapsto> length (asm_rest a))\<rparr>)"
  by (simp add: asm_line_def trim_blanks_def)

lemma split_start: "split_on line_feed (''_start:'' @ line_feed # s) = ''_start:'' # split_on line_feed s"
  unfolding split_on_append by (simp add: split_on_single)

text \<open>
  Bytes that the wallet writes as text, one \<open>.byte\<close> each and filled up with zeros to a multiple of four, are
  assembled to exactly these bytes.
\<close>

lemma byte_text_roundtrip:
  assumes "\<And>l. mset (ord l) = mset l"
  shows "BuiltinAsmToBytes ord (asAsmByteArr s) = Ok (s @ replicate ((4 - length s mod 4) mod 4) 0)"
proof -
  have "ord [] = []" using assms [of "[]"] by simp
  then have "BuiltinAsmToBytes ord (asAsmByteArr s) = Ok (concat (map (le_bytes 4) (words_of (pad4 s))))"
    unfolding BuiltinAsmToBytes_def split_start by (simp add: asm_start asm_byte_array)
  then show ?thesis by (simp only: words_of_bytes [OF length_pad4]) (simp only: pad4_def)
qed

lemma byte_text_roundtrip_witness:
  "BuiltinAsmToBytes rev (asAsmByteArr [1, 200, 3, 4, 255]) = Ok [1, 200, 3, 4, 255, 0, 0, 0]"
proof -
  have "replicate 3 (0 :: u8) = [0, 0, 0]" by (simp add: eval_nat_numeral)
  then show ?thesis using byte_text_roundtrip [of rev "[1, 200, 3, 4, 255]"] by simp
qed

text \<open>Bytes at the end that do not fill a word are dropped.\<close>

lemma trailing_bytes_dropped:
  assumes "ord [] = []"
  shows "BuiltinAsmToBytes ord (byte_line x) = Ok []"
  unfolding BuiltinAsmToBytes_def split_start split_byte_line
  by (simp add: asm_start asm_byte_line push_byte_def assms)

section \<open>Where the arguments of a call lie\<close>

lemma asm_line_grows:
  "asm_line l a = Ok a' \<Longrightarrow> \<exists>ws pls. asm_rest a' = asm_rest a @ ws \<and> asm_later a' = asm_later a @ pls \<and>
     (\<forall>pl\<in>set pls. length (asm_rest a) \<le> fst pl)"
  by (auto simp: asm_line_def Let_def try_res_eq_Ok split: if_splits)

lemma asm_lines_grow:
  "asm_lines ls a = Ok a' \<Longrightarrow> \<exists>ws pls. asm_rest a' = asm_rest a @ ws \<and> asm_later a' = asm_later a @ pls \<and>
     (\<forall>pl\<in>set pls. length (asm_rest a) \<le> fst pl)"
proof (induction ls arbitrary: a)
  case (Cons l ls)
  then obtain b where b: "asm_line l a = Ok b" "asm_lines ls b = Ok a'" by (auto simp: try_res_eq_Ok)
  from asm_line_grows [OF b(1)] Cons.IH [OF b(2)] show ?case by fastforce
qed simp

lemma patch_keeps:
  assumes "patch labels pl r = Ok ws'"
  shows "\<exists>ws. r = Ok ws \<and> length ws' = length ws \<and> (\<forall>i<length ws. i \<notin> later_span pl \<longrightarrow> ws' ! i = ws ! i)"
proof -
  from assms obtain ws xs where "r = Ok ws" and xs: "patch_words labels pl = Ok xs" "ws' = blit ws (fst pl) xs"
    by (auto simp: patch_def try_res_eq_Ok)
  then show ?thesis using patch_words_span [OF xs(1)] by (auto simp: length_blit_any nth_blit_any)
qed

lemma patches_keep:
  "fold (patch labels) pls r = Ok ws' \<Longrightarrow>
   \<exists>ws. r = Ok ws \<and> length ws' = length ws \<and> (\<forall>i<length ws. (\<forall>pl\<in>set pls. i \<notin> later_span pl) \<longrightarrow> ws' ! i = ws ! i)"
proof (induction pls arbitrary: r)
  case (Cons pl pls)
  then have "fold (patch labels) pls (patch labels pl r) = Ok ws'" by simp
  from Cons.IH [OF this] obtain ws1 where 1: "patch labels pl r = Ok ws1" "length ws' = length ws1"
    "\<forall>i<length ws1. (\<forall>pl\<in>set pls. i \<notin> later_span pl) \<longrightarrow> ws' ! i = ws1 ! i" by blast
  from patch_keeps [OF 1(1)] 1(2,3) show ?case by auto
qed simp

text \<open>The instructions before the data are eight words, whatever the contract.\<close>

lemma head_regs: "asm_reg ''s0'' = Ok 8" "asm_reg ''ra'' = Ok 1" "asm_reg ''t0'' = Ok 5" "asm_reg ''a0'' = Ok 10" "asm_reg ''s1'' = Ok 9"
  by (simp_all add: asm_reg_def asm_word_def Atoi_def string_bytes_def)

lemma head_insns:
  "asm_insn ''mv'' [''s0'', ''ra''] n = Ok [0x00008413]" "asm_insn ''mv'' [''s1'', ''a0''] n = Ok [0x00050493]"
  "asm_insn ''li'' [''t0'', ''-72''] n = Ok [0xfb800293]" "asm_insn ''srli'' [''t0'', ''t0'', ''1''] n = Ok [0x0012d293]"
  "asm_insn ''jalr'' [''t0''] n = Ok [0x000280e7]"
proof -
  have "genIType 0b0010011 8 0 1 0 = Ok 0x00008413" "genIType 0b0010011 9 0 10 0 = Ok 0x00050493"
    "genIType 0b0010011 5 0 0 (- 72) = Ok 0xfb800293" "genIType 0b0010011 5 5 5 1 = Ok 0x0012d293"
    "genIType 0b1100111 1 0 5 0 = Ok 0x000280e7" by code_simp+
  then show "asm_insn ''mv'' [''s0'', ''ra''] n = Ok [0x00008413]" "asm_insn ''mv'' [''s1'', ''a0''] n = Ok [0x00050493]"
    "asm_insn ''li'' [''t0'', ''-72''] n = Ok [0xfb800293]" "asm_insn ''srli'' [''t0'', ''t0'', ''1''] n = Ok [0x0012d293]"
    "asm_insn ''jalr'' [''t0''] n = Ok [0x000280e7]"
    by (simp_all add: asm_insn_def arg_at_def head_regs asm_li_def asm_word_def Atoi_def string_bytes_def)
qed

lemma insn_line:
  assumes "trim_blanks l = t" and "t \<noteq> []" "last t \<noteq> CHR '':''" "hd t \<noteq> CHR ''.''" and "split_insn l = \<lparr>later_op = op, later_args = args\<rparr>"
    and "op \<notin> {''la'', ''j'', ''beq'', ''bne''}" and "\<And>n. asm_insn op args n = Ok ws" and "asm_tbuf a = []"
  shows "asm_line l a = Ok (a\<lparr>asm_rest := asm_rest a @ ws\<rparr>)"
  using assms by (simp add: asm_line_def)

lemma head_lines:
  assumes "asm_tbuf a = []"
  shows "asm_line ''mv s0, ra'' a = Ok (a\<lparr>asm_rest := asm_rest a @ [0x00008413]\<rparr>)"
    and "asm_line ''mv s1, a0'' a = Ok (a\<lparr>asm_rest := asm_rest a @ [0x00050493]\<rparr>)"
    and "asm_line ''li t0, -72'' a = Ok (a\<lparr>asm_rest := asm_rest a @ [0xfb800293]\<rparr>)"
    and "asm_line ''srli t0, t0, 1'' a = Ok (a\<lparr>asm_rest := asm_rest a @ [0x0012d293]\<rparr>)"
    and "asm_line ''jalr t0'' a = Ok (a\<lparr>asm_rest := asm_rest a @ [0x000280e7]\<rparr>)"
    and "asm_line ''la a0, caddr'' a = Ok (a\<lparr>asm_later := asm_later a @ [(length (asm_rest a), \<lparr>later_op = ''la'', later_args = [''a0'', ''caddr'']\<rparr>)],
      asm_rest := asm_rest a @ [0, 0]\<rparr>)"
    and "asm_line ''j later'' a = Ok (a\<lparr>asm_later := asm_later a @ [(length (asm_rest a), \<lparr>later_op = ''j'', later_args = [''later'']\<rparr>)],
      asm_rest := asm_rest a @ [0]\<rparr>)"
    and "asm_line ''calldata:'' a = Ok (a\<lparr>asm_labels := (asm_labels a)(''calldata'' \<mapsto> length (asm_rest a))\<rparr>)"
  using assms
  by (auto intro!: insn_line [OF refl _ _ _ _ _ head_insns(1)] insn_line [OF refl _ _ _ _ _ head_insns(2)]
      insn_line [OF refl _ _ _ _ _ head_insns(3)] insn_line [OF refl _ _ _ _ _ head_insns(4)] insn_line [OF refl _ _ _ _ _ head_insns(5)]
      simp: trim_blanks_def split_insn_def) (simp_all add: asm_line_def trim_blanks_def split_insn_def)

definition head_state :: assembly where
  "head_state =
     \<lparr>asm_rest = [0x00008413, 0, 0, 0xfb800293, 0x0012d293, 0x000280e7, 0x00050493, 0], asm_tbuf = [],
      asm_labels = [''_start'' \<mapsto> 0, ''calldata'' \<mapsto> 8],
      asm_later = [(1, \<lparr>later_op = ''la'', later_args = [''a0'', ''caddr'']\<rparr>), (7, \<lparr>later_op = ''j'', later_args = [''later'']\<rparr>)]\<rparr>"

lemma dec_72: "dec_digits 72 = ''72''"
  by code_simp

lemma head_assembles: "asm_lines (''_start:'' # call_head @ [''j later'', ''calldata:'']) empty_asm = Ok head_state"
  by (simp add: call_head_def syscall_lines_def SYSCALL_LOAD_CONTRACT_def dec_72 head_lines asm_start head_state_def) (simp add: numeral_eq_Suc)

lemma head_split:
  "concat (map (split_on line_feed) (call_head @ [''j later'', ''calldata:''])) = call_head @ [''j later'', ''calldata:'']"
  by (simp add: call_head_def syscall_lines_def SYSCALL_LOAD_CONTRACT_def dec_72)

lemma length_call_address: "call_address B x = Ok a \<Longrightarrow> length a = AddressLen"
  by (auto simp: call_address_def ParseAddr_def Let_def length_sub_bytes split: res.splits sum.splits if_splits)

definition arg_given :: "base58 \<Rightarrow> int \<Rightarrow> AddressType list \<Rightarrow> char \<Rightarrow> string \<Rightarrow> u64 \<Rightarrow> bool" where
  "arg_given B pos ds c x k \<longleftrightarrow>
     (c = CHR ''i'' \<longrightarrow> (\<exists>v. Atoi (string_bytes x) = Inr v \<and> k = u64_of_int v)) \<and>
     (c = CHR ''a'' \<longrightarrow> (\<exists>j<length ds. call_address B x = Ok (ds ! j) \<and> k = u64_of_int (pos + 32 * int j)))"

lemma arg_given_shift:
  "arg_given B (pos + 32 * int (length d)) ds c x k \<Longrightarrow> arg_given B pos (d @ ds) c x k"
proof -
  assume g: "arg_given B (pos + 32 * int (length d)) ds c x k"
  have "\<exists>j<length (d @ ds). call_address B x = Ok ((d @ ds) ! j) \<and> k = u64_of_int (pos + 32 * int j)" if "c = CHR ''a''"
  proof -
    from g that obtain j where "j < length ds" "call_address B x = Ok (ds ! j)" "k = u64_of_int (pos + 32 * int (length d) + 32 * int j)"
      unfolding arg_given_def by blast
    then show ?thesis by (intro exI [of _ "length d + j"]) (simp add: nth_append algebra_simps)
  qed
  with g show ?thesis by (simp add: arg_given_def)
qed

lemma gen_args_spec:
  "gen_args B cs args pos = Ok (ks, ds) \<Longrightarrow>
   length ks = length cs \<and> length ds \<le> length cs \<and> (\<forall>d\<in>set ds. length d = AddressLen) \<and>
   (\<forall>i<length cs. cs ! i \<in> {CHR ''i'', CHR ''a''} \<longrightarrow> i < length args \<and> arg_given B pos ds (cs ! i) (args ! i) (ks ! i))"
proof (induction cs arbitrary: args pos ks ds)
  case (Cons c cs)
  then obtain k d ks1 ds1 where
    one: "(if c = CHR ''i'' then
          try_res (arg_at 0 args) (\<lambda>x. case Atoi (string_bytes x) of Inl _ \<Rightarrow> Panic | Inr v \<Rightarrow> Ok (u64_of_int v, []))
        else if c = CHR ''a'' then
          try_res (arg_at 0 args) (\<lambda>x. try_res (call_address B x) (\<lambda>a. Ok (u64_of_int pos, [a])))
        else Ok (0, [])) = Ok (k, d)"
    and more: "gen_args B cs (tl args) (pos + int (length (concat d))) = Ok (ks1, ds1)" and res: "ks = k # ks1" "ds = d @ ds1"
    by (auto simp: try_res_eq_Ok)
  have d: "d = [] \<or> (\<exists>a. d = [a] \<and> length a = AddressLen)" and
    here: "c \<in> {CHR ''i'', CHR ''a''} \<Longrightarrow> args \<noteq> [] \<and> arg_given B pos ds c (args ! 0) k"
    using one length_call_address unfolding res
    by (auto simp: try_res_eq_Ok arg_at_def arg_given_def split: if_splits sum.splits)
  have len: "int (length (concat d)) = 32 * int (length d)" using d by (auto simp: len_defs)
  note IH = Cons.IH [OF more, unfolded len]
  have "i < length args \<and> arg_given B pos ds ((c # cs) ! i) (args ! i) (ks ! i)"
    if "i < length (c # cs)" "(c # cs) ! i \<in> {CHR ''i'', CHR ''a''}" for i
  proof (cases i)
    case 0
    with that here show ?thesis by (simp add: res)
  next
    case (Suc n)
    with that IH have "n < length (tl args)" "arg_given B (pos + 32 * int (length d)) ds1 (cs ! n) (tl args ! n) (ks1 ! n)" by auto
    with Suc arg_given_shift show ?thesis by (auto simp: res nth_tl)
  qed
  moreover have "length ks = length (c # cs)" "length ds \<le> length (c # cs)" "\<forall>x\<in>set ds. length x = AddressLen" using IH d by (auto simp: res)
  ultimately show ?case by blast
qed simp

lemma nth_chunk:
  "i < length xss \<Longrightarrow> \<forall>xs\<in>set xss. length xs = n \<Longrightarrow> take n (drop (n * i) (concat xss @ ys)) = xss ! i"
proof (induction xss arbitrary: i)
  case (Cons xs xss)
  then show ?case by (cases i) (simp_all add: drop_append)
qed simp

lemma length_chunks: "\<forall>xs\<in>set xss. length xs = n \<Longrightarrow> length (concat xss) = n * length xss"
  by (induction xss) simp_all

lemma drop_words: "drop (4 * k) (concat (map (le_bytes 4) ws)) = concat (map (le_bytes 4) (drop k ws))"
proof (induction ws arbitrary: k)
  case (Cons w ws)
  then show ?case by (cases k) (simp_all add: drop_append del: le_bytes.simps)
qed simp

lemma take_words: "take (4 * k) (concat (map (le_bytes 4) ws)) = concat (map (le_bytes 4) (take k ws))"
proof (induction ws arbitrary: k)
  case (Cons w ws)
  then show ?case by (cases k) (simp_all add: take_append del: le_bytes.simps)
qed simp

text \<open>The data of a call as text is the text of its bytes.\<close>

lemma data_lines:
  assumes "\<forall>bs\<in>set bss. length bs mod 4 = 0 \<and> bs \<noteq> []"
  shows "concat (map (\<lambda>bs. split_on line_feed (asAsmByteArr bs)) bss) = map byte_line (concat bss)"
  using assms by (induction bss) (auto simp: split_asAsmByteArr pad4_id)

definition call_rest :: "bool \<Rightarrow> string \<Rightarrow> char \<Rightarrow> u64 \<Rightarrow> string list" where
  "call_rest write f r cval =
     invoke_lines (\<lambda>reg. ''la '' @ reg @ '', calldata'') (selector f) cval @ (if write then [] else result_lines r)"

lemma genWorker_data:
  assumes "genWorker B write f (r # at) cval args = Ok worker" and "2 \<le> length at"
  obtains ks ds where "gen_args B at args (CallDataBase + 8 * int (length at)) = Ok (ks, ds)"
    "worker = [''j later'', ''calldata:''] @ map (\<lambda>bs. asAsmByteArr bs) (map (le_bytes 8) ks @ ds) @ call_rest write f r cval"
proof -
  from assms(1) obtain ls a1s where cd: "call_data B at args = Ok (ls, a1s)"
    and w: "worker = [''j later'', ''calldata:''] @ ls @ invoke_lines a1s (selector f) cval @ (if write then [] else result_lines r)"
    by (auto simp: genWorker_def try_res_eq_Ok)
  have "at \<noteq> []" "at \<noteq> ''i''" "length at \<noteq> 1" using assms(2) by auto
  with cd obtain ks ds where g: "gen_args B at args (CallDataBase + 8 * int (length at)) = Ok (ks, ds)"
    and "ls = map (\<lambda>k. asAsmByteArr (le_bytes 8 k)) ks @ map asAsmByteArr ds" "a1s = (\<lambda>reg. ''la '' @ reg @ '', calldata'')"
    by (auto simp: call_data_def try_res_eq_Ok Let_def)
  then have "worker = [''j later'', ''calldata:''] @ map (\<lambda>bs. asAsmByteArr bs) (map (le_bytes 8) ks @ ds) @ call_rest write f r cval"
    by (simp add: w comp_def call_rest_def)
  with g show thesis by (rule that)
qed

lemma call_pieces:
  assumes "gen_args B at args pos = Ok (ks, ds)"
  shows "\<forall>bs\<in>set (map (le_bytes 8) ks @ ds). length bs mod 4 = 0 \<and> bs \<noteq> []"
  using gen_args_spec [OF assms] by (auto simp: len_defs simp del: le_bytes.simps dest!: arg_cong [of _ "[]" length])

text \<open>The first pass, up to the data and behind it.\<close>

lemma call_first_pass:
  assumes bss: "\<forall>bs\<in>set bss. length bs mod 4 = 0 \<and> bs \<noteq> []"
    and worker: "worker = [''j later'', ''calldata:''] @ map (\<lambda>bs. asAsmByteArr bs) bss @ rest"
  shows "asm_lines (split_on line_feed (''_start:'' @ line_feed # join_lines (call_lines worker caddr))) empty_asm =
    asm_lines (concat (map (split_on line_feed) (rest @ [''mv ra, s0'', ''ret'', ''caddr:'', asAsmByteArr caddr])))
      (head_state\<lparr>asm_rest := asm_rest head_state @ words_of (concat bss)\<rparr>)"
proof -
  let ?D = "concat bss" and ?tail = "concat (map (split_on line_feed) (rest @ [''mv ra, s0'', ''ret'', ''caddr:'', asAsmByteArr caddr]))"
  have "split_on line_feed (join_lines (call_lines worker caddr)) = concat (map (split_on line_feed) (call_lines worker caddr))"
    by (rule split_on_join) (simp add: call_lines_def)
  also have "\<dots> = concat (map (split_on line_feed) (call_head @ [''j later'', ''calldata:'']))
      @ concat (map (\<lambda>bs. split_on line_feed (asAsmByteArr bs)) bss) @ ?tail"
    by (simp add: call_lines_def worker comp_def)
  finally have "split_on line_feed (''_start:'' @ line_feed # join_lines (call_lines worker caddr)) =
      (''_start:'' # call_head @ [''j later'', ''calldata:'']) @ map byte_line ?D @ ?tail"
    unfolding split_start by (simp only: head_split data_lines [OF bss] append.simps)
  moreover have "length ?D mod 4 = 0" using bss by (induction bss) auto
  moreover have "asm_tbuf head_state = []" by (simp add: head_state_def)
  ultimately show ?thesis
    by (simp only: asm_lines_append [of "_ # call_head @ _"] head_assembles asm_lines_append [of "map byte_line ?D"] asm_byte_lines try_res_simps)
qed

lemma call_code_data:
  assumes perm: "\<And>l. mset (ord l) = mset l" and bss: "\<forall>bs\<in>set bss. length bs mod 4 = 0 \<and> bs \<noteq> []"
    and worker: "worker = [''j later'', ''calldata:''] @ map (\<lambda>bs. asAsmByteArr bs) bss @ rest"
    and code: "BuiltinAsmToBytes ord (join_lines (call_lines worker caddr)) = Ok code"
  shows "take (length (concat bss)) (drop 32 code) = concat bss"
proof -
  let ?D = "concat bss"
  have a: "length (asm_rest head_state) = 8" "\<forall>pl\<in>set (asm_later head_state). later_span pl \<subseteq> {..<8}"
    by (auto simp: head_state_def later_span_def)
  have D4: "length ?D mod 4 = 0" using bss by (induction bss) auto
  from code obtain tail e ws where e: "asm_lines tail (head_state\<lparr>asm_rest := asm_rest head_state @ words_of ?D\<rparr>) = Ok e"
      "fold (patch (asm_labels e)) (ord (asm_later e)) (Ok (asm_rest e)) = Ok ws"
    and c: "code = concat (map (le_bytes 4) ws)"
    unfolding BuiltinAsmToBytes_def call_first_pass [OF bss worker] by (simp only: try_res_eq_Ok res.inject) blast
  obtain more pls where m: "asm_rest e = asm_rest head_state @ words_of ?D @ more" "asm_later e = asm_later head_state @ pls"
    "\<forall>pl\<in>set pls. 8 + length (words_of ?D) \<le> fst pl"
    using asm_lines_grow [OF e(1)] a(1) by auto
  have "set (ord (asm_later e)) = set (asm_later e)" using perm by (metis set_mset_mset)
  moreover have "i \<notin> later_span pl" if "pl \<in> set (asm_later e)" "8 \<le> i" "i < 8 + length (words_of ?D)" for i pl
    using that a(2) m(2,3) by (fastforce simp: later_span_def)
  ultimately have kept: "length ws = length (asm_rest e)" "8 \<le> i \<Longrightarrow> i < 8 + length (words_of ?D) \<Longrightarrow> ws ! i = asm_rest e ! i" for i
    using patches_keep [OF e(2)] m(1) a(1) by auto
  have "take (length (words_of ?D)) (drop 8 ws) = words_of ?D"
    by (rule nth_equalityI) (use kept a(1) m(1) in \<open>simp_all add: nth_append\<close>)
  then have "take (4 * length (words_of ?D)) (drop (4 * 8) code) = ?D"
    unfolding c by (simp only: drop_words take_words words_of_bytes [OF D4])
  moreover have "4 * length (words_of ?D) = length ?D" using length_words_of [OF D4] D4 by presburger
  ultimately show ?thesis by simp
qed

lemma sub_bytes_part: "take n (drop k xs) = D \<Longrightarrow> i + m \<le> n \<Longrightarrow> sub_bytes (k + i) (k + i + m) xs = take m (drop i D)"
  by (auto simp: sub_bytes_def drop_take take_take min_def add.commute)

section \<open>A call without a value is assembled\<close>

lemma length_li: "rd < 32 \<Longrightarrow> \<exists>ws. asm_li rd v n = Ok ws \<and> length ws \<le> 6"
  by (cases rule: li_words [where rd = rd and v = v and n = n]) auto

lemma split_li:
  assumes "t = dec_int v"
  shows "trim_blanks (''li a0, '' @ t) = ''li a0, '' @ t" "last (''li a0, '' @ t) \<noteq> CHR '':''"
    "split_insn (''li a0, '' @ t) = \<lparr>later_op = ''li'', later_args = [''a0'', t]\<rparr>"
proof -
  have ne: "t \<noteq> []" by (simp add: assms dec_int_def)
  have lt: "last t \<noteq> CHR '' ''" "last t \<noteq> CHR '':''"
    using last_dec_digits [of "nat (- v)"] last_dec_digits [of "nat v"] by (auto simp: assms dec_int_def)
  have chars: "c \<noteq> CHR '' '' \<and> c \<noteq> CHR '',''" if "c \<in> set t" for c
    using that dec_digits_char [of c] by (auto simp: assms dec_int_def split: if_splits)
  then have "hd t \<noteq> CHR '' ''" using ne by (cases t) auto
  then have tt: "trim_blanks t = t" using lt(1) by (intro trim_id) simp
  have "dropWhile ((=) CHR '' '') (rev t) = rev t" using ne lt(1) by (cases "rev t") (auto simp: hd_rev [symmetric])
  then have ts: "trim_blanks (CHR '' '' # t) = t" using \<open>hd t \<noteq> CHR '' ''\<close> ne by (cases t) (auto simp: trim_blanks_def)
  show "trim_blanks (''li a0, '' @ t) = ''li a0, '' @ t" by (rule trim_id) (use ne lt in simp)
  show "last (''li a0, '' @ t) \<noteq> CHR '':''" using ne lt by simp
  have "split_on CHR '','' (CHR '' '' # t) = [CHR '' '' # t]" using chars by (intro split_on_single) auto
  then have "split_on CHR '','' (''a0, '' @ t) = [''a0'', CHR '' '' # t]" by (simp add: append.simps(2))
  then show "split_insn (''li a0, '' @ t) = \<lparr>later_op = ''li'', later_args = [''a0'', t]\<rparr>"
    by (simp add: split_insn_def ts) (simp add: trim_blanks_def)
qed

lemma li_line:
  assumes "- (2 ^ 63) \<le> v" "v < 2 ^ 63" and "asm_tbuf a = []"
  shows "\<exists>ws. asm_line (''li a0, '' @ dec_int v) a = Ok (a\<lparr>asm_rest := asm_rest a @ ws\<rparr>) \<and> length ws \<le> 6"
proof -
  obtain ws where ws: "asm_li 10 v (length (asm_rest a)) = Ok ws" "length ws \<le> 6" using length_li [of 10] by auto
  have "asm_insn ''li'' [''a0'', dec_int v] (length (asm_rest a)) = Ok ws"
    using ws(1) Atoi_dec_int [OF assms(1,2)] by (simp add: asm_insn_def arg_at_def head_regs)
  then have "asm_line (''li a0, '' @ dec_int v) a = Ok (a\<lparr>asm_rest := asm_rest a @ ws\<rparr>)"
    using split_li [OF refl, of v] assms(3) by (simp add: asm_line_def Let_def)
  with ws(2) show ?thesis by blast
qed

lemma tail_insns:
  "asm_insn ''jalr'' [''s1''] n = Ok [0x000480e7]" "asm_insn ''mv'' [''ra'', ''s0''] n = Ok [0x00040093]" "asm_insn ''ret'' [] n = Ok [0x00008067]"
proof -
  have "genIType 0b1100111 1 0 9 0 = Ok 0x000480e7" "genIType 0b0010011 1 0 8 0 = Ok 0x00040093" "genIType 0b1100111 0 0 1 0 = Ok 0x00008067"
    by code_simp+
  then show "asm_insn ''jalr'' [''s1''] n = Ok [0x000480e7]" "asm_insn ''mv'' [''ra'', ''s0''] n = Ok [0x00040093]" "asm_insn ''ret'' [] n = Ok [0x00008067]"
    by (simp_all add: asm_insn_def arg_at_def head_regs)
qed

lemma tail_lines:
  assumes "asm_tbuf a = []"
  shows "asm_line ''jalr s1'' a = Ok (a\<lparr>asm_rest := asm_rest a @ [0x000480e7]\<rparr>)"
    and "asm_line ''mv ra, s0'' a = Ok (a\<lparr>asm_rest := asm_rest a @ [0x00040093]\<rparr>)"
    and "asm_line ''ret'' a = Ok (a\<lparr>asm_rest := asm_rest a @ [0x00008067]\<rparr>)"
    and "asm_line ''la a1, calldata'' a = Ok (a\<lparr>asm_later := asm_later a @ [(length (asm_rest a), \<lparr>later_op = ''la'', later_args = [''a1'', ''calldata'']\<rparr>)],
      asm_rest := asm_rest a @ [0, 0]\<rparr>)"
    and "asm_line ''later:'' a = Ok (a\<lparr>asm_labels := (asm_labels a)(''later'' \<mapsto> length (asm_rest a))\<rparr>)"
    and "asm_line ''caddr:'' a = Ok (a\<lparr>asm_labels := (asm_labels a)(''caddr'' \<mapsto> length (asm_rest a))\<rparr>)"
  using assms
  by (auto intro!: insn_line [OF refl _ _ _ _ _ tail_insns(1)] insn_line [OF refl _ _ _ _ _ tail_insns(2)] insn_line [OF refl _ _ _ _ _ tail_insns(3)]
      simp: trim_blanks_def split_insn_def) (simp_all add: asm_line_def trim_blanks_def split_insn_def)

lemma patches_ok:
  "\<forall>pl\<in>set pls. \<exists>xs. patch_words labels pl = Ok xs \<Longrightarrow> \<exists>ws'. fold (patch labels) pls (Ok ws) = Ok ws'"
  by (induction pls arbitrary: ws) (auto simp: patch_def)

lemma patch_near:
  assumes "labels l = Some t" and "\<bar>int t - int p\<bar> < 512" and "asm_reg r = Ok n" "n < 32"
  shows "\<exists>xs. patch_words labels (p, \<lparr>later_op = ''la'', later_args = [r, l]\<rparr>) = Ok xs"
    and "\<exists>xs. patch_words labels (p, \<lparr>later_op = ''j'', later_args = [l]\<rparr>) = Ok xs"
proof -
  define d where "d = (int t - int p) * 4"
  have bd: "- 2048 \<le> d" "d \<le> 2047" using assms(2) by (auto simp: d_def)
  then have diff: "label_diff labels p l = d" using i32_eq [of d] by (simp add: label_diff_def assms(1) d_def)
  obtain a b where "genUType 0b0010111 n 0 = Ok a" "genIType 0b0010011 n 0 n d = Ok b"
    using gen_ok(2) [of n 0 "0b0010111"] gen_ok(1) [of n n d "0b0010011" 0] assms(4) bd by auto
  then show "\<exists>xs. patch_words labels (p, \<lparr>later_op = ''la'', later_args = [r, l]\<rparr>) = Ok xs"
    by (simp add: patch_words_def arg_at_def diff assms(3))
  have "d mod 2 = 0" by (simp add: d_def)
  then show "\<exists>xs. patch_words labels (p, \<lparr>later_op = ''j'', later_args = [l]\<rparr>) = Ok xs"
    using bd by (simp add: patch_words_def arg_at_def diff genJType_def fields_ok_def)
qed

definition plain_tail :: "string \<Rightarrow> AddressType \<Rightarrow> string list" where
  "plain_tail f caddr = [''later:'', ''li a0, '' @ dec_int (selector f), ''la a1, calldata'', ''jalr s1'', ''mv ra, s0'', ''ret'', ''caddr:'', asAsmByteArr caddr]"

lemma split_li_line: "split_on line_feed (''li a0, '' @ dec_int v) = [''li a0, '' @ dec_int v]"
proof (rule split_on_single)
  have "line_feed \<notin> set (dec_int v)" using dec_digits_chars by (auto simp: dec_int_def)
  then show "line_feed \<notin> set (''li a0, '' @ dec_int v)" by simp
qed

lemma tail_reg: "asm_reg ''a1'' = Ok 11"
  by (simp add: asm_reg_def asm_word_def Atoi_def string_bytes_def)

lemma plain_tail_split:
  "concat (map (split_on line_feed) (plain_tail f caddr)) = ''later:'' # (''li a0, '' @ dec_int (selector f)) #
     [''la a1, calldata'', ''jalr s1'', ''mv ra, s0'', ''ret'', ''caddr:''] @ split_on line_feed (asAsmByteArr caddr)"
  unfolding plain_tail_def by (simp only: list.map concat.simps split_li_line) simp

lemma plain_tail_assembles:
  assumes "asm_tbuf a = []"
  obtains ws :: "u32 list" and e where "length ws \<le> 6" "asm_lines (concat (map (split_on line_feed) (plain_tail f caddr))) a = Ok e"
    "asm_labels e = (asm_labels a)(''later'' \<mapsto> length (asm_rest a), ''caddr'' \<mapsto> length (asm_rest a) + length ws + 5)"
    "asm_later e = asm_later a @ [(length (asm_rest a) + length ws, \<lparr>later_op = ''la'', later_args = [''a1'', ''calldata'']\<rparr>)]"
proof -
  let ?b = "a\<lparr>asm_labels := (asm_labels a)(''later'' \<mapsto> length (asm_rest a))\<rparr>"
  have "- (2 ^ 63) \<le> selector f" "selector f < 2 ^ 63"
    using sint_ge [of "fnv32a f"] sint_lt [of "fnv32a f"] by (simp_all add: selector_def)
  from li_line [OF this, of ?b] assms obtain ws where
    ws: "asm_line (''li a0, '' @ dec_int (selector f)) ?b = Ok (?b\<lparr>asm_rest := asm_rest ?b @ ws\<rparr>)" "length ws \<le> 6" by auto
  define e where "e = a\<lparr>asm_rest := asm_rest a @ ws @ [0, 0, 0x000480e7, 0x00040093, 0x00008067] @ words_of (pad4 caddr),
       asm_labels := (asm_labels a)(''later'' \<mapsto> length (asm_rest a), ''caddr'' \<mapsto> length (asm_rest a) + length ws + 5),
       asm_later := asm_later a @ [(length (asm_rest a) + length ws, \<lparr>later_op = ''la'', later_args = [''a1'', ''calldata'']\<rparr>)]\<rparr>"
  have "asm_lines (concat (map (split_on line_feed) (plain_tail f caddr))) a = Ok e"
    unfolding plain_tail_split asm_lines.simps tail_lines(5) [OF assms] try_res_simps ws(1) e_def
    using assms by (cases a) (simp add: tail_lines asm_byte_array eval_nat_numeral)
  from that [OF ws(2) this] show thesis by (simp add: e_def)
qed

text \<open>
  The program of a call without a value that writes always assembles when there are at most 49 arguments: every
  label is then near enough.
\<close>

lemma call_assembles:
  assumes perm: "\<And>l. mset (ord l) = mset l" and gen: "genWorker B True f (r # at) 0 args = Ok worker"
    and at: "2 \<le> length at" "length at \<le> 49"
  shows "\<exists>code. BuiltinAsmToBytes ord (join_lines (call_lines worker caddr)) = Ok code"
proof -
  obtain ks ds where g: "gen_args B at args (CallDataBase + 8 * int (length at)) = Ok (ks, ds)"
    and w: "worker = [''j later'', ''calldata:''] @ map (\<lambda>bs. asAsmByteArr bs) (map (le_bytes 8) ks @ ds) @ call_rest True f r 0"
    using genWorker_data [OF gen at(1)] .
  note pieces = call_pieces [OF g]
  define bss where "bss = map (le_bytes 8) ks @ ds"
  let ?h = "head_state\<lparr>asm_rest := asm_rest head_state @ words_of (concat bss)\<rparr>"
  obtain ws :: "u32 list" and e where ws: "length ws \<le> 6" and
    e: "asm_lines (concat (map (split_on line_feed) (plain_tail f caddr))) ?h = Ok e"
      "asm_labels e = (asm_labels ?h)(''later'' \<mapsto> length (asm_rest ?h), ''caddr'' \<mapsto> length (asm_rest ?h) + length ws + 5)"
      "asm_later e = asm_later ?h @ [(length (asm_rest ?h) + length ws, \<lparr>later_op = ''la'', later_args = [''a1'', ''calldata'']\<rparr>)]"
    by (rule plain_tail_assembles [of ?h f caddr]) (simp add: head_state_def)
  have "length (concat bss) mod 4 = 0" using pieces unfolding bss_def [symmetric] by (induction bss) auto
  moreover have "length (concat bss) \<le> 40 * length at"
  proof -
    have "\<forall>d\<in>set ds. length d = 32" "length ks = length at" "length ds \<le> length at"
      using gen_args_spec [OF g] by (auto simp: len_defs)
    then show ?thesis using length_chunks [of "map (le_bytes 8) ks" 8] length_chunks [of ds 32] by (simp add: bss_def)
  qed
  ultimately have m: "length (words_of (concat bss)) \<le> 490" using length_words_of at(2) by auto
  have "\<exists>xs. patch_words (asm_labels e) pl = Ok xs" if "pl \<in> set (asm_later e)" for pl
    using that m ws unfolding e(2,3)
    by (auto simp: head_state_def head_regs tail_reg intro: patch_near(1) [where n = 10] patch_near(1) [where n = 11] patch_near(2) [OF _ _ head_regs(1)])
  then have "\<forall>pl\<in>set (ord (asm_later e)). \<exists>xs. patch_words (asm_labels e) pl = Ok xs" using perm by (metis set_mset_mset)
  from patches_ok [OF this, of "asm_rest e"] obtain ws' where
    "fold (patch (asm_labels e)) (ord (asm_later e)) (Ok (asm_rest e)) = Ok ws'" by blast
  moreover have "call_rest True f r 0 @ [''mv ra, s0'', ''ret'', ''caddr:'', asAsmByteArr caddr] = plain_tail f caddr"
    by (simp add: call_rest_def invoke_lines_def plain_tail_def)
  ultimately show ?thesis
    using e(1) unfolding BuiltinAsmToBytes_def call_first_pass [OF pieces w] bss_def by simp
qed

section \<open>The arguments in the program\<close>

text \<open>
  C19: The arguments in the program of a call. Raw code is loaded at address 0x10000000. In every program that the wallet
  assembles for a function with at least two arguments, the eight bytes for argument \<open>i\<close> lie at offset \<open>32 + 8 * i\<close>,
  behind the eight words of code that jump over them. For an integer they are its value; for an address they point
  at 32 bytes inside of the program, which are the address that was given.
\<close>

theorem call_arguments_layout:
  assumes "\<And>l. mset (ord l) = mset l" and "genWorker B write f (r # at) cval args = Ok worker"
    and "2 \<le> length at" and "BuiltinAsmToBytes ord (join_lines (call_lines worker caddr)) = Ok code"
    and "i < length at"
  shows "(at ! i = CHR ''i'' \<longrightarrow>
      (\<exists>v. Atoi (string_bytes (args ! i)) = Inr v \<and> le_word (sub_bytes (32 + 8 * i) (40 + 8 * i) code) = u64_of_int v)) \<and>
    (at ! i = CHR ''a'' \<longrightarrow>
      (\<exists>off. le_word (sub_bytes (32 + 8 * i) (40 + 8 * i) code) = (0x10000000 + of_nat off :: u64) \<and>
        call_address B (args ! i) = Ok (sub_bytes off (off + 32) code)))"
proof -
  obtain ks ds where g: "gen_args B at args (CallDataBase + 8 * int (length at)) = Ok (ks, ds)"
    and w: "worker = [''j later'', ''calldata:''] @ map (\<lambda>bs. asAsmByteArr bs) (map (le_bytes 8) ks @ ds) @ call_rest write f r cval"
    using genWorker_data [OF assms(2,3)] .
  note spec = gen_args_spec [OF g]
  have ds: "\<forall>d\<in>set ds. length d = 32" and lk: "length ks = length at" using spec by (auto simp: len_defs)
  from call_code_data [OF assms(1) call_pieces [OF g] w assms(4)]
  have data: "take (length (concat (map (le_bytes 8) ks @ ds))) (drop 32 code) = concat (map (le_bytes 8) ks @ ds)" .
  have len: "length (concat (map (le_bytes 8) ks)) = 8 * length at" "length (concat ds) = 32 * length ds"
    using length_chunks [of "map (le_bytes 8) ks" 8] length_chunks [OF ds] lk by simp_all
  have "sub_bytes (32 + 8 * i) (32 + 8 * i + 8) code = take 8 (drop (8 * i) (concat (map (le_bytes 8) ks) @ concat ds))"
    by (rule sub_bytes_part [OF data [unfolded concat_append]]) (use len assms(5) in simp)
  also have "\<dots> = le_bytes 8 (ks ! i)" using nth_chunk [of i "map (le_bytes 8) ks" 8 "concat ds"] assms(5) lk by simp
  finally have word: "le_word (sub_bytes (32 + 8 * i) (40 + 8 * i) code) = ks ! i" by (simp add: le_word_le_bytes_id add.commute)
  have addr: "sub_bytes (32 + (8 * length at + 32 * j)) (32 + (8 * length at + 32 * j) + 32) code = ds ! j" if "j < length ds" for j
  proof -
    have "sub_bytes (32 + (8 * length at + 32 * j)) (32 + (8 * length at + 32 * j) + 32) code =
        take 32 (drop (8 * length at + 32 * j) (concat (map (le_bytes 8) ks) @ concat ds))"
      by (rule sub_bytes_part [OF data [unfolded concat_append]]) (use len that in simp)
    also have "\<dots> = take 32 (drop (32 * j) (concat ds @ []))" by (simp add: len(1))
    also have "\<dots> = ds ! j" by (rule nth_chunk [OF that ds])
    finally show ?thesis .
  qed
  have "\<exists>off. ks ! i = 0x10000000 + of_nat off \<and> call_address B (args ! i) = Ok (sub_bytes off (off + 32) code)" if "at ! i = CHR ''a''"
  proof -
    from spec assms(5) that obtain j where j: "j < length ds" "call_address B (args ! i) = Ok (ds ! j)"
      "ks ! i = u64_of_int (CallDataBase + 8 * int (length at) + 32 * int j)" by (auto simp: arg_given_def)
    have "ks ! i = 0x10000000 + of_nat (32 + (8 * length at + 32 * j))"
      unfolding j(3) by (simp add: CallDataBase_def u64_of_int_def)
    with j addr [OF j(1)] show ?thesis by metis
  qed
  moreover have "at ! i = CHR ''i'' \<longrightarrow> (\<exists>v. Atoi (string_bytes (args ! i)) = Inr v \<and> ks ! i = u64_of_int v)"
    using spec assms(5) by (auto simp: arg_given_def)
  ultimately show ?thesis unfolding word by blast
qed

lemma string_bytes_string: "string_bytes (bytes_string bs) = bs"
proof (induction bs)
  case (Cons b bs)
  have "of_char (char_of (unat b)) = b"
    using unsigned_less [of b, where ?'a = nat] by (simp add: of_char_char_of)
  then show ?case using Cons by (simp add: string_bytes_def bytes_string_def)
qed (simp add: string_bytes_def bytes_string_def)

lemma plain_address:
  "ParseAddr plain_base58 (string_bytes (bytes_string (EncodeAddr plain_base58 (replicate 32 7)))) = Ok (replicate 32 7)"
  unfolding string_bytes_string by (rule ParseAddr_EncodeAddr_run) (simp_all add: plain_base58_def len_defs)

theorem call_arguments_layout_witness:
  "\<exists>worker code. genWorker plain_base58 True ''transfer'' ''iai'' 0
       [bytes_string (EncodeAddr plain_base58 (replicate 32 7)), ''5''] = Ok worker \<and>
     BuiltinAsmToBytes rev (join_lines (call_lines worker zero32)) = Ok code \<and> le_word (sub_bytes 40 48 code) = (5 :: u64) \<and>
     (\<exists>off. le_word (sub_bytes 32 40 code) = (0x10000000 + of_nat off :: u64) \<and> sub_bytes off (off + 32) code = replicate 32 7)"
proof -
  let ?x = "bytes_string (EncodeAddr plain_base58 (replicate 32 7))" and ?at = "''ai''"
  have addr: "call_address plain_base58 ?x = Ok (replicate 32 7)" by (simp add: call_address_def plain_address)
  have five: "Atoi (string_bytes ''5'') = Inr 5" by (simp add: Atoi_def string_bytes_def)
  have "\<exists>worker. genWorker plain_base58 True ''transfer'' (CHR ''i'' # ?at) 0 [?x, ''5''] = Ok worker"
    using five by (simp add: genWorker_def call_data_def arg_at_def addr Let_def)
  then obtain worker where w: "genWorker plain_base58 True ''transfer'' (CHR ''i'' # ?at) 0 [?x, ''5''] = Ok worker" ..
  have perm: "mset (rev l) = mset l" for l :: "(nat \<times> laterInsn) list" by simp
  from call_assembles [OF perm w] obtain code where c: "BuiltinAsmToBytes rev (join_lines (call_lines worker zero32)) = Ok code" by auto
  note layout = call_arguments_layout [OF perm w _ c]
  have "le_word (sub_bytes 40 48 code) = (5 :: u64)" using layout [of 1] five by (simp add: u64_of_int_def)
  moreover have "\<exists>off. le_word (sub_bytes 32 40 code) = (0x10000000 + of_nat off :: u64) \<and> sub_bytes off (off + 32) code = replicate 32 7"
    using layout [of 0] addr by (simp add: eq_commute)
  ultimately show ?thesis using w c by blast
qed

section \<open>A transfer\<close>

text \<open>
  The transaction of a transfer decodes from its bytes, and it passes every check of \<^verbatim>\<open>ExecuteTx\<close> for the account
  whose nonce it has, except that the balance has to cover the amount; this needs that the keys of the wallet
  belong together.
\<close>

lemma wallet_tx_accepted:
  assumes "\<And>m. ed25519_verify C (w_pubkey w) m (ed25519_sign C (w_privkey w) m)"
    and "\<And>m. length (ed25519_sign C (w_privkey w) m) = SigLen" and "length (w_pubkey w) = PubkeyLen"
    and "length a = AddressLen" and "length msg \<le> 2 ^ 20"
    and "tx = wallet_tx C w (AccountNonce ai) 1 a amount msg (40000 + of_nat (length msg))"
  shows "fst (DecodeTx (EncodeTx tx)) = Ok tx"
    and "tx_check C ctx tx ai = (if Balance ai < amount then Some ErrBalanceNotEnough else None)"
proof -
  have sig: "blit (replicate SigLen 0) 0 (ed25519_sign C (w_privkey w) m) = ed25519_sign C (w_privkey w) m" for m
    using assms(2) [of m] by (simp add: blit_def)
  have "canon_tx tx" using assms(2-6) by (simp add: canon_tx_def wf_tx_def wallet_tx_def Tx_Sign_def sig)
  then show "fst (DecodeTx (EncodeTx tx)) = Ok tx" using DecodeTx_EncodeTx_append [of tx "[]"] by simp
  have "ed25519_verify C (SenderPubkey tx) (prepareSignData tx) (SenderSig tx)"
    using assms(1) unfolding assms(6) wallet_tx_def Tx_Sign_def by (simp add: sig prepareSignData_def Let_def)
  then show "tx_check C ctx tx ai = (if Balance ai < amount then Some ErrBalanceNotEnough else None)"
    unfolding tx_check_def assms(6) by (simp add: wallet_tx_def Tx_Sign_def GasTransfer_def)
qed

text \<open>
  What a transfer relies on in a node, for the format \<open>B\<close> of addresses: it reports the account of an address, and takes
  a transaction that decodes. \<open>ready\<close> is what the node has to keep for this.
\<close>

locale payment_service =
  fixes post :: "request \<Rightarrow> ('s, response) go" and ready :: "'s \<Rightarrow> bool" and account_of :: "'s \<Rightarrow> AddressType \<Rightarrow> AccountInfo"
    and enter :: "Transaction \<Rightarrow> 's \<Rightarrow> 's" and B :: base58
  assumes account_reply: "ready s \<Longrightarrow> ParseAddr B x = Ok a \<Longrightarrow> post (ReqAccountInfo [] x) s = (Ok (AccountReply (account_of s a)), s)"
    and submit_reply: "ready s \<Longrightarrow> fst (DecodeTx body) = Ok tx \<Longrightarrow> post (ReqSubmitTx body) s = (Ok Submitted, enter tx s)"
begin

lemma transfer_run:
  assumes "ready s" and "ParseAddr B (w_eaddr w) = Ok own" and "env_base58 E = B"
    and "ParseAddr B (string_bytes to) = Ok a" and "parse_coins (env_floats E) amt = Some v"
    and "msg = string_bytes (join_words words)"
    and "tx = wallet_tx C w (AccountNonce (account_of s own)) 1 a (u64_of_int v) msg (40000 + of_nat (length msg))"
    and "fst (DecodeTx (EncodeTx tx)) = Ok tx"
  shows "process C post E w (''transfer'' # to # amt # words) (out, s) = (Ok (), (out, enter tx s))"
  using assms(3-7) account_reply [OF assms(1,2)] submit_reply [OF assms(1,8)]
  by (simp add: process_def process_body_def arg_go_def arg_at_def cmd_transfer_def parse_or_panic_def sendTx_def readWallet_def
      GasTransferOffer_def Let_def bindG_def liftR_run on_snd_def ret_run)

lemma transfer_delivered:
  assumes keys: "\<And>m. ed25519_verify C (w_pubkey w) m (ed25519_sign C (w_privkey w) m)"
      "\<And>m. length (ed25519_sign C (w_privkey w) m) = SigLen" "length (w_pubkey w) = PubkeyLen"
    and own: "ParseAddr B (w_eaddr w) = Ok (PubkeyToAddress C (w_pubkey w))" and B: "env_base58 E = B"
    and cmd: "ParseAddr B (string_bytes to) = Ok a" "parse_coins (env_floats E) amt = Some v"
    and len: "length (string_bytes (join_words words)) \<le> 2 ^ 20" and s: "ready s"
    and ai: "ai = account_of s (PubkeyToAddress C (w_pubkey w))" "u64_of_int v \<le> Balance ai"
  shows "\<exists>tx. process C post E w (''transfer'' # to # amt # words) (out, s) = (Ok (), (out, enter tx s)) \<and>
    sender_of C tx = PubkeyToAddress C (w_pubkey w) \<and> Receiver tx = a \<and> Value tx = u64_of_int v \<and>
    Data tx = string_bytes (join_words words) \<and> (\<forall>ctx. tx_check C ctx tx ai = None)"
proof -
  define msg where "msg = string_bytes (join_words words)"
  define tx where "tx = wallet_tx C w (AccountNonce ai) 1 a (u64_of_int v) msg (40000 + of_nat (length msg))"
  have "length a = AddressLen" using length_call_address [of B to a] cmd(1) by (simp add: call_address_def)
  from wallet_tx_accepted [OF keys this len [folded msg_def] tx_def]
  have dec: "fst (DecodeTx (EncodeTx tx)) = Ok tx"
    and ok: "tx_check C ctx tx ai = (if Balance ai < u64_of_int v then Some ErrBalanceNotEnough else None)" for ctx by simp_all
  have "process C post E w (''transfer'' # to # amt # words) (out, s) = (Ok (), (out, enter tx s))"
    by (rule transfer_run [OF s own B cmd msg_def tx_def [unfolded ai(1)] dec])
  moreover have "sender_of C tx = PubkeyToAddress C (w_pubkey w)" "Receiver tx = a" "Value tx = u64_of_int v" "Data tx = msg"
    by (simp_all add: tx_def wallet_tx_def Tx_Sign_def sender_of_def)
  ultimately show ?thesis using ok ai(2) unfolding msg_def by (intro exI [of _ tx]) auto
qed

end

end
