(* ===== verification/Spec2Isabelle.thy ===== *)
theory Spec2Isabelle
  imports Network Tools Wallet_Calls
begin

text \<open>
  A verification development of the tcoin node: a proof-of-work chain with accounts and RISC-V contracts, written in
  Go. All file names are relative to the sources of the repository.

  \<^bold>\<open>The program.\<close> A chain node (\<^verbatim>\<open>core/core.go\<close>) receives blocks and transactions from other nodes through a network
  client (\<^verbatim>\<open>network/\<close>) and from miners and wallets through an HTTP interface (\<^verbatim>\<open>utils/corerpc\<close>). A block whose
  parent is known is checked by the consensus (\<^verbatim>\<open>core/consensus\<close>) and executed (\<^verbatim>\<open>core/block\<close>) on a fork of the
  parent's slice, a layered key-value store (\<^verbatim>\<open>storage/slice.go\<close>). The slice is handed to the storage engine
  (\<^verbatim>\<open>storage/storage.go\<close>), which keeps a tree of the newest slices, merges what is old enough into its root, and writes
  root and history to disk. A transaction is a payment or code; code runs on a virtual machine (\<^verbatim>\<open>vm/\<close>) with paged
  memory, gas and system calls (\<^verbatim>\<open>core/block/vm_syscall.go\<close>). Programs under \<^verbatim>\<open>cmd/\<close> mine, send transactions and make
  configurations.

  \<^bold>\<open>Conventions\<close> (\<open>Prelude\<close>). A Go function that can fail is a function from a state to an outcome and a state:
  \<open>Ok\<close> with a value, \<open>Err\<close> with an error value, \<open>Panic\<close>, or \<open>Diverge\<close> where a counter of the model is used up; \<open>bindG\<close>
  is sequential composition. Machine words keep their width; Go's \<^verbatim>\<open>int\<close> is an integer with its wrap-around \<open>i64\<close> where a
  computation can leave 64 bits. Pointers that are shared (slices, the blocks of the miner) are references into a store.
  Hash function and signatures (record \<open>crypto\<close>), base58, the cache package, the enumeration order of Go's maps, sort
  results, time, randomness, floats and the external compiler are arguments; what a theorem needs of them is among
  its hypotheses (for instance \<open>hash32\<close> and \<open>cache_laws\<close>).

  \<^bold>\<open>The theories.\<close>

  \<^item> \<open>Slice\<close> (\<^verbatim>\<open>storage/slice.go\<close>): \<open>Slice\<close>, \<open>Read\<close>, \<open>Write\<close>, \<open>ForkSlice\<close>, \<open>Merge\<close>, \<open>Freeze\<close>, \<open>LoadFile\<close>, \<open>DumpFile\<close>. The
    locales \<open>kv_store\<close> and \<open>forking_store\<close> are the contract that accounts, contracts and engine rely on; work on a
    fork commits exactly its writes.
  \<^item> \<open>Transaction\<close>, \<open>Block\<close>, \<open>Packets\<close>, \<open>Address\<close>: data, codecs, hashes and signed bytes of \<^verbatim>\<open>core/block\<close>, the
    messages of \<^verbatim>\<open>core/network\<close> and \<^verbatim>\<open>network/packet.go\<close>, addresses as text. Codecs are inverse to each other on what they
    accept, hashes commit to a block, the signature commits to a transaction.
  \<^item> \<open>Consensus\<close> (\<^verbatim>\<open>core/consensus/consensus.go\<close>): \<open>CheckAndUpdate\<close> with the retarget; what the thirty
    blocks of a period have to meet and how the next difficulty follows from them, that times and heights increase
    along a chain, and how far a retarget goes.
  \<^item> \<open>Elf\<close>, \<open>Program_Memory\<close>, \<open>Memory\<close>, \<open>Cpu\<close>, \<open>Vm_Exec\<close> (\<^verbatim>\<open>vm/\<close>): the file format, pages and access rights, the memories
    of all loaded programs, the processor and its loop. The locales \<open>word_reader\<close> and \<open>word_writer\<close> carry the bulk
    accesses, \<open>cpu_env\<close> and \<open>step_rel\<close> what an instruction may do to the memory. No word is writable and executable,
    programs are isolated, and a run ends.
  \<^item> \<open>Account\<close>, \<open>Error_Text\<close>, \<open>Vm_Gas\<close>, \<open>Vm_State\<close>, \<open>Vm\<close>, \<open>Vm_Safety\<close> (\<^verbatim>\<open>core/block/account.go\<close>, \<^verbatim>\<open>vm.go\<close>,
    \<^verbatim>\<open>vm_syscall.go\<close>): accounts in a slice (locale \<open>ledger\<close>), all system calls, the creation of contracts and the call
    loop. Calls nest, so that \<open>execVM\<close> takes a callee (locale \<open>vm_callee\<close>) and a counter; a call ends, adds no gas
    and stays inside its slice.
  \<^item> \<open>Explorer\<close>, \<open>Execution\<close> (\<^verbatim>\<open>core/explorer.go\<close>, \<^verbatim>\<open>ExecuteTx\<close>, \<^verbatim>\<open>ExecuteBlock\<close>): the index kept by callbacks (locale
    \<open>account_callback\<close>) and the execution of transactions and blocks: which are accepted, what they change, no
    replay, and the money supply.
  \<^item> \<open>Storage_Engine\<close>, \<open>Storage_Tree\<close>, \<open>Storage_History\<close> (\<^verbatim>\<open>storage/storage.go\<close>): the engine with its files and its
    background loop, the invariant of the tree, and the history that is kept across merging, flushing and restarting.
  \<^item> \<open>Chain\<close>, \<open>Chain_Safety\<close>, \<open>Chain_Run\<close>, \<open>Chain_Blocks\<close>, \<open>Mining\<close>, \<open>Corerpc\<close> (\<^verbatim>\<open>core/core.go\<close>,
    \<^verbatim>\<open>utils/corerpc/corerpc.go\<close>): the handlers, loops, queries and routes of the node and its start. The locale
    \<open>guarded_steps\<close> has the rules by which invariants pass through compositions of operations. The steps of a node are an
    inductive relation; what its caches and its storage hold is invariant; which blocks get into the tree, that a
    block is delivered to another node, and that a block candidate executes.
  \<^item> \<open>Network\<close> (\<^verbatim>\<open>network/peer.go\<close>, \<^verbatim>\<open>network/client.go\<close>): the handshake, the connections and the tables of the client,
    with its goroutines as tasks that run in any order.
  \<^item> \<open>Strconv\<close>, \<open>Assembler\<close>, \<open>Asm_Exec\<close> (\<^verbatim>\<open>vm/utils.go\<close>): the built-in assembler; its result does not depend on the order of
    a Go map, and \<open>li\<close> run by the processor loads its constant.
  \<^item> \<open>Mine\<close>, \<open>Tools\<close>, \<open>Wallet\<close>, \<open>Wallet_Calls\<close> (\<^verbatim>\<open>cmd/miner\<close>, \<^verbatim>\<open>cmd/testnode\<close>, \<^verbatim>\<open>cmd/global_config_gen\<close>,
    \<^verbatim>\<open>cmd/stresstest\<close>, \<^verbatim>\<open>cmd/calctps\<close>, \<^verbatim>\<open>cmd/trimelf\<close>, \<^verbatim>\<open>cmd/wallet\<close>): what a miner submits is accepted, a generated
    configuration starts a node, and the programs that the wallet builds have their arguments where they look for them.
    The locale \<open>payment_service\<close> is what the wallet relies on in a node; this theory interprets it on the model
    of the node's interface.

  \<^bold>\<open>Bounds.\<close> \<open>Exec\<close> counts to one more than a tenth of the gas, because an instruction costs ten; \<open>execVM\<close> to one more than
  the gas; each is proved to be no limit. \<open>ReadString\<close> counts to an eighth of the longest string and three, \<open>DecodeTransactions\<close> to the
  length of its input; both are shown to be enough. The search for the parents of an unresolved header counts to the finalize depth and four more, as the code does. Heights
  of slices do not overflow before \<open>2 ^ 62\<close> slices have been made (\<open>full\<close>). The miner tries ten million values, as the
  code does; the search of the test node and the generator is a partial function, proved to return whenever a value exists.

  \<^bold>\<open>Not modelled.\<close> Goroutines and locks are modelled as turns of loops, tasks and steps that interleave, not as memory
  accesses that race; channels that block, timeouts and stop signals of the chain node are left out. The operating
  system does not fail and writers of files succeed. JSON, the web framework, base64, HTTP and log lines are not modelled,
  nor are the external RISC-V compiler (\<^verbatim>\<open>AsmToBytes\<close>, \<^verbatim>\<open>vm/elf/build.go\<close>), the flags and files of \<^verbatim>\<open>cmd/fullnode\<close>, the
  interface types of \<^verbatim>\<open>utils/io.go\<close>, the unused mutex of \<^verbatim>\<open>utils/debugmutex.go\<close> and the C++ contracts in
  \<^verbatim>\<open>smartcont/\<close>, which are data for this program. These are input and output, or code that is not part of the
  repository.
\<close>

section \<open>From the wallet into the pool of a node\<close>

lemma highest_live: "sound n \<Longrightarrow> live (eheap (se n)) (HighestSlice (se n))"
  using wf_slicesD(1,2) wf_engineD(2) by (fastforce simp: sound_def live_def)

lemma serve_account:
  assumes "sound n" and "ParseAddr B x = Ok a"
  shows "serve K C B now (ReqAccountInfo [] x) n = (Ok (AccountReply (acct (eheap (se n)) (HighestSlice (se n)) a)), n)"
proof -
  have "GetAccountInfo (HighestSlice (se n)) a (eheap (se n)) = (Ok (acct (eheap (se n)) (HighestSlice (se n)) a), eheap (se n))"
    by (rule GetAccountInfo_run [OF highest_live [OF assms(1)]])
  then show ?thesis
    by (simp add: rpc_getAccountInfo_def answer_liftR assms(2) Node_GetAccountInfo_def on_slices_def on_se_def on_eheap_def bindG_Ok ret_run)
qed

definition pooled :: "'c cache_pkg \<Rightarrow> crypto \<Rightarrow> Transaction \<Rightarrow> 'c ChainNode \<Rightarrow> 'c ChainNode" where
  "pooled K C tx n =
     n\<lparr>txPool := snd (cache_Add K (Tx_Hash C tx) (ItTx tx) (txPool n)),
       txChan := txChan n @ (if fst (cache_Add K (Tx_Hash C tx) (ItTx tx) (txPool n)) then [Some tx] else []) @ [None]\<rparr>"

lemma serve_transaction:
  assumes "fst (DecodeTx body) = Ok tx"
  shows "serve K C B now (ReqSubmitTx body) n = (Ok Submitted, pooled K C tx n)"
  by (simp add: rpc_submitTx_def answer_liftR assms SubmitTx_def handleTransactions_def answer_def modifyS_run ret_run pooled_def
      split: prod.splits)

interpretation node_service: payment_service "serve K C B now" sound "\<lambda>n. acct (eheap (se n)) (HighestSlice (se n))" "pooled K C" B
  for K C B now
  by unfold_locales (simp_all only: serve_account serve_transaction)

text \<open>
  C17: A transfer of the wallet through the interface of a node. The node reports the account as of its highest
  block. When the balance covers the amount, the command ends without an error, the transaction is in
  the node's pool under its hash and queued for the neighbours, nothing else of the node has changed, and
  the transaction passes every check of \<^verbatim>\<open>ExecuteTx\<close> on top of the highest block, in every context.
\<close>

theorem wallet_transfer_pooled:
  assumes "\<And>m. ed25519_verify C (w_pubkey w) m (ed25519_sign C (w_privkey w) m)"
    and "\<And>m. length (ed25519_sign C (w_privkey w) m) = SigLen" and "length (w_pubkey w) = PubkeyLen"
    and "ParseAddr (env_base58 E) (w_eaddr w) = Ok (PubkeyToAddress C (w_pubkey w))"
    and "ParseAddr (env_base58 E) (string_bytes to) = Ok a" and "parse_coins (env_floats E) amt = Some v"
    and "length (string_bytes (join_words words)) \<le> 2 ^ 20" and "sound n"
    and "ai = acct (eheap (se n)) (HighestSlice (se n)) (PubkeyToAddress C (w_pubkey w))" and "u64_of_int v \<le> Balance ai"
  shows "\<exists>tx. process C (serve K C (env_base58 E) now) E w (''transfer'' # to # amt # words) (out, n) = (Ok (), (out, pooled K C tx n)) \<and>
    sender_of C tx = PubkeyToAddress C (w_pubkey w) \<and> Receiver tx = a \<and> Value tx = u64_of_int v \<and>
    Data tx = string_bytes (join_words words) \<and> (\<forall>ctx. tx_check C ctx tx ai = None)"
  by (rule node_service.transfer_delivered [OF assms(1-4) refl assms(5-10)])

definition toy_crypto :: crypto where
  "toy_crypto = \<lparr>sha256 = (\<lambda>_. zero32), ed25519_sign = (\<lambda>_ _. replicate 64 9), ed25519_verify = (\<lambda>_ _ s. s = replicate 64 9)\<rparr>"

definition toy_wallet :: wallet where
  "toy_wallet = \<lparr>w_pubkey = zero32, w_privkey = replicate 64 1, w_eaddr = EncodeAddr plain_base58 zero32, w_debug = False\<rparr>"

definition toy_env :: wallet_env where
  "toy_env = \<lparr>env_base58 = plain_base58, env_floats = \<lparr>parse_coins = (\<lambda>_. Some 0), print_coins = (\<lambda>_. [])\<rparr>,
     env_AsmToBytes = (\<lambda>_. Panic), env_ReadFile = (\<lambda>_. None), env_order = (\<lambda>l. l)\<rparr>"

theorem wallet_transfer_pooled_witness:
  "\<exists>tx. process toy_crypto (serve list_cache toy_crypto plain_base58 0) toy_env toy_wallet
       [''transfer'', bytes_string (EncodeAddr plain_base58 (replicate 32 7)), ''0'', ''for'', ''you''] ([], demo_node) =
     (Ok (), ([], pooled list_cache toy_crypto tx demo_node)) \<and> Receiver tx = replicate 32 7 \<and> Data tx = string_bytes ''for you''"
proof -
  let ?to = "bytes_string (EncodeAddr plain_base58 (replicate 32 7))"
  have own: "ParseAddr plain_base58 (EncodeAddr plain_base58 zero32) = Ok zero32"
    by (rule ParseAddr_EncodeAddr_run) (simp_all add: plain_base58_def len_defs)
  have words: "string_bytes (join_words [''for'', ''you'']) = string_bytes ''for you''" by (simp add: join_words_def)
  have len: "length (string_bytes (join_words [''for'', ''you''])) \<le> 2 ^ 20" unfolding words by (simp add: string_bytes_def)
  have base: "env_base58 toy_env = plain_base58" by (simp add: toy_env_def)
  have "\<exists>tx. process toy_crypto (serve list_cache toy_crypto (env_base58 toy_env) 0) toy_env toy_wallet
       (''transfer'' # ?to # ''0'' # [''for'', ''you'']) ([], demo_node) = (Ok (), ([], pooled list_cache toy_crypto tx demo_node)) \<and>
    sender_of toy_crypto tx = PubkeyToAddress toy_crypto (w_pubkey toy_wallet) \<and> Receiver tx = replicate 32 7 \<and> Value tx = u64_of_int 0 \<and>
    Data tx = string_bytes (join_words [''for'', ''you'']) \<and>
    (\<forall>ctx. tx_check toy_crypto ctx tx (acct (eheap (se demo_node)) (HighestSlice (se demo_node)) (PubkeyToAddress toy_crypto (w_pubkey toy_wallet))) = None)"
    by (rule wallet_transfer_pooled [OF _ _ _ _ _ _ len demo_node_sound refl])
      (simp_all add: base plain_address own, simp_all add: toy_crypto_def toy_wallet_def toy_env_def len_defs PubkeyToAddress_def own u64_of_int_def)
  then show ?thesis unfolding base words by auto
qed

end
